(* ===== verification/Recorder_Prelude.thy ===== *)
theory Recorder_Prelude
  imports Main "HOL-Library.Word" "HOL-Library.Sublist"
begin

text \<open>
  Shared vocabulary of the development.

  \<^item> Machine integers: \<open>u8\<close>, \<open>u16\<close>, \<open>u32\<close>, \<open>u64\<close> are words, so that \<open>+\<close> and
    \<open>-\<close> wrap as the C unsigned types do. A \<open>size_t\<close> that only measures a buffer or a string is
    a \<open>nat\<close>.
  \<^item> Pointers: a C pointer that the code compares with \<open>NULL\<close> is an \<open>option\<close>, \<open>None\<close> being
    \<open>NULL\<close>. A C string is a \<open>string\<close> (the characters before the terminator).
  \<^item> The named collections \<open>config_simps\<close> (constants of the build), \<open>io_frame\<close> (what a call may
    change on the card) and \<open>esp_simps\<close> that the component theories extend.
  \<^item> Generic lemmas on lists, suffixes and words.
\<close>

unbundle bit_operations_syntax

named_theorems config_simps "values of the build-time constants"
named_theorems io_frame "which paths a call can change"
named_theorems io_script "how a call consumes the outcome script"

type_synonym u8 = "8 word"
type_synonym u16 = "16 word"
type_synonym u32 = "32 word"
type_synonym u64 = "64 word"
type_synonym byte = u8
type_synonym 'a ptr = "'a option"

section \<open>Text and bytes\<close>

text \<open>Text written to a file and bytes read back as text are converted octet by octet.\<close>

definition bytes_of_string :: "string \<Rightarrow> byte list" where
  "bytes_of_string s = map of_char s"

definition string_of_bytes :: "byte list \<Rightarrow> string" where
  "string_of_bytes bs = map (\<lambda>b. char_of (unat b)) bs"

lemma unat_of_char [simp]: "unat (of_char c :: byte) = of_char c"
proof -
  have "of_char c < (256::nat)" by (rule nat_of_char_less_256)
  moreover have "(of_char c :: byte) = of_nat (of_char c)"
    by (simp add: of_nat_of_char)
  ultimately show ?thesis by (simp add: unat_of_nat)
qed

lemma string_of_bytes_of_string [simp]: "string_of_bytes (bytes_of_string s) = s"
  by (simp add: string_of_bytes_def bytes_of_string_def map_idI)

lemma length_bytes_of_string [simp]: "length (bytes_of_string s) = length s"
  by (simp add: bytes_of_string_def)

lemma length_string_of_bytes [simp]: "length (string_of_bytes s) = length s"
  by (simp add: string_of_bytes_def)

lemma byte_of_char_of: "of_char (char_of (unat b) :: char) = (b :: byte)"
proof -
  have "unat b < 2 ^ LENGTH(8)" by (rule unsigned_less)
  then have l: "unat b < 256" by simp
  have "(of_char (char_of (unat b) :: char) :: byte) = of_nat (of_char (char_of (unat b) :: char))" by (simp only: of_nat_of_char)
  also have "of_char (char_of (unat b) :: char) = unat b mod 256" by (rule of_char_of)
  also have "\<dots> = unat b" using l by (rule mod_less)
  finally show ?thesis by (simp only: of_nat_unat ucast_id)
qed

lemma bytes_of_string_of_bytes [simp]: "bytes_of_string (string_of_bytes bs) = bs"
  unfolding bytes_of_string_def string_of_bytes_def map_map o_def byte_of_char_of by simp

lemma bytes_of_string_append [simp]:
  "bytes_of_string (s @ t) = bytes_of_string s @ bytes_of_string t"
  by (simp add: bytes_of_string_def)

text \<open>The conversions \<open>%u\<close> and \<open>%02x\<close> of \<open>printf\<close>.\<close>

fun dec_of_nat :: "nat \<Rightarrow> string" where
  "dec_of_nat n = (if n < 10 then [char_of (48 + n)] else dec_of_nat (n div 10) @ [char_of (48 + n mod 10)])"

declare dec_of_nat.simps [simp del]

section \<open>Suffixes of paths\<close>

text \<open>
  The idiom \<open>len >= strlen(suffix) && strcmp(path + len - strlen(suffix), suffix) == 0\<close> that the
  sources repeat.
\<close>

definition ends_with :: "string \<Rightarrow> string \<Rightarrow> bool" where
  "ends_with suf s = (length suf \<le> length s \<and> drop (length s - length suf) s = suf)"

lemma ends_with_append [simp]: "ends_with suf (s @ suf)"
  by (simp add: ends_with_def)

lemma ends_withE:
  assumes "ends_with suf s"
  obtains pre where "s = pre @ suf"
proof
  from assms have "take (length s - length suf) s @ suf = s"
    by (metis append_take_drop_id ends_with_def)
  then show "s = take (length s - length suf) s @ suf" by simp
qed

lemma ends_with_iff: "ends_with suf s \<longleftrightarrow> (\<exists>pre. s = pre @ suf)"
  using ends_withE ends_with_append by blast

section \<open>Overwriting part of a buffer\<close>

text \<open>
  \<open>write_at pos data c\<close> is \<open>c\<close> after \<open>data\<close> was stored at offset \<open>pos\<close>; a gap before \<open>pos\<close> reads
  as zero, as it does for a file extended by a seek.
\<close>

definition write_at :: "nat \<Rightarrow> byte list \<Rightarrow> byte list \<Rightarrow> byte list" where
  "write_at pos data c =
     take pos (c @ replicate (pos - length c) 0) @ data @ drop (pos + length data) c"

lemma length_write_at [simp]:
  "length (write_at pos data c) = max (pos + length data) (length c)"
  by (simp add: write_at_def)

lemma write_at_end [simp]: "pos = length c \<Longrightarrow> write_at pos data c = c @ data"
  by (simp add: write_at_def)

lemma write_at_0: "write_at 0 data c = data @ drop (length data) c"
  by (simp add: write_at_def)

lemma write_at_inside:
  "pos \<le> length c \<Longrightarrow> write_at pos data c = take pos c @ data @ drop (pos + length data) c"
  by (simp add: write_at_def)

lemma drop_write_at_below:
  "pos + length data \<le> n \<Longrightarrow> pos \<le> length c \<Longrightarrow> drop n (write_at pos data c) = drop n c"
  by (simp add: write_at_inside)

lemma write_at_nil [simp]: "pos \<le> length c \<Longrightarrow> write_at pos [] c = c"
  by (simp add: write_at_def)

section \<open>Words\<close>

lemma mask8: "(0xFF :: 'a::len word) = mask 8"
  by (simp add: mask_eq_exp_minus_1)

lemma unat_plus_simple_bound:
  fixes a b :: "'a::len word"
  assumes "unat a + unat b < 2 ^ LENGTH('a)"
  shows "unat (a + b) = unat a + unat b"
  using assms by (simp add: unat_word_ariths)

lemma unat_of_nat_small:
  assumes "n < 2 ^ LENGTH('a::len)"
  shows "unat (of_nat n :: 'a word) = n"
  using assms by (simp add: unat_of_nat take_bit_nat_eq_self)

end
