(* ===== verification/Recorder_Config.thy ===== *)
theory Recorder_Config
  imports Recorder_Prelude
begin

text \<open>
  The build-time contract of \<open>firmware/components/recorder/include/recorder_config.h\<close>: audio
  format, buffer, WAV framing, rotation and metadata constants. All are natural numbers or strings;
  a use at a machine width converts them. Their values are in \<open>config_simps\<close>.
\<close>

definition RECORDER_SAMPLE_RATE_HZ :: nat where [config_simps]: "RECORDER_SAMPLE_RATE_HZ = 16000"
definition RECORDER_CHANNELS :: nat where [config_simps]: "RECORDER_CHANNELS = 1"
definition RECORDER_BITS_PER_SAMPLE :: nat where [config_simps]: "RECORDER_BITS_PER_SAMPLE = 16"
definition RECORDER_BYTES_PER_SAMPLE :: nat where [config_simps]: "RECORDER_BYTES_PER_SAMPLE = 2"

definition RECORDER_BYTE_RATE :: nat where [config_simps]:
  "RECORDER_BYTE_RATE = RECORDER_SAMPLE_RATE_HZ * RECORDER_CHANNELS * RECORDER_BYTES_PER_SAMPLE"

definition RECORDER_BLOCK_ALIGN :: nat where [config_simps]:
  "RECORDER_BLOCK_ALIGN = RECORDER_CHANNELS * RECORDER_BYTES_PER_SAMPLE"

definition RECORDER_BUFFER_BYTES :: nat where [config_simps]: "RECORDER_BUFFER_BYTES = 32768"

definition RECORDER_WAV_HEADER_SIZE :: nat where [config_simps]: "RECORDER_WAV_HEADER_SIZE = 44"
definition RECORDER_PART_SUFFIX :: string where [config_simps]: "RECORDER_PART_SUFFIX = ''.wav.part''"
definition RECORDER_WAV_SUFFIX :: string where [config_simps]: "RECORDER_WAV_SUFFIX = ''.wav''"

definition RECORDER_ROTATION_INTERVAL_SEC :: nat where [config_simps]:
  "RECORDER_ROTATION_INTERVAL_SEC = 1800"

definition RECORDER_ROTATION_PAYLOAD_BYTES :: nat where [config_simps]:
  "RECORDER_ROTATION_PAYLOAD_BYTES = RECORDER_BYTE_RATE * RECORDER_ROTATION_INTERVAL_SEC"

definition RECORDER_MAX_PATH_LEN :: nat where [config_simps]: "RECORDER_MAX_PATH_LEN = 256"

definition RECORDER_RECORDINGS_DIR :: string where [config_simps]:
  "RECORDER_RECORDINGS_DIR = ''/sdcard/M5DAYLOG/recordings''"

definition RECORDER_METADATA_SCHEMA_VERSION :: nat where [config_simps]:
  "RECORDER_METADATA_SCHEMA_VERSION = 1"
definition RECORDER_MODEL :: string where [config_simps]: "RECORDER_MODEL = ''M5Capsule v1.1''"
definition RECORDER_FIRMWARE_VERSION :: string where [config_simps]:
  "RECORDER_FIRMWARE_VERSION = ''0.1.0''"

definition RECORDER_UUID_STR_LEN :: nat where [config_simps]: "RECORDER_UUID_STR_LEN = 37"
definition RECORDER_SHA256_HEX_LEN :: nat where [config_simps]: "RECORDER_SHA256_HEX_LEN = 65"
definition RECORDER_ISO8601_STR_LEN :: nat where [config_simps]: "RECORDER_ISO8601_STR_LEN = 32"
definition RECORDER_MANIFEST_ENTRY_MAX :: nat where [config_simps]: "RECORDER_MANIFEST_ENTRY_MAX = 1024"
definition RECORDER_MANIFEST_MAX_BYTES :: nat where [config_simps]: "RECORDER_MANIFEST_MAX_BYTES = 131072"

end
