(* ===== verification/Pcm_Pipeline.thy ===== *)
theory Pcm_Pipeline
  imports Recorder_Config
begin

text \<open>
  The ping-pong double buffer of \<open>firmware/components/recorder/pcm_pipeline.c\<close> and its counters.

  A C array of two slots is a function on the index. \<open>pcm_pipeline_produce\<close> contains a loop whose
  termination depends on the state, so it is a \<open>partial_function\<close>: \<open>None\<close> is a call that does not
  return, and \<open>produce_loop_inv\<close> shows that under the invariant it always returns.

  The abstraction \<open>pending\<close> is the audio held by the two slots, oldest byte first. The locale
  \<open>chunk_fifo\<close> states what the writer task relies on: a bounded first-in first-out byte queue drained
  in chunks.
\<close>

section \<open>Model\<close>

record recorder_counters_t =
  samples_captured :: u32
  chunks_written :: u32
  buffer_overflow :: u32
  buffer_drop_bytes :: u32
  buffer_drop_samples :: u32
  dma_overrun_events :: u32
  dma_drop_bytes :: u32
  dma_drop_samples :: u32
  dma_read_stalls :: u32
  sd_write_errors :: u32
  max_sd_latency_us :: u32

record pcm_pipeline_t =
  slot :: "nat \<Rightarrow> byte list ptr"
  fill :: "nat \<Rightarrow> nat"
  full :: "nat \<Rightarrow> bool"
  read_index :: nat
  write_index :: nat
  counters :: recorder_counters_t

definition zero_counters :: recorder_counters_t where
  "zero_counters = \<lparr>samples_captured = 0, chunks_written = 0, buffer_overflow = 0,
     buffer_drop_bytes = 0, buffer_drop_samples = 0, dma_overrun_events = 0, dma_drop_bytes = 0,
     dma_drop_samples = 0, dma_read_stalls = 0, sd_write_errors = 0, max_sd_latency_us = 0\<rparr>"

fun pcm_pipeline_init ::
    "pcm_pipeline_t ptr \<Rightarrow> byte list ptr \<Rightarrow> byte list ptr \<Rightarrow> pcm_pipeline_t ptr" where
  "pcm_pipeline_init None backing0 backing1 = None"
| "pcm_pipeline_init (Some p) backing0 backing1 =
     Some \<lparr>slot = (slot p)(0 := backing0, 1 := backing1), fill = (fill p)(0 := 0, 1 := 0),
       full = (full p)(0 := False, 1 := False), read_index = 0, write_index = 0,
       counters = zero_counters\<rparr>"

text \<open>One round of the copy loop: choose the slot, copy what fits, flip to the other when full.\<close>

definition produce_step ::
    "pcm_pipeline_t \<Rightarrow> byte list \<Rightarrow> nat \<Rightarrow> nat \<Rightarrow> pcm_pipeline_t \<times> nat" where
  "produce_step p data usable offset =
     (let p1 = (if full p (write_index p) then p\<lparr>write_index := 1 - write_index p\<rparr> else p);
          w = write_index p1;
          room = RECORDER_BUFFER_BYTES - fill p1 w;
          rest = usable - offset;
          n = (if rest < room then rest else room);
          p2 = p1\<lparr>slot := (slot p1)(w :=
                      map_option (write_at (fill p1 w) (take n (drop offset data))) (slot p1 w)),
                  fill := (fill p1)(w := fill p1 w + n),
                  counters := (counters p1)\<lparr>samples_captured :=
                      samples_captured (counters p1) + of_nat (n div RECORDER_BYTES_PER_SAMPLE)\<rparr>\<rparr>;
          p3 = (if fill p2 w = RECORDER_BUFFER_BYTES
                then p2\<lparr>full := (full p2)(w := True), write_index := 1 - w\<rparr> else p2)
      in (p3, offset + n))"

text \<open>Both slots are full: the remainder is dropped and counted as software loss.\<close>

definition count_drop :: "pcm_pipeline_t \<Rightarrow> nat \<Rightarrow> pcm_pipeline_t" where
  "count_drop p rest =
     p\<lparr>counters := (counters p)\<lparr>
         buffer_overflow := buffer_overflow (counters p) + 1,
         buffer_drop_bytes := buffer_drop_bytes (counters p) + of_nat rest,
         buffer_drop_samples :=
           buffer_drop_samples (counters p) + of_nat (rest div RECORDER_BYTES_PER_SAMPLE)\<rparr>\<rparr>"

partial_function (option) produce_loop ::
    "pcm_pipeline_t \<Rightarrow> byte list \<Rightarrow> nat \<Rightarrow> nat \<Rightarrow> (pcm_pipeline_t \<times> nat) option" where
  "produce_loop p data usable offset =
     (if offset < usable then
        if full p 0 \<and> full p 1 then Some (count_drop p (usable - offset), offset)
        else produce_loop (fst (produce_step p data usable offset)) data usable
               (snd (produce_step p data usable offset))
      else Some (p, offset))"

fun pcm_pipeline_produce ::
    "pcm_pipeline_t ptr \<Rightarrow> byte list ptr \<Rightarrow> (pcm_pipeline_t ptr \<times> nat) option" where
  "pcm_pipeline_produce None data = Some (None, 0)"
| "pcm_pipeline_produce (Some p) None = Some (Some p, 0)"
| "pcm_pipeline_produce (Some p) (Some data) =
     (let len = length data in
      if len = 0 then Some (Some p, 0)
      else if slot p 0 = None \<or> slot p 1 = None then Some (Some p, len)
      else
        let usable = len - len mod RECORDER_BYTES_PER_SAMPLE in
        case produce_loop p data usable 0 of
          None \<Rightarrow> None
        | Some (p', offset) \<Rightarrow> Some (Some p', len - offset))"

fun pcm_pipeline_has_full :: "pcm_pipeline_t ptr \<Rightarrow> bool" where
  "pcm_pipeline_has_full None = False"
| "pcm_pipeline_has_full (Some p) = (full p 0 \<or> full p 1)"

text \<open>The slot that \<open>peek\<close> and \<open>release\<close> select: \<open>read_index\<close> if full, else the other one.\<close>

definition full_index :: "pcm_pipeline_t \<Rightarrow> nat option" where
  "full_index p =
     (let index = read_index p in
      if full p index then Some index
      else let index' = 1 - index in if full p index' then Some index' else None)"

fun pcm_pipeline_peek_full :: "pcm_pipeline_t ptr \<Rightarrow> byte list ptr \<times> nat option" where
  "pcm_pipeline_peek_full None = (None, None)"
| "pcm_pipeline_peek_full (Some p) =
     (case full_index p of
        None \<Rightarrow> (None, None)
      | Some index \<Rightarrow> (slot p index, Some RECORDER_BUFFER_BYTES))"

fun pcm_pipeline_release_full :: "pcm_pipeline_t ptr \<Rightarrow> pcm_pipeline_t ptr" where
  "pcm_pipeline_release_full None = None"
| "pcm_pipeline_release_full (Some p) =
     (case full_index p of
        None \<Rightarrow> Some p
      | Some index \<Rightarrow>
          Some (p\<lparr>full := (full p)(index := False), fill := (fill p)(index := 0),
                  read_index := 1 - index,
                  counters := (counters p)\<lparr>chunks_written := chunks_written (counters p) + 1\<rparr>\<rparr>))"

fun pcm_pipeline_note_sd_write :: "pcm_pipeline_t ptr \<Rightarrow> u32 \<Rightarrow> pcm_pipeline_t ptr" where
  "pcm_pipeline_note_sd_write None latency_us = None"
| "pcm_pipeline_note_sd_write (Some p) latency_us =
     Some (if latency_us > max_sd_latency_us (counters p)
           then p\<lparr>counters := (counters p)\<lparr>max_sd_latency_us := latency_us\<rparr>\<rparr> else p)"

fun pcm_pipeline_note_driver_overflow ::
    "pcm_pipeline_t ptr \<Rightarrow> u32 \<Rightarrow> u32 \<Rightarrow> pcm_pipeline_t ptr" where
  "pcm_pipeline_note_driver_overflow None events drop_bytes = None"
| "pcm_pipeline_note_driver_overflow (Some p) events drop_bytes =
     Some (if events = 0 \<and> drop_bytes = 0 then p
           else p\<lparr>counters := (counters p)\<lparr>
               dma_overrun_events := dma_overrun_events (counters p) + events,
               dma_drop_bytes := dma_drop_bytes (counters p) + drop_bytes,
               dma_drop_samples := dma_drop_samples (counters p) +
                 drop_bytes div of_nat RECORDER_BYTES_PER_SAMPLE\<rparr>\<rparr>)"

fun pcm_pipeline_note_read_stall :: "pcm_pipeline_t ptr \<Rightarrow> pcm_pipeline_t ptr" where
  "pcm_pipeline_note_read_stall None = None"
| "pcm_pipeline_note_read_stall (Some p) =
     Some (p\<lparr>counters := (counters p)\<lparr>dma_read_stalls := dma_read_stalls (counters p) + 1\<rparr>\<rparr>)"

fun pcm_pipeline_note_sd_error :: "pcm_pipeline_t ptr \<Rightarrow> pcm_pipeline_t ptr" where
  "pcm_pipeline_note_sd_error None = None"
| "pcm_pipeline_note_sd_error (Some p) =
     Some (p\<lparr>counters := (counters p)\<lparr>sd_write_errors := sd_write_errors (counters p) + 1\<rparr>\<rparr>)"

fun pcm_pipeline_counters :: "pcm_pipeline_t ptr \<Rightarrow> recorder_counters_t ptr" where
  "pcm_pipeline_counters None = None"
| "pcm_pipeline_counters (Some p) = Some (counters p)"

section \<open>Invariant and abstraction\<close>

definition slot_data :: "pcm_pipeline_t \<Rightarrow> nat \<Rightarrow> byte list" where
  "slot_data p i = take (fill p i) (case slot p i of None \<Rightarrow> [] | Some b \<Rightarrow> b)"

definition pending :: "pcm_pipeline_t \<Rightarrow> byte list" where
  "pending p = slot_data p (read_index p) @ slot_data p (1 - read_index p)"

definition slot_ok :: "pcm_pipeline_t \<Rightarrow> nat \<Rightarrow> bool" where
  "slot_ok p i \<longleftrightarrow>
     (\<exists>b. slot p i = Some b \<and> length b = RECORDER_BUFFER_BYTES) \<and>
     fill p i \<le> RECORDER_BUFFER_BYTES \<and> even (fill p i) \<and>
     (full p i \<longleftrightarrow> fill p i = RECORDER_BUFFER_BYTES)"

text \<open>
  \<open>read_index\<close> is the older slot. The producer fills it while it is not full (the other slot is then
  empty), otherwise it fills the other one; with both full it will come back to the older one.
\<close>

definition pcm_inv :: "pcm_pipeline_t \<Rightarrow> bool" where
  "pcm_inv p \<longleftrightarrow>
     slot_ok p 0 \<and> slot_ok p 1 \<and> read_index p \<le> 1 \<and> write_index p \<le> 1 \<and>
     (if full p (read_index p)
      then write_index p = (if full p (1 - read_index p) then read_index p else 1 - read_index p)
      else write_index p = read_index p \<and> fill p (1 - read_index p) = 0)"


section \<open>Lemmas\<close>

lemma le_one_cases: "(i::nat) \<le> 1 \<Longrightarrow> (i = 0 \<Longrightarrow> P) \<Longrightarrow> (i = 1 \<Longrightarrow> P) \<Longrightarrow> P"
  by linarith

lemma buffer_bytes_even [simp]: "even RECORDER_BUFFER_BYTES"
  and buffer_bytes_pos [simp]: "0 < RECORDER_BUFFER_BYTES"
  and buffer_bytes_not_zero [simp]: "RECORDER_BUFFER_BYTES \<noteq> 0" "0 \<noteq> RECORDER_BUFFER_BYTES"
  by (simp_all add: config_simps)

lemma slot_ok_data:
  assumes "slot_ok p i"
  shows "length (slot_data p i) = fill p i"
  using assms by (auto simp: slot_ok_def slot_data_def)

lemma pcm_inv_slot_ok: "pcm_inv p \<Longrightarrow> i \<le> 1 \<Longrightarrow> slot_ok p i"
  by (elim le_one_cases) (auto simp: pcm_inv_def)

lemma length_pending:
  assumes "pcm_inv p"
  shows "length (pending p) = fill p 0 + fill p 1"
proof -
  have ok: "slot_ok p 0" "slot_ok p 1" and r: "read_index p \<le> 1"
    using assms by (auto simp: pcm_inv_def)
  from r show ?thesis
    by (rule le_one_cases)
      (simp_all add: pending_def slot_ok_data[OF ok(1)] slot_ok_data[OF ok(2), simplified])
qed

lemma pending_full:
  assumes "pcm_inv p"
  shows "full p 0 \<and> full p 1 \<longleftrightarrow> length (pending p) = 2 * RECORDER_BUFFER_BYTES"
proof -
  have "fill p 0 \<le> RECORDER_BUFFER_BYTES" "fill p 1 \<le> RECORDER_BUFFER_BYTES"
    using assms by (auto simp: pcm_inv_def slot_ok_def)
  with assms show ?thesis
    by (auto simp: length_pending) (auto simp: pcm_inv_def slot_ok_def)
qed

text \<open>
  Where the producer writes: a slot with room, which is the younger of the two, so that appending
  there appends to \<open>pending\<close>.
\<close>

lemma write_slot:
  assumes inv: "pcm_inv p" and room: "\<not> (full p 0 \<and> full p 1)"
  defines "w \<equiv> write_index p"
  shows "w \<le> 1" "\<not> full p w" "fill p w < RECORDER_BUFFER_BYTES" "slot_ok p w"
    "(w = read_index p \<and> fill p (1 - w) = 0) \<or> (w = 1 - read_index p \<and> full p (read_index p))"
proof -
  show w: "w \<le> 1" using inv by (simp add: w_def pcm_inv_def)
  have r: "read_index p \<le> 1" using inv by (simp add: pcm_inv_def)
  have "\<not> full p (read_index p) \<or> \<not> full p (1 - read_index p)"
    by (rule le_one_cases[OF r]) (use room in auto)
  then show nf: "\<not> full p w"
    and "(w = read_index p \<and> fill p (1 - w) = 0) \<or> (w = 1 - read_index p \<and> full p (read_index p))"
    using inv by (auto simp: w_def pcm_inv_def split: if_splits)
  show ok: "slot_ok p w" using inv w by (rule pcm_inv_slot_ok)
  with nf show "fill p w < RECORDER_BUFFER_BYTES" by (auto simp: slot_ok_def)
qed

lemma slot_data_append:
  assumes "slot p w = Some b" "length b = RECORDER_BUFFER_BYTES"
    and "fill p w + length xs \<le> RECORDER_BUFFER_BYTES"
  shows "take (fill p w + length xs) (write_at (fill p w) xs b) = slot_data p w @ xs"
  using assms by (simp add: slot_data_def write_at_inside)

lemma pcm_inv_counters [simp]: "pcm_inv (p\<lparr>counters := c\<rparr>) = pcm_inv p"
  by (simp add: pcm_inv_def slot_ok_def)

lemma pending_counters [simp]: "pending (p\<lparr>counters := c\<rparr>) = pending p"
  by (simp add: pending_def slot_data_def)

text \<open>One round of the copy loop.\<close>

lemma produce_step_inv:
  assumes inv: "pcm_inv p" and room: "\<not> (full p 0 \<and> full p 1)"
    and off: "offset < usable" "usable \<le> length data" "even offset" "even usable"
    and step: "produce_step p data usable offset = (p', off')"
  defines "n \<equiv> min (usable - offset) (RECORDER_BUFFER_BYTES - fill p (write_index p))"
  shows "pcm_inv p'" "off' = offset + n" "0 < n" "even n"
    "pending p' = pending p @ take n (drop offset data)"
    "counters p' = (counters p)\<lparr>samples_captured :=
       samples_captured (counters p) + of_nat (n div RECORDER_BYTES_PER_SAMPLE)\<rparr>"
proof -
  let ?w = "write_index p"
  note ws = write_slot[OF inv room]
  obtain b where b: "slot p ?w = Some b" "length b = RECORDER_BUFFER_BYTES"
    using ws(4) by (auto simp: slot_ok_def)
  have ev: "even (fill p ?w)" using ws(4) by (simp add: slot_ok_def)
  have n_min: "(if usable - offset < RECORDER_BUFFER_BYTES - fill p ?w then usable - offset
      else RECORDER_BUFFER_BYTES - fill p ?w) = n"
    by (simp add: n_def)
  define xs where "xs = take n (drop offset data)"
  have len_xs: "length xs = n" using off by (simp add: xs_def n_def)
  have fits: "fill p ?w + n \<le> RECORDER_BUFFER_BYTES" using ws(3) by (simp add: n_def)
  show n0: "0 < n" using off ws(3) by (simp add: n_def)
  have "even (usable - offset)" "even (RECORDER_BUFFER_BYTES - fill p ?w)"
    using off ev by (simp_all add: config_simps)
  then show n_even: "even n" by (auto simp: n_def min_def)
  define p2 where "p2 = p\<lparr>slot := (slot p)(?w := Some (write_at (fill p ?w) xs b)),
      fill := (fill p)(?w := fill p ?w + n),
      counters := (counters p)\<lparr>samples_captured :=
        samples_captured (counters p) + of_nat (n div RECORDER_BYTES_PER_SAMPLE)\<rparr>\<rparr>"
  have p': "p' = (if fill p ?w + n = RECORDER_BUFFER_BYTES
      then p2\<lparr>full := (full p2)(?w := True), write_index := 1 - ?w\<rparr> else p2)"
    and off': "off' = offset + n"
    using step ws(2) b n_min by (auto simp: produce_step_def Let_def p2_def xs_def)
  show "off' = offset + n" by (rule off')
  show "counters p' = (counters p)\<lparr>samples_captured :=
      samples_captured (counters p) + of_nat (n div RECORDER_BYTES_PER_SAMPLE)\<rparr>"
    by (simp add: p' p2_def)
  have fw: "fill p' ?w = fill p ?w + n" "slot p' ?w = Some (write_at (fill p ?w) xs b)"
    by (simp_all add: p' p2_def)
  have data_w: "slot_data p' ?w = slot_data p ?w @ xs"
    using slot_data_append[OF b, of xs] fits len_xs fw
    by (simp add: slot_data_def[of p'])
  have data_other: "slot_data p' (1 - ?w) = slot_data p (1 - ?w)"
    using ws(1) by (elim le_one_cases) (simp_all add: p' p2_def slot_data_def)
  have ri: "read_index p' = read_index p" by (simp add: p' p2_def)
  have rle: "read_index p \<le> 1" using inv by (simp add: pcm_inv_def)
  show "pending p' = pending p @ take n (drop offset data)"
  proof (cases "?w = read_index p")
    case True
    moreover have "read_index p \<noteq> 1 - read_index p" using rle by arith
    ultimately have "fill p (1 - ?w) = 0" using ws(5) by auto
    then have "slot_data p (1 - ?w) = []" by (simp add: slot_data_def)
    with True data_w data_other show ?thesis
      by (simp add: pending_def ri flip: xs_def)
  next
    case False
    then have "?w = 1 - read_index p" and "1 - ?w = read_index p" using ws(1,5) rle by auto
    then show ?thesis
      using data_w data_other by (simp add: pending_def ri flip: xs_def)
  qed
  have ok_w: "slot_ok p' ?w"
    using b fits n_even ev len_xs ws(2,3) by (auto simp: p' p2_def slot_ok_def)
  have ok_other: "slot_ok p' (1 - ?w)"
    using pcm_inv_slot_ok[OF inv, of "1 - ?w"] ws(1)
    by (elim le_one_cases) (auto simp: p' p2_def slot_ok_def)
  have oks: "slot_ok p' 0 \<and> slot_ok p' 1"
    by (rule le_one_cases[OF ws(1)]) (use ok_w ok_other in auto)
  have full': "full p' = (if fill p ?w + n = RECORDER_BUFFER_BYTES then (full p)(?w := True) else full p)"
    and wi': "write_index p' = (if fill p ?w + n = RECORDER_BUFFER_BYTES then 1 - ?w else ?w)"
    and fill': "fill p' = (fill p)(?w := fill p ?w + n)"
    by (simp_all add: p' p2_def)
  have empty: "fill p (1 - ?w) = 0 \<Longrightarrow> \<not> full p (1 - ?w)"
    using pcm_inv_slot_ok[OF inv, of "1 - ?w"] by (auto simp: slot_ok_def)
  show "pcm_inv p'"
    unfolding pcm_inv_def ri full' wi' fill'
    by (rule le_one_cases[OF ws(1)]; rule le_one_cases[OF rle]) (use oks ws empty in auto)
qed

text \<open>The whole loop: it returns, appends exactly what fits and counts exactly what does not.\<close>

definition accepted_bytes :: "pcm_pipeline_t \<Rightarrow> nat \<Rightarrow> nat" where
  "accepted_bytes p n = min n (2 * RECORDER_BUFFER_BYTES - length (pending p))"

definition counters_after :: "recorder_counters_t \<Rightarrow> nat \<Rightarrow> nat \<Rightarrow> recorder_counters_t" where
  "counters_after c n a =
     (let c' = c\<lparr>samples_captured := samples_captured c + of_nat (a div 2)\<rparr> in
      if n \<le> a then c'
      else c'\<lparr>buffer_overflow := buffer_overflow c + 1,
              buffer_drop_bytes := buffer_drop_bytes c + of_nat (n - a),
              buffer_drop_samples := buffer_drop_samples c + of_nat ((n - a) div 2)\<rparr>)"

lemma counters_after_step:
  assumes "even n" "n \<le> u"
  shows "counters_after (c\<lparr>samples_captured := samples_captured c + of_nat (n div 2)\<rparr>) (u - n) a =
    counters_after c u (n + a)"
proof -
  have "(n + a) div 2 = n div 2 + a div 2" using assms(1) by auto
  moreover have "u - n \<le> a \<longleftrightarrow> u \<le> n + a" by auto
  ultimately show ?thesis using assms(2) by (simp add: counters_after_def Let_def add.assoc)
qed

lemma produce_loop_inv:
  assumes "pcm_inv p" "offset \<le> usable" "usable \<le> length data" "even offset" "even usable"
  shows "\<exists>p' off'. produce_loop p data usable offset = Some (p', off') \<and> pcm_inv p' \<and>
    off' = offset + accepted_bytes p (usable - offset) \<and>
    pending p' = pending p @ take (off' - offset) (drop offset data) \<and>
    counters p' = counters_after (counters p) (usable - offset) (off' - offset)"
  using assms
proof (induction "usable - offset" arbitrary: p offset rule: less_induct)
  case less
  note inv = less.prems(1)
  have cap: "length (pending p) \<le> 2 * RECORDER_BUFFER_BYTES"
    using inv by (auto simp: length_pending) (auto simp: pcm_inv_def slot_ok_def)
  consider (finished) "offset = usable" | (both_full) "offset < usable" "full p 0 \<and> full p 1"
    | (step) "offset < usable" "\<not> (full p 0 \<and> full p 1)"
    using less.prems(2) by linarith
  then show ?case
  proof cases
    case finished
    then show ?thesis
      using inv by (subst produce_loop.simps) (simp add: accepted_bytes_def counters_after_def)
  next
    case both_full
    then have "length (pending p) = 2 * RECORDER_BUFFER_BYTES" using pending_full[OF inv] by simp
    moreover have "pcm_inv (count_drop p (usable - offset))"
      using inv by (simp add: count_drop_def)
    moreover have "pending (count_drop p k) = pending p" for k
      by (simp add: count_drop_def)
    ultimately show ?thesis
      using both_full by (subst produce_loop.simps)
        (simp add: accepted_bytes_def counters_after_def count_drop_def Let_def
          RECORDER_BYTES_PER_SAMPLE_def)
  next
    case step
    obtain p1 off1 where s1: "produce_step p data usable offset = (p1, off1)" by fastforce
    define n where "n = min (usable - offset) (RECORDER_BUFFER_BYTES - fill p (write_index p))"
    note ps = produce_step_inv[OF inv step(2,1) less.prems(3-5) s1, folded n_def]
    have n_le: "n \<le> usable - offset" by (simp add: n_def)
    have "usable - off1 < usable - offset" "off1 \<le> usable" "even off1"
      using ps(2-4) n_le less.prems(4) step(1) by auto
    then obtain p' off' where ih: "produce_loop p1 data usable off1 = Some (p', off')" "pcm_inv p'"
      "off' = off1 + accepted_bytes p1 (usable - off1)"
      "pending p' = pending p1 @ take (off' - off1) (drop off1 data)"
      "counters p' = counters_after (counters p1) (usable - off1) (off' - off1)"
      using less.hyps[of off1 p1] ps(1) less.prems(3,5) by blast
    have loop: "produce_loop p data usable offset = Some (p', off')"
      using step s1 ih(1) by (subst produce_loop.simps) auto
    have len_n: "length (take n (drop offset data)) = n"
      using n_le less.prems(3) step(1) by simp
    have lp1: "length (pending p1) = length (pending p) + n" using ps(5) len_n by simp
    have cap1: "length (pending p1) \<le> 2 * RECORDER_BUFFER_BYTES"
      using ps(1) by (auto simp: length_pending) (auto simp: pcm_inv_def slot_ok_def)
    have off'_eq: "off' = offset + accepted_bytes p (usable - offset)"
      using ih(3) ps(2) lp1 cap1 n_le step(1) by (auto simp: accepted_bytes_def min_def split: if_splits)
    have split: "off' - offset = n + (off' - off1)" using ih(3) ps(2) by simp
    have pend: "pending p' = pending p @ take (off' - offset) (drop offset data)"
      using ih(4) ps(5) ps(2) unfolding split take_add by (simp add: add.commute)
    have "counters p' = counters_after (counters p) (usable - offset) (off' - offset)"
      using ih(5) ps(2,6) split counters_after_step[OF ps(4) n_le, of "counters p" "off' - off1"]
      by (simp add: RECORDER_BYTES_PER_SAMPLE_def)
    with loop ih(2) off'_eq pend show ?thesis by blast
  qed
qed


lemma pcm_pipeline_init_inv:
  assumes "pcm_pipeline_init (Some p) (Some b0) (Some b1) = Some p'"
    and "length b0 = RECORDER_BUFFER_BYTES" "length b1 = RECORDER_BUFFER_BYTES"
  shows "pcm_inv p'" "pending p' = []" "counters p' = zero_counters"
  using assms by (auto simp: pcm_inv_def slot_ok_def pending_def slot_data_def zero_counters_def)

lemma full_index_inv:
  assumes "pcm_inv p"
  shows "full_index p = (if full p (read_index p) then Some (read_index p) else None)"
proof -
  have "fill p (1 - read_index p) = 0 \<Longrightarrow> \<not> full p (1 - read_index p)"
    using pcm_inv_slot_ok[OF assms, of "1 - read_index p"] by (auto simp: slot_ok_def)
  with assms show ?thesis by (auto simp: full_index_def pcm_inv_def Let_def split: if_splits)
qed

lemma read_slot_full:
  assumes inv: "pcm_inv p"
  shows "full p (read_index p) \<longleftrightarrow> RECORDER_BUFFER_BYTES \<le> length (pending p)"
    and "full p (read_index p) \<Longrightarrow>
      slot p (read_index p) = Some (take RECORDER_BUFFER_BYTES (pending p))"
    and "full p (read_index p) \<Longrightarrow>
      slot_data p (1 - read_index p) = drop RECORDER_BUFFER_BYTES (pending p)"
proof -
  let ?r = "read_index p"
  have r: "?r \<le> 1" using inv by (simp add: pcm_inv_def)
  have ok: "slot_ok p ?r" "slot_ok p (1 - ?r)" using r by (auto intro: pcm_inv_slot_ok[OF inv])
  have len: "length (pending p) = fill p ?r + fill p (1 - ?r)"
    by (simp only: pending_def length_append slot_ok_data[OF ok(1)] slot_ok_data[OF ok(2)])
  show "full p ?r \<longleftrightarrow> RECORDER_BUFFER_BYTES \<le> length (pending p)"
    using ok inv unfolding len by (auto simp: slot_ok_def pcm_inv_def split: if_splits)
  assume f: "full p ?r"
  then have sd: "length (slot_data p ?r) = RECORDER_BUFFER_BYTES"
    using ok by (simp add: slot_ok_data) (simp add: slot_ok_def)
  from f ok(1) have "slot p ?r = Some (slot_data p ?r)" by (auto simp: slot_ok_def slot_data_def)
  with sd show "slot p ?r = Some (take RECORDER_BUFFER_BYTES (pending p))"
    by (simp add: pending_def)
  from sd show "slot_data p (1 - ?r) = drop RECORDER_BUFFER_BYTES (pending p)"
    by (simp add: pending_def)
qed

lemma peek_full_inv:
  assumes "pcm_inv p"
  shows "pcm_pipeline_peek_full (Some p) =
    (if RECORDER_BUFFER_BYTES \<le> length (pending p)
     then (Some (take RECORDER_BUFFER_BYTES (pending p)), Some RECORDER_BUFFER_BYTES)
     else (None, None))"
  using read_slot_full[OF assms] by (auto simp: full_index_inv[OF assms])

lemma has_full_inv:
  assumes "pcm_inv p"
  shows "pcm_pipeline_has_full (Some p) \<longleftrightarrow> RECORDER_BUFFER_BYTES \<le> length (pending p)"
proof -
  have r: "read_index p \<le> 1" using assms by (simp add: pcm_inv_def)
  have "full p (read_index p) \<or> full p (1 - read_index p) \<longleftrightarrow> full p (read_index p)"
    using full_index_inv[OF assms] by (auto simp: full_index_def Let_def split: if_splits)
  then have "full p 0 \<or> full p 1 \<longleftrightarrow> full p (read_index p)"
    using r by (cases "read_index p = 0") (auto simp: le_Suc_eq)
  then show ?thesis using read_slot_full(1)[OF assms] by simp
qed

lemma release_full_inv:
  assumes inv: "pcm_inv p" and rel: "pcm_pipeline_release_full (Some p) = Some p'"
  shows "pcm_inv p'"
    and "pending p' = (if RECORDER_BUFFER_BYTES \<le> length (pending p)
                       then drop RECORDER_BUFFER_BYTES (pending p) else pending p)"
    and "counters p' = (if RECORDER_BUFFER_BYTES \<le> length (pending p)
      then (counters p)\<lparr>chunks_written := chunks_written (counters p) + 1\<rparr> else counters p)"
proof -
  let ?r = "read_index p"
  have r: "?r \<le> 1" using inv by (simp add: pcm_inv_def)
  note f = read_slot_full[OF inv] and fi = full_index_inv[OF inv]
  show "counters p' = (if RECORDER_BUFFER_BYTES \<le> length (pending p)
      then (counters p)\<lparr>chunks_written := chunks_written (counters p) + 1\<rparr> else counters p)"
    using rel f(1) fi by (auto split: if_splits)
  show "pending p' = (if RECORDER_BUFFER_BYTES \<le> length (pending p)
                       then drop RECORDER_BUFFER_BYTES (pending p) else pending p)"
  proof (cases "full p ?r")
    case True
    with rel fi have p': "read_index p' = 1 - ?r" "fill p' = (fill p)(?r := 0)" "slot p' = slot p"
      by auto
    have "slot_data p' (1 - (1 - ?r)) = []" "slot_data p' (1 - ?r) = slot_data p (1 - ?r)"
      by (rule le_one_cases[OF r]; simp add: p' slot_data_def)+
    with p' True f show ?thesis by (simp add: pending_def)
  qed (use rel fi f(1) in auto)
  show "pcm_inv p'"
    by (rule le_one_cases[OF r])
      (use rel inv fi in \<open>auto simp: pcm_inv_def slot_ok_def split: if_splits\<close>)
qed

lemma produce_inv:
  fixes data :: "byte list"
  assumes inv: "pcm_inv p"
  defines "usable \<equiv> length data - length data mod RECORDER_BYTES_PER_SAMPLE"
  defines "a \<equiv> accepted_bytes p usable"
  shows "\<exists>p'. pcm_pipeline_produce (Some p) (Some data) = Some (Some p', length data - a) \<and>
    pcm_inv p' \<and> pending p' = pending p @ take a data \<and>
    counters p' = counters_after (counters p) usable a"
proof (cases "data = []")
  case True
  then show ?thesis
    using inv by (simp add: usable_def a_def accepted_bytes_def counters_after_def)
next
  case False
  have slots: "slot p 0 \<noteq> None" "slot p 1 \<noteq> None"
    using inv by (auto simp: pcm_inv_def slot_ok_def)
  have "even usable" "usable \<le> length data" by (auto simp: usable_def config_simps)
  then obtain p' off' where "produce_loop p data usable 0 = Some (p', off')" "pcm_inv p'"
    "off' = a" "pending p' = pending p @ take a data"
    "counters p' = counters_after (counters p) usable a"
    using produce_loop_inv[OF inv, of 0 usable data] by (auto simp: a_def)
  then show ?thesis using False slots by (auto simp: Let_def usable_def)
qed


section \<open>The queue the writer task relies on\<close>

text \<open>
  A bounded byte queue: \<open>put\<close> appends a prefix of its input and reports how much, \<open>front\<close> shows the
  oldest \<open>chunk\<close> bytes when there are that many, \<open>release\<close> drops them.
\<close>

locale chunk_fifo =
  fixes inv :: "'s \<Rightarrow> bool" and held :: "'s \<Rightarrow> byte list" and chunk :: nat
    and put :: "'s \<Rightarrow> byte list \<Rightarrow> 's \<times> nat"
    and front :: "'s \<Rightarrow> byte list option" and release :: "'s \<Rightarrow> 's"
  assumes put_law: "inv s \<Longrightarrow> put s d = (s', n) \<Longrightarrow>
      inv s' \<and> n \<le> length d \<and> held s' = held s @ take n d"
    and front_law: "inv s \<Longrightarrow>
      front s = (if chunk \<le> length (held s) then Some (take chunk (held s)) else None)"
    and release_law: "inv s \<Longrightarrow> inv (release s) \<and>
      held (release s) = (if chunk \<le> length (held s) then drop chunk (held s) else held s)"
begin

text \<open>What the writer peeked at stays at the front while the producer goes on.\<close>

lemma front_stable:
  assumes "inv s" "front s = Some c" "put s d = (s', n)"
  shows "front s' = Some c"
  using put_law[OF assms(1,3)] assms(1,2) by (auto simp: front_law split: if_splits)

lemma release_front:
  assumes "inv s" "front s = Some c"
  shows "c @ held (release s) = held s"
  using assms release_law[OF assms(1)] by (auto simp: front_law split: if_splits)

end

text \<open>The calls of the C interface, on a pipeline that is not \<open>NULL\<close>.\<close>

definition pcm_put :: "pcm_pipeline_t \<Rightarrow> byte list \<Rightarrow> pcm_pipeline_t \<times> nat" where
  "pcm_put p d =
     (case pcm_pipeline_produce (Some p) (Some d) of
        Some (Some p', left_over) \<Rightarrow> (p', length d - left_over) | _ \<Rightarrow> (p, 0))"

definition pcm_front :: "pcm_pipeline_t \<Rightarrow> byte list option" where
  "pcm_front p = fst (pcm_pipeline_peek_full (Some p))"

definition pcm_release :: "pcm_pipeline_t \<Rightarrow> pcm_pipeline_t" where
  "pcm_release p = (case pcm_pipeline_release_full (Some p) of None \<Rightarrow> p | Some p' \<Rightarrow> p')"

lemma accepted_bytes_le: "accepted_bytes p n \<le> n"
  by (simp add: accepted_bytes_def)

interpretation pcm: chunk_fifo pcm_inv pending RECORDER_BUFFER_BYTES pcm_put pcm_front pcm_release
proof
  fix p d p' n
  assume inv: "pcm_inv p" and put: "pcm_put p d = (p', n)"
  let ?a = "accepted_bytes p (length d - length d mod RECORDER_BYTES_PER_SAMPLE)"
  have "?a \<le> length d" using accepted_bytes_le diff_le_self le_trans by blast
  then show "pcm_inv p' \<and> n \<le> length d \<and> pending p' = pending p @ take n d"
    using produce_inv[OF inv, of d] put by (auto simp: pcm_put_def)
next
  fix p assume inv: "pcm_inv p"
  show "pcm_front p = (if RECORDER_BUFFER_BYTES \<le> length (pending p)
      then Some (take RECORDER_BUFFER_BYTES (pending p)) else None)"
    using peek_full_inv[OF inv] by (simp add: pcm_front_def)
  obtain p' where rel: "pcm_pipeline_release_full (Some p) = Some p'"
    by (cases "full_index p") auto
  show "pcm_inv (pcm_release p) \<and> pending (pcm_release p) =
      (if RECORDER_BUFFER_BYTES \<le> length (pending p)
       then drop RECORDER_BUFFER_BYTES (pending p) else pending p)"
    using release_full_inv[OF inv rel] rel by (simp add: pcm_release_def)
qed

section \<open>Capture task and writer task\<close>

text \<open>
  The two tasks of \<open>main.c\<close> take the pipeline lock for each call and may interleave between calls.
  The writer peeks at the oldest full slot, copies it to the card without the lock, and releases it
  later. \<open>to_write\<close> is the slot the writer holds a pointer to between its two calls; what reaches the
  card is read from the slot at the time of the release.
\<close>

record pcm_system =
  pipe :: pcm_pipeline_t
  to_write :: "byte list option"
  on_card :: "byte list"
  captured :: "byte list"

inductive pcm_step :: "pcm_system \<Rightarrow> pcm_system \<Rightarrow> bool" where
  produce: "pcm_pipeline_produce (Some (pipe s)) (Some data) = Some (Some p', left_over) \<Longrightarrow>
    pcm_step s (s\<lparr>pipe := p', captured := captured s @ take (length data - left_over) data\<rparr>)"
| peek: "to_write s = None \<Longrightarrow> pcm_pipeline_peek_full (Some (pipe s)) = (Some c, Some n) \<Longrightarrow>
    pcm_step s (s\<lparr>to_write := Some c\<rparr>)"
| release: "to_write s \<noteq> None \<Longrightarrow> pcm_pipeline_peek_full (Some (pipe s)) = (Some c, Some n) \<Longrightarrow>
    pcm_pipeline_release_full (Some (pipe s)) = Some p' \<Longrightarrow>
    pcm_step s (s\<lparr>pipe := p', to_write := None, on_card := on_card s @ take n c\<rparr>)"

inductive pcm_reachable :: "pcm_system \<Rightarrow> bool" where
  start: "pcm_pipeline_init (Some p) (Some b0) (Some b1) = Some p' \<Longrightarrow>
    length b0 = RECORDER_BUFFER_BYTES \<Longrightarrow> length b1 = RECORDER_BUFFER_BYTES \<Longrightarrow>
    pcm_reachable \<lparr>pipe = p', to_write = None, on_card = [], captured = []\<rparr>"
| step: "pcm_reachable s \<Longrightarrow> pcm_step s t \<Longrightarrow> pcm_reachable t"

definition pcm_sys_inv :: "pcm_system \<Rightarrow> bool" where
  "pcm_sys_inv s \<longleftrightarrow>
     pcm_inv (pipe s) \<and> on_card s @ pending (pipe s) = captured s \<and>
     (to_write s \<noteq> None \<longrightarrow> pcm_front (pipe s) = to_write s)"

lemma pcm_produce_put:
  "pcm_pipeline_produce (Some p) (Some data) = Some (Some p', left_over) \<Longrightarrow>
   pcm_put p data = (p', length data - left_over)"
  by (simp add: pcm_put_def)

lemma pcm_step_inv: "pcm_step s t \<Longrightarrow> pcm_sys_inv s \<Longrightarrow> pcm_sys_inv t"
proof (induction rule: pcm_step.induct)
  case (produce s data p' left_over)
  note put = pcm_produce_put[OF produce.hyps]
  have inv: "pcm_inv (pipe s)" using produce.prems by (simp add: pcm_sys_inv_def)
  from pcm.put_law[OF inv put] pcm.front_stable[OF inv _ put] produce.prems show ?case
    by (auto simp: pcm_sys_inv_def)
next
  case (peek s c n)
  then show ?case by (auto simp: pcm_sys_inv_def pcm_front_def)
next
  case (release s c n p')
  have inv: "pcm_inv (pipe s)" using release.prems by (simp add: pcm_sys_inv_def)
  have rel: "pcm_release (pipe s) = p'" using release.hyps(3) by (simp add: pcm_release_def)
  have front: "pcm_front (pipe s) = Some c" using release.hyps(2) by (simp add: pcm_front_def)
  have "take n c = c"
    using release.hyps(2) peek_full_inv[OF inv] by (auto split: if_splits)
  with pcm.release_front[OF inv front] pcm.release_law[OF inv] release.prems show ?case
    by (auto simp: pcm_sys_inv_def rel)
qed

lemma pcm_reachable_inv: "pcm_reachable s \<Longrightarrow> pcm_sys_inv s"
proof (induction rule: pcm_reachable.induct)
  case (start p b0 b1 p')
  then show ?case using pcm_pipeline_init_inv[OF start(1)] by (simp add: pcm_sys_inv_def)
next
  case (step s t)
  then show ?case by (blast intro: pcm_step_inv)
qed

section \<open>Properties\<close>

text \<open>
  C6: in every interleaving of the capture and the writer task, the bytes that reached the card,
  followed by the bytes still buffered, are exactly the bytes the pipeline accepted, in order;
  nothing is lost, duplicated, reordered or overwritten, and the slot the writer is copying without
  the lock is still the oldest full slot.
\<close>

theorem pcm_stream_conserved:
  assumes "pcm_reachable s"
  shows "on_card s @ pending (pipe s) = captured s \<and>
    (\<forall>c. to_write s = Some c \<longrightarrow> fst (pcm_pipeline_peek_full (Some (pipe s))) = Some c)"
  using pcm_reachable_inv[OF assms] by (auto simp: pcm_sys_inv_def pcm_front_def)


text \<open>A pipeline as \<open>app_main\<close> sets it up, with zeroed buffers.\<close>

definition pcm_fresh :: pcm_pipeline_t where
  "pcm_fresh = \<lparr>slot = (\<lambda>_. Some (replicate RECORDER_BUFFER_BYTES 0)), fill = (\<lambda>_. 0),
     full = (\<lambda>_. False), read_index = 0, write_index = 0, counters = zero_counters\<rparr>"

lemma pcm_fresh_init:
  "pcm_pipeline_init (Some pcm_fresh) (Some (replicate RECORDER_BUFFER_BYTES 0))
     (Some (replicate RECORDER_BUFFER_BYTES 0)) = Some pcm_fresh"
  by (simp add: pcm_fresh_def fun_eq_iff)

lemma pcm_fresh_inv: "pcm_inv pcm_fresh" and pcm_fresh_pending: "pending pcm_fresh = []"
  using pcm_pipeline_init_inv[OF pcm_fresh_init] by simp_all

theorem pcm_stream_conserved_witness:
  "\<exists>s. pcm_reachable s \<and> captured s = [1, 2, 3, 4] \<and>
     on_card s @ pending (pipe s) = [1, 2, 3, 4]"
proof -
  obtain p' where p': "pcm_pipeline_produce (Some pcm_fresh) (Some [1, 2, 3, 4]) = Some (Some p', 0)"
    using produce_inv[OF pcm_fresh_inv, of "[1, 2, 3, 4]"]
    by (auto simp: accepted_bytes_def pcm_fresh_pending config_simps)
  define s0 where "s0 = \<lparr>pipe = pcm_fresh, to_write = None, on_card = [], captured = []\<rparr>"
  have "pcm_reachable s0"
    unfolding s0_def by (rule pcm_reachable.start[OF pcm_fresh_init]) simp_all
  moreover have "pcm_step s0 (s0\<lparr>pipe := p', captured := captured s0 @ take (4 - 0) [1, 2, 3, 4]\<rparr>)"
    using pcm_step.produce[of s0 "[1, 2, 3, 4]" p' 0] p' by (simp add: s0_def)
  ultimately have "pcm_reachable (s0\<lparr>pipe := p', captured := [1, 2, 3, 4]\<rparr>)"
    using pcm_reachable.step by (fastforce simp: s0_def)
  from this pcm_stream_conserved[OF this] show ?thesis by (intro exI conjI) auto
qed

text \<open>
  C16: on a pipeline that satisfies the invariant, producing always returns; it appends exactly the
  whole samples for which the two slots have room; whatever does not fit is counted as one software
  overflow with its bytes and samples; the driver counters are untouched; and the value returned is the
  number of dropped bytes plus the held-back odd byte.
\<close>

theorem pcm_produce_accounting:
  assumes "pcm_inv p"
  shows "\<exists>p' ret. pcm_pipeline_produce (Some p) (Some data) = Some (Some p', ret) \<and> pcm_inv p' \<and>
    (let usable = length data - length data mod 2;
         a = min usable (2 * RECORDER_BUFFER_BYTES - length (pending p)); c = counters p in
     pending p' = pending p @ take a data \<and>
     ret = (usable - a) + length data mod 2 \<and>
     counters p' = c\<lparr>
       samples_captured := samples_captured c + of_nat (a div 2),
       buffer_overflow := buffer_overflow c + (if a < usable then 1 else 0),
       buffer_drop_bytes := buffer_drop_bytes c + of_nat (usable - a),
       buffer_drop_samples := buffer_drop_samples c + of_nat ((usable - a) div 2)\<rparr>)"
proof -
  let ?u = "length data - length data mod 2"
  let ?a = "min ?u (2 * RECORDER_BUFFER_BYTES - length (pending p))"
  obtain p' where p': "pcm_pipeline_produce (Some p) (Some data) = Some (Some p', length data - ?a)"
    "pcm_inv p'" "pending p' = pending p @ take ?a data" "counters p' = counters_after (counters p) ?u ?a"
    using produce_inv[OF assms, of data] by (auto simp: accepted_bytes_def RECORDER_BYTES_PER_SAMPLE_def)
  have ret: "length data - ?a = (?u - ?a) + length data mod 2"
    by (simp add: min_def)
  have ca: "counters_after c u a = c\<lparr>
       samples_captured := samples_captured c + of_nat (a div 2),
       buffer_overflow := buffer_overflow c + (if a < u then 1 else 0),
       buffer_drop_bytes := buffer_drop_bytes c + of_nat (u - a),
       buffer_drop_samples := buffer_drop_samples c + of_nat ((u - a) div 2)\<rparr>" for c u a
    by (cases c, cases "u \<le> a") (simp_all add: counters_after_def)
  show ?thesis
    unfolding Let_def by (intro exI conjI, rule p'(1), rule p'(2), rule p'(3), rule ret)
      (simp only: p'(4) ca)
qed

theorem pcm_produce_accounting_witness:
  "pcm_inv pcm_fresh \<and>
   (\<exists>p'. pcm_pipeline_produce (Some pcm_fresh) (Some [1, 2, 3]) = Some (Some p', 1) \<and>
      pending p' = [1, 2] \<and> buffer_drop_bytes (counters p') = 0)"
proof -
  have "min 2 (2 * RECORDER_BUFFER_BYTES) = 2" by (simp add: config_simps)
  with pcm_fresh_inv pcm_produce_accounting[OF pcm_fresh_inv, of "[1, 2, 3]"] show ?thesis
    by (auto simp: pcm_fresh_pending Let_def) (auto simp: pcm_fresh_def zero_counters_def)
qed

end
