(* ===== verification/C_Stdio.thy ===== *)
theory C_Stdio
  imports Recorder_Config
begin

text \<open>
  The part of the C library that the recorder uses on the card: \<open>fopen\<close>, \<open>fread\<close>, \<open>fwrite\<close>,
  \<open>fseek\<close>, \<open>fflush\<close>, \<open>fsync\<close>, \<open>fclose\<close>, \<open>rename\<close>, \<open>remove\<close>, \<open>stat\<close>, \<open>truncate\<close>, \<open>mkdir\<close>
  and directory listing.

  A world holds the files by path, and a script of outcomes, one for each fallible call: the call
  succeeds (\<open>IoOk\<close>, also when the script is used up), fails with an error number after \<open>n\<close> bytes
  (\<open>IoErr e n\<close>), or the power goes after \<open>n\<close> bytes (\<open>PowerLoss n\<close>). After a power loss nothing
  the program goes on to do reaches the card: every later call fails and changes nothing, so the
  files at the end of an operation are the files on the card when the power went. A theorem for
  every script is a theorem for every pattern of I/O errors and every point of power loss.

  \<open>unsynced\<close> holds the paths whose latest bytes were not yet forced to the card by \<open>fsync\<close>: after a
  power loss such a file may hold anything (\<open>card_after_power_loss\<close>). Renaming, removing, truncating
  and making a directory change one directory entry and are taken to be atomic.

  \<open>rename_replaces\<close> distinguishes the two file systems the sources speak of: FatFs on the device
  refuses a rename onto an existing path with \<open>EEXIST\<close>, a POSIX host replaces the destination.
\<close>

datatype errno = ENOENT | EEXIST | EIO | EOTHER

datatype io_outcome = IoOk | IoErr errno nat | PowerLoss nat

record io_world =
  files :: "string \<Rightarrow> byte list option"
  dirs :: "string \<Rightarrow> bool"
  listing :: "string \<Rightarrow> string list option"
  script :: "io_outcome list"
  errno_of :: errno
  halted :: bool
  unsynced :: "string \<Rightarrow> bool"
  rename_replaces :: bool

record FILE =
  fpath :: string
  fpos :: nat
  ferr :: bool

datatype fmode = RB | WB | RPB | AB

datatype stat_t = StatFile nat | StatDir

section \<open>Consuming the script\<close>

definition io_next :: "io_world \<Rightarrow> nat option \<times> io_world" where
  \<comment> \<open>\<open>None\<close>: the call succeeds; \<open>Some n\<close>: it fails after \<open>n\<close> bytes.\<close>
  "io_next w =
     (if halted w then (Some 0, w\<lparr>errno_of := EIO\<rparr>)
      else case script w of
        [] \<Rightarrow> (None, w)
      | IoOk # s \<Rightarrow> (None, w\<lparr>script := s\<rparr>)
      | IoErr e n # s \<Rightarrow> (Some n, w\<lparr>script := s, errno_of := e\<rparr>)
      | PowerLoss n # s \<Rightarrow> (Some n, w\<lparr>script := s, errno_of := EIO, halted := True\<rparr>))"

text \<open>A call whose only effect is to succeed or to fail.\<close>

definition io_try :: "io_world \<Rightarrow> bool \<times> io_world" where
  "io_try w = (case io_next w of (r, w') \<Rightarrow> (r = None, w'))"

section \<open>The calls\<close>

definition set_file :: "string \<Rightarrow> byte list option \<Rightarrow> bool \<Rightarrow> io_world \<Rightarrow> io_world" where
  "set_file p c u w = w\<lparr>files := (files w)(p := c), unsynced := (unsynced w)(p := u)\<rparr>"

definition fopen :: "fmode \<Rightarrow> string \<Rightarrow> io_world \<Rightarrow> FILE option \<times> io_world" where
  "fopen m p w =
     (case io_try w of
        (False, w') \<Rightarrow> (None, w')
      | (True, w') \<Rightarrow>
          (case (m, files w' p) of
             (WB, _) \<Rightarrow>
               (Some \<lparr>fpath = p, fpos = 0, ferr = False\<rparr>, set_file p (Some []) True w')
           | (AB, None) \<Rightarrow>
               (Some \<lparr>fpath = p, fpos = 0, ferr = False\<rparr>, set_file p (Some []) True w')
           | (AB, Some c) \<Rightarrow> (Some \<lparr>fpath = p, fpos = length c, ferr = False\<rparr>, w')
           | (_, None) \<Rightarrow> (None, w'\<lparr>errno_of := ENOENT\<rparr>)
           | (_, Some c) \<Rightarrow> (Some \<lparr>fpath = p, fpos = 0, ferr = False\<rparr>, w')))"

text \<open>The bytes a write stores before it stops.\<close>

definition put_bytes :: "FILE \<Rightarrow> byte list \<Rightarrow> io_world \<Rightarrow> io_world" where
  "put_bytes h bs w =
     (case files w (fpath h) of
        None \<Rightarrow> w
      | Some c \<Rightarrow> set_file (fpath h) (Some (write_at (fpos h) bs c)) True w)"

definition fwrite :: "FILE \<Rightarrow> byte list \<Rightarrow> io_world \<Rightarrow> nat \<times> FILE \<times> io_world" where
  "fwrite h bs w =
     (if halted w then (0, h, w\<lparr>errno_of := EIO\<rparr>)
      else case io_next w of
        (None, w') \<Rightarrow> (length bs, h\<lparr>fpos := fpos h + length bs\<rparr>, put_bytes h bs w')
      | (Some n, w') \<Rightarrow>
          (let k = min n (length bs - 1)
           in (k, h\<lparr>fpos := fpos h + k, ferr := True\<rparr>, put_bytes h (take k bs) w')))"

definition fread :: "FILE \<Rightarrow> nat \<Rightarrow> io_world \<Rightarrow> byte list \<times> FILE \<times> io_world" where
  "fread h n w =
     (case io_next w of (r, w') \<Rightarrow>
       (let avail = (case files w' (fpath h) of None \<Rightarrow> [] | Some c \<Rightarrow> drop (fpos h) c);
            bs = (case r of None \<Rightarrow> take n avail | Some k \<Rightarrow> take (min k (n - 1)) avail)
        in (bs, h\<lparr>fpos := fpos h + length bs, ferr := (r \<noteq> None)\<rparr>, w')))"

text \<open>\<open>fseek\<close> takes a signed offset; a negative one is refused.\<close>

definition fseek :: "FILE \<Rightarrow> int \<Rightarrow> io_world \<Rightarrow> bool \<times> FILE \<times> io_world" where
  "fseek h pos w =
     (case io_try w of
        (False, w') \<Rightarrow> (False, h, w')
      | (True, w') \<Rightarrow>
          if pos < 0 then (False, h, w'\<lparr>errno_of := EOTHER\<rparr>)
          else (True, h\<lparr>fpos := nat pos\<rparr>, w'))"

text \<open>The file descriptor of a stream, which \<open>fsync\<close> needs.\<close>

definition fileno :: "FILE \<Rightarrow> io_world \<Rightarrow> bool \<times> io_world" where
  "fileno h w = io_try w"

definition fflush :: "FILE \<Rightarrow> io_world \<Rightarrow> bool \<times> io_world" where
  "fflush h w = io_try w"

definition fsync :: "FILE \<Rightarrow> io_world \<Rightarrow> bool \<times> io_world" where
  "fsync h w =
     (case io_try w of
        (True, w') \<Rightarrow> (True, w'\<lparr>unsynced := (unsynced w')(fpath h := False)\<rparr>)
      | (False, w') \<Rightarrow> (False, w'))"

definition fclose :: "FILE \<Rightarrow> io_world \<Rightarrow> bool \<times> io_world" where
  "fclose h w = io_try w"

definition c_rename :: "string \<Rightarrow> string \<Rightarrow> io_world \<Rightarrow> bool \<times> io_world" where
  "c_rename a b w =
     (case io_try w of
        (False, w') \<Rightarrow> (False, w')
      | (True, w') \<Rightarrow>
          (case files w' a of
             None \<Rightarrow> (False, w'\<lparr>errno_of := ENOENT\<rparr>)
           | Some c \<Rightarrow>
               if dirs w' b \<or> (files w' b \<noteq> None \<and> \<not> rename_replaces w')
               then (False, w'\<lparr>errno_of := EEXIST\<rparr>)
               else if a = b then (True, w')
               else (True, set_file a None False
                             (set_file b (Some c) (unsynced w' a) w'))))"

definition c_remove :: "string \<Rightarrow> io_world \<Rightarrow> bool \<times> io_world" where
  "c_remove p w =
     (case io_try w of
        (False, w') \<Rightarrow> (False, w')
      | (True, w') \<Rightarrow>
          (case files w' p of
             None \<Rightarrow> (False, w'\<lparr>errno_of := ENOENT\<rparr>)
           | Some c \<Rightarrow> (True, set_file p None False w')))"

definition c_stat :: "string \<Rightarrow> io_world \<Rightarrow> stat_t option \<times> io_world" where
  "c_stat p w =
     (case io_try w of
        (False, w') \<Rightarrow> (None, w')
      | (True, w') \<Rightarrow>
          (case files w' p of
             Some c \<Rightarrow> (Some (StatFile (length c)), w')
           | None \<Rightarrow> if dirs w' p then (Some StatDir, w')
                     else (None, w'\<lparr>errno_of := ENOENT\<rparr>)))"

definition c_truncate :: "string \<Rightarrow> nat \<Rightarrow> io_world \<Rightarrow> bool \<times> io_world" where
  "c_truncate p n w =
     (case io_try w of
        (False, w') \<Rightarrow> (False, w')
      | (True, w') \<Rightarrow>
          (case files w' p of
             None \<Rightarrow> (False, w'\<lparr>errno_of := ENOENT\<rparr>)
           | Some c \<Rightarrow>
               (True, set_file p (Some (take n (c @ replicate (n - length c) 0))) (unsynced w' p) w')))"

definition c_mkdir :: "string \<Rightarrow> io_world \<Rightarrow> bool \<times> io_world" where
  "c_mkdir p w =
     (case io_try w of
        (False, w') \<Rightarrow> (False, w')
      | (True, w') \<Rightarrow>
          if dirs w' p \<or> files w' p \<noteq> None then (False, w'\<lparr>errno_of := EEXIST\<rparr>)
          else (True, w'\<lparr>dirs := (dirs w')(p := True)\<rparr>))"

text \<open>\<open>opendir\<close> with the names \<open>readdir\<close> goes on to return; \<open>None\<close> when it cannot be opened.\<close>

definition c_opendir :: "string \<Rightarrow> io_world \<Rightarrow> string list option \<times> io_world" where
  "c_opendir p w =
     (case io_try w of
        (False, w') \<Rightarrow> (None, w')
      | (True, w') \<Rightarrow> (listing w' p, w'))"

section \<open>Worlds\<close>

text \<open>A world in which no call fails any more.\<close>

definition quiet :: "io_world \<Rightarrow> bool" where
  "quiet w = (\<not> halted w \<and> script w = [])"

text \<open>
  \<open>touches A w w'\<close>: from \<open>w\<close> to \<open>w'\<close> only files of \<open>A\<close> changed, and once the power is gone nothing
  did.
\<close>

definition touches :: "string set \<Rightarrow> io_world \<Rightarrow> io_world \<Rightarrow> bool" where
  "touches A w w' \<longleftrightarrow>
     (\<forall>p. p \<notin> A \<longrightarrow> files w' p = files w p \<and> unsynced w' p = unsynced w p) \<and>
     (halted w \<longrightarrow> halted w' \<and> files w' = files w \<and> unsynced w' = unsynced w) \<and>
     rename_replaces w' = rename_replaces w \<and> listing w' = listing w \<and>
     (script w = [] \<longrightarrow> script w' = [] \<and> halted w' = halted w)"

text \<open>A card with nothing on it, on the device's file system, without faults.\<close>

definition empty_card :: io_world where
  "empty_card = \<lparr>files = (\<lambda>_. None), dirs = (\<lambda>_. False), listing = (\<lambda>_. None), script = [],
     errno_of = EIO, halted = False, unsynced = (\<lambda>_. False), rename_replaces = False\<rparr>"

text \<open>What the card may hold when the device boots again.\<close>

definition card_after_power_loss :: "io_world \<Rightarrow> (string \<Rightarrow> byte list option) \<Rightarrow> bool" where
  "card_after_power_loss w d \<longleftrightarrow> (\<forall>p. \<not> unsynced w p \<longrightarrow> d p = files w p)"

section \<open>Laws of the calls\<close>

lemma touches_refl [simp, intro]: "touches A w w"
  by (simp add: touches_def)

lemma touches_trans: "touches A w w' \<Longrightarrow> touches A w' w'' \<Longrightarrow> touches A w w''"
  by (auto simp: touches_def)

lemma touches_mono: "touches A w w' \<Longrightarrow> A \<subseteq> B \<Longrightarrow> touches B w w'"
  by (auto simp: touches_def)

lemma touches_errno [simp]: "touches A w (w'\<lparr>errno_of := e\<rparr>) = touches A w w'"
  by (simp add: touches_def)

lemma touches_errno_left [simp]: "touches A (w\<lparr>errno_of := e\<rparr>) w' = touches A w w'"
  by (simp add: touches_def)

lemma touches_dirs [simp]: "touches A w (w'\<lparr>dirs := d\<rparr>) = touches A w w'"
  by (simp add: touches_def)

lemma touches_filesD: "touches A w w' \<Longrightarrow> p \<notin> A \<Longrightarrow> files w' p = files w p"
  by (simp add: touches_def)

lemma touches_unsyncedD: "touches A w w' \<Longrightarrow> p \<notin> A \<Longrightarrow> unsynced w' p = unsynced w p"
  by (simp add: touches_def)

lemma touches_quiet: "touches A w w' \<Longrightarrow> quiet w \<Longrightarrow> quiet w'"
  by (simp add: touches_def quiet_def)

lemma touches_haltedD:
  "touches A w w' \<Longrightarrow> halted w \<Longrightarrow> halted w' \<and> files w' = files w \<and> unsynced w' = unsynced w"
  by (simp add: touches_def)

lemma set_file_simps [simp]:
  "files (set_file p c u w) = (files w)(p := c)"
  "unsynced (set_file p c u w) = (unsynced w)(p := u)"
  "dirs (set_file p c u w) = dirs w"
  "halted (set_file p c u w) = halted w"
  "script (set_file p c u w) = script w"
  "errno_of (set_file p c u w) = errno_of w"
  "listing (set_file p c u w) = listing w"
  "rename_replaces (set_file p c u w) = rename_replaces w"
  by (simp_all add: set_file_def)

lemma quiet_empty_card [simp]: "quiet empty_card"
  by (simp add: quiet_def empty_card_def)

lemma io_try_quiet [simp]: "quiet w \<Longrightarrow> io_try w = (True, w)"
  by (simp add: io_try_def io_next_def quiet_def)

lemma io_next_quiet [simp]: "quiet w \<Longrightarrow> io_next w = (None, w)"
  by (simp add: io_next_def quiet_def)

lemma quiet_set_file [simp]: "quiet (set_file p c u w) = quiet w"
  by (simp add: quiet_def)

lemma quiet_upd [simp]:
  "quiet (w\<lparr>unsynced := u\<rparr>) = quiet w" "quiet (w\<lparr>errno_of := e\<rparr>) = quiet w"
  "quiet (w\<lparr>dirs := d\<rparr>) = quiet w"
  by (simp_all add: quiet_def)

lemma quiet_not_halted: "quiet w \<Longrightarrow> \<not> halted w"
  by (simp add: quiet_def)

lemma io_try_halted [simp]: "halted w \<Longrightarrow> io_try w = (False, w\<lparr>errno_of := EIO\<rparr>)"
  by (simp add: io_try_def io_next_def)

lemma io_next_same:
  assumes "io_next w = (r, w')"
  shows "files w' = files w" "unsynced w' = unsynced w" "dirs w' = dirs w" "listing w' = listing w"
    "rename_replaces w' = rename_replaces w" "r = None \<Longrightarrow> errno_of w' = errno_of w"
    "r = None \<Longrightarrow> \<not> halted w'" "halted w \<Longrightarrow> halted w'" "script w = [] \<Longrightarrow> script w' = []"
    "script w = [] \<Longrightarrow> halted w' = halted w"
  using assms
  by (auto simp: io_next_def split: if_splits list.splits io_outcome.splits)

lemma io_try_same:
  assumes "io_try w = (ok, w')"
  shows "files w' = files w" "unsynced w' = unsynced w" "dirs w' = dirs w" "listing w' = listing w"
    "rename_replaces w' = rename_replaces w" "ok \<Longrightarrow> errno_of w' = errno_of w"
    "ok \<Longrightarrow> \<not> halted w'" "halted w \<Longrightarrow> halted w' \<and> \<not> ok" "script w = [] \<Longrightarrow> script w' = []"
    "script w = [] \<Longrightarrow> halted w' = halted w"
  using assms io_next_same[of w _ w']
  by (auto simp: io_try_def split: prod.splits)

lemma io_try_touches [io_frame]: "io_try w = (ok, w') \<Longrightarrow> touches A w w'"
  using io_try_same[of w ok w'] by (auto simp: touches_def)

lemma io_next_touches [io_frame]: "io_next w = (r, w') \<Longrightarrow> touches A w w'"
  using io_next_same[of w r w'] by (auto simp: touches_def)

lemma fopen_touches [io_frame]:
  assumes "fopen m p w = (h, w')" shows "touches {p} w w'"
proof (cases "io_try w")
  case (Pair ok w1)
  note same = io_try_same[OF Pair]
  show ?thesis
    using assms Pair same
    by (auto simp: fopen_def touches_def split: bool.splits fmode.splits option.splits)
qed

lemma fopen_ab_keeps:
  assumes "fopen AB p w = (f, w')" "files w p = Some c"
  shows "files w' p = Some c \<and> (\<forall>fp. f = Some fp \<longrightarrow> fpath fp = p \<and> fpos fp = length c)"
proof (cases "io_try w")
  case (Pair ok w1)
  then show ?thesis
    using assms io_try_same(1)[OF Pair] by (auto simp: fopen_def split: bool.splits)
qed

lemma fopen_rb_touches [io_frame]: "fopen RB p w = (h, w') \<Longrightarrow> touches A w w'"
  using io_try_touches[of w _ _ A]
  by (auto simp: fopen_def split: prod.splits bool.splits option.splits)

lemma fopen_rpb_touches [io_frame]: "fopen RPB p w = (h, w') \<Longrightarrow> touches A w w'"
  using io_try_touches[of w _ _ A]
  by (auto simp: fopen_def split: prod.splits bool.splits option.splits)

lemma put_bytes_same [simp]:
  "halted (put_bytes h bs w) = halted w" "script (put_bytes h bs w) = script w"
  "dirs (put_bytes h bs w) = dirs w" "listing (put_bytes h bs w) = listing w"
  "rename_replaces (put_bytes h bs w) = rename_replaces w"
  by (auto simp: put_bytes_def split: option.splits)

lemma files_put_bytes:
  "files (put_bytes h bs w) =
     (files w)(fpath h := map_option (write_at (fpos h) bs) (files w (fpath h)))"
  by (auto simp: put_bytes_def split: option.splits)

lemma unsynced_put_bytes_other [simp]:
  "p \<noteq> fpath h \<Longrightarrow> unsynced (put_bytes h bs w) p = unsynced w p"
  by (auto simp: put_bytes_def split: option.splits)

lemma fwrite_touches [io_frame]:
  assumes "fwrite h bs w = (n, h', w')" shows "touches {fpath h} w w'"
proof (cases "io_next w")
  case (Pair r w1)
  note same = io_next_same[OF Pair]
  show ?thesis
    using assms Pair same
    by (cases r) (auto simp: fwrite_def touches_def Let_def files_put_bytes split: if_splits)
qed

text \<open>Whatever happens, a write stores a prefix of what it was given.\<close>

lemma fwrite_files:
  assumes "fwrite h bs w = (n, h', w')"
  shows "\<exists>k \<le> length bs. (n = length bs \<longrightarrow> k = length bs) \<and>
           (\<forall>c. files w (fpath h) = Some c \<and> fpos h \<le> length c \<longrightarrow>
             files w' (fpath h) = Some (write_at (fpos h) (take k bs) c))"
    and "fpath h' = fpath h" and "fpos h' = fpos h + n"
proof -
  obtain r w1 where r: "io_next w = (r, w1)" by fastforce
  have files: "files w1 = files w" by (rule io_next_same[OF r])
  show "\<exists>k \<le> length bs. (n = length bs \<longrightarrow> k = length bs) \<and>
           (\<forall>c. files w (fpath h) = Some c \<and> fpos h \<le> length c \<longrightarrow>
             files w' (fpath h) = Some (write_at (fpos h) (take k bs) c))"
  proof (cases "halted w")
    case True
    with assms show ?thesis by (intro exI[of _ 0]) (auto simp: fwrite_def)
  next
    case False
    with assms r files show ?thesis
      by (intro exI[of _ n], cases r) (auto simp: fwrite_def files_put_bytes Let_def)
  qed
  show "fpath h' = fpath h" and "fpos h' = fpos h + n"
    using assms r by (auto simp: fwrite_def Let_def split: if_splits option.splits)
qed

lemma fwrite_quiet [simp]:
  "quiet w \<Longrightarrow>
   fwrite h bs w = (length bs, h\<lparr>fpos := fpos h + length bs\<rparr>, put_bytes h bs w)"
  by (simp add: fwrite_def quiet_not_halted)

lemma fread_touches [io_frame]: "fread h n w = (bs, h', w') \<Longrightarrow> touches A w w'"
  using io_next_touches[of w _ _ A] by (auto simp: fread_def Let_def split: prod.splits)

lemma fread_prefix:
  assumes "fread h n w = (bs, h', w')"
  shows "\<exists>k. bs = take k (case files w (fpath h) of None \<Rightarrow> [] | Some c \<Rightarrow> drop (fpos h) c)"
    "length bs \<le> n" "fpath h' = fpath h" "fpos h' = fpos h + length bs"
    "ferr h' = False \<Longrightarrow>
       bs = take n (case files w (fpath h) of None \<Rightarrow> [] | Some c \<Rightarrow> drop (fpos h) c)"
proof -
  obtain r w1 where r: "io_next w = (r, w1)" by fastforce
  note same = io_next_same[OF r]
  show "\<exists>k. bs = take k (case files w (fpath h) of None \<Rightarrow> [] | Some c \<Rightarrow> drop (fpos h) c)"
    "length bs \<le> n" "fpath h' = fpath h" "fpos h' = fpos h + length bs"
    "ferr h' = False \<Longrightarrow>
       bs = take n (case files w (fpath h) of None \<Rightarrow> [] | Some c \<Rightarrow> drop (fpos h) c)"
    using assms r same
    by (auto simp: fread_def Let_def split: option.splits)
qed

lemma fseek_touches [io_frame]: "fseek h pos w = (ok, h', w') \<Longrightarrow> touches A w w'"
  using io_try_touches[of w _ _ A]
  by (auto simp: fseek_def split: prod.splits bool.splits if_splits)

lemma fseek_handle:
  "fseek h pos w = (ok, h', w') \<Longrightarrow>
   fpath h' = fpath h \<and> (ok \<longrightarrow> 0 \<le> pos \<and> fpos h' = nat pos) \<and> (\<not> ok \<longrightarrow> h' = h)"
  by (auto simp: fseek_def split: prod.splits bool.splits if_splits)

lemma fseek_quiet [simp]: "quiet w \<Longrightarrow> 0 \<le> pos \<Longrightarrow> fseek h pos w = (True, h\<lparr>fpos := nat pos\<rparr>, w)"
  by (simp add: fseek_def)

lemma fileno_touches [io_frame]: "fileno h w = (ok, w') \<Longrightarrow> touches A w w'"
  using io_try_touches[of w ok w' A] by (simp add: fileno_def)

lemma fflush_touches [io_frame]: "fflush h w = (ok, w') \<Longrightarrow> touches A w w'"
  using io_try_touches[of w ok w' A] by (simp add: fflush_def)

lemma fclose_touches [io_frame]: "fclose h w = (ok, w') \<Longrightarrow> touches A w w'"
  using io_try_touches[of w ok w' A] by (simp add: fclose_def)

lemma fsync_touches [io_frame]:
  assumes "fsync h w = (ok, w')" shows "touches {fpath h} w w'"
proof (cases "io_try w")
  case (Pair ok1 w1)
  show ?thesis
    using assms Pair io_try_same[OF Pair]
    by (auto simp: fsync_def touches_def split: bool.splits)
qed

lemma fsync_files: "fsync h w = (ok, w') \<Longrightarrow> files w' = files w"
  by (cases "io_try w") (auto simp: fsync_def dest: io_try_same(1) split: bool.splits)

lemma fsync_synced: "fsync h w = (True, w') \<Longrightarrow> \<not> unsynced w' (fpath h)"
  by (auto simp: fsync_def split: prod.splits bool.splits)

lemma c_rename_touches [io_frame]:
  assumes "c_rename a b w = (ok, w')" shows "touches {a, b} w w'"
proof (cases "io_try w")
  case (Pair ok1 w1)
  show ?thesis
    using assms Pair io_try_same[OF Pair]
    by (auto simp: c_rename_def touches_def split: bool.splits option.splits if_splits)
qed

text \<open>A rename either does nothing to the files, or moves the source to the destination.\<close>

lemma c_rename_cases:
  assumes "c_rename a b w = (ok, w')"
  obtains (failed) "\<not> ok" "files w' = files w" "unsynced w' = unsynced w"
  | (moved) c where "ok" "files w a = Some c" "\<not> dirs w b"
      "files w b = None \<or> rename_replaces w"
      "a \<noteq> b \<Longrightarrow> files w' = (files w)(b := Some c, a := None)"
      "a \<noteq> b \<Longrightarrow> unsynced w' = (unsynced w)(b := unsynced w a, a := False)"
      "a = b \<Longrightarrow> files w' = files w"
proof (cases "io_try w")
  case (Pair ok1 w1)
  show ?thesis
    using assms Pair io_try_same[OF Pair] that
    by (auto simp: c_rename_def split: bool.splits option.splits if_splits)
qed

lemma c_rename_eexist:
  assumes "c_rename a b w = (False, w')" "quiet w" "files w a \<noteq> None"
  shows "errno_of w' = EEXIST"
  using assms by (auto simp: c_rename_def split: option.splits if_splits)

lemma c_rename_quiet:
  assumes "quiet w" "files w a = Some c" "files w b = None" "\<not> dirs w b"
  shows "c_rename a b w = (True, set_file a None False (set_file b (Some c) (unsynced w a) w))"
  using assms by (auto simp: c_rename_def)

lemma c_remove_touches [io_frame]:
  assumes "c_remove p w = (ok, w')" shows "touches {p} w w'"
proof (cases "io_try w")
  case (Pair ok1 w1)
  show ?thesis
    using assms Pair io_try_same[OF Pair]
    by (auto simp: c_remove_def touches_def split: bool.splits option.splits)
qed

lemma c_stat_touches [io_frame]: "c_stat p w = (st, w') \<Longrightarrow> touches A w w'"
  using io_try_touches[of w _ _ A]
  by (auto simp: c_stat_def split: prod.splits bool.splits option.splits if_splits)

lemma c_stat_file:
  assumes "c_stat p w = (Some (StatFile n), w')"
  shows "\<exists>c. files w p = Some c \<and> length c = n"
proof (cases "io_try w")
  case (Pair ok w1)
  show ?thesis
    using assms Pair io_try_same(1)[OF Pair]
    by (auto simp: c_stat_def split: bool.splits option.splits if_splits)
qed

lemma c_stat_some:
  assumes "c_stat p w = (Some st, w')"
  shows "files w p \<noteq> None \<or> dirs w p"
proof (cases "io_try w")
  case (Pair ok w1)
  show ?thesis
    using assms Pair io_try_same(1,3)[OF Pair]
    by (auto simp: c_stat_def split: bool.splits option.splits if_splits)
qed

lemma c_stat_quiet:
  "quiet w \<Longrightarrow>
   c_stat p w =
     (case files w p of
        Some c \<Rightarrow> (Some (StatFile (length c)), w)
      | None \<Rightarrow> if dirs w p then (Some StatDir, w) else (None, w\<lparr>errno_of := ENOENT\<rparr>))"
  by (simp add: c_stat_def)

lemma c_truncate_touches [io_frame]:
  assumes "c_truncate p n w = (ok, w')" shows "touches {p} w w'"
proof (cases "io_try w")
  case (Pair ok1 w1)
  show ?thesis
    using assms Pair io_try_same[OF Pair]
    by (auto simp: c_truncate_def touches_def split: bool.splits option.splits)
qed

lemma c_mkdir_touches [io_frame]: "c_mkdir p w = (ok, w') \<Longrightarrow> touches A w w'"
  using io_try_touches[of w _ _ A]
  by (auto simp: c_mkdir_def split: prod.splits bool.splits if_splits)

lemma c_opendir_touches [io_frame]: "c_opendir p w = (l, w') \<Longrightarrow> touches A w w'"
  using io_try_touches[of w _ _ A]
  by (auto simp: c_opendir_def split: prod.splits bool.splits)

section \<open>Honest errors\<close>

text \<open>
  A script is honest when no injected error claims that a file is missing: \<open>ENOENT\<close> then proves absence,
  as the sources assume.
\<close>

definition honest :: "io_world \<Rightarrow> bool" where
  "honest w \<longleftrightarrow> (\<forall>n. IoErr ENOENT n \<notin> set (script w))"

lemma honest_upd [simp]:
  "honest (w\<lparr>errno_of := e\<rparr>) = honest w" "honest (w\<lparr>unsynced := u\<rparr>) = honest w" "honest (w\<lparr>dirs := d\<rparr>) = honest w"
  "honest (set_file p c b w) = honest w" "honest (put_bytes h bs w) = honest w"
  by (simp_all add: honest_def)

lemma quiet_honest: "quiet w \<Longrightarrow> honest w"
  by (simp add: honest_def quiet_def)

text \<open>Every call keeps the script honest and, \<open>mkdir\<close> apart, the directories.\<close>

definition steady :: "io_world \<Rightarrow> io_world \<Rightarrow> bool" where
  "steady w w' \<longleftrightarrow> (honest w \<longrightarrow> honest w') \<and> dirs w' = dirs w"

lemma steady_refl [simp, intro]: "steady w w"
  by (simp add: steady_def)

lemma steady_upd [simp]:
  "steady w (w'\<lparr>errno_of := e\<rparr>) = steady w w'" "steady w (w'\<lparr>unsynced := u\<rparr>) = steady w w'"
  "steady w (set_file p c b w') = steady w w'" "steady w (put_bytes h bs w') = steady w w'"
  by (simp_all add: steady_def)

lemma io_next_steady [io_script]: "io_next w = (r, w') \<Longrightarrow> steady w w'"
  by (auto simp: io_next_def honest_def steady_def split: if_splits list.splits io_outcome.splits)

lemma io_try_steady [io_script]: "io_try w = (ok, w') \<Longrightarrow> steady w w'"
  using io_next_steady[of w] by (auto simp: io_try_def split: prod.splits)

lemma io_try_errno:
  assumes "io_try w = (False, w')" "honest w" shows "errno_of w' \<noteq> ENOENT"
proof (cases "halted w")
  case False
  then show ?thesis using assms
    by (auto simp: io_try_def io_next_def honest_def split: list.splits io_outcome.splits)
qed (use assms in auto)

lemma fopen_steady [io_script]: "fopen m p w = (h, w') \<Longrightarrow> steady w w'"
  using io_try_steady[of w]
  by (auto simp: fopen_def split: prod.splits bool.splits fmode.splits option.splits)

lemma fread_steady [io_script]: "fread h n w = (bs, h', w') \<Longrightarrow> steady w w'"
  using io_next_steady[of w] by (auto simp: fread_def Let_def split: prod.splits)

lemma fwrite_steady [io_script]: "fwrite h bs w = (n, h', w') \<Longrightarrow> steady w w'"
  using io_next_steady[of w] by (auto simp: fwrite_def Let_def split: prod.splits if_splits option.splits)

lemma fileno_steady [io_script]: "fileno h w = (ok, w') \<Longrightarrow> steady w w'"
  by (simp add: fileno_def io_try_steady)

lemma fflush_steady [io_script]: "fflush h w = (ok, w') \<Longrightarrow> steady w w'"
  by (simp add: fflush_def io_try_steady)

lemma fclose_steady [io_script]: "fclose h w = (ok, w') \<Longrightarrow> steady w w'"
  by (simp add: fclose_def io_try_steady)

lemma fsync_steady [io_script]: "fsync h w = (ok, w') \<Longrightarrow> steady w w'"
  using io_try_steady[of w] by (auto simp: fsync_def split: prod.splits bool.splits)

lemma c_rename_steady [io_script]: "c_rename a b w = (ok, w') \<Longrightarrow> steady w w'"
  using io_try_steady[of w] by (auto simp: c_rename_def split: prod.splits bool.splits option.splits if_splits)

lemma c_remove_steady [io_script]: "c_remove p w = (ok, w') \<Longrightarrow> steady w w'"
  using io_try_steady[of w] by (auto simp: c_remove_def split: prod.splits bool.splits option.splits)

lemma c_stat_steady [io_script]: "c_stat p w = (st, w') \<Longrightarrow> steady w w'"
  using io_try_steady[of w] by (auto simp: c_stat_def split: prod.splits bool.splits option.splits if_splits)

text \<open>A failed \<open>stat\<close> with \<open>ENOENT\<close>.\<close>

lemma c_stat_enoent:
  assumes "c_stat p w = (None, w')" "errno_of w' = ENOENT" "honest w"
  shows "files w p = None"
proof (cases "io_try w")
  case (Pair ok w1)
  then show ?thesis
    using assms io_try_same(1)[OF Pair] io_try_errno[of w w1]
    by (auto simp: c_stat_def split: bool.splits option.splits)
qed

lemma c_remove_cases:
  assumes "c_remove p w = (ok, w')"
  obtains (failed) "\<not> ok" "files w' = files w" "unsynced w' = unsynced w"
  | (removed) "ok" "files w' = (files w)(p := None)" "unsynced w' = (unsynced w)(p := False)"
proof (cases "io_try w")
  case (Pair ok1 w1)
  show ?thesis
    using assms Pair io_try_same[OF Pair] that
    by (auto simp: c_remove_def split: bool.splits option.splits)
qed

end
