(* ===== verification/Wav_Part.thy ===== *)
theory Wav_Part
  imports C_Stdio
begin

text \<open>
  The \<open>.wav.part\<close> writer of \<open>firmware/components/recorder/wav_part.c\<close>, in the \<open>ESP_PLATFORM\<close> build
  (a flush is \<open>fflush\<close> followed by \<open>fsync\<close>), and the sink \<open>sd_pcm_sink.c\<close> on top of it.

  The clock that \<open>now_us\<close> reads is outside the repository: the two readings of a chunk write are
  arguments of \<open>sd_pcm_sink_write_chunk\<close>.
\<close>

section \<open>Model\<close>

definition put_u16le :: "u16 \<Rightarrow> byte list" where
  "put_u16le value = [ucast (value AND 0xFF), ucast (drop_bit 8 value AND 0xFF)]"

definition put_u32le :: "u32 \<Rightarrow> byte list" where
  "put_u32le value = [ucast (value AND 0xFF), ucast (drop_bit 8 value AND 0xFF),
     ucast (drop_bit 16 value AND 0xFF), ucast (drop_bit 24 value AND 0xFF)]"

fun has_part_suffix :: "string ptr \<Rightarrow> bool" where
  "has_part_suffix None = False"
| "has_part_suffix (Some path) = ends_with RECORDER_PART_SUFFIX path"

definition wav_part_build_header :: "u32 \<Rightarrow> u32 \<Rightarrow> u16 \<Rightarrow> u16 \<Rightarrow> byte list" where
  "wav_part_build_header pcm_bytes sample_rate_hz channels bits_per_sample =
     (let bytes_per_sample = bits_per_sample div 8;
          block_align = channels * bytes_per_sample;
          byte_rate = sample_rate_hz * (ucast block_align :: u32)
      in bytes_of_string ''RIFF'' @ put_u32le (36 + pcm_bytes) @ bytes_of_string ''WAVE'' @
         bytes_of_string ''fmt '' @ put_u32le 16 @ put_u16le 1 @ put_u16le channels @
         put_u32le sample_rate_hz @ put_u32le byte_rate @ put_u16le block_align @
         put_u16le bits_per_sample @ bytes_of_string ''data'' @ put_u32le pcm_bytes)"

fun wav_part_sync_media :: "FILE ptr \<Rightarrow> io_world \<Rightarrow> bool \<times> io_world" where
  "wav_part_sync_media None w = (False, w)"
| "wav_part_sync_media (Some fp) w =
     (case fflush fp w of
        (False, w) \<Rightarrow> (False, w)
      | (True, w) \<Rightarrow>
          (case fileno fp w of
             (False, w) \<Rightarrow> (False, w)
           | (True, w) \<Rightarrow> fsync fp w))"

record wav_part_t =
  wp_fp :: "FILE ptr"
  wp_pcm_bytes :: u32
  wp_sample_rate_hz :: u32
  wp_channels :: u16
  wp_bits_per_sample :: u16
  wp_open :: bool

text \<open>
  The callers have checked that the stream is open. The tail is computed in \<open>uint32_t\<close> and then
  converted to the signed 32-bit \<open>long\<close> of the device.
\<close>

definition wav_part_rewrite_header ::
    "wav_part_t \<Rightarrow> FILE \<Rightarrow> io_world \<Rightarrow> bool \<times> wav_part_t \<times> io_world" where
  "wav_part_rewrite_header part fp w =
     (let header = wav_part_build_header (wp_pcm_bytes part) (wp_sample_rate_hz part)
                     (wp_channels part) (wp_bits_per_sample part) in
      case fseek fp 0 w of
        (False, fp, w) \<Rightarrow> (False, part\<lparr>wp_fp := Some fp\<rparr>, w)
      | (True, fp, w) \<Rightarrow>
          (case fwrite fp header w of (wrote, fp, w) \<Rightarrow>
             if wrote \<noteq> length header then (False, part\<lparr>wp_fp := Some fp\<rparr>, w)
             else case wav_part_sync_media (Some fp) w of
               (False, w) \<Rightarrow> (False, part\<lparr>wp_fp := Some fp\<rparr>, w)
             | (True, w) \<Rightarrow>
                 (case fseek fp (sint (of_nat RECORDER_WAV_HEADER_SIZE + wp_pcm_bytes part)) w of
                    (ok, fp, w) \<Rightarrow> (ok, part\<lparr>wp_fp := Some fp\<rparr>, w))))"

definition wav_part_open ::
    "wav_part_t ptr \<Rightarrow> string ptr \<Rightarrow> u32 \<Rightarrow> u16 \<Rightarrow> u16 \<Rightarrow> io_world \<Rightarrow>
     bool \<times> wav_part_t ptr \<times> io_world" where
  "wav_part_open part path sample_rate_hz channels bits_per_sample w =
     (case (part, path) of
        (None, _) \<Rightarrow> (False, part, w)
      | (_, None) \<Rightarrow> (False, part, w)
      | (Some pt, Some pa) \<Rightarrow>
          if \<not> has_part_suffix path then (False, part, w)
          else if channels = 0 \<or> bits_per_sample = 0 \<or> bits_per_sample mod 8 \<noteq> 0
          then (False, part, w)
          else case fopen WB pa w of
            (None, w) \<Rightarrow> (False, Some (pt\<lparr>wp_fp := None, wp_open := False\<rparr>), w)
          | (Some fp, w) \<Rightarrow>
              (let pt = pt\<lparr>wp_fp := Some fp, wp_pcm_bytes := 0, wp_sample_rate_hz := sample_rate_hz,
                           wp_channels := channels, wp_bits_per_sample := bits_per_sample,
                           wp_open := True\<rparr>;
                   closed = pt\<lparr>wp_fp := None, wp_open := False, wp_pcm_bytes := 0\<rparr>;
                   header = wav_part_build_header 0 sample_rate_hz channels bits_per_sample in
               case fwrite fp header w of (wrote, fp, w) \<Rightarrow>
                 if wrote \<noteq> length header then (False, Some closed, snd (fclose fp w))
                 else case wav_part_sync_media (Some fp) w of
                   (False, w) \<Rightarrow> (False, Some closed, snd (fclose fp w))
                 | (True, w) \<Rightarrow> (True, Some (pt\<lparr>wp_fp := Some fp\<rparr>), w)))"

definition wav_part_write ::
    "wav_part_t ptr \<Rightarrow> byte list ptr \<Rightarrow> io_world \<Rightarrow> bool \<times> wav_part_t ptr \<times> io_world" where
  "wav_part_write part pcm w =
     (case part of
        None \<Rightarrow> (False, part, w)
      | Some pt \<Rightarrow>
          (case wp_fp pt of
             None \<Rightarrow> (False, part, w)
           | Some fp \<Rightarrow>
               if \<not> wp_open pt then (False, part, w)
               else case pcm of
                 None \<Rightarrow> (True, part, w)
               | Some data \<Rightarrow>
                   (let len = length data;
                        usable = len - len mod (unat (wp_bits_per_sample pt) div 8) in
                    if usable = 0 then (True, part, w)
                    else case fwrite fp (take usable data) w of (wrote, fp, w) \<Rightarrow>
                      if wrote \<noteq> usable then (False, Some (pt\<lparr>wp_fp := Some fp\<rparr>), w)
                      else (True, Some (pt\<lparr>wp_fp := Some fp,
                               wp_pcm_bytes := wp_pcm_bytes pt + of_nat usable\<rparr>), w))))"

definition wav_part_flush ::
    "wav_part_t ptr \<Rightarrow> io_world \<Rightarrow> bool \<times> wav_part_t ptr \<times> io_world" where
  "wav_part_flush part w =
     (case part of
        None \<Rightarrow> (False, part, w)
      | Some pt \<Rightarrow>
          (case wp_fp pt of
             None \<Rightarrow> (False, part, w)
           | Some fp \<Rightarrow>
               if \<not> wp_open pt then (False, part, w)
               else case wav_part_rewrite_header pt fp w of (ok, pt, w) \<Rightarrow> (ok, Some pt, w)))"

definition wav_part_close ::
    "wav_part_t ptr \<Rightarrow> io_world \<Rightarrow> bool \<times> wav_part_t ptr \<times> io_world" where
  "wav_part_close part w =
     (case part of
        None \<Rightarrow> (True, part, w)
      | Some pt \<Rightarrow>
          if \<not> wp_open pt then (True, part, w)
          else case wp_fp pt of
            None \<Rightarrow> (True, Some (pt\<lparr>wp_fp := None, wp_open := False\<rparr>), w)
          | Some fp \<Rightarrow>
              (case wav_part_rewrite_header pt fp w of (ok, pt, w) \<Rightarrow>
               case fclose fp w of (closed, w) \<Rightarrow>
                 (ok \<and> closed, Some (pt\<lparr>wp_fp := None, wp_open := False\<rparr>), w)))"

fun wav_part_pcm_bytes :: "wav_part_t ptr \<Rightarrow> u32" where
  "wav_part_pcm_bytes None = 0"
| "wav_part_pcm_bytes (Some pt) = wp_pcm_bytes pt"

subsection \<open>The sink\<close>

record sd_pcm_sink_t =
  sk_wav :: wav_part_t
  sk_open :: bool
  sk_chunks_written :: u32
  sk_write_errors :: u32
  sk_max_latency_us :: u32

definition sd_pcm_sink_open ::
    "sd_pcm_sink_t ptr \<Rightarrow> string ptr \<Rightarrow> io_world \<Rightarrow> bool \<times> sd_pcm_sink_t ptr \<times> io_world" where
  "sd_pcm_sink_open sink path w =
     (case sink of
        None \<Rightarrow> (False, None, w)
      | Some sk \<Rightarrow>
          (case wav_part_open (Some (sk_wav sk)) path (of_nat RECORDER_SAMPLE_RATE_HZ)
                  (of_nat RECORDER_CHANNELS) (of_nat RECORDER_BITS_PER_SAMPLE) w of
             (ok, wav, w) \<Rightarrow>
               (ok, Some (sk\<lparr>sk_chunks_written := 0, sk_write_errors := 0, sk_max_latency_us := 0,
                            sk_wav := the wav, sk_open := ok\<rparr>), w)))"

definition sd_pcm_sink_write_chunk ::
    "sd_pcm_sink_t ptr \<Rightarrow> byte list ptr \<Rightarrow> u32 \<Rightarrow> u32 \<Rightarrow> io_world \<Rightarrow>
     bool \<times> u32 option \<times> sd_pcm_sink_t ptr \<times> io_world" where
  \<comment> \<open>\<open>start_us\<close> and \<open>end_us\<close> are the two clock readings; the second result is \<open>*out_latency_us\<close>.\<close>
  "sd_pcm_sink_write_chunk sink data start_us end_us w =
     (case sink of
        None \<Rightarrow> (False, None, sink, w)
      | Some sk \<Rightarrow>
          if \<not> sk_open sk then (False, None, sink, w)
          else if data = None \<or> length (the data) \<noteq> RECORDER_BUFFER_BYTES
          then (False, None, Some (sk\<lparr>sk_write_errors := sk_write_errors sk + 1\<rparr>), w)
          else
            (case wav_part_write (Some (sk_wav sk)) data w of (ok, wav, w) \<Rightarrow>
               (let latency_us = end_us - start_us; sk = sk\<lparr>sk_wav := the wav\<rparr> in
                if \<not> ok
                then (False, Some latency_us,
                      Some (sk\<lparr>sk_write_errors := sk_write_errors sk + 1\<rparr>), w)
                else (True, Some latency_us,
                      Some (sk\<lparr>sk_chunks_written := sk_chunks_written sk + 1,
                              sk_max_latency_us := (if latency_us > sk_max_latency_us sk
                                then latency_us else sk_max_latency_us sk)\<rparr>), w))))"

definition sd_pcm_sink_flush ::
    "sd_pcm_sink_t ptr \<Rightarrow> io_world \<Rightarrow> bool \<times> sd_pcm_sink_t ptr \<times> io_world" where
  "sd_pcm_sink_flush sink w =
     (case sink of
        None \<Rightarrow> (False, sink, w)
      | Some sk \<Rightarrow>
          if \<not> sk_open sk then (False, sink, w)
          else case wav_part_flush (Some (sk_wav sk)) w of
            (ok, wav, w) \<Rightarrow> (ok, Some (sk\<lparr>sk_wav := the wav\<rparr>), w))"

definition sd_pcm_sink_close ::
    "sd_pcm_sink_t ptr \<Rightarrow> io_world \<Rightarrow> bool \<times> sd_pcm_sink_t ptr \<times> io_world" where
  "sd_pcm_sink_close sink w =
     (case sink of
        None \<Rightarrow> (True, sink, w)
      | Some sk \<Rightarrow>
          if \<not> sk_open sk then (True, sink, w)
          else case wav_part_close (Some (sk_wav sk)) w of
            (ok, wav, w) \<Rightarrow> (ok, Some (sk\<lparr>sk_wav := the wav, sk_open := False\<rparr>), w))"


section \<open>Lemmas\<close>

lemma length_put_u16le [simp]: "length (put_u16le v) = 2"
  by (simp add: put_u16le_def)

lemma length_put_u32le [simp]: "length (put_u32le v) = 4"
  by (simp add: put_u32le_def)

lemma length_build_header [simp]: "length (wav_part_build_header n r c b) = RECORDER_WAV_HEADER_SIZE"
  by (simp add: wav_part_build_header_def Let_def config_simps)

lemma sync_media_touches [io_frame]:
  "wav_part_sync_media (Some fp) w = (ok, w') \<Longrightarrow> touches {fpath fp} w w'"
  by (auto split: prod.splits bool.splits intro: touches_trans
      dest!: fflush_touches[where A="{fpath fp}"] fileno_touches[where A="{fpath fp}"] fsync_touches)

lemma fflush_files: "fflush h w = (ok, w') \<Longrightarrow> files w' = files w \<and> unsynced w' = unsynced w"
  using io_try_same(1,2)[of w ok w'] by (simp add: fflush_def)

lemma fileno_files: "fileno h w = (ok, w') \<Longrightarrow> files w' = files w \<and> unsynced w' = unsynced w"
  using io_try_same(1,2)[of w ok w'] by (simp add: fileno_def)

lemma fclose_files: "fclose h w = (ok, w') \<Longrightarrow> files w' = files w \<and> unsynced w' = unsynced w"
  using io_try_same(1,2)[of w ok w'] by (simp add: fclose_def)

lemma fseek_files:
  assumes "fseek h pos w = (ok, h', w')"
  shows "files w' = files w \<and> unsynced w' = unsynced w"
proof (cases "io_try w")
  case (Pair ok1 w1)
  show ?thesis
    using assms Pair io_try_same(1,2)[OF Pair] by (auto simp: fseek_def split: bool.splits if_splits)
qed

lemma sync_media_files:
  assumes "wav_part_sync_media (Some fp) w = (ok, w')"
  shows "files w' = files w"
proof -
  obtain a wa where a: "fflush fp w = (a, wa)" by fastforce
  obtain b wb where b: "fileno fp wa = (b, wb)" by fastforce
  obtain c wc where c: "fsync fp wb = (c, wc)" by fastforce
  have "files wa = files w" "files wb = files w" "files wc = files w"
    using fflush_files[OF a] fileno_files[OF b] fsync_files[OF c] by simp_all
  with assms a b c show ?thesis by (cases a; cases b) auto
qed

lemma sync_media_synced:
  "wav_part_sync_media (Some fp) w = (True, w') \<Longrightarrow> \<not> unsynced w' (fpath fp)"
  by (auto split: prod.splits bool.splits dest: fsync_synced)

lemma rewrite_header_touches [io_frame]:
  assumes "wav_part_rewrite_header part fp w = (ok, part', w')"
  shows "touches {fpath fp} w w'"
proof -
  let ?h = "wav_part_build_header (wp_pcm_bytes part) (wp_sample_rate_hz part) (wp_channels part)
    (wp_bits_per_sample part)"
  let ?t = "sint (of_nat RECORDER_WAV_HEADER_SIZE + wp_pcm_bytes part)"
  obtain ok1 fp1 w1 where c1: "fseek fp 0 w = (ok1, fp1, w1)" by (metis prod_cases3)
  obtain n fp2 w2 where c2: "fwrite fp1 ?h w1 = (n, fp2, w2)" by (metis prod_cases3)
  obtain ok3 w3 where c3: "wav_part_sync_media (Some fp2) w2 = (ok3, w3)" by (metis prod.exhaust)
  obtain ok4 fp4 w4 where c4: "fseek fp2 ?t w3 = (ok4, fp4, w4)" by (metis prod_cases3)
  have p: "fpath fp1 = fpath fp" "fpath fp2 = fpath fp"
    using fseek_handle[OF c1] fwrite_files(2)[OF c2] by simp_all
  have t1: "touches {fpath fp} w w1" by (rule fseek_touches[OF c1])
  have t2: "touches {fpath fp} w w2" using t1 fwrite_touches[OF c2] p by (metis touches_trans)
  have t3: "touches {fpath fp} w w3" using t2 sync_media_touches[OF c3] p by (metis touches_trans)
  have t4: "touches {fpath fp} w w4" using t3 fseek_touches[OF c4] by (rule touches_trans)
  have "w' \<in> {w1, w2, w3, w4}"
    using assms c1 c2 c3 c4
    by (simp add: wav_part_rewrite_header_def Let_def del: wav_part_sync_media.simps
        split: bool.splits if_splits)
  with t1 t2 t3 t4 show ?thesis by blast
qed

lemma rewrite_header_part:
  assumes "wav_part_rewrite_header part fp w = (ok, part', w')"
  shows "\<exists>fp'. part' = part\<lparr>wp_fp := Some fp'\<rparr> \<and> fpath fp' = fpath fp"
  using assms
  by (auto simp: wav_part_rewrite_header_def Let_def simp del: wav_part_sync_media.simps
      split: prod.splits bool.splits if_splits dest!: fseek_handle fwrite_files(2))

definition wav_fmt :: "wav_part_t \<Rightarrow> u32 \<times> u16 \<times> u16" where
  "wav_fmt part = (wp_sample_rate_hz part, wp_channels part, wp_bits_per_sample part)"

text \<open>
  A header of the given format whose two size fields may be stale or half written: what a header
  rewrite that broke off leaves.
\<close>

definition header_like :: "u32 \<times> u16 \<times> u16 \<Rightarrow> byte list \<Rightarrow> bool" where
  "header_like fmt hdr \<longleftrightarrow> length hdr = RECORDER_WAV_HEADER_SIZE \<and>
     (case fmt of (r, c, b) \<Rightarrow> \<forall>i < RECORDER_WAV_HEADER_SIZE. i < 4 \<or> 8 \<le> i \<and> i < 40 \<longrightarrow>
        hdr ! i = wav_part_build_header 0 r c b ! i)"

lemma header_like_length: "header_like fmt hdr \<Longrightarrow> length hdr = RECORDER_WAV_HEADER_SIZE"
  by (simp add: header_like_def)

lemma build_header_fields:
  "\<exists>mid. length mid = 32 \<and> (\<forall>n. wav_part_build_header n r c b =
      bytes_of_string ''RIFF'' @ put_u32le (36 + n) @ mid @ put_u32le n)"
  by (rule exI[of _ "bytes_of_string ''WAVE'' @ bytes_of_string ''fmt '' @ put_u32le 16 @ put_u16le 1 @
    put_u16le c @ put_u32le r @ put_u32le (r * ucast (c * (b div 8))) @ put_u16le (c * (b div 8)) @
    put_u16le b @ bytes_of_string ''data''"]) (simp add: wav_part_build_header_def Let_def)

lemma header_nth_indep:
  assumes "i < 4 \<or> 8 \<le> i \<and> i < 40"
  shows "wav_part_build_header n r c b ! i = wav_part_build_header m r c b ! i"
proof -
  obtain mid where m: "length mid = 32" "\<And>n. wav_part_build_header n r c b =
      bytes_of_string ''RIFF'' @ put_u32le (36 + n) @ mid @ put_u32le n"
    using build_header_fields[of r c b] by blast
  show ?thesis using assms m(1) unfolding m(2) by (auto simp: nth_append)
qed

lemma header_like_build [simp]: "header_like (r, c, b) (wav_part_build_header n r c b)"
  using header_nth_indep[of _ n r c b 0] by (auto simp: header_like_def)

lemma header_like_mix:
  "header_like fmt h \<Longrightarrow> header_like fmt hdr \<Longrightarrow> header_like fmt (take k h @ drop k hdr)"
  by (auto simp: header_like_def nth_append split: prod.splits)

text \<open>
  An open part file between operations: the stream stands at the end of 44 header bytes followed by
  \<open>payload\<close>, and the counter is the payload length.
\<close>

definition wav_at :: "wav_part_t \<Rightarrow> io_world \<Rightarrow> string \<Rightarrow> byte list \<Rightarrow> bool" where
  "wav_at part w path payload \<longleftrightarrow>
     wp_open part \<and> wp_pcm_bytes part = of_nat (length payload) \<and>
     (\<exists>fp hdr. wp_fp part = Some fp \<and> fpath fp = path \<and>
        fpos fp = RECORDER_WAV_HEADER_SIZE + length payload \<and>
        header_like (wav_fmt part) hdr \<and> files w path = Some (hdr @ payload))"

definition part_header :: "wav_part_t \<Rightarrow> byte list" where
  "part_header part = wav_part_build_header (wp_pcm_bytes part) (wp_sample_rate_hz part)
     (wp_channels part) (wp_bits_per_sample part)"

lemma header_like_part [simp]: "header_like (wav_fmt part) (part_header part)"
  by (simp add: wav_fmt_def part_header_def)

lemma sint_tail:
  assumes "RECORDER_WAV_HEADER_SIZE + n < 2 ^ 31"
  shows "sint (of_nat RECORDER_WAV_HEADER_SIZE + of_nat n :: u32) =
    int (RECORDER_WAV_HEADER_SIZE + n)"
proof -
  have "sint (of_nat (RECORDER_WAV_HEADER_SIZE + n) :: u32) = int (RECORDER_WAV_HEADER_SIZE + n)"
    using assms by (simp add: signed_of_nat signed_take_bit_int_eq_self del: of_nat_add)
  then show ?thesis by simp
qed

text \<open>Rewriting the header replaces the 44 header bytes and nothing else; success means synced.\<close>

lemma rewrite_header_ok:
  assumes at: "wav_at part w path payload" and fp: "wp_fp part = Some fp"
    and len: "RECORDER_WAV_HEADER_SIZE + length payload < 2 ^ 31"
    and rw: "wav_part_rewrite_header part fp w = (True, part', w')"
  shows "wav_at part' w' path payload" "files w' path = Some (part_header part @ payload)"
    "\<not> unsynced w' path" "part_header part' = part_header part"
proof -
  obtain hdr where hdr: "fpath fp = path" "length hdr = RECORDER_WAV_HEADER_SIZE"
    "files w path = Some (hdr @ payload)" "wp_pcm_bytes part = of_nat (length payload)" "wp_open part"
    using at fp by (auto simp: wav_at_def dest: header_like_length)
  obtain fp1 w1 where s1: "fseek fp 0 w = (True, fp1, w1)"
    using rw by (auto simp: wav_part_rewrite_header_def Let_def split: prod.splits bool.splits)
  obtain n fp2 w2 where wr: "fwrite fp1 (part_header part) w1 = (n, fp2, w2)"
    by (metis prod_cases3)
  have n: "n = RECORDER_WAV_HEADER_SIZE"
    using rw s1 wr by (auto simp: wav_part_rewrite_header_def Let_def part_header_def split: if_splits)
  obtain w3 where sy: "wav_part_sync_media (Some fp2) w2 = (True, w3)"
    using rw s1 wr n
    by (auto simp: wav_part_rewrite_header_def Let_def part_header_def
        simp del: wav_part_sync_media.simps split: prod.splits bool.splits)
  obtain fp3 where s3: "fseek fp2 (sint (of_nat RECORDER_WAV_HEADER_SIZE + wp_pcm_bytes part)) w3 =
      (True, fp3, w')" and part': "part' = part\<lparr>wp_fp := Some fp3\<rparr>"
    using rw s1 wr n sy
    by (auto simp: wav_part_rewrite_header_def Let_def part_header_def
        simp del: wav_part_sync_media.simps split: prod.splits)
  note h1 = fseek_handle[OF s1] fseek_files[OF s1]
  note h2 = fwrite_files[OF wr]
  note h3 = fseek_handle[OF s3] fseek_files[OF s3]
  have p2: "fpath fp2 = path" using h2(2) h1 hdr(1) by simp
  have "files w2 path = Some (write_at 0 (part_header part) (hdr @ payload))"
    using h2(1) h1 hdr n by (auto simp: part_header_def)
  then have f2: "files w2 path = Some (part_header part @ payload)"
    using hdr(2) by (simp add: write_at_0 part_header_def)
  with sync_media_files[OF sy] h3(2) show f: "files w' path = Some (part_header part @ payload)" by simp
  show "\<not> unsynced w' path" using sync_media_synced[OF sy] h3(2) p2 by simp
  have "fpos fp3 = RECORDER_WAV_HEADER_SIZE + length payload"
    using h3(1) sint_tail[OF len] hdr(4) by simp
  then show "wav_at part' w' path payload"
    using f h3(1) p2 hdr header_like_part[of part] by (auto simp: wav_at_def part' part_header_def wav_fmt_def)
  show "part_header part' = part_header part" by (simp add: part' part_header_def)
qed

lemma wav_part_open_ok:
  assumes "wav_part_open (Some pt) (Some path) r c b w = (True, Some pt', w')"
  shows "wav_at pt' w' path []" "files w' path = Some (part_header pt')" "\<not> unsynced w' path"
    "wp_sample_rate_hz pt' = r" "wp_channels pt' = c" "wp_bits_per_sample pt' = b"
    "b \<noteq> 0" "b mod 8 = 0" "has_part_suffix (Some path)"
proof -
  let ?h = "wav_part_build_header 0 r c b"
  have g: "has_part_suffix (Some path)" "c \<noteq> 0" "b \<noteq> 0" "b mod 8 = 0"
    using assms by (auto simp: wav_part_open_def split: if_splits)
  obtain fp w1 where op: "fopen WB path w = (Some fp, w1)"
    using assms g by (auto simp: wav_part_open_def split: prod.splits option.splits)
  then have fp: "fpath fp = path" "fpos fp = 0" "files w1 path = Some []"
    by (auto simp: fopen_def split: prod.splits bool.splits)
  obtain n fp2 w2 where wr: "fwrite fp ?h w1 = (n, fp2, w2)" by (metis prod_cases3)
  have n: "n = RECORDER_WAV_HEADER_SIZE"
    using assms g op wr by (auto simp: wav_part_open_def Let_def split: if_splits)
  have sy: "wav_part_sync_media (Some fp2) w2 = (True, w')"
    and pt': "pt' = pt\<lparr>wp_fp := Some fp2, wp_pcm_bytes := 0, wp_sample_rate_hz := r,
      wp_channels := c, wp_bits_per_sample := b, wp_open := True\<rparr>"
    using assms g op wr n
    by (auto simp: wav_part_open_def Let_def simp del: wav_part_sync_media.simps
        split: prod.splits bool.splits)
  note h2 = fwrite_files[OF wr]
  have "files w2 path = Some (write_at 0 ?h [])" using h2(1) fp n by auto
  then have f: "files w' path = Some ?h" using sync_media_files[OF sy] by (simp add: write_at_0)
  then show "files w' path = Some (part_header pt')" by (simp add: part_header_def pt')
  show "\<not> unsynced w' path" using sync_media_synced[OF sy] h2(2) fp by simp
  show "wav_at pt' w' path []"
    using f h2(2,3) fp n by (auto simp: wav_at_def pt' wav_fmt_def)
  show "wp_sample_rate_hz pt' = r" "wp_channels pt' = c" "wp_bits_per_sample pt' = b"
    by (simp_all add: pt')
qed (use assms in \<open>auto simp: wav_part_open_def split: if_splits\<close>)

text \<open>The whole samples of a chunk.\<close>

definition whole_samples :: "wav_part_t \<Rightarrow> byte list \<Rightarrow> byte list" where
  "whole_samples part data =
     take (length data - length data mod (unat (wp_bits_per_sample part) div 8)) data"

lemma wav_part_write_ok:
  assumes at: "wav_at part w path payload"
    and wr: "wav_part_write (Some part) (Some data) w = (True, Some part', w')"
  shows "wav_at part' w' path (payload @ whole_samples part data)"
    "wp_sample_rate_hz part' = wp_sample_rate_hz part" "wp_channels part' = wp_channels part"
    "wp_bits_per_sample part' = wp_bits_per_sample part"
proof -
  obtain fp hdr where fp: "wp_fp part = Some fp" "fpath fp = path" "wp_open part"
    "fpos fp = RECORDER_WAV_HEADER_SIZE + length payload" "header_like (wav_fmt part) hdr"
    "files w path = Some (hdr @ payload)" "wp_pcm_bytes part = of_nat (length payload)"
    using at by (auto simp: wav_at_def)
  define u where "u = length data - length data mod (unat (wp_bits_per_sample part) div 8)"
  have ws: "whole_samples part data = take u data" by (simp add: whole_samples_def u_def)
  have lu: "length (take u data) = u" by (simp add: u_def)
  have "wav_at part' w' path (payload @ take u data) \<and>
    wp_sample_rate_hz part' = wp_sample_rate_hz part \<and> wp_channels part' = wp_channels part \<and>
    wp_bits_per_sample part' = wp_bits_per_sample part"
  proof (cases "u = 0")
    case True
    with wr fp at show ?thesis by (auto simp: wav_part_write_def Let_def u_def)
  next
    case False
    obtain n fp2 w2 where fw: "fwrite fp (take u data) w = (n, fp2, w2)" by (metis prod_cases3)
    with wr fp False have n: "n = u" and w': "w' = w2"
      and p': "part' = part\<lparr>wp_fp := Some fp2, wp_pcm_bytes := wp_pcm_bytes part + of_nat u\<rparr>"
      by (auto simp: wav_part_write_def Let_def u_def split: if_splits)
    note h = fwrite_files[OF fw]
    have "files w2 path = Some (hdr @ payload @ take u data)"
      using h(1) fp n lu header_like_length[OF fp(5)] by auto
    then show ?thesis
      using h(2,3) fp n lu by (auto simp: wav_at_def p' w' wav_fmt_def)
  qed
  then show "wav_at part' w' path (payload @ whole_samples part data)"
    "wp_sample_rate_hz part' = wp_sample_rate_hz part" "wp_channels part' = wp_channels part"
    "wp_bits_per_sample part' = wp_bits_per_sample part"
    unfolding ws by simp_all
qed

section \<open>Failures keep the audio\<close>

text \<open>
  \<open>wav_kept\<close> is what remains after an operation failed: the stream may stand anywhere and bytes of
  a broken write may follow, but the acknowledged payload is in place behind the header.
\<close>

definition wav_kept :: "wav_part_t \<Rightarrow> io_world \<Rightarrow> string \<Rightarrow> byte list \<Rightarrow> bool" where
  "wav_kept part w path payload \<longleftrightarrow>
     wp_open part \<and> wp_pcm_bytes part = of_nat (length payload) \<and>
     (\<exists>fp hdr junk. wp_fp part = Some fp \<and> fpath fp = path \<and>
        header_like (wav_fmt part) hdr \<and> files w path = Some (hdr @ payload @ junk))"

lemma wav_at_kept: "wav_at part w path payload \<Longrightarrow> wav_kept part w path payload"
  by (fastforce simp: wav_at_def wav_kept_def)

lemma write_at_0_header:
  "k \<le> length h \<Longrightarrow> length h = length hdr \<Longrightarrow>
   write_at 0 (take k h) (hdr @ rest) = (take k h @ drop k hdr) @ rest"
  by (simp add: write_at_0)

lemma rewrite_header_kept:
  assumes at: "wav_kept part w path payload" and fp: "wp_fp part = Some fp"
    and rw: "wav_part_rewrite_header part fp w = (ok, part', w')"
  shows "\<exists>hdr junk. header_like (wav_fmt part) hdr \<and>
           files w' path = Some (hdr @ payload @ junk) \<and>
           (ok \<longrightarrow> hdr = part_header part \<and> \<not> unsynced w' path)"
proof -
  obtain hdr junk where k: "fpath fp = path" "header_like (wav_fmt part) hdr"
    "files w path = Some (hdr @ payload @ junk)"
    using at fp by (auto simp: wav_kept_def)
  let ?h = "part_header part"
  let ?t = "sint (of_nat RECORDER_WAV_HEADER_SIZE + wp_pcm_bytes part)"
  obtain ok1 fp1 w1 where c1: "fseek fp 0 w = (ok1, fp1, w1)" by (metis prod_cases3)
  obtain n fp2 w2 where c2: "fwrite fp1 ?h w1 = (n, fp2, w2)" by (metis prod_cases3)
  obtain ok3 w3 where c3: "wav_part_sync_media (Some fp2) w2 = (ok3, w3)" by (metis prod.exhaust)
  obtain ok4 fp4 w4 where c4: "fseek fp2 ?t w3 = (ok4, fp4, w4)" by (metis prod_cases3)
  note h1 = fseek_handle[OF c1] fseek_files[OF c1]
  have p2: "fpath fp2 = path" using fwrite_files(2)[OF c2] h1 k(1) by simp
  note lk = header_like_length[OF k(2)]
  have lh: "length ?h = RECORDER_WAV_HEADER_SIZE" by (simp add: part_header_def)
  have f1: "files w1 path = Some (hdr @ payload @ junk)" using h1 k(3) by simp
  have f4: "files w3 = files w2" "files w4 = files w2" "unsynced w4 = unsynced w3"
    using sync_media_files[OF c3] fseek_files[OF c4] by simp_all
  have f2: "\<exists>hdr'. header_like (wav_fmt part) hdr' \<and>
      files w2 path = Some (hdr' @ payload @ junk) \<and> (n = length ?h \<longrightarrow> hdr' = ?h)" if ok1
  proof -
    obtain m where m: "m \<le> length ?h" "n = length ?h \<longrightarrow> m = length ?h"
      "\<And>c. files w1 (fpath fp1) = Some c \<Longrightarrow> fpos fp1 \<le> length c \<Longrightarrow>
         files w2 (fpath fp1) = Some (write_at (fpos fp1) (take m ?h) c)"
      using fwrite_files(1)[OF c2] by blast
    have "files w2 path = Some ((take m ?h @ drop m hdr) @ payload @ junk)"
      using m(3)[of "hdr @ payload @ junk"] f1 h1 that k(1) lk lh m(1)
      by (simp add: write_at_0_header)
    then show ?thesis using m(1,2) lh lk header_like_mix[OF header_like_part[of part] k(2), of m]
      by (intro exI[of _ "take m ?h @ drop m hdr"]) auto
  qed
  show ?thesis
  proof (cases ok1)
    case False
    then show ?thesis using rw c1 f1 k
      by (auto simp: wav_part_rewrite_header_def Let_def)
  next
    case True
    then obtain hdr' where f2: "header_like (wav_fmt part) hdr'"
      "files w2 path = Some (hdr' @ payload @ junk)" "n = length ?h \<longrightarrow> hdr' = ?h"
      using f2 by blast
    have "w' \<in> {w2, w3, w4} \<and> (ok \<longrightarrow> w' = w4 \<and> n = length ?h \<and> ok3)"
      using rw c1 c2 c3 c4 True
      by (auto simp: wav_part_rewrite_header_def Let_def part_header_def
          simp del: wav_part_sync_media.simps split: bool.splits if_splits)
    then show ?thesis
      using f2 f4 sync_media_synced[of fp2 w2 w3] c3 p2
      by (intro exI[of _ hdr'] exI[of _ junk]) auto
  qed
qed

lemma wav_part_write_kept:
  assumes at: "wav_at part w path payload"
    and wr: "wav_part_write (Some part) (Some data) w = (ok, Some part', w')"
  shows "wav_kept part' w' path (payload @ (if ok then whole_samples part data else []))"
    and "wav_fmt part' = wav_fmt part"
proof -
  have "wav_kept part' w' path (payload @ (if ok then whole_samples part data else [])) \<and>
    wav_fmt part' = wav_fmt part"
  proof (cases ok)
    case True
    then show ?thesis using wav_part_write_ok[OF at, of data part' w'] wr wav_at_kept
      by (auto simp: wav_fmt_def)
  next
    case False
    obtain fp hdr where fp: "wp_fp part = Some fp" "fpath fp = path" "wp_open part"
      "fpos fp = RECORDER_WAV_HEADER_SIZE + length payload" "header_like (wav_fmt part) hdr"
      "files w path = Some (hdr @ payload)" "wp_pcm_bytes part = of_nat (length payload)"
      using at by (auto simp: wav_at_def)
    define u where "u = length data - length data mod (unat (wp_bits_per_sample part) div 8)"
    obtain n fp2 w2 where fw: "fwrite fp (take u data) w = (n, fp2, w2)" by (metis prod_cases3)
    with wr fp False have p': "part' = part\<lparr>wp_fp := Some fp2\<rparr>" "w' = w2"
      by (auto simp: wav_part_write_def Let_def u_def split: if_splits)
    obtain k where "files w2 path = Some (write_at (fpos fp) (take k (take u data)) (hdr @ payload))"
      using fwrite_files(1)[OF fw] fp header_like_length[OF fp(5)] by auto
    then have "files w2 path = Some (hdr @ payload @ take k (take u data))"
      using fp header_like_length[OF fp(5)] by simp
    then show ?thesis using False fp p' fwrite_files(2)[OF fw]
      by (auto simp: wav_kept_def wav_fmt_def)
  qed
  then show "wav_kept part' w' path (payload @ (if ok then whole_samples part data else []))"
    and "wav_fmt part' = wav_fmt part" by auto
qed

lemma wav_part_flush_kept:
  assumes at: "wav_kept part w path payload"
    and fl: "wav_part_flush (Some part) w = (ok, Some part', w')"
  shows "wav_kept part' w' path payload" "wav_fmt part' = wav_fmt part"
proof -
  obtain fp where fp: "wp_fp part = Some fp" "wp_open part" "fpath fp = path"
    using at by (auto simp: wav_kept_def)
  then have rw: "wav_part_rewrite_header part fp w = (ok, part', w')"
    using fl by (auto simp: wav_part_flush_def split: prod.splits)
  obtain fp' where p': "part' = part\<lparr>wp_fp := Some fp'\<rparr>" "fpath fp' = fpath fp"
    using rewrite_header_part[OF rw] by blast
  show "wav_kept part' w' path payload"
    using rewrite_header_kept[OF at fp(1) rw] at fp p' by (auto simp: wav_kept_def wav_fmt_def)
  show "wav_fmt part' = wav_fmt part" by (simp add: p' wav_fmt_def)
qed

lemma wav_part_flush_ok:
  assumes at: "wav_at part w path payload" and len: "RECORDER_WAV_HEADER_SIZE + length payload < 2 ^ 31"
    and fl: "wav_part_flush (Some part) w = (True, Some part', w')"
  shows "wav_at part' w' path payload" "files w' path = Some (part_header part @ payload)"
    "\<not> unsynced w' path" "wav_fmt part' = wav_fmt part"
proof -
  obtain fp where fp: "wp_fp part = Some fp" "wp_open part" "fpath fp = path"
    using at by (auto simp: wav_at_def)
  then have rw: "wav_part_rewrite_header part fp w = (True, part', w')"
    using fl by (auto simp: wav_part_flush_def split: prod.splits)
  show "wav_at part' w' path payload" "files w' path = Some (part_header part @ payload)"
    "\<not> unsynced w' path"
    using rewrite_header_ok[OF at fp(1) len rw] by simp_all
  show "wav_fmt part' = wav_fmt part"
    using rewrite_header_part[OF rw] by (auto simp: wav_fmt_def)
qed

lemma wav_part_close_kept:
  assumes at: "wav_kept part w path payload"
    and cl: "wav_part_close (Some part) w = (ok, Some part', w')"
  shows "\<exists>hdr junk. header_like (wav_fmt part) hdr \<and>
           files w' path = Some (hdr @ payload @ junk) \<and>
           (ok \<longrightarrow> hdr = part_header part \<and> \<not> unsynced w' path)"
    and "wp_fp part' = None" "\<not> wp_open part'"
proof -
  obtain fp where fp: "wp_fp part = Some fp" "wp_open part" "fpath fp = path"
    using at by (auto simp: wav_kept_def)
  obtain ok1 part1 w1 where rw: "wav_part_rewrite_header part fp w = (ok1, part1, w1)"
    by (metis prod_cases3)
  obtain ok2 w2 where fc: "fclose fp w1 = (ok2, w2)" by fastforce
  have w': "w' = w2" "ok = (ok1 \<and> ok2)" "part' = part1\<lparr>wp_fp := None, wp_open := False\<rparr>"
    using cl fp rw fc by (auto simp: wav_part_close_def)
  show "\<exists>hdr junk. header_like (wav_fmt part) hdr \<and>
           files w' path = Some (hdr @ payload @ junk) \<and>
           (ok \<longrightarrow> hdr = part_header part \<and> \<not> unsynced w' path)"
    using rewrite_header_kept[OF at fp(1) rw] fclose_files[OF fc] w' by auto
  show "wp_fp part' = None" "\<not> wp_open part'" by (simp_all add: w')
qed

lemma wav_part_close_ok:
  assumes at: "wav_at part w path payload" and len: "RECORDER_WAV_HEADER_SIZE + length payload < 2 ^ 31"
    and cl: "wav_part_close (Some part) w = (True, Some part', w')"
  shows "files w' path = Some (part_header part @ payload)"
proof -
  obtain fp where fp: "wp_fp part = Some fp" "wp_open part" "fpath fp = path"
    using at by (auto simp: wav_at_def)
  obtain part1 w1 where rw: "wav_part_rewrite_header part fp w = (True, part1, w1)"
    using cl fp by (auto simp: wav_part_close_def split: prod.splits)
  obtain ok2 w2 where fc: "fclose fp w1 = (ok2, w2)" by fastforce
  have "w' = w2" using cl fp rw fc by (auto simp: wav_part_close_def)
  then show ?thesis using rewrite_header_ok(2)[OF at fp(1) len rw] fclose_files[OF fc] by simp
qed

lemma wav_part_write_touches [io_frame]:
  assumes "wav_part_write (Some part) pcm w = (ok, part', w')" "wp_fp part = Some fp"
  shows "touches {fpath fp} w w'"
proof (cases pcm)
  case None
  with assms show ?thesis by (auto simp: wav_part_write_def split: if_splits)
next
  case (Some data)
  define u where "u = length data - length data mod (unat (wp_bits_per_sample part) div 8)"
  obtain n fp2 w2 where fw: "fwrite fp (take u data) w = (n, fp2, w2)" by (metis prod_cases3)
  have "w' \<in> {w, w2}"
    using assms Some fw by (auto simp: wav_part_write_def Let_def u_def split: if_splits)
  with fwrite_touches[OF fw] show ?thesis by auto
qed

lemma wav_part_flush_touches [io_frame]:
  assumes "wav_part_flush (Some part) w = (ok, part', w')" "wp_fp part = Some fp"
  shows "touches {fpath fp} w w'"
  using assms rewrite_header_touches[of part fp w]
  by (auto simp: wav_part_flush_def split: if_splits prod.splits)

lemma wav_part_close_touches [io_frame]:
  assumes "wav_part_close (Some part) w = (ok, part', w')" "wp_fp part = Some fp"
  shows "touches {fpath fp} w w'"
proof -
  obtain ok1 part1 w1 where rw: "wav_part_rewrite_header part fp w = (ok1, part1, w1)"
    by (metis prod_cases3)
  obtain ok2 w2 where fc: "fclose fp w1 = (ok2, w2)" by fastforce
  have "touches {fpath fp} w w2"
    using rewrite_header_touches[OF rw] fclose_touches[OF fc] by (rule touches_trans)
  moreover have "w' \<in> {w, w2}"
    using assms rw fc by (auto simp: wav_part_close_def split: if_splits)
  ultimately show ?thesis by auto
qed

section \<open>The interface of a PCM writer\<close>

text \<open>
  What the recording task relies on, whether it drives \<open>wav_part\<close> directly or through the sink: from
  a positioned file (\<open>at\<close>) a successful write appends its bytes, a successful flush brings header and
  media up to date, and a failing call at least keeps what was acknowledged (\<open>kept\<close>), which a
  following close never destroys. The bound on the size is the one of the 32-bit \<open>long\<close> that \<open>fseek\<close>
  takes (two gigabytes, 37 times the rotation size).
\<close>

datatype 'd wop = Put 'd | Sync

fun puts :: "'d wop list \<Rightarrow> 'd list" where
  "puts [] = []"
| "puts (Put d # ops) = d # puts ops"
| "puts (Sync # ops) = puts ops"

text \<open>A caller that writes and flushes until the first failure, with the chunks acknowledged.\<close>

fun session :: "('s \<Rightarrow> 'd \<Rightarrow> io_world \<Rightarrow> bool \<times> 's \<times> io_world) \<Rightarrow>
    ('s \<Rightarrow> io_world \<Rightarrow> bool \<times> 's \<times> io_world) \<Rightarrow>
    'd wop list \<Rightarrow> 's \<Rightarrow> io_world \<Rightarrow> 'd list \<times> bool \<times> 's \<times> io_world" where
  "session wr fl [] s w = ([], True, s, w)"
| "session wr fl (Put d # ops) s w =
     (case wr s d w of (ok, s, w) \<Rightarrow>
        if \<not> ok then ([], False, s, w)
        else case session wr fl ops s w of (acked, r) \<Rightarrow> (d # acked, r))"
| "session wr fl (Sync # ops) s w =
     (case fl s w of (ok, s, w) \<Rightarrow>
        if \<not> ok then ([], False, s, w) else session wr fl ops s w)"

definition small_payload :: "byte list \<Rightarrow> bool" where
  "small_payload x \<longleftrightarrow> RECORDER_WAV_HEADER_SIZE + length x < 2 ^ 31"

lemma small_payload_prefix: "small_payload (x @ y) \<Longrightarrow> small_payload x"
  by (simp add: small_payload_def)

locale pcm_writer =
  fixes at :: "'s \<Rightarrow> io_world \<Rightarrow> string \<Rightarrow> byte list \<Rightarrow> bool"
    and kept :: "'s \<Rightarrow> io_world \<Rightarrow> string \<Rightarrow> byte list \<Rightarrow> bool"
    and bytes :: "'d \<Rightarrow> byte list"
    and header :: "byte list \<Rightarrow> byte list"
    and ok_hdr :: "byte list \<Rightarrow> bool"
    and wr :: "'s \<Rightarrow> 'd \<Rightarrow> io_world \<Rightarrow> bool \<times> 's \<times> io_world"
    and fl :: "'s \<Rightarrow> io_world \<Rightarrow> bool \<times> 's \<times> io_world"
    and cl :: "'s \<Rightarrow> io_world \<Rightarrow> bool \<times> 's \<times> io_world"
  assumes at_kept: "at s w p x \<Longrightarrow> kept s w p x"
    and write_at: "at s w p x \<Longrightarrow> wr s d w = (True, s', w') \<Longrightarrow> at s' w' p (x @ bytes d)"
    and write_kept: "at s w p x \<Longrightarrow> wr s d w = (False, s', w') \<Longrightarrow> kept s' w' p x"
    and write_touches: "at s w p x \<Longrightarrow> wr s d w = (ok, s', w') \<Longrightarrow> touches {p} w w'"
    and flush_at: "at s w p x \<Longrightarrow> small_payload x \<Longrightarrow> fl s w = (True, s', w') \<Longrightarrow> at s' w' p x"
    and flush_durable: "at s w p x \<Longrightarrow> small_payload x \<Longrightarrow> fl s w = (True, s', w') \<Longrightarrow>
          files w' p = Some (header x @ x) \<and> \<not> unsynced w' p"
    and flush_kept: "at s w p x \<Longrightarrow> fl s w = (False, s', w') \<Longrightarrow> kept s' w' p x"
    and flush_touches: "at s w p x \<Longrightarrow> fl s w = (ok, s', w') \<Longrightarrow> touches {p} w w'"
    and close_exact: "at s w p x \<Longrightarrow> small_payload x \<Longrightarrow> cl s w = (True, s', w') \<Longrightarrow>
          files w' p = Some (header x @ x)"
    and close_kept: "kept s w p x \<Longrightarrow> cl s w = (ok, s', w') \<Longrightarrow>
          \<exists>hdr junk. ok_hdr hdr \<and> files w' p = Some (hdr @ x @ junk) \<and>
            (ok \<longrightarrow> hdr = header x \<and> \<not> unsynced w' p)"
    and close_touches: "kept s w p x \<Longrightarrow> cl s w = (ok, s', w') \<Longrightarrow> touches {p} w w'"
begin

lemma session_invariant:
  assumes "at s w p x" "small_payload (x @ concat (map bytes (puts ops)))"
    "session wr fl ops s w = (acked, ok, s', w')"
  shows "kept s' w' p (x @ concat (map bytes acked)) \<and> touches {p} w w' \<and>
    (\<exists>rest. puts ops = acked @ rest) \<and>
    (ok \<longrightarrow> at s' w' p (x @ concat (map bytes acked)) \<and> acked = puts ops)"
  using assms
proof (induction ops arbitrary: s w x acked)
  case Nil
  then show ?case by (auto simp: at_kept)
next
  case (Cons o1 ops)
  show ?case
  proof (cases o1)
    case (Put d)
    obtain ok1 s1 w1 where w1: "wr s d w = (ok1, s1, w1)" by (metis prod_cases3)
    note t1 = write_touches[OF Cons.prems(1) w1]
    show ?thesis
    proof (cases ok1)
      case False
      then show ?thesis using Cons.prems Put w1 t1 write_kept by auto
    next
      case True
      obtain acked' where r: "session wr fl ops s1 w1 = (acked', ok, s', w')" "acked = d # acked'"
        using Cons.prems(3) Put w1 True by (auto split: prod.splits)
      have "at s1 w1 p (x @ bytes d)" using write_at[OF Cons.prems(1)] w1 True by simp
      from Cons.IH[OF this _ r(1)] Cons.prems(2) Put t1 r(2) show ?thesis
        by (auto intro: touches_trans)
    qed
  next
    case Sync
    obtain ok1 s1 w1 where w1: "fl s w = (ok1, s1, w1)" by (metis prod_cases3)
    note t1 = flush_touches[OF Cons.prems(1) w1]
    have sm: "small_payload x" using Cons.prems(2) by (rule small_payload_prefix)
    show ?thesis
    proof (cases ok1)
      case False
      then show ?thesis using Cons.prems Sync w1 t1 flush_kept by auto
    next
      case True
      have "at s1 w1 p x" using flush_at[OF Cons.prems(1) sm] w1 True by simp
      from Cons.IH[OF this] Cons.prems Sync w1 t1 True show ?thesis
        by (auto intro: touches_trans)
    qed
  qed
qed

lemma session_closed:
  assumes "at s w p []" "small_payload (concat (map bytes (puts ops)))"
    "session wr fl ops s w = (acked, ok, s1, w1)" "cl s1 w1 = (closed, s2, w2)"
  shows "\<exists>hdr junk. ok_hdr hdr \<and>
      files w2 p = Some (hdr @ concat (map bytes acked) @ junk) \<and>
      (closed \<longrightarrow> hdr = header (concat (map bytes acked)) \<and> \<not> unsynced w2 p) \<and>
      (ok \<and> closed \<longrightarrow> acked = puts ops \<and> junk = [])"
    and "touches {p} w w2"
proof -
  note inv = session_invariant[OF assms(1) _ assms(3)]
  let ?x = "concat (map bytes acked)"
  have k: "kept s1 w1 p ?x" and t: "touches {p} w w1" and
    a: "ok \<longrightarrow> at s1 w1 p ?x \<and> acked = puts ops" using inv assms(2) by auto
  show "\<exists>hdr junk. ok_hdr hdr \<and>
      files w2 p = Some (hdr @ ?x @ junk) \<and>
      (closed \<longrightarrow> hdr = header ?x \<and> \<not> unsynced w2 p) \<and>
      (ok \<and> closed \<longrightarrow> acked = puts ops \<and> junk = [])"
  proof (cases "ok \<and> closed")
    case True
    then have "files w2 p = Some (header ?x @ ?x)"
      using close_exact[of s1 w1 p ?x] a assms(2,4) by auto
    with close_kept[OF k assms(4)] True a show ?thesis by auto
  next
    case False
    with close_kept[OF k assms(4)] show ?thesis by auto
  qed
  show "touches {p} w w2" using t close_touches[OF k assms(4)] by (rule touches_trans)
qed

end

text \<open>Without I/O faults no call of a session fails.\<close>

locale live_pcm_writer = pcm_writer +
  fixes accepts :: "'b \<Rightarrow> bool"
  assumes write_live: "at s w p x \<Longrightarrow> quiet w \<Longrightarrow> accepts d \<Longrightarrow> \<exists>s' w'. wr s d w = (True, s', w')"
    and flush_live: "at s w p x \<Longrightarrow> small_payload x \<Longrightarrow> quiet w \<Longrightarrow> \<exists>s' w'. fl s w = (True, s', w')"
    and close_live: "at s w p x \<Longrightarrow> small_payload x \<Longrightarrow> quiet w \<Longrightarrow> \<exists>s' w'. cl s w = (True, s', w')"
begin

lemma session_live:
  assumes "at s w p x" "small_payload (x @ concat (map bytes (puts ops)))" "quiet w"
    "list_all accepts (puts ops)"
  shows "\<exists>s' w'. session wr fl ops s w = (puts ops, True, s', w')"
  using assms
proof (induction ops arbitrary: s w x)
  case (Cons o1 ops)
  show ?case
  proof (cases o1)
    case (Put d)
    then obtain s1 w1 where w1: "wr s d w = (True, s1, w1)" using Cons.prems write_live by fastforce
    have "at s1 w1 p (x @ bytes d)" "quiet w1"
      using write_at[OF Cons.prems(1) w1] touches_quiet[OF write_touches[OF Cons.prems(1) w1]]
        Cons.prems(3) by simp_all
    from Cons.IH[OF this(1) _ this(2)] Cons.prems Put w1 show ?thesis by (fastforce split: prod.splits)
  next
    case Sync
    have sm: "small_payload x" using Cons.prems(2) by (rule small_payload_prefix)
    then obtain s1 w1 where w1: "fl s w = (True, s1, w1)" using Cons.prems flush_live by blast
    have "at s1 w1 p x" "quiet w1"
      using flush_at[OF Cons.prems(1) sm w1] touches_quiet[OF flush_touches[OF Cons.prems(1) w1]]
        Cons.prems(3) by simp_all
    from Cons.IH[OF this(1) _ this(2)] Cons.prems Sync w1 show ?thesis by auto
  qed
qed simp

lemma session_close_live:
  assumes "at s w p []" "small_payload (concat (map bytes (puts ops)))" "quiet w"
    "list_all accepts (puts ops)"
  shows "\<exists>s1 w1 s2 w2. session wr fl ops s w = (puts ops, True, s1, w1) \<and> cl s1 w1 = (True, s2, w2) \<and>
    files w2 p = Some (header (concat (map bytes (puts ops))) @ concat (map bytes (puts ops))) \<and>
    \<not> unsynced w2 p"
proof -
  let ?x = "concat (map bytes (puts ops))"
  obtain s1 w1 where ses: "session wr fl ops s w = (puts ops, True, s1, w1)"
    using session_live[OF assms(1)] assms by fastforce
  have a: "at s1 w1 p ?x" and t: "touches {p} w w1"
    using session_invariant[OF assms(1) _ ses] assms(2) by auto
  obtain s2 w2 where c: "cl s1 w1 = (True, s2, w2)"
    using close_live[OF a assms(2) touches_quiet[OF t assms(3)]] by blast
  show ?thesis
    using ses c close_exact[OF a assms(2) c] close_kept[OF at_kept[OF a] c] by blast
qed

end

section \<open>Both writers implement it\<close>

definition wav_at_fmt :: "u32 \<times> u16 \<times> u16 \<Rightarrow> wav_part_t \<Rightarrow> io_world \<Rightarrow> string \<Rightarrow> byte list \<Rightarrow> bool" where
  "wav_at_fmt fmt part w path payload \<longleftrightarrow> wav_at part w path payload \<and> wav_fmt part = fmt"

definition wav_kept_fmt :: "u32 \<times> u16 \<times> u16 \<Rightarrow> wav_part_t \<Rightarrow> io_world \<Rightarrow> string \<Rightarrow> byte list \<Rightarrow> bool" where
  "wav_kept_fmt fmt part w path payload \<longleftrightarrow> wav_kept part w path payload \<and> wav_fmt part = fmt"

definition fmt_header :: "u32 \<times> u16 \<times> u16 \<Rightarrow> byte list \<Rightarrow> byte list" where
  "fmt_header fmt payload =
     (case fmt of (r, c, b) \<Rightarrow> wav_part_build_header (of_nat (length payload)) r c b)"

definition fmt_samples :: "u32 \<times> u16 \<times> u16 \<Rightarrow> byte list \<Rightarrow> byte list" where
  "fmt_samples fmt data =
     (case fmt of (r, c, b) \<Rightarrow> take (length data - length data mod (unat b div 8)) data)"

text \<open>The operations on an object rather than on a pointer to it.\<close>

definition part_write :: "wav_part_t \<Rightarrow> byte list \<Rightarrow> io_world \<Rightarrow> bool \<times> wav_part_t \<times> io_world" where
  "part_write s d w = (case wav_part_write (Some s) (Some d) w of (ok, s', w') \<Rightarrow> (ok, the s', w'))"

definition part_flush :: "wav_part_t \<Rightarrow> io_world \<Rightarrow> bool \<times> wav_part_t \<times> io_world" where
  "part_flush s w = (case wav_part_flush (Some s) w of (ok, s', w') \<Rightarrow> (ok, the s', w'))"

definition part_close :: "wav_part_t \<Rightarrow> io_world \<Rightarrow> bool \<times> wav_part_t \<times> io_world" where
  "part_close s w = (case wav_part_close (Some s) w of (ok, s', w') \<Rightarrow> (ok, the s', w'))"

lemma wav_part_results:
  "\<exists>ok s' w'. wav_part_write (Some s) pcm w = (ok, Some s', w')"
  "\<exists>ok s' w'. wav_part_flush (Some s) w = (ok, Some s', w')"
  "\<exists>ok s' w'. wav_part_close (Some s) w = (ok, Some s', w')"
  by (auto simp: wav_part_write_def wav_part_flush_def wav_part_close_def Let_def
      split: option.splits prod.splits if_splits)

lemma part_ops:
  "part_write s d w = (ok, s', w') \<longleftrightarrow> wav_part_write (Some s) (Some d) w = (ok, Some s', w')"
  "part_flush s w = (ok, s', w') \<longleftrightarrow> wav_part_flush (Some s) w = (ok, Some s', w')"
  "part_close s w = (ok, s', w') \<longleftrightarrow> wav_part_close (Some s) w = (ok, Some s', w')"
  using wav_part_results(1)[of s "Some d" w] wav_part_results(2,3)[of s w]
  by (auto simp: part_write_def part_flush_def part_close_def)

lemma fmt_of_part:
  "wav_fmt s = fmt \<Longrightarrow> wav_at s w p x \<or> wav_kept s w p x \<Longrightarrow> part_header s = fmt_header fmt x"
  "wav_fmt s = fmt \<Longrightarrow> whole_samples s d = fmt_samples fmt d"
  by (auto simp: wav_fmt_def fmt_header_def fmt_samples_def part_header_def whole_samples_def
      wav_at_def wav_kept_def)

lemma wav_kept_fp: "wav_kept s w p x \<Longrightarrow> \<exists>fp. wp_fp s = Some fp \<and> fpath fp = p"
  by (auto simp: wav_kept_def)

interpretation part_writer: pcm_writer "wav_at_fmt fmt" "wav_kept_fmt fmt" "fmt_samples fmt"
  "fmt_header fmt" "header_like fmt" part_write part_flush part_close for fmt
proof
  fix s w p x d s' w' ok
  show "wav_at_fmt fmt s w p x \<Longrightarrow> wav_kept_fmt fmt s w p x"
    by (simp add: wav_at_fmt_def wav_kept_fmt_def wav_at_kept)
  show "wav_at_fmt fmt s w p x \<Longrightarrow> part_write s d w = (True, s', w') \<Longrightarrow>
      wav_at_fmt fmt s' w' p (x @ fmt_samples fmt d)"
    using wav_part_write_ok[of s w p x d s' w'] fmt_of_part(2)[of s fmt d]
    by (auto simp: part_ops wav_at_fmt_def wav_fmt_def)
  show "wav_at_fmt fmt s w p x \<Longrightarrow> part_write s d w = (False, s', w') \<Longrightarrow> wav_kept_fmt fmt s' w' p x"
    using wav_part_write_kept[of s w p x d False s' w']
    by (auto simp: part_ops wav_at_fmt_def wav_kept_fmt_def)
  show "wav_at_fmt fmt s w p x \<Longrightarrow> part_write s d w = (ok, s', w') \<Longrightarrow> touches {p} w w'"
    using wav_part_write_touches[of s "Some d" w ok "Some s'" w'] wav_kept_fp[of s w p x] wav_at_kept
    by (auto simp: part_ops wav_at_fmt_def)
  show "wav_at_fmt fmt s w p x \<Longrightarrow> small_payload x \<Longrightarrow> part_flush s w = (True, s', w') \<Longrightarrow>
      wav_at_fmt fmt s' w' p x"
    using wav_part_flush_ok(1,4)[of s w p x s' w']
    by (auto simp: part_ops wav_at_fmt_def small_payload_def)
  show "wav_at_fmt fmt s w p x \<Longrightarrow> small_payload x \<Longrightarrow> part_flush s w = (True, s', w') \<Longrightarrow>
      files w' p = Some (fmt_header fmt x @ x) \<and> \<not> unsynced w' p"
    using wav_part_flush_ok(2,3)[of s w p x s' w'] fmt_of_part(1)[of s fmt w p x]
    by (auto simp: part_ops wav_at_fmt_def small_payload_def)
  show "wav_at_fmt fmt s w p x \<Longrightarrow> part_flush s w = (False, s', w') \<Longrightarrow> wav_kept_fmt fmt s' w' p x"
    using wav_part_flush_kept[of s w p x False s' w'] wav_at_kept
    by (auto simp: part_ops wav_at_fmt_def wav_kept_fmt_def)
  show "wav_at_fmt fmt s w p x \<Longrightarrow> part_flush s w = (ok, s', w') \<Longrightarrow> touches {p} w w'"
    using wav_part_flush_touches[of s w ok "Some s'" w'] wav_kept_fp[of s w p x] wav_at_kept
    by (auto simp: part_ops wav_at_fmt_def)
  show "wav_at_fmt fmt s w p x \<Longrightarrow> small_payload x \<Longrightarrow> part_close s w = (True, s', w') \<Longrightarrow>
      files w' p = Some (fmt_header fmt x @ x)"
    using wav_part_close_ok[of s w p x s' w'] fmt_of_part(1)[of s fmt w p x]
    by (auto simp: part_ops wav_at_fmt_def small_payload_def)
  show "wav_kept_fmt fmt s w p x \<Longrightarrow> part_close s w = (ok, s', w') \<Longrightarrow>
      \<exists>hdr junk. header_like fmt hdr \<and> files w' p = Some (hdr @ x @ junk) \<and>
        (ok \<longrightarrow> hdr = fmt_header fmt x \<and> \<not> unsynced w' p)"
    using wav_part_close_kept(1)[of s w p x ok s' w'] fmt_of_part(1)[of s fmt w p x]
    by (auto simp: part_ops wav_kept_fmt_def)
  show "wav_kept_fmt fmt s w p x \<Longrightarrow> part_close s w = (ok, s', w') \<Longrightarrow> touches {p} w w'"
    using wav_part_close_touches[of s w ok "Some s'" w'] wav_kept_fp[of s w p x]
    by (auto simp: part_ops wav_kept_fmt_def)
qed

subsection \<open>The sink, with the recorder's format\<close>

definition recorder_fmt :: "u32 \<times> u16 \<times> u16" where
  "recorder_fmt = (of_nat RECORDER_SAMPLE_RATE_HZ, of_nat RECORDER_CHANNELS, of_nat RECORDER_BITS_PER_SAMPLE)"

definition sink_at :: "sd_pcm_sink_t \<Rightarrow> io_world \<Rightarrow> string \<Rightarrow> byte list \<Rightarrow> bool" where
  "sink_at s w p x \<longleftrightarrow> sk_open s \<and> wav_at_fmt recorder_fmt (sk_wav s) w p x"

definition sink_kept :: "sd_pcm_sink_t \<Rightarrow> io_world \<Rightarrow> string \<Rightarrow> byte list \<Rightarrow> bool" where
  "sink_kept s w p x \<longleftrightarrow> sk_open s \<and> wav_kept_fmt recorder_fmt (sk_wav s) w p x"

text \<open>A chunk with the clock readings before and after its write.\<close>

type_synonym timed_chunk = "byte list \<times> u32 \<times> u32"

definition sink_write :: "sd_pcm_sink_t \<Rightarrow> timed_chunk \<Rightarrow> io_world \<Rightarrow> bool \<times> sd_pcm_sink_t \<times> io_world" where
  "sink_write s c w =
     (case c of (d, start_us, end_us) \<Rightarrow>
      case sd_pcm_sink_write_chunk (Some s) (Some d) start_us end_us w of
        (ok, latency, s', w') \<Rightarrow> (ok, the s', w'))"

definition sink_flush :: "sd_pcm_sink_t \<Rightarrow> io_world \<Rightarrow> bool \<times> sd_pcm_sink_t \<times> io_world" where
  "sink_flush s w = (case sd_pcm_sink_flush (Some s) w of (ok, s', w') \<Rightarrow> (ok, the s', w'))"

definition sink_close :: "sd_pcm_sink_t \<Rightarrow> io_world \<Rightarrow> bool \<times> sd_pcm_sink_t \<times> io_world" where
  "sink_close s w = (case sd_pcm_sink_close (Some s) w of (ok, s', w') \<Rightarrow> (ok, the s', w'))"

lemma sink_flush_part:
  assumes "sk_open s" "sink_flush s w = (ok, s', w')"
  shows "part_flush (sk_wav s) w = (ok, sk_wav s', w')" "sk_open s'"
  using assms wav_part_results(2)[of "sk_wav s" w]
  by (auto simp: sink_flush_def sd_pcm_sink_flush_def part_flush_def split: prod.splits)

lemma sink_close_part:
  assumes "sk_open s" "sink_close s w = (ok, s', w')"
  shows "part_close (sk_wav s) w = (ok, sk_wav s', w')" "\<not> sk_open s'"
  using assms wav_part_results(3)[of "sk_wav s" w]
  by (auto simp: sink_close_def sd_pcm_sink_close_def part_close_def split: prod.splits)

lemma sink_write_part:
  assumes "sk_open s" "sink_write s (d, t0, t1) w = (ok, s', w')"
  shows "sk_open s' \<and> (if length d = RECORDER_BUFFER_BYTES
         then part_write (sk_wav s) d w = (ok, sk_wav s', w')
         else \<not> ok \<and> sk_wav s' = sk_wav s \<and> w' = w)"
  using assms
  by (auto simp: sink_write_def sd_pcm_sink_write_chunk_def part_write_def Let_def
      split: prod.splits if_splits)

lemma fmt_samples_chunk:
  "length d = RECORDER_BUFFER_BYTES \<Longrightarrow> fmt_samples recorder_fmt d = d"
  by (simp add: fmt_samples_def recorder_fmt_def config_simps unat_of_nat_small)

interpretation sink_writer: pcm_writer sink_at sink_kept fst
  "fmt_header recorder_fmt" "header_like recorder_fmt" sink_write sink_flush sink_close
proof
  fix s w p x s' w' ok and d :: timed_chunk
  obtain b t0 t1 where d: "d = (b, t0, t1)" by (metis prod_cases3)
  show "sink_at s w p x \<Longrightarrow> sink_kept s w p x"
    by (simp add: sink_at_def sink_kept_def part_writer.at_kept[of recorder_fmt])
  show "sink_at s w p x \<Longrightarrow> sink_write s d w = (True, s', w') \<Longrightarrow> sink_at s' w' p (x @ fst d)"
    using sink_write_part[of s b t0 t1 w True s' w']
      part_writer.write_at[of recorder_fmt "sk_wav s" w p x b "sk_wav s'" w']
    by (auto simp: d sink_at_def fmt_samples_chunk split: if_splits)
  show "sink_at s w p x \<Longrightarrow> sink_write s d w = (False, s', w') \<Longrightarrow> sink_kept s' w' p x"
    using sink_write_part[of s b t0 t1 w False s' w'] part_writer.at_kept[of recorder_fmt]
      part_writer.write_kept[of recorder_fmt "sk_wav s" w p x b "sk_wav s'" w']
    by (auto simp: d sink_at_def sink_kept_def split: if_splits)
  show "sink_at s w p x \<Longrightarrow> sink_write s d w = (ok, s', w') \<Longrightarrow> touches {p} w w'"
    using sink_write_part[of s b t0 t1 w ok s' w']
      part_writer.write_touches[of recorder_fmt "sk_wav s" w p x b ok "sk_wav s'" w']
    by (auto simp: d sink_at_def split: if_splits)
  show "sink_at s w p x \<Longrightarrow> small_payload x \<Longrightarrow> sink_flush s w = (True, s', w') \<Longrightarrow> sink_at s' w' p x"
    using sink_flush_part[of s w True s' w'] part_writer.flush_at[of recorder_fmt]
    by (auto simp: sink_at_def)
  show "sink_at s w p x \<Longrightarrow> small_payload x \<Longrightarrow> sink_flush s w = (True, s', w') \<Longrightarrow>
      files w' p = Some (fmt_header recorder_fmt x @ x) \<and> \<not> unsynced w' p"
    using sink_flush_part[of s w True s' w']
      part_writer.flush_durable[of recorder_fmt "sk_wav s" w p x "sk_wav s'" w']
    by (auto simp: sink_at_def)
  show "sink_at s w p x \<Longrightarrow> sink_flush s w = (False, s', w') \<Longrightarrow> sink_kept s' w' p x"
    using sink_flush_part[of s w False s' w'] part_writer.flush_kept[of recorder_fmt]
    by (auto simp: sink_at_def sink_kept_def)
  show "sink_at s w p x \<Longrightarrow> sink_flush s w = (ok, s', w') \<Longrightarrow> touches {p} w w'"
    using sink_flush_part[of s w ok s' w'] part_writer.flush_touches[of recorder_fmt]
    by (auto simp: sink_at_def)
  show "sink_at s w p x \<Longrightarrow> small_payload x \<Longrightarrow> sink_close s w = (True, s', w') \<Longrightarrow>
      files w' p = Some (fmt_header recorder_fmt x @ x)"
    using sink_close_part[of s w True s' w'] part_writer.close_exact[of recorder_fmt]
    by (auto simp: sink_at_def)
  show "sink_kept s w p x \<Longrightarrow> sink_close s w = (ok, s', w') \<Longrightarrow>
      \<exists>hdr junk. header_like recorder_fmt hdr \<and> files w' p = Some (hdr @ x @ junk) \<and>
        (ok \<longrightarrow> hdr = fmt_header recorder_fmt x \<and> \<not> unsynced w' p)"
    using sink_close_part[of s w ok s' w'] part_writer.close_kept[of recorder_fmt]
    by (auto simp: sink_kept_def)
  show "sink_kept s w p x \<Longrightarrow> sink_close s w = (ok, s', w') \<Longrightarrow> touches {p} w w'"
    using sink_close_part[of s w ok s' w'] part_writer.close_touches[of recorder_fmt]
    by (auto simp: sink_kept_def)
qed

lemma sink_open_at:
  assumes "sd_pcm_sink_open (Some s) (Some path) w = (True, Some s', w')"
  shows "sink_at s' w' path []"
proof -
  let ?o = "wav_part_open (Some (sk_wav s)) (Some path) (of_nat RECORDER_SAMPLE_RATE_HZ)
    (of_nat RECORDER_CHANNELS) (of_nat RECORDER_BITS_PER_SAMPLE) w"
  obtain wav where o: "?o = (True, wav, w')" and s': "sk_wav s' = the wav" "sk_open s'"
    using assms by (auto simp: sd_pcm_sink_open_def split: prod.splits)
  obtain pt where pt: "wav = Some pt"
    using o by (auto simp: wav_part_open_def Let_def split: prod.splits option.splits if_splits bool.splits)
  show ?thesis
    using wav_part_open_ok[OF o[unfolded pt]] s' pt
    by (simp add: sink_at_def wav_at_fmt_def wav_fmt_def recorder_fmt_def)
qed

lemma wav_part_open_touches [io_frame]:
  assumes "wav_part_open (Some pt) (Some path) r c b w = (ok, pt', w')"
  shows "touches {path} w w'"
proof -
  let ?h = "wav_part_build_header 0 r c b"
  obtain f w1 where op: "fopen WB path w = (f, w1)" by fastforce
  have t1: "touches {path} w w1" by (rule fopen_touches[OF op])
  show ?thesis
  proof (cases f)
    case None
    then show ?thesis using assms op t1 by (auto simp: wav_part_open_def split: if_splits)
  next
    case (Some fp)
    have fp: "fpath fp = path"
      using op Some by (auto simp: fopen_def split: prod.splits bool.splits)
    obtain n fp2 w2 where wr: "fwrite fp ?h w1 = (n, fp2, w2)" by (metis prod_cases3)
    obtain ok3 w3 where sy: "wav_part_sync_media (Some fp2) w2 = (ok3, w3)" by fastforce
    obtain b4 w4 where c4: "fclose fp2 w2 = (b4, w4)" by fastforce
    obtain b5 w5 where c5: "fclose fp2 w3 = (b5, w5)" by fastforce
    have t2: "touches {path} w w2" using t1 fwrite_touches[OF wr] fp by (metis touches_trans)
    have t3: "touches {path} w w3"
      using t2 sync_media_touches[OF sy] fwrite_files(2)[OF wr] fp by (metis touches_trans)
    have "touches {path} w w4" "touches {path} w w5"
      using t2 t3 fclose_touches[OF c4] fclose_touches[OF c5] by (blast intro: touches_trans)+
    moreover have "w' \<in> {w, w3, w4, w5}"
      using assms op Some wr sy c4 c5
      by (auto simp: wav_part_open_def Let_def simp del: wav_part_sync_media.simps
          split: if_splits bool.splits)
    ultimately show ?thesis using t3 by auto
  qed
qed

lemma sd_pcm_sink_open_touches [io_frame]:
  "sd_pcm_sink_open (Some s) (Some path) w = (ok, s', w') \<Longrightarrow> touches {path} w w'"
  using wav_part_open_touches[of "sk_wav s" path]
  by (auto simp: sd_pcm_sink_open_def split: prod.splits)

subsection \<open>Fault-free calls\<close>

lemma sync_media_quiet:
  "quiet w \<Longrightarrow> wav_part_sync_media (Some fp) w = (True, w\<lparr>unsynced := (unsynced w)(fpath fp := False)\<rparr>)"
  by (simp add: fflush_def fileno_def fsync_def)

lemma rewrite_header_live:
  assumes "quiet w" "wp_pcm_bytes part = of_nat (length x)" "small_payload x"
  shows "\<exists>part' w'. wav_part_rewrite_header part fp w = (True, part', w')"
  using assms sint_tail[of "length x"]
  by (simp add: wav_part_rewrite_header_def Let_def sync_media_quiet small_payload_def quiet_def
      put_bytes_def del: wav_part_sync_media.simps split: option.splits)

interpretation part_writer: live_pcm_writer "wav_at_fmt fmt" "wav_kept_fmt fmt" "fmt_samples fmt"
  "fmt_header fmt" "header_like fmt" part_write part_flush part_close "\<lambda>_. True" for fmt
proof
  fix s w p x d
  assume at: "wav_at_fmt fmt s w p x" and q: "quiet w"
  then obtain fp where fp: "wp_fp s = Some fp" "wp_open s" "wp_pcm_bytes s = of_nat (length x)"
    by (auto simp: wav_at_fmt_def wav_at_def)
  show "\<exists>s' w'. part_write s d w = (True, s', w')"
    using fp q by (simp add: part_ops wav_part_write_def Let_def)
  show "small_payload x \<Longrightarrow> \<exists>s' w'. part_flush s w = (True, s', w')"
    using fp rewrite_header_live[OF q fp(3), of fp] by (auto simp: part_ops wav_part_flush_def)
  show "small_payload x \<Longrightarrow> \<exists>s' w'. part_close s w = (True, s', w')"
  proof -
    assume "small_payload x"
    then obtain s1 w1 where rw: "wav_part_rewrite_header s fp w = (True, s1, w1)"
      using rewrite_header_live[OF q fp(3), of fp] by auto
    have "quiet w1" using touches_quiet[OF rewrite_header_touches[OF rw] q] .
    then show "\<exists>s' w'. part_close s w = (True, s', w')"
      using fp rw by (simp add: part_ops wav_part_close_def fclose_def)
  qed
qed

interpretation sink_writer: live_pcm_writer sink_at sink_kept fst
  "fmt_header recorder_fmt" "header_like recorder_fmt" sink_write sink_flush sink_close
  "\<lambda>c. length (fst c) = RECORDER_BUFFER_BYTES"
proof
  fix s w p x and d :: timed_chunk
  obtain b t0 t1 where d: "d = (b, t0, t1)" by (metis prod_cases3)
  assume at: "sink_at s w p x" and q: "quiet w"
  then have wa: "wav_at_fmt recorder_fmt (sk_wav s) w p x" "sk_open s" by (auto simp: sink_at_def)
  show "\<exists>s' w'. sink_write s d w = (True, s', w')" if "length (fst d) = RECORDER_BUFFER_BYTES"
    using part_writer.write_live[OF wa(1) q, of b] that wa(2)
    by (auto simp: d sink_write_def sd_pcm_sink_write_chunk_def part_ops Let_def)
  show "\<exists>s' w'. sink_flush s w = (True, s', w')" if "small_payload x"
    using part_writer.flush_live[OF wa(1) that q] wa(2)
    by (auto simp: sink_flush_def sd_pcm_sink_flush_def part_ops)
  show "\<exists>s' w'. sink_close s w = (True, s', w')" if "small_payload x"
    using part_writer.close_live[OF wa(1) that q] wa(2)
    by (auto simp: sink_close_def sd_pcm_sink_close_def part_ops)
qed

lemma sink_open_live:
  assumes "quiet w" "has_part_suffix (Some path)"
  shows "\<exists>s' w'. sd_pcm_sink_open (Some s) (Some path) w = (True, Some s', w') \<and> quiet w'"
  using assms
  by (simp add: sd_pcm_sink_open_def wav_part_open_def Let_def sync_media_quiet fopen_def quiet_def
      put_bytes_def config_simps del: wav_part_sync_media.simps has_part_suffix.simps
      split: option.splits)

section \<open>Properties\<close>

definition fresh_sink :: sd_pcm_sink_t where
  "fresh_sink = \<lparr>sk_wav = \<lparr>wp_fp = None, wp_pcm_bytes = 0, wp_sample_rate_hz = 0, wp_channels = 0,
     wp_bits_per_sample = 0, wp_open = False\<rparr>, sk_open = False, sk_chunks_written = 0,
     sk_write_errors = 0, sk_max_latency_us = 0\<rparr>"


text \<open>
  C17: Without I/O faults a recording through the sink always completes: opening a \<open>.wav.part\<close> path
  succeeds, every 32 KiB chunk and every flush is acknowledged, close succeeds, and the file is then
  exactly the WAV header for the payload followed by the payload, on the card.
\<close>

theorem sink_recording_completes:
  assumes "quiet w0" "ends_with RECORDER_PART_SUFFIX path"
    "list_all (\<lambda>c. length (fst c) = RECORDER_BUFFER_BYTES) (puts ops)"
    "small_payload (concat (map fst (puts ops)))"
  shows "\<exists>s w s1 w1 s2 w2. sd_pcm_sink_open (Some s0) (Some path) w0 = (True, Some s, w) \<and>
     session sink_write sink_flush ops s w = (puts ops, True, s1, w1) \<and>
     sd_pcm_sink_close (Some s1) w1 = (True, Some s2, w2) \<and>
     files w2 path = Some (wav_part_build_header (of_nat (length (concat (map fst (puts ops)))))
        (of_nat RECORDER_SAMPLE_RATE_HZ) (of_nat RECORDER_CHANNELS) (of_nat RECORDER_BITS_PER_SAMPLE)
        @ concat (map fst (puts ops))) \<and> \<not> unsynced w2 path"
proof -
  obtain s w where o: "sd_pcm_sink_open (Some s0) (Some path) w0 = (True, Some s, w)" "quiet w"
    using sink_open_live[OF assms(1), of path s0] assms(2) by auto
  obtain s1 w1 s2 w2 where r: "session sink_write sink_flush ops s w = (puts ops, True, s1, w1)"
    "sink_close s1 w1 = (True, s2, w2)"
    "files w2 path = Some (fmt_header recorder_fmt (concat (map fst (puts ops))) @ concat (map fst (puts ops)))"
    "\<not> unsynced w2 path"
    using sink_writer.session_close_live[OF sink_open_at[OF o(1)] assms(4) o(2) assms(3)] by blast
  obtain s2' where "sd_pcm_sink_close (Some s1) w1 = (True, Some s2', w2)"
    using r(2) by (auto simp: sink_close_def sd_pcm_sink_close_def split: prod.splits if_splits)
  with o r show ?thesis by (fastforce simp: fmt_header_def recorder_fmt_def)
qed

definition one_chunk :: "timed_chunk wop list" where
  "one_chunk = [Put (replicate RECORDER_BUFFER_BYTES 7, 5, 9), Sync]"

lemma one_chunk_facts:
  "list_all (\<lambda>c. length (fst c) = RECORDER_BUFFER_BYTES) (puts one_chunk)"
  "small_payload (concat (map fst (puts one_chunk)))"
  by (simp_all add: one_chunk_def small_payload_def config_simps)

theorem sink_recording_completes_witness:
  "\<exists>s w s1 w1 s2 w2. sd_pcm_sink_open (Some fresh_sink) (Some ''/r.wav.part'') empty_card = (True, Some s, w) \<and>
     session sink_write sink_flush one_chunk s w = (puts one_chunk, True, s1, w1) \<and>
     sd_pcm_sink_close (Some s1) w1 = (True, Some s2, w2)"
  using sink_recording_completes[of empty_card "''/r.wav.part''" one_chunk fresh_sink] one_chunk_facts
  by (fastforce simp: ends_with_def config_simps)

text \<open>The calls of a fault-free recording, for the witness.\<close>

lemma one_chunk_recorded:
  "\<exists>s w s1 w1 s2 w2. sd_pcm_sink_open (Some fresh_sink) (Some ''/r.wav.part'') empty_card = (True, Some s, w) \<and>
     session sink_write sink_flush one_chunk s w = (puts one_chunk, True, s1, w1) \<and>
     sd_pcm_sink_close (Some s1) w1 = (True, Some s2, w2)"
proof -
  obtain s w where o: "sd_pcm_sink_open (Some fresh_sink) (Some ''/r.wav.part'') empty_card = (True, Some s, w)"
    "quiet w"
    using sink_open_live[of empty_card "''/r.wav.part''" fresh_sink]
    by (auto simp: ends_with_def config_simps)
  obtain s1 w1 s2 w2 where r: "session sink_write sink_flush one_chunk s w = (puts one_chunk, True, s1, w1)"
    "sink_close s1 w1 = (True, s2, w2)"
    using sink_writer.session_close_live[OF sink_open_at[OF o(1)] one_chunk_facts(2) o(2) one_chunk_facts(1)]
    by blast
  obtain s2' where "sd_pcm_sink_close (Some s1) w1 = (True, Some s2', w2)"
    using r(2) by (auto simp: sink_close_def sd_pcm_sink_close_def split: prod.splits if_splits)
  with o r show ?thesis by blast
qed


text \<open>
  C18: A flush that reports success makes everything written so far survive a power loss: after a
  session of writes and flushes without a failed call and one more successful flush, whatever the
  card holds when the power goes, the part file is the WAV header for the whole-sample payload
  followed by that payload.
\<close>

theorem wav_flush_durable:
  assumes opened: "wav_part_open (Some s0) (Some path) r c b w0 = (True, Some s, w)"
    and size: "small_payload (concat (map (fmt_samples (r, c, b)) (puts ops)))"
    and run: "session part_write part_flush ops s w = (acked, True, s1, w1)"
    and flushed: "wav_part_flush (Some s1) w1 = (True, Some s2, w2)"
    and card: "card_after_power_loss w2 d"
  shows "d path = Some (wav_part_build_header
      (of_nat (length (concat (map (fmt_samples (r, c, b)) (puts ops))))) r c b
      @ concat (map (fmt_samples (r, c, b)) (puts ops)))"
proof -
  have "wav_at_fmt (r, c, b) s w path []"
    using wav_part_open_ok[OF opened] by (simp add: wav_at_fmt_def wav_fmt_def)
  then have "wav_at_fmt (r, c, b) s1 w1 path (concat (map (fmt_samples (r, c, b)) (puts ops)))"
    using part_writer.session_invariant[of "(r, c, b)" s w path "[]" ops acked True s1 w1] size run by auto
  from part_writer.flush_durable[OF this size] flushed card show ?thesis
    by (simp add: part_ops card_after_power_loss_def fmt_header_def)
qed

theorem wav_flush_durable_witness:
  "\<exists>s w s1 w1 s2 w2. wav_part_open (Some (sk_wav fresh_sink)) (Some ''/r.wav.part'') 16000 1 16 empty_card
        = (True, Some s, w) \<and>
     session part_write part_flush [Put [1, 2, 3]] s w = ([[1, 2, 3]], True, s1, w1) \<and>
     wav_part_flush (Some s1) w1 = (True, Some s2, w2) \<and>
     files w2 ''/r.wav.part'' = Some (wav_part_build_header 2 16000 1 16 @ [1, 2])"
proof -
  have q: "quiet empty_card" by simp
  obtain s w where o: "wav_part_open (Some (sk_wav fresh_sink)) (Some ''/r.wav.part'') 16000 1 16 empty_card
      = (True, Some s, w)" "quiet w"
    by (simp add: wav_part_open_def Let_def sync_media_quiet fopen_def put_bytes_def
        ends_with_def config_simps del: wav_part_sync_media.simps)
  have at: "wav_at_fmt (16000, 1, 16) s w ''/r.wav.part'' []"
    using wav_part_open_ok[OF o(1)] by (simp add: wav_at_fmt_def wav_fmt_def)
  have ps: "puts [Put [1, 2, 3 :: byte]] = [[1, 2, 3]]" by simp
  have x: "concat (map (fmt_samples (16000, 1, 16)) (puts [Put [1, 2, 3 :: byte]])) = [1, 2]"
    by (simp add: fmt_samples_def)
  have sm: "small_payload (concat (map (fmt_samples (16000, 1, 16)) (puts [Put [1, 2, 3 :: byte]])))"
    unfolding x by (simp add: small_payload_def config_simps)
  obtain s1 w1 where r: "session part_write part_flush [Put [1, 2, 3]] s w = ([[1, 2, 3]], True, s1, w1)"
    using part_writer.session_live[OF at, of "[Put [1, 2, 3]]"] sm o(2) unfolding ps by auto
  have at1: "wav_at_fmt (16000, 1, 16) s1 w1 ''/r.wav.part'' [1, 2]" and q1: "quiet w1"
    using part_writer.session_invariant[OF at _ r] sm o(2) touches_quiet unfolding x
    by (auto simp: fmt_samples_def)
  obtain s2 w2 where f: "wav_part_flush (Some s1) w1 = (True, Some s2, w2)"
    using part_writer.flush_live[OF at1 _ q1] by (auto simp: part_ops small_payload_def config_simps)
  have "files w2 ''/r.wav.part'' = Some (wav_part_build_header 2 16000 1 16 @ [1, 2])"
    using wav_flush_durable[OF o(1) sm r f, of "files w2"] unfolding x
    by (simp add: card_after_power_loss_def)
  with o(1) r f show ?thesis by blast
qed

end
