(* ===== verification/Wav_Rotation.thy ===== *)
theory Wav_Rotation
  imports Wav_Part
begin

text \<open>
  Rotation and finalization of a segment, \<open>firmware/components/recorder/wav_rotation.c\<close>: the pure
  rotation decision, the paths of a segment, and the once-only close-and-rename that publishes a
  \<open>.wav.part\<close> file as \<open>.wav\<close>.

  An output buffer is the string the code leaves in it; \<open>None\<close> as a result means the function
  returned false (the buffer then holds the empty string).
\<close>

section \<open>Model\<close>

datatype wav_rotate_reason_t = WAV_ROTATE_NONE | WAV_ROTATE_TIME_30MIN | WAV_ROTATE_MIDNIGHT
  | WAV_ROTATE_USB | WAV_ROTATE_LOW_BATTERY | WAV_ROTATE_STOP_REQUEST

record wav_rotate_events_t =
  usb_connected :: bool
  low_battery :: bool
  stop_requested :: bool

definition is_digit :: "char \<Rightarrow> bool" where
  "is_digit c \<longleftrightarrow> (of_char CHR ''0'' :: nat) \<le> of_char c \<and> (of_char c :: nat) \<le> of_char CHR ''9''"

fun valid_date :: "string ptr \<Rightarrow> bool" where
  "valid_date None = False"
| "valid_date (Some date) =
     (length date = 10 \<and>
      list_all (\<lambda>i. if i = 4 \<or> i = 7 then date ! i = CHR ''-'' else is_digit (date ! i)) [0..<10])"

fun valid_time6 :: "string ptr \<Rightarrow> bool" where
  "valid_time6 None = False"
| "valid_time6 (Some time6) = (length time6 = 6 \<and> list_all is_digit time6)"

fun valid_recording_id :: "string ptr \<Rightarrow> bool" where
  "valid_recording_id None = False"
| "valid_recording_id (Some rid) =
     (length rid \<noteq> 0 \<and> length rid \<le> 64 \<and>
      list_all (\<lambda>c. \<not> (c = CHR ''/'' \<or> c = CHR 0x5C \<or> c = CHR 0x00)) rid)"

fun has_part_suffix_local :: "string ptr \<Rightarrow> bool" where
  "has_part_suffix_local None = False"
| "has_part_suffix_local (Some path) = ends_with RECORDER_PART_SUFFIX path"

fun has_wav_suffix_local :: "string ptr \<Rightarrow> bool" where
  "has_wav_suffix_local None = False"
| "has_wav_suffix_local (Some path) = ends_with RECORDER_WAV_SUFFIX path"

fun path_exists :: "string ptr \<Rightarrow> io_world \<Rightarrow> bool \<times> io_world" where
  "path_exists None w = (False, w)"
| "path_exists (Some path) w =
     (case fopen RB path w of
        (None, w) \<Rightarrow> (False, w)
      | (Some fp, w) \<Rightarrow> (True, snd (fclose fp w)))"

definition wav_rotation_should_rotate ::
    "u32 \<Rightarrow> u32 \<Rightarrow> bool \<Rightarrow> wav_rotate_events_t ptr \<Rightarrow> wav_rotate_reason_t" where
  "wav_rotation_should_rotate elapsed_sec segment_bytes date_changed events =
     (if (case events of None \<Rightarrow> False | Some e \<Rightarrow> usb_connected e) then WAV_ROTATE_USB
      else if (case events of None \<Rightarrow> False | Some e \<Rightarrow> low_battery e) then WAV_ROTATE_LOW_BATTERY
      else if (case events of None \<Rightarrow> False | Some e \<Rightarrow> stop_requested e) then WAV_ROTATE_STOP_REQUEST
      else if date_changed then WAV_ROTATE_MIDNIGHT
      else if elapsed_sec \<ge> of_nat RECORDER_ROTATION_INTERVAL_SEC \<or>
              segment_bytes \<ge> of_nat RECORDER_ROTATION_PAYLOAD_BYTES
      then WAV_ROTATE_TIME_30MIN
      else WAV_ROTATE_NONE)"

text \<open>\<open>snprintf(out, out_size, "%s/%s/%s_%s%s", ...)\<close>, refused when it would be truncated.\<close>

definition segment_path :: "string \<Rightarrow> string \<Rightarrow> string \<Rightarrow> string \<Rightarrow> string" where
  "segment_path date time6 rid ext =
     RECORDER_RECORDINGS_DIR @ ''/'' @ date @ ''/'' @ time6 @ ''_'' @ rid @ ext"

definition wav_rotation_build_part_path ::
    "nat \<Rightarrow> string ptr \<Rightarrow> string ptr \<Rightarrow> string ptr \<Rightarrow> string option" where
  "wav_rotation_build_part_path out_size date_yyyy_mm_dd time_hhmmss recording_id =
     (if out_size = 0 then None
      else if \<not> valid_date date_yyyy_mm_dd \<or> \<not> valid_time6 time_hhmmss \<or>
              \<not> valid_recording_id recording_id then None
      else let out = segment_path (the date_yyyy_mm_dd) (the time_hhmmss) (the recording_id)
                       RECORDER_PART_SUFFIX
           in if length out \<ge> out_size then None else Some out)"

definition wav_rotation_build_wav_path ::
    "nat \<Rightarrow> string ptr \<Rightarrow> string ptr \<Rightarrow> string ptr \<Rightarrow> string option" where
  "wav_rotation_build_wav_path out_size date_yyyy_mm_dd time_hhmmss recording_id =
     (if out_size = 0 then None
      else if \<not> valid_date date_yyyy_mm_dd \<or> \<not> valid_time6 time_hhmmss \<or>
              \<not> valid_recording_id recording_id then None
      else let out = segment_path (the date_yyyy_mm_dd) (the time_hhmmss) (the recording_id)
                       RECORDER_WAV_SUFFIX
           in if length out \<ge> out_size then None else Some out)"

definition wav_rotation_part_to_wav :: "string ptr \<Rightarrow> nat \<Rightarrow> string option" where
  "wav_rotation_part_to_wav part_path wav_size =
     (case part_path of
        None \<Rightarrow> None
      | Some p \<Rightarrow>
          if wav_size = 0 then None
          else if \<not> has_part_suffix_local part_path then None
          else let base = length p - length ''.part'' in
               if base + 1 > wav_size then None
               else let wav_out = take base p in
                    if \<not> has_wav_suffix_local (Some wav_out) then None else Some wav_out)"

definition wav_rotation_finalize_paths ::
    "string ptr \<Rightarrow> string ptr \<Rightarrow> io_world \<Rightarrow> bool \<times> io_world" where
  "wav_rotation_finalize_paths part_path wav_path w =
     (if \<not> has_part_suffix_local part_path \<or> \<not> has_wav_suffix_local wav_path then (False, w)
      else if wav_rotation_part_to_wav part_path RECORDER_MAX_PATH_LEN = None then (False, w)
      else if wav_rotation_part_to_wav part_path RECORDER_MAX_PATH_LEN \<noteq> wav_path then (False, w)
      else case path_exists part_path w of (part_present, w) \<Rightarrow>
           case path_exists wav_path w of (wav_present, w) \<Rightarrow>
             if part_present then
               (if wav_present then (False, w) else c_rename (the part_path) (the wav_path) w)
             else (wav_present, w))"

record wav_rotation_state_t =
  rs_part_path :: string
  rs_wav_path :: string
  rs_finalize_called :: bool
  rs_finalized_ok :: bool

definition wav_rotation_state_init ::
    "wav_rotation_state_t ptr \<Rightarrow> string ptr \<Rightarrow> string ptr \<Rightarrow> wav_rotation_state_t ptr" where
  "wav_rotation_state_init state part_path wav_path =
     (case state of
        None \<Rightarrow> None
      | Some st \<Rightarrow>
          let st = st\<lparr>rs_part_path := [], rs_wav_path := [], rs_finalize_called := False,
                     rs_finalized_ok := False\<rparr> in
          if \<not> has_part_suffix_local part_path \<or> \<not> has_wav_suffix_local wav_path then Some st
          else if length (the part_path) \<ge> RECORDER_MAX_PATH_LEN \<or>
                  length (the wav_path) \<ge> RECORDER_MAX_PATH_LEN then Some st
          else Some (st\<lparr>rs_part_path := the part_path, rs_wav_path := the wav_path\<rparr>))"

definition wav_rotation_finalize_once ::
    "wav_rotation_state_t ptr \<Rightarrow> sd_pcm_sink_t ptr \<Rightarrow> io_world \<Rightarrow>
     bool \<times> wav_rotation_state_t ptr \<times> sd_pcm_sink_t ptr \<times> io_world" where
  "wav_rotation_finalize_once state sink w =
     (case state of
        None \<Rightarrow> (False, state, sink, w)
      | Some st \<Rightarrow>
          if rs_finalize_called st then (rs_finalized_ok st, state, sink, w)
          else let st = st\<lparr>rs_finalize_called := True, rs_finalized_ok := False\<rparr> in
          if rs_part_path st = [] \<or> rs_wav_path st = [] then (False, Some st, sink, w)
          else case sd_pcm_sink_close sink w of (close_ok, sink, w) \<Rightarrow>
            if \<not> close_ok then (False, Some st, sink, w)
            else case wav_rotation_finalize_paths (Some (rs_part_path st)) (Some (rs_wav_path st)) w of
              (rename_ok, w) \<Rightarrow> (rename_ok, Some (st\<lparr>rs_finalized_ok := rename_ok\<rparr>), sink, w))"

section \<open>Paths\<close>

lemma part_to_wav_eq:
  "wav_rotation_part_to_wav (Some p) n =
     (if ends_with ''.wav.part'' p \<and> length p - 5 < n then Some (take (length p - 5) p) else None)"
proof (cases "ends_with ''.wav.part'' p")
  case True
  have l5: "length ''.part'' = 5" by simp
  from True obtain pre where "p = pre @ ''.wav.part''" by (rule ends_withE)
  then have "take (length p - 5) p = pre @ ''.wav''" by simp
  moreover have "ends_with ''.wav'' (pre @ ''.wav'')" by (rule ends_with_append)
  ultimately show ?thesis using True
    unfolding wav_rotation_part_to_wav_def l5 by (auto simp: Let_def config_simps)
qed (simp add: wav_rotation_part_to_wav_def config_simps)

lemma part_to_wav_append [simp]:
  "wav_rotation_part_to_wav (Some (pre @ ''.wav.part'')) n =
     (if length pre + 4 < n then Some (pre @ ''.wav'') else None)"
  by (simp add: part_to_wav_eq)

lemma part_to_wavD:
  "wav_rotation_part_to_wav (Some p) n = Some v \<Longrightarrow>
     p = v @ ''.part'' \<and> p \<noteq> v \<and> length v < n \<and> ends_with ''.wav.part'' p \<and> ends_with ''.wav'' v"
  by (auto simp: part_to_wav_eq ends_with_iff split: if_splits)

lemma is_digit_not_special:
  "is_digit c \<Longrightarrow> c \<noteq> CHR ''/'' \<and> c \<noteq> CHR ''_'' \<and> c \<noteq> CHR ''.''"
  by (auto simp: is_digit_def)

lemma valid_date_no_slash: "valid_date (Some d) \<Longrightarrow> CHR ''/'' \<notin> set d \<and> length d = 10"
proof -
  assume v: "valid_date (Some d)"
  have "d ! i \<noteq> CHR ''/''" if "i < 10" for i
    using v that is_digit_not_special[of "d ! i"]
    by (auto simp: list_all_iff split: if_splits dest!: bspec[of _ _ i])
  with v show ?thesis by (auto simp: in_set_conv_nth)
qed

lemma valid_time6_no_slash: "valid_time6 (Some t) \<Longrightarrow> CHR ''/'' \<notin> set t \<and> length t = 6"
  using is_digit_not_special by (auto simp: list_all_iff)

lemma segment_path_inject:
  assumes "length d = length d'" "length t = length t'"
  shows "segment_path d t i s = segment_path d' t' i' s \<longleftrightarrow> d = d' \<and> t = t' \<and> i = i'"
  using assms by (auto simp: segment_path_def)

section \<open>Publishing a segment\<close>

lemma path_exists_same:
  assumes "path_exists (Some p) w = (b, w')"
  shows "files w' = files w" "unsynced w' = unsynced w" "rename_replaces w' = rename_replaces w"
    "dirs w' = dirs w" "b \<Longrightarrow> files w p \<noteq> None" "quiet w \<Longrightarrow> quiet w' \<and> b = (files w p \<noteq> None)"
proof -
  obtain ok1 w1 where t1: "io_try w = (ok1, w1)" by fastforce
  obtain ok2 w2 where t2: "io_try w1 = (ok2, w2)" by fastforce
  note s1 = io_try_same[OF t1] and s2 = io_try_same[OF t2]
  have c: "(ok1 \<and> files w p \<noteq> None \<and> b \<and> w' = w2) \<or>
    (\<not> b \<and> (w' = w1 \<or> w' = w1\<lparr>errno_of := ENOENT\<rparr>) \<and> (ok1 \<longrightarrow> files w p = None))"
    using assms t1 t2 s1 by (auto simp: fopen_def fclose_def split: bool.splits option.splits)
  show "files w' = files w" "unsynced w' = unsynced w" "rename_replaces w' = rename_replaces w"
    "dirs w' = dirs w" "b \<Longrightarrow> files w p \<noteq> None"
    using c s1 s2 by auto
  show "quiet w' \<and> b = (files w p \<noteq> None)" if "quiet w"
  proof -
    from that t1 have "w1 = w" "ok1" by simp_all
    with that t2 have "w2 = w" by simp
    with c \<open>w1 = w\<close> \<open>ok1\<close> that show ?thesis by auto
  qed
qed

text \<open>What \<open>finalize_paths\<close> may do, for every script of outcomes.\<close>

lemma finalize_paths_cases:
  assumes "wav_rotation_finalize_paths (Some part) (Some wav) w = (ok, w')"
  obtains (same) "files w' = files w" "unsynced w' = unsynced w" "ok \<Longrightarrow> files w wav \<noteq> None"
      "ok \<Longrightarrow> part = wav @ ''.part''"
  | (published) c where "ok" "files w part = Some c" "part = wav @ ''.part''"
      "files w wav = None \<or> rename_replaces w"
      "files w' = (files w)(wav := Some c, part := None)"
      "unsynced w' = (unsynced w)(wav := unsynced w part, part := False)"
proof (cases "wav_rotation_part_to_wav (Some part) RECORDER_MAX_PATH_LEN = Some wav")
  case False
  then show ?thesis using assms that(1) by (auto simp: wav_rotation_finalize_paths_def split: if_splits)
next
  case True
  note d = part_to_wavD[OF True]
  have suf: "has_part_suffix_local (Some part)" "has_wav_suffix_local (Some wav)"
    unfolding has_part_suffix_local.simps has_wav_suffix_local.simps config_simps using d by blast+
  obtain b1 w1 where p1: "path_exists (Some part) w = (b1, w1)" by fastforce
  obtain b2 w2 where p2: "path_exists (Some wav) w1 = (b2, w2)" by fastforce
  obtain b3 w3 where rn: "c_rename part wav w2 = (b3, w3)" by fastforce
  note s1 = path_exists_same[OF p1] and s2 = path_exists_same[OF p2]
  have r: "(ok, w') = (if b1 then if b2 then (False, w2) else (b3, w3) else (b2, w2))"
    using assms suf True p1 p2 rn
    by (auto simp: wav_rotation_finalize_paths_def simp del: path_exists.simps
        has_part_suffix_local.simps has_wav_suffix_local.simps split: if_splits)
  show ?thesis
  proof (cases "b1 \<and> \<not> b2")
    case False
    then show ?thesis using r d s1(1,2) s2(1,2,5) by (intro that(1)) (auto split: if_splits)
  next
    case True
    then have w': "w' = w3" "ok = b3" using r by auto
    from rn show ?thesis
    proof (cases rule: c_rename_cases)
      case failed
      then show ?thesis using w' s1(1,2) s2(1,2) by (intro that(1)) auto
    next
      case (moved c)
      then show ?thesis using w' d s1(1,2,3) s2(1,2,3) by (intro that(2)[of c]) auto
    qed
  qed
qed

lemma finalize_paths_quiet:
  assumes "quiet w" "part = wav @ ''.part''" "ends_with ''.wav'' wav" "length wav < 256"
    "files w part = Some c" "files w wav = None" "\<not> dirs w wav"
  shows "\<exists>w'. wav_rotation_finalize_paths (Some part) (Some wav) w = (True, w')"
proof -
  obtain pre where pre: "wav = pre @ ''.wav''" using assms(3) by (rule ends_withE)
  obtain b1 w1 where p1: "path_exists (Some part) w = (b1, w1)" by fastforce
  obtain b2 w2 where p2: "path_exists (Some wav) w1 = (b2, w2)" by fastforce
  note s1 = path_exists_same[OF p1] and s2 = path_exists_same[OF p2]
  have q: "quiet w2" "b1" "\<not> b2" using s1(1,6) s2(6) assms by auto
  have "wav_rotation_part_to_wav (Some part) RECORDER_MAX_PATH_LEN = Some wav"
    using assms(2,4) pre part_to_wav_append[of pre 256] by (simp add: config_simps)
  moreover have "has_part_suffix_local (Some part)" "has_wav_suffix_local (Some wav)"
    using assms(2,3) pre ends_with_append[of "''.wav.part''" pre] by (simp_all add: config_simps)
  moreover have "files w2 part = Some c" "files w2 wav = None" "\<not> dirs w2 wav"
    using assms(5-7) s1(1,4) s2(1,4) by simp_all
  ultimately show ?thesis
    using q p1 p2
    by (simp add: wav_rotation_finalize_paths_def c_rename_def del: path_exists.simps
        has_part_suffix_local.simps has_wav_suffix_local.simps)
qed

lemma sink_kept_file:
  "sink_kept s w p x \<Longrightarrow> \<exists>hdr junk. length hdr = RECORDER_WAV_HEADER_SIZE \<and>
     header_like recorder_fmt hdr \<and> files w p = Some (hdr @ x @ junk)"
  by (auto simp: sink_kept_def wav_kept_fmt_def wav_kept_def dest: header_like_length)

lemma finalize_once_again:
  assumes "wav_rotation_finalize_once (Some st) sink w = (fin, st', sink', w')"
  shows "wav_rotation_finalize_once st' sink'' w'' = (fin, st', sink'', w'')"
  using assms
  by (auto simp: wav_rotation_finalize_once_def Let_def split: if_splits prod.splits)

text \<open>A first finalize on the state that \<open>wav_rotation_state_init\<close> prepared.\<close>

lemma finalize_once_first:
  assumes init: "wav_rotation_state_init (Some st0) (Some part) (Some wav) = Some st"
    and fin: "wav_rotation_finalize_once (Some st) (Some s) w = (fin, st', sink', w')"
  obtains (refused) "\<not> fin" "w' = w"
  | (unclosed) s' where "\<not> fin" "sink_close s w = (False, s', w')"
  | (closed) s' w1 where "sink_close s w = (True, s', w1)"
      "wav_rotation_finalize_paths (Some part) (Some wav) w1 = (fin, w')"
proof (cases "ends_with RECORDER_PART_SUFFIX part \<and> ends_with RECORDER_WAV_SUFFIX wav \<and>
    length part < RECORDER_MAX_PATH_LEN \<and> length wav < RECORDER_MAX_PATH_LEN")
  case False
  then show ?thesis
    using init fin that(1)
    by (auto simp: wav_rotation_state_init_def wav_rotation_finalize_once_def Let_def not_le
        split: if_splits)
next
  case True
  have ne: "part \<noteq> []" "wav \<noteq> []" using True by (auto simp: ends_with_def config_simps)
  obtain ok sk w1 where c: "sd_pcm_sink_close (Some s) w = (ok, sk, w1)" by (metis prod_cases3)
  show ?thesis
    using init fin True ne c that(2,3)
    by (cases ok) (auto simp: wav_rotation_state_init_def wav_rotation_finalize_once_def Let_def
        not_le sink_close_def split: if_splits prod.splits)
qed

section \<open>Properties\<close>

text \<open>
  C19: Finalizing paths never loses audio on the device's file system, whatever I/O errors and power
  losses occur: every file is still there with its content, except that the part file may have become
  the \<open>.wav\<close> file of the same name, and then no such file existed before.
\<close>

theorem finalize_paths_never_loses:
  assumes fat: "\<not> rename_replaces w"
    and run: "wav_rotation_finalize_paths (Some part) (Some wav) w = (ok, w')"
    and present: "files w p = Some c"
  shows "files w' p = Some c \<or>
    (p = part \<and> part = wav @ ''.part'' \<and> ok \<and> files w wav = None \<and> files w' wav = Some c)"
  using run
proof (cases rule: finalize_paths_cases)
  case same
  then show ?thesis using present by simp
next
  case (published c')
  then show ?thesis using fat present by auto
qed

definition card_with_part :: io_world where
  "card_with_part = set_file ''/a.wav.part'' (Some [1, 2]) False empty_card"

lemma card_with_part_finalized:
  "wav_rotation_finalize_paths (Some ''/a.wav.part'') (Some ''/a.wav'') card_with_part =
     (True, set_file ''/a.wav.part'' None False (set_file ''/a.wav'' (Some [1, 2]) False
        (card_with_part\<lparr>errno_of := ENOENT\<rparr>)))"
  by (simp add: wav_rotation_finalize_paths_def part_to_wav_eq ends_with_def config_simps fopen_def
      fclose_def c_rename_def card_with_part_def empty_card_def quiet_def io_try_def io_next_def set_file_def)

theorem finalize_paths_never_loses_witness:
  "files card_with_part ''/a.wav.part'' = Some [1, 2] \<and>
   files (snd (wav_rotation_finalize_paths (Some ''/a.wav.part'') (Some ''/a.wav'') card_with_part)) ''/a.wav''
     = Some [1, 2]"
  using finalize_paths_never_loses[OF _ card_with_part_finalized, of "''/a.wav.part''" "[1, 2]"]
  unfolding card_with_part_finalized by (simp add: card_with_part_def empty_card_def)


definition fresh_rotation :: wav_rotation_state_t where
  "fresh_rotation = \<lparr>rs_part_path = [], rs_wav_path = [], rs_finalize_called = False, rs_finalized_ok = False\<rparr>"


text \<open>
  C21: The paths of a segment. For every date, time and recording id, the \<open>.wav\<close> path is what
  \<open>wav_rotation_part_to_wav\<close> makes of the part path, it is refused exactly on malformed input or when
  it would not fit, and both lie directly in the directory of that date.
\<close>

theorem segment_paths_agree:
  assumes "wav_rotation_build_part_path n (Some date) (Some time6) (Some rid) = Some part"
  shows "wav_rotation_build_wav_path n (Some date) (Some time6) (Some rid) =
      wav_rotation_part_to_wav (Some part) n \<and>
    (\<exists>wav leaf. wav_rotation_part_to_wav (Some part) n = Some wav \<and> part = wav @ ''.part'' \<and>
       wav = RECORDER_RECORDINGS_DIR @ ''/'' @ date @ ''/'' @ leaf \<and>
       CHR ''/'' \<notin> set leaf \<and> CHR ''/'' \<notin> set date) \<and>
    (wav_rotation_build_part_path n (Some date') (Some time6') (Some rid') = Some part
       \<longrightarrow> date' = date \<and> time6' = time6 \<and> rid' = rid)"
proof -
  let ?pre = "RECORDER_RECORDINGS_DIR @ ''/'' @ date @ ''/'' @ time6 @ ''_'' @ rid"
  have v: "valid_date (Some date)" "valid_time6 (Some time6)" "valid_recording_id (Some rid)" "n \<noteq> 0"
    and p: "part = ?pre @ ''.wav.part''" and l: "length part < n"
    using assms
    by (auto simp: wav_rotation_build_part_path_def Let_def segment_path_def config_simps
        simp del: valid_date.simps valid_time6.simps valid_recording_id.simps split: if_splits)
  have w: "wav_rotation_part_to_wav (Some part) n = Some (?pre @ ''.wav'')"
    using part_to_wav_append[of ?pre n] l unfolding p by simp
  have b: "wav_rotation_build_wav_path n (Some date) (Some time6) (Some rid) = Some (?pre @ ''.wav'')"
    using v l unfolding p
    by (simp add: wav_rotation_build_wav_path_def Let_def segment_path_def RECORDER_WAV_SUFFIX_def
        del: valid_date.simps valid_time6.simps valid_recording_id.simps)
  have rid: "CHR ''/'' \<notin> set rid" using v(3) by (auto simp: list_all_iff)
  have leaf: "CHR ''/'' \<notin> set (time6 @ ''_'' @ rid @ ''.wav'')"
    using valid_time6_no_slash[OF v(2)] rid by auto
  have inj: "date' = date \<and> time6' = time6 \<and> rid' = rid"
    if "wav_rotation_build_part_path n (Some date') (Some time6') (Some rid') = Some part"
  proof -
    have "valid_date (Some date')" "valid_time6 (Some time6')"
      "segment_path date' time6' rid' RECORDER_PART_SUFFIX = part"
      using that by (auto simp: wav_rotation_build_part_path_def Let_def
          simp del: valid_date.simps valid_time6.simps valid_recording_id.simps split: if_splits)
    moreover have "part = segment_path date time6 rid RECORDER_PART_SUFFIX"
      by (simp add: p segment_path_def config_simps)
    ultimately show ?thesis
      using segment_path_inject[of date' date time6' time6] valid_date_no_slash valid_time6_no_slash v(1,2)
      by metis
  qed
  show ?thesis
    using b w inj leaf valid_date_no_slash[OF v(1)] unfolding p by (auto intro!: exI[of _ "time6 @ ''_'' @ rid @ ''.wav''"])
qed

theorem segment_paths_agree_witness:
  "wav_rotation_build_part_path 256 (Some ''2026-01-31'') (Some ''235959'') (Some ''id'') =
     Some ''/sdcard/M5DAYLOG/recordings/2026-01-31/235959_id.wav.part'' \<and>
   wav_rotation_build_wav_path 256 (Some ''2026-01-31'') (Some ''235959'') (Some ''id'') =
     Some ''/sdcard/M5DAYLOG/recordings/2026-01-31/235959_id.wav''"
proof -
  have p: "wav_rotation_build_part_path 256 (Some ''2026-01-31'') (Some ''235959'') (Some ''id'') =
     Some ''/sdcard/M5DAYLOG/recordings/2026-01-31/235959_id.wav.part''"
    by (simp add: wav_rotation_build_part_path_def is_digit_def segment_path_def upt_rec config_simps)
  have "wav_rotation_build_wav_path 256 (Some ''2026-01-31'') (Some ''235959'') (Some ''id'') =
      wav_rotation_part_to_wav (Some ''/sdcard/M5DAYLOG/recordings/2026-01-31/235959_id.wav.part'') 256"
    using segment_paths_agree[OF p] by blast
  also have "\<dots> = Some ''/sdcard/M5DAYLOG/recordings/2026-01-31/235959_id.wav''"
    by (simp add: part_to_wav_eq ends_with_def)
  finally show ?thesis using p by blast
qed

text \<open>
  The rotation decision: a segment continues exactly when no stop event is pending, the date has
  not changed and both the age and the payload are below the rotation limit; a pending USB connection
  wins over low battery, that over a stop request, that over midnight, that over the time limit. A
  segment that may continue has room for another chunk below the two-gigabyte bound of the writer.
\<close>

theorem rotation_decision:
  "(wav_rotation_should_rotate elapsed bytes changed ev = WAV_ROTATE_NONE \<longleftrightarrow>
      (ev = None \<or> (\<exists>e. ev = Some e \<and> \<not> usb_connected e \<and> \<not> low_battery e \<and> \<not> stop_requested e)) \<and>
      \<not> changed \<and> unat elapsed < 1800 \<and> unat bytes < 57600000) \<and>
   (wav_rotation_should_rotate elapsed bytes changed (Some e) =
      (if usb_connected e then WAV_ROTATE_USB else if low_battery e then WAV_ROTATE_LOW_BATTERY
       else if stop_requested e then WAV_ROTATE_STOP_REQUEST
       else wav_rotation_should_rotate elapsed bytes changed None)) \<and>
   (wav_rotation_should_rotate elapsed bytes changed ev = WAV_ROTATE_NONE \<and>
      length payload = unat bytes \<and> length chunk = RECORDER_BUFFER_BYTES
      \<longrightarrow> small_payload (payload @ chunk) \<and>
          unat (bytes + of_nat RECORDER_BUFFER_BYTES) = unat bytes + RECORDER_BUFFER_BYTES)"
proof -
  have limits: "bytes \<ge> of_nat RECORDER_ROTATION_PAYLOAD_BYTES \<longleftrightarrow> unat bytes \<ge> 57600000"
    "elapsed \<ge> of_nat RECORDER_ROTATION_INTERVAL_SEC \<longleftrightarrow> unat elapsed \<ge> 1800"
    by (simp_all add: word_le_nat_alt config_simps unat_of_nat_small)
  have small: "small_payload (payload @ chunk)
      \<and> unat (bytes + of_nat RECORDER_BUFFER_BYTES) = unat bytes + RECORDER_BUFFER_BYTES"
    if "length payload = unat bytes" "length chunk = RECORDER_BUFFER_BYTES" "unat bytes < 57600000"
  proof
    show "small_payload (payload @ chunk)" using that by (simp add: small_payload_def config_simps)
    have "unat (of_nat RECORDER_BUFFER_BYTES :: u32) = RECORDER_BUFFER_BYTES"
      by (rule unat_of_nat_small) (simp add: config_simps)
    with that(3) show "unat (bytes + of_nat RECORDER_BUFFER_BYTES) = unat bytes + RECORDER_BUFFER_BYTES"
      by (subst unat_plus_simple_bound) (simp_all add: RECORDER_BUFFER_BYTES_def)
  qed
  have none: "wav_rotation_should_rotate elapsed bytes changed ev = WAV_ROTATE_NONE \<longleftrightarrow>
      (ev = None \<or> (\<exists>e. ev = Some e \<and> \<not> usb_connected e \<and> \<not> low_battery e \<and> \<not> stop_requested e)) \<and>
      \<not> changed \<and> unat elapsed < 1800 \<and> unat bytes < 57600000"
    by (cases ev) (simp_all add: wav_rotation_should_rotate_def limits not_le)
  have "wav_rotation_should_rotate elapsed bytes changed (Some e) =
      (if usb_connected e then WAV_ROTATE_USB else if low_battery e then WAV_ROTATE_LOW_BATTERY
       else if stop_requested e then WAV_ROTATE_STOP_REQUEST
       else wav_rotation_should_rotate elapsed bytes changed None)"
    by (simp add: wav_rotation_should_rotate_def)
  with none small show ?thesis by blast
qed

theorem rotation_decision_witness:
  "wav_rotation_should_rotate 0 4 False None = WAV_ROTATE_NONE \<and>
   small_payload ([1, 2, 3, 4] @ replicate RECORDER_BUFFER_BYTES 0)"
proof -
  have "wav_rotation_should_rotate 0 4 False None = WAV_ROTATE_NONE"
    by (simp add: wav_rotation_should_rotate_def config_simps)
  then show ?thesis
    using rotation_decision[of 0 4 False None undefined "[1, 2, 3, 4]" "replicate RECORDER_BUFFER_BYTES 0"]
    by simp
qed

end
