(* ===== verification/Wav_Recovery.thy ===== *)
theory Wav_Recovery
  imports Wav_Rotation
begin

text \<open>
  Power-loss recovery at boot, \<open>firmware/components/recorder/wav_recovery.c\<close>: residual
  \<open>.wav.part\<close> files are given a header for the payload they hold and published as \<open>.wav\<close>, or moved
  to the quarantine directory.

  \<open>readdir\<close> returns the names \<open>listing\<close> gives for the directory when it was opened. Every caller
  passes \<open>NULL\<close> for \<open>out_dest\<close> of \<open>quarantine_move\<close>, so that output is left out.
\<close>

section \<open>Model\<close>

datatype wav_recovery_outcome_t = WAV_RECOVERY_RECOVERED | WAV_RECOVERY_QUARANTINED | WAV_RECOVERY_ERROR

record wav_recovery_stats_t =
  scanned :: u32
  recovered :: u32
  quarantined :: u32
  errors :: u32
  recovered_pcm_bytes :: u32
  quarantined_files :: u32

fun path_exists_local :: "string ptr \<Rightarrow> io_world \<Rightarrow> bool \<times> io_world" where
  "path_exists_local None w = (False, w)"
| "path_exists_local (Some path) w = (case c_stat path w of (st, w) \<Rightarrow> (st \<noteq> None, w))"

fun path_is_dir_local :: "string ptr \<Rightarrow> io_world \<Rightarrow> bool \<times> io_world" where
  "path_is_dir_local None w = (False, w)"
| "path_is_dir_local (Some path) w = (case c_stat path w of (st, w) \<Rightarrow> (st = Some StatDir, w))"

text \<open>The size of a regular file; \<open>None\<close> when \<open>*ok\<close> stays false. A directory has size zero here.\<close>

fun file_size_local :: "string ptr \<Rightarrow> io_world \<Rightarrow> nat option \<times> io_world" where
  "file_size_local None w = (None, w)"
| "file_size_local (Some path) w =
     (case c_stat path w of
        (None, w) \<Rightarrow> (None, w)
      | (Some (StatFile n), w) \<Rightarrow> (Some n, w)
      | (Some StatDir, w) \<Rightarrow> (Some 0, w))"

definition is_sep :: "char \<Rightarrow> bool" where
  "is_sep c \<longleftrightarrow> c = CHR ''/'' \<or> c = CHR 0x5C"

text \<open>The text after the last slash or backslash.\<close>

definition basename_local :: "string \<Rightarrow> string" where
  "basename_local path = rev (takeWhile (\<lambda>c. \<not> is_sep c) (rev path))"

fun get_u16le :: "byte list \<Rightarrow> u16" where
  "get_u16le (a # b # _) = ucast a OR push_bit 8 (ucast b)"
| "get_u16le _ = 0"

fun get_u32le :: "byte list \<Rightarrow> u32" where
  "get_u32le (a # b # c # d # _) =
     ucast a OR push_bit 8 (ucast b) OR push_bit 16 (ucast c) OR push_bit 24 (ucast d)"
| "get_u32le _ = 0"

fun wav_recovery_is_part_path :: "string ptr \<Rightarrow> bool" where
  "wav_recovery_is_part_path path = has_part_suffix_local path"

fun wav_recovery_validate_header :: "byte list ptr \<Rightarrow> bool" where
  "wav_recovery_validate_header None = False"
| "wav_recovery_validate_header (Some header) =
     (take 4 header = bytes_of_string ''RIFF'' \<and>
      take 4 (drop 8 header) = bytes_of_string ''WAVE'' \<and>
      take 4 (drop 12 header) = bytes_of_string ''fmt '' \<and>
      get_u32le (drop 16 header) = 16 \<and>
      get_u16le (drop 20 header) = 1 \<and>
      get_u16le (drop 22 header) = of_nat RECORDER_CHANNELS \<and>
      get_u32le (drop 24 header) = of_nat RECORDER_SAMPLE_RATE_HZ \<and>
      get_u32le (drop 28 header) = of_nat RECORDER_BYTE_RATE \<and>
      get_u16le (drop 32 header) = of_nat RECORDER_BLOCK_ALIGN \<and>
      get_u16le (drop 34 header) = of_nat RECORDER_BITS_PER_SAMPLE \<and>
      take 4 (drop 36 header) = bytes_of_string ''data'')"

fun wav_recovery_build_quarantine_path ::
    "string ptr \<Rightarrow> string ptr \<Rightarrow> nat \<Rightarrow> string option" where
  "wav_recovery_build_quarantine_path (Some part_path) (Some quarantine_dir) out_size =
     (if out_size = 0 then None
      else if \<not> has_part_suffix_local (Some part_path) \<or> quarantine_dir = [] then None
      else let base = basename_local part_path in
        if base = [] \<or> length base > 128 then None
        else if CHR ''/'' \<in> set base \<or> CHR 0x5C \<in> set base then None
        else let out = quarantine_dir @ ''/'' @ base in
          if length out \<ge> out_size then None else Some out)"
| "wav_recovery_build_quarantine_path _ _ _ = None"

fun wav_recovery_ensure_dir :: "string ptr \<Rightarrow> io_world \<Rightarrow> bool \<times> io_world" where
  "wav_recovery_ensure_dir None w = (False, w)"
| "wav_recovery_ensure_dir (Some dir) w =
     (if dir = [] then (False, w)
      else case c_mkdir dir w of
        (True, w) \<Rightarrow> (True, w)
      | (False, w) \<Rightarrow>
          if errno_of w \<noteq> EEXIST then (False, w) else path_is_dir_local (Some dir) w)"

text \<open>The renaming loop of \<open>quarantine_move\<close>: \<open>_1\<close> to \<open>_99\<close> before the suffix.\<close>

fun quarantine_try :: "string \<Rightarrow> string \<Rightarrow> nat list \<Rightarrow> io_world \<Rightarrow> bool \<times> io_world" where
  "quarantine_try part_path quarantine_dir [] w = (False, w)"
| "quarantine_try part_path quarantine_dir (i # is) w =
     (let base = basename_local part_path; base_len = length base in
      if base_len < length RECORDER_PART_SUFFIX + 1 then (False, w)
      else let stem_len = base_len - length RECORDER_PART_SUFFIX in
      if stem_len \<ge> 160 then (False, w)
      else let candidate = quarantine_dir @ ''/'' @ take stem_len base @ ''_'' @ dec_of_nat i
                 @ RECORDER_PART_SUFFIX in
      if length candidate \<ge> RECORDER_MAX_PATH_LEN then (False, w)
      else case path_exists_local (Some candidate) w of
        (False, w) \<Rightarrow> c_rename part_path candidate w
      | (True, w) \<Rightarrow> quarantine_try part_path quarantine_dir is w)"

fun quarantine_move :: "string ptr \<Rightarrow> string ptr \<Rightarrow> io_world \<Rightarrow> bool \<times> io_world" where
  "quarantine_move (Some part_path) (Some quarantine_dir) w =
     (if \<not> has_part_suffix_local (Some part_path) \<or> quarantine_dir = [] then (False, w)
      else case wav_recovery_ensure_dir (Some quarantine_dir) w of
        (False, w) \<Rightarrow> (False, w)
      | (True, w) \<Rightarrow>
          (case wav_recovery_build_quarantine_path (Some part_path) (Some quarantine_dir)
                  RECORDER_MAX_PATH_LEN of
             None \<Rightarrow> (False, w)
           | Some candidate \<Rightarrow>
               (case path_exists_local (Some candidate) w of
                  (False, w) \<Rightarrow> c_rename part_path candidate w
                | (True, w) \<Rightarrow> quarantine_try part_path quarantine_dir [1..<100] w)))"
| "quarantine_move _ _ w = (False, w)"

definition rewrite_header_with_sync :: "string \<Rightarrow> u32 \<Rightarrow> io_world \<Rightarrow> bool \<times> io_world" where
  "rewrite_header_with_sync part_path recovered_pcm w =
     (let header = wav_part_build_header recovered_pcm (of_nat RECORDER_SAMPLE_RATE_HZ)
                     (of_nat RECORDER_CHANNELS) (of_nat RECORDER_BITS_PER_SAMPLE) in
      case fopen RPB part_path w of
        (None, w) \<Rightarrow> (False, w)
      | (Some fp, w) \<Rightarrow>
      (case fseek fp 0 w of
        (False, fp, w) \<Rightarrow> (False, snd (fclose fp w))
      | (True, fp, w) \<Rightarrow>
      case fwrite fp header w of (wrote, fp, w) \<Rightarrow>
      if wrote \<noteq> length header then (False, snd (fclose fp w))
      else case fflush fp w of
        (False, w) \<Rightarrow> (False, snd (fclose fp w))
      | (True, w) \<Rightarrow>
      (case fileno fp w of
        (False, w) \<Rightarrow> (False, snd (fclose fp w))
      | (True, w) \<Rightarrow>
      (case fsync fp w of
        (False, w) \<Rightarrow> (False, snd (fclose fp w))
      | (True, w) \<Rightarrow>
      (case fclose fp w of
        (False, w) \<Rightarrow> (False, w)
      | (True, w) \<Rightarrow>
      (case file_size_local (Some part_path) w of (sz, w) \<Rightarrow>
        let want = sint (of_nat RECORDER_WAV_HEADER_SIZE + recovered_pcm) in
        case sz of
          None \<Rightarrow> (True, w)
        | Some n \<Rightarrow> if int n > want then (True, snd (c_truncate part_path (nat want) w)) else (True, w)))))))"

text \<open>\<open>if (quarantine_move(...)) return QUARANTINED; return ERROR;\<close>\<close>

definition quarantine_or_error ::
    "string \<Rightarrow> string \<Rightarrow> io_world \<Rightarrow> wav_recovery_outcome_t \<times> u32 \<times> io_world" where
  "quarantine_or_error part_path quarantine_dir w =
     (case quarantine_move (Some part_path) (Some quarantine_dir) w of
        (ok, w) \<Rightarrow> (if ok then WAV_RECOVERY_QUARANTINED else WAV_RECOVERY_ERROR, 0, w))"

text \<open>The second half of \<open>wav_recovery_recover_file\<close>: the file has \<open>sz\<close> bytes, at least a header.\<close>

definition recover_payload ::
    "string \<Rightarrow> string \<Rightarrow> string \<Rightarrow> nat \<Rightarrow> io_world \<Rightarrow> wav_recovery_outcome_t \<times> u32 \<times> io_world" where
  "recover_payload part_path wav_path quarantine_dir sz w =
     (case fopen RB part_path w of
        (None, w) \<Rightarrow> (WAV_RECOVERY_ERROR, 0, w)
      | (Some probe, w) \<Rightarrow>
      (case fread probe RECORDER_WAV_HEADER_SIZE w of (header, probe, w) \<Rightarrow>
      case fclose probe w of (_, w) \<Rightarrow>
      if length header \<noteq> RECORDER_WAV_HEADER_SIZE \<or> \<not> wav_recovery_validate_header (Some header)
      then quarantine_or_error part_path quarantine_dir w
      else let payload = of_nat (sz - RECORDER_WAV_HEADER_SIZE) :: u32;
               recovered = payload - payload mod of_nat RECORDER_BYTES_PER_SAMPLE in
      case rewrite_header_with_sync part_path recovered w of
        (False, w) \<Rightarrow> (WAV_RECOVERY_ERROR, 0, w)
      | (True, w) \<Rightarrow>
      (case c_rename part_path wav_path w of
        (True, w) \<Rightarrow> (WAV_RECOVERY_RECOVERED, recovered, w)
      | (False, w) \<Rightarrow>
          if errno_of w = EEXIST then quarantine_or_error part_path quarantine_dir w
          else (WAV_RECOVERY_ERROR, 0, w))))"

text \<open>The result is the outcome and \<open>*out_pcm_bytes\<close>.\<close>

fun wav_recovery_recover_file ::
    "string ptr \<Rightarrow> string ptr \<Rightarrow> string ptr \<Rightarrow> io_world \<Rightarrow> wav_recovery_outcome_t \<times> u32 \<times> io_world" where
  "wav_recovery_recover_file (Some part_path) (Some wav_path) (Some quarantine_dir) w =
     (if \<not> has_part_suffix_local (Some part_path) \<or> wav_path = [] \<or> quarantine_dir = []
      then (WAV_RECOVERY_ERROR, 0, w)
      else if wav_rotation_part_to_wav (Some part_path) RECORDER_MAX_PATH_LEN \<noteq> Some wav_path
      then (WAV_RECOVERY_ERROR, 0, w)
      else case path_exists_local (Some part_path) w of
        (False, w) \<Rightarrow>
          (case path_exists_local (Some wav_path) w of
             (wav_present, w) \<Rightarrow>
               (if wav_present then WAV_RECOVERY_RECOVERED else WAV_RECOVERY_ERROR, 0, w))
      | (True, w) \<Rightarrow>
          (case path_exists_local (Some wav_path) w of
             (True, w) \<Rightarrow> quarantine_or_error part_path quarantine_dir w
           | (False, w) \<Rightarrow>
               (case file_size_local (Some part_path) w of
                  (None, w) \<Rightarrow> quarantine_or_error part_path quarantine_dir w
                | (Some sz, w) \<Rightarrow>
                    if sz < RECORDER_WAV_HEADER_SIZE
                    then quarantine_or_error part_path quarantine_dir w
                    else recover_payload part_path wav_path quarantine_dir sz w)))"
| "wav_recovery_recover_file _ _ _ w = (WAV_RECOVERY_ERROR, 0, w)"

text \<open>Closing an event file: flush, then a sync whose failure is ignored.\<close>

definition finish_event :: "FILE \<Rightarrow> io_world \<Rightarrow> bool \<times> io_world" where
  "finish_event fp w =
     (case fflush fp w of
        (False, w) \<Rightarrow> (False, snd (fclose fp w))
      | (True, w) \<Rightarrow>
          (case fileno fp w of
             (True, w) \<Rightarrow> fclose fp (snd (fsync fp w))
           | (False, w) \<Rightarrow> fclose fp w))"

text \<open>\<open>fputs\<close>, \<open>fputc\<close> and \<open>fprintf\<close>, whose results the code ignores.\<close>

definition fput :: "string \<Rightarrow> FILE \<times> io_world \<Rightarrow> FILE \<times> io_world" where
  "fput s fw = (case fw of (fp, w) \<Rightarrow> snd (fwrite fp (bytes_of_string s) w))"

definition summary_line :: "wav_recovery_stats_t \<Rightarrow> string" where
  "summary_line stats =
     ''{\"event\":\"recovery\",\"scanned\":'' @ dec_of_nat (unat (scanned stats)) @
     '',\"recovered\":'' @ dec_of_nat (unat (recovered stats)) @
     '',\"quarantined\":'' @ dec_of_nat (unat (quarantined stats)) @
     '',\"errors\":'' @ dec_of_nat (unat (errors stats)) @
     '',\"recovered_pcm_bytes\":'' @ dec_of_nat (unat (recovered_pcm_bytes stats)) @ ''}'' @ [CHR 0x0A]"

fun wav_recovery_append_summary_event ::
    "string ptr \<Rightarrow> wav_recovery_stats_t ptr \<Rightarrow> io_world \<Rightarrow> bool \<times> io_world" where
  "wav_recovery_append_summary_event (Some events_path) (Some stats) w =
     (if events_path = [] then (False, w)
      else case fopen AB events_path w of
        (None, w) \<Rightarrow> (False, w)
      | (Some fp, w) \<Rightarrow> (case fput (summary_line stats) (fp, w) of (fp, w) \<Rightarrow> finish_event fp w))"
| "wav_recovery_append_summary_event _ _ w = (False, w)"

definition safe_name_char :: "char \<Rightarrow> char" where
  "safe_name_char c =
     (let n = of_char c :: nat in
      if (of_char CHR ''A'' \<le> n \<and> n \<le> of_char CHR ''Z'') \<or>
         (of_char CHR ''a'' \<le> n \<and> n \<le> of_char CHR ''z'') \<or>
         (of_char CHR ''0'' \<le> n \<and> n \<le> of_char CHR ''9'') \<or>
         c = CHR ''.'' \<or> c = CHR ''_'' \<or> c = CHR ''-'' then c else CHR ''_'')"

definition append_file_event ::
    "string ptr \<Rightarrow> string ptr \<Rightarrow> string ptr \<Rightarrow> u32 \<Rightarrow> io_world \<Rightarrow> bool \<times> io_world" where
  "append_file_event events_path part_path result pcm_bytes w =
     (case (events_path, part_path, result) of
        (Some ev, Some pp, Some res) \<Rightarrow>
          if ev = [] then (False, w)
          else (case fopen AB ev w of
             (None, w) \<Rightarrow> (False, w)
           | (Some fp, w) \<Rightarrow>
               (let base = basename_local pp;
                    fw = fput ''{\"event\":\"recovery_file\",\"file\":\"'' (fp, w);
                    fw = foldl (\<lambda>fw c. fput [safe_name_char c] fw) fw (take 128 base);
                    fw = fput (''\",\"result\":\"'' @ res @ ''\",\"pcm_bytes\":'' @
                               dec_of_nat (unat pcm_bytes) @ ''}'' @ [CHR 0x0A]) fw
                in case fw of (fp, w) \<Rightarrow> finish_event fp w))
      | _ \<Rightarrow> (False, w))"

text \<open>Logging is skipped when no events path is given; its result is ignored.\<close>

definition log_event :: "string ptr \<Rightarrow> string \<Rightarrow> string \<Rightarrow> u32 \<Rightarrow> io_world \<Rightarrow> io_world" where
  "log_event events_path part_path result pcm_bytes w =
     (if events_path = None then w
      else snd (append_file_event events_path (Some part_path) (Some result) pcm_bytes w))"

definition handle_one_part ::
    "string \<Rightarrow> string \<Rightarrow> string ptr \<Rightarrow> wav_recovery_stats_t \<Rightarrow> io_world \<Rightarrow>
     wav_recovery_stats_t \<times> io_world" where
  "handle_one_part part_path quarantine_dir events_path stats w =
     (case wav_rotation_part_to_wav (Some part_path) RECORDER_MAX_PATH_LEN of
        None \<Rightarrow> (stats\<lparr>scanned := scanned stats + 1, errors := errors stats + 1\<rparr>, w)
      | Some wav_path \<Rightarrow>
          (let stats = stats\<lparr>scanned := scanned stats + 1\<rparr> in
           case wav_recovery_recover_file (Some part_path) (Some wav_path) (Some quarantine_dir) w of
             (WAV_RECOVERY_RECOVERED, pcm_bytes, w) \<Rightarrow>
               (stats\<lparr>recovered := recovered stats + 1,
                      recovered_pcm_bytes := recovered_pcm_bytes stats + pcm_bytes\<rparr>,
                log_event events_path part_path ''recovered'' pcm_bytes w)
           | (WAV_RECOVERY_QUARANTINED, pcm_bytes, w) \<Rightarrow>
               (stats\<lparr>quarantined := quarantined stats + 1,
                      quarantined_files := quarantined_files stats + 1\<rparr>,
                log_event events_path part_path ''quarantined'' 0 w)
           | (WAV_RECOVERY_ERROR, pcm_bytes, w) \<Rightarrow>
               (stats\<lparr>errors := errors stats + 1\<rparr>,
                log_event events_path part_path ''error'' 0 w)))"

text \<open>The inner loop, over a date directory.\<close>

fun scan_sub :: "string \<Rightarrow> string \<Rightarrow> string ptr \<Rightarrow> string list \<Rightarrow>
    wav_recovery_stats_t \<Rightarrow> io_world \<Rightarrow> wav_recovery_stats_t \<times> io_world" where
  "scan_sub child quarantine_dir events_path [] stats w = (stats, w)"
| "scan_sub child quarantine_dir events_path (name # names) stats w =
     (let part = child @ ''/'' @ name;
          rest = scan_sub child quarantine_dir events_path names in
      if name = ''.'' \<or> name = ''..'' then rest stats w
      else if length part \<ge> RECORDER_MAX_PATH_LEN then rest (stats\<lparr>errors := errors stats + 1\<rparr>) w
      else if \<not> has_part_suffix_local (Some part) then rest stats w
      else case path_is_dir_local (Some part) w of
        (True, w) \<Rightarrow> rest stats w
      | (False, w) \<Rightarrow>
          (case handle_one_part part quarantine_dir events_path stats w of (stats, w) \<Rightarrow> rest stats w))"

text \<open>The outer loop, over the recordings directory.\<close>

fun scan_dir :: "string \<Rightarrow> string \<Rightarrow> string ptr \<Rightarrow> string list \<Rightarrow>
    wav_recovery_stats_t \<Rightarrow> io_world \<Rightarrow> wav_recovery_stats_t \<times> io_world" where
  "scan_dir recordings_dir quarantine_dir events_path [] stats w = (stats, w)"
| "scan_dir recordings_dir quarantine_dir events_path (name # names) stats w =
     (let child = recordings_dir @ ''/'' @ name;
          rest = scan_dir recordings_dir quarantine_dir events_path names in
      if name = ''.'' \<or> name = ''..'' then rest stats w
      else if length child \<ge> RECORDER_MAX_PATH_LEN then rest (stats\<lparr>errors := errors stats + 1\<rparr>) w
      else case path_is_dir_local (Some child) w of
        (True, w) \<Rightarrow>
          (case c_opendir child w of
             (None, w) \<Rightarrow> rest (stats\<lparr>errors := errors stats + 1\<rparr>) w
           | (Some sub, w) \<Rightarrow>
               (case scan_sub child quarantine_dir events_path sub stats w of (stats, w) \<Rightarrow> rest stats w))
      | (False, w) \<Rightarrow>
          if \<not> has_part_suffix_local (Some child) then rest stats w
          else (case handle_one_part child quarantine_dir events_path stats w of
                  (stats, w) \<Rightarrow> rest stats w))"

definition zero_stats :: wav_recovery_stats_t where
  "zero_stats = \<lparr>scanned = 0, recovered = 0, quarantined = 0, errors = 0, recovered_pcm_bytes = 0,
     quarantined_files = 0\<rparr>"

text \<open>The result is the return value and \<open>*out_stats\<close>.\<close>

fun wav_recovery_scan_recordings ::
    "string ptr \<Rightarrow> string ptr \<Rightarrow> string ptr \<Rightarrow> io_world \<Rightarrow> bool \<times> wav_recovery_stats_t \<times> io_world" where
  "wav_recovery_scan_recordings (Some recordings_dir) (Some quarantine_dir) events_path w =
     (if recordings_dir = [] \<or> quarantine_dir = [] then (False, zero_stats, w)
      else case wav_recovery_ensure_dir (Some quarantine_dir) w of
        (False, w) \<Rightarrow> (False, zero_stats, w)
      | (True, w) \<Rightarrow>
      (case c_opendir recordings_dir w of
        (None, w) \<Rightarrow> (False, zero_stats, w)
      | (Some names, w) \<Rightarrow>
      (case scan_dir recordings_dir quarantine_dir events_path names zero_stats w of
        (stats, w) \<Rightarrow>
          (True, stats, if events_path = None then w
                        else snd (wav_recovery_append_summary_event events_path (Some stats) w)))))"
| "wav_recovery_scan_recordings _ _ _ w = (False, zero_stats, w)"

section \<open>Headers\<close>

lemma drop_nth4:
  "k + 3 < length xs \<Longrightarrow> drop k xs = xs ! k # xs ! (k + 1) # xs ! (k + 2) # xs ! (k + 3) # drop (k + 4) xs"
  by (simp add: Cons_nth_drop_Suc numeral_eq_Suc)

lemma drop_nth2: "k + 1 < length xs \<Longrightarrow> drop k xs = xs ! k # xs ! (k + 1) # drop (k + 2) xs"
  by (simp add: Cons_nth_drop_Suc numeral_eq_Suc)

lemma recorder_header_bytes:
  "wav_part_build_header 0 16000 1 16 =
     [82, 73, 70, 70, 36, 0, 0, 0, 87, 65, 86, 69, 102, 109, 116, 32, 16, 0, 0, 0, 1, 0, 1, 0,
      128, 62, 0, 0, 0, 125, 0, 0, 2, 0, 16, 0, 100, 97, 116, 97, 0, 0, 0, 0]"
  by code_simp

text \<open>Recovery accepts every header that the writer can leave, complete or half rewritten.\<close>

lemma validate_header_like:
  assumes "header_like recorder_fmt hdr"
  shows "wav_recovery_validate_header (Some hdr)"
proof -
  have l: "length hdr = 44" using header_like_length[OF assms] by (simp add: config_simps)
  have n: "hdr ! i = wav_part_build_header 0 16000 1 16 ! i" if "i < 4 \<or> 8 \<le> i \<and> i < 40" for i
    using assms that by (auto simp: header_like_def recorder_fmt_def config_simps)
  have t: "take 4 (drop k hdr) = [hdr ! k, hdr ! (k + 1), hdr ! (k + 2), hdr ! (k + 3)]"
    if "k + 3 < 44" for k
    using that l by (subst drop_nth4) (simp_all add: numeral_eq_Suc)
  have g4: "get_u32le (drop k hdr) = ucast (hdr ! k) OR push_bit 8 (ucast (hdr ! (k + 1)))
      OR push_bit 16 (ucast (hdr ! (k + 2))) OR push_bit 24 (ucast (hdr ! (k + 3)))"
    if "k + 3 < 44" for k
    using that l by (subst drop_nth4) simp_all
  have g2: "get_u16le (drop k hdr) = ucast (hdr ! k) OR push_bit 8 (ucast (hdr ! (k + 1)))"
    if "k + 1 < 44" for k
    using that l by (subst drop_nth2) simp_all
  show ?thesis
    using t[of 0]
    by (simp add: t g4 g2 n recorder_header_bytes config_simps bytes_of_string_def)
qed

text \<open>The little-endian readers undo the writers.\<close>

lemma word_of_bytes16:
  fixes v :: u16
  shows "ucast (ucast (v AND 0xFF) :: byte) OR push_bit 8 (ucast (ucast (drop_bit 8 v AND 0xFF) :: byte)) = v" (is "?l = v")
proof (rule bit_word_eqI)
  fix n assume "n < LENGTH(16)"
  then consider "n < 8" | "8 \<le> n" "n < 16" by force
  then show "bit ?l n = bit v n" unfolding mask8 by cases (auto simp: bit_simps)
qed

lemma word_of_bytes32:
  fixes v :: u32
  shows "ucast (ucast (v AND 0xFF) :: byte) OR push_bit 8 (ucast (ucast (drop_bit 8 v AND 0xFF) :: byte)) OR
    push_bit 16 (ucast (ucast (drop_bit 16 v AND 0xFF) :: byte)) OR
    push_bit 24 (ucast (ucast (drop_bit 24 v AND 0xFF) :: byte)) = v" (is "?l = v")
proof (rule bit_word_eqI)
  fix n assume "n < LENGTH(32)"
  then consider "n < 8" | "8 \<le> n" "n < 16" | "16 \<le> n" "n < 24" | "24 \<le> n" "n < 32" by force
  then show "bit ?l n = bit v n" unfolding mask8 by cases (auto simp: bit_simps)
qed

lemma get_put_u16le [simp]: "get_u16le (put_u16le v @ rest) = v"
  by (simp add: put_u16le_def word_of_bytes16)

lemma get_put_u32le [simp]: "get_u32le (put_u32le v @ rest) = v"
  by (simp add: put_u32le_def word_of_bytes32)

lemma get_put_u32le_end [simp]: "get_u32le (put_u32le v) = v"
  using get_put_u32le[of v "[]"] by simp

lemma build_header_slices:
  "drop 16 (wav_part_build_header n r c b) = put_u32le 16 @ put_u16le 1 @ put_u16le c @ put_u32le r @
     put_u32le (r * ucast (c * (b div 8))) @ put_u16le (c * (b div 8)) @ put_u16le b @
     bytes_of_string ''data'' @ put_u32le n"
  by (simp add: wav_part_build_header_def Let_def)

section \<open>What recovery keeps\<close>

text \<open>
  \<open>audio_kept c c'\<close>: the file content \<open>c'\<close> still has the audio of \<open>c\<close>. A file shorter than a header
  is unchanged; otherwise everything behind the header is, except that a last odd byte may be cut.
\<close>

definition audio_kept :: "byte list \<Rightarrow> byte list \<Rightarrow> bool" where
  "audio_kept c c' \<longleftrightarrow>
     (if length c < RECORDER_WAV_HEADER_SIZE then c' = c
      else RECORDER_WAV_HEADER_SIZE \<le> length c' \<and>
        (drop RECORDER_WAV_HEADER_SIZE c' = drop RECORDER_WAV_HEADER_SIZE c \<or>
         odd (length c) \<and> drop RECORDER_WAV_HEADER_SIZE c' = butlast (drop RECORDER_WAV_HEADER_SIZE c)))"

lemma audio_kept_refl [simp]: "audio_kept c c"
  by (simp add: audio_kept_def)

lemma audio_kept_length:
  "audio_kept c d \<Longrightarrow> length d = length c \<or> odd (length c) \<and> Suc (length d) = length c"
  by (auto simp: audio_kept_def split: if_splits dest!: arg_cong[where f=length])

lemma audio_kept_trans:
  assumes "audio_kept c d" "audio_kept d e" shows "audio_kept c e"
proof (cases "length d = length c")
  case True
  let ?H = "RECORDER_WAV_HEADER_SIZE"
  have "drop ?H d = drop ?H c" if "\<not> length c < ?H"
  proof (rule ccontr)
    assume "drop ?H d \<noteq> drop ?H c"
    then have o: "odd (length c)" "drop ?H d = butlast (drop ?H c)"
      using assms(1) that by (auto simp: audio_kept_def)
    then have "length c - ?H = length c - ?H - 1"
      using True by (auto dest: arg_cong[where f=length])
    then have "length c = ?H" using that by simp
    with o(1) show False by (simp add: RECORDER_WAV_HEADER_SIZE_def)
  qed
  then show ?thesis using assms True by (auto simp: audio_kept_def split: if_splits)
next
  case False
  then have "odd (length c)" "even (length d)" using audio_kept_length[OF assms(1)] by presburger+
  then show ?thesis using assms False by (auto simp: audio_kept_def split: if_splits)
qed

text \<open>
  From \<open>w\<close> to \<open>w'\<close> every file outside \<open>E\<close> is still there with its audio, possibly under another
  name, no two of them have become one, and there is no new file.
\<close>

definition preserves :: "string set \<Rightarrow> io_world \<Rightarrow> io_world \<Rightarrow> bool" where
  "preserves E w w' \<longleftrightarrow> rename_replaces w' = rename_replaces w \<and>
     (\<exists>m. inj_on m (dom (files w) - E) \<and>
        (\<forall>p c. p \<notin> E \<longrightarrow> files w p = Some c \<longrightarrow>
           m p \<notin> E \<and> (\<exists>c'. files w' (m p) = Some c' \<and> audio_kept c c'))) \<and>
     (\<forall>p' c'. p' \<notin> E \<longrightarrow> files w' p' = Some c' \<longrightarrow>
        (\<exists>p c. p \<notin> E \<and> files w p = Some c \<and> audio_kept c c'))"

lemma preserves_trans:
  assumes "preserves E w w1" "preserves E w1 w2"
  shows "preserves E w w2"
proof -
  obtain m where m: "inj_on m (dom (files w) - E)"
    "\<And>p c. p \<notin> E \<Longrightarrow> files w p = Some c \<Longrightarrow> m p \<notin> E \<and> (\<exists>c'. files w1 (m p) = Some c' \<and> audio_kept c c')"
    using assms(1) by (auto simp: preserves_def)
  obtain k where k: "inj_on k (dom (files w1) - E)"
    "\<And>p c. p \<notin> E \<Longrightarrow> files w1 p = Some c \<Longrightarrow> k p \<notin> E \<and> (\<exists>c'. files w2 (k p) = Some c' \<and> audio_kept c c')"
    using assms(2) by (auto simp: preserves_def)
  have into: "m ` (dom (files w) - E) \<subseteq> dom (files w1) - E" using m(2) by blast
  have "inj_on (k \<circ> m) (dom (files w) - E)"
    using m(1) inj_on_subset[OF k(1) into] by (rule comp_inj_on)
  moreover have "k (m p) \<notin> E \<and> (\<exists>c'. files w2 (k (m p)) = Some c' \<and> audio_kept c c')"
    if "p \<notin> E" "files w p = Some c" for p c
    using m(2)[OF that] k(2) audio_kept_trans by meson
  moreover have "\<exists>p c. p \<notin> E \<and> files w p = Some c \<and> audio_kept c c'"
    if "p' \<notin> E" "files w2 p' = Some c'" for p' c'
    using assms that audio_kept_trans unfolding preserves_def by meson
  ultimately show ?thesis
    using assms unfolding preserves_def by (intro conjI exI[of _ "k \<circ> m"]) simp_all
qed

lemma preserves_back:
  "preserves E w w' \<Longrightarrow> p' \<notin> E \<Longrightarrow> files w' p' = Some c' \<Longrightarrow>
     \<exists>p c. p \<notin> E \<and> files w p = Some c \<and> audio_kept c c'"
  unfolding preserves_def by blast

lemma preserves_replaces: "preserves E w w' \<Longrightarrow> rename_replaces w' = rename_replaces w"
  unfolding preserves_def by blast

lemma preserves_same:
  "(\<And>p. p \<notin> E \<Longrightarrow> files w' p = files w p) \<Longrightarrow> rename_replaces w' = rename_replaces w \<Longrightarrow> preserves E w w'"
  unfolding preserves_def by (intro conjI exI[of _ id]) (auto intro: audio_kept_refl)

lemma preserves_refl [simp]: "preserves E w w"
  by (rule preserves_same) simp_all

lemma preserves_touches: "touches A w w' \<Longrightarrow> A \<subseteq> E \<Longrightarrow> preserves E w w'"
  by (rule preserves_same) (auto dest: touches_filesD simp: touches_def)

lemma preserves_update:
  assumes "files w p = Some c" "audio_kept c c'" "\<And>q. q \<noteq> p \<Longrightarrow> files w' q = files w q" "files w' p = Some c'"
    "rename_replaces w' = rename_replaces w"
  shows "preserves E w w'"
proof -
  have f: "\<exists>d'. files w' q = Some d' \<and> audio_kept d d'" if "files w q = Some d" for q d
    using assms that by (cases "q = p") auto
  have b: "\<exists>d. files w q = Some d \<and> audio_kept d d'" if "files w' q = Some d'" for q d'
    using assms that by (cases "q = p") auto
  show ?thesis using assms(5) f b unfolding preserves_def
    by (intro conjI exI[of _ id]) (simp_all, blast)
qed

lemma preserves_rename:
  assumes "c_rename a b w = (ok, w')" "\<not> rename_replaces w" "b \<notin> E" "a \<notin> E"
  shows "preserves E w w'"
proof -
  have rr: "rename_replaces w' = rename_replaces w"
    using c_rename_touches[OF assms(1)] by (simp add: touches_def)
  from assms(1) show ?thesis
proof (cases rule: c_rename_cases)
  case failed
  then show ?thesis using rr by (intro preserves_same) simp_all
next
  case (moved c)
  show ?thesis
  proof (cases "a = b")
    case True
    then show ?thesis using moved assms(2) by auto
  next
    case False
    then have f: "files w' = (files w)(b := Some c, a := None)" "files w b = None"
      using moved assms(2) by auto
    have src: "\<exists>p d. p \<notin> E \<and> files w p = Some d \<and> audio_kept d d'"
      if "p' \<notin> E" "files w' p' = Some d'" for p' d'
      using that f moved(2) assms(4) by (cases "p' = b") (auto split: if_splits)
    show ?thesis unfolding preserves_def
      using f moved(2) assms(3) False rr src
      by (intro conjI exI[of _ "id(a := b)"]) (auto simp: inj_on_def)
  qed
qed
qed

lemma touches_nothing: "touches {} w w' \<Longrightarrow> files w' = files w \<and> unsynced w' = unsynced w"
  by (auto simp: touches_def)

lemma local_probes_touch:
  "path_exists_local p w = (b, w') \<Longrightarrow> touches {} w w'"
  "path_is_dir_local p w = (b, w') \<Longrightarrow> touches {} w w'"
  "file_size_local p w = (n, w') \<Longrightarrow> touches {} w w'"
  by (cases p; auto split: prod.splits option.splits stat_t.splits dest: c_stat_touches)+

lemma ensure_dir_touches: "wav_recovery_ensure_dir d w = (b, w') \<Longrightarrow> touches {} w w'"
proof (cases d)
  case (Some dir)
  assume a: "wav_recovery_ensure_dir d w = (b, w')"
  obtain ok w1 where m: "c_mkdir dir w = (ok, w1)" by fastforce
  obtain b2 w2 where p: "path_is_dir_local (Some dir) w1 = (b2, w2)" by fastforce
  have "w' \<in> {w, w1, w2}"
    using a Some m p by (auto simp del: path_is_dir_local.simps split: if_splits bool.splits)
  moreover have "touches {} w w1" by (rule c_mkdir_touches[OF m])
  moreover have "touches {} w w2" using calculation(2) local_probes_touch(2)[OF p] by (rule touches_trans)
  ultimately show ?thesis by auto
qed simp

text \<open>Paths that recovery may write to end in \<open>.wav.part\<close> or \<open>.wav\<close>.\<close>

definition no_audio_paths :: "string set \<Rightarrow> bool" where
  "no_audio_paths E \<longleftrightarrow> (\<forall>p\<in>E. \<not> ends_with ''.wav.part'' p \<and> \<not> ends_with ''.wav'' p)"

lemma ends_with_append2 [simp]: "ends_with suf (a @ b @ suf)"
  using ends_with_append[of suf "a @ b"] by simp

lemma quarantine_try_preserves:
  assumes "quarantine_try part q is w = (ok, w')" "\<not> rename_replaces w" "no_audio_paths E" "part \<notin> E"
  shows "preserves E w w'"
  using assms
proof (induction "is" arbitrary: w)
  case (Cons i "is")
  define base where "base = basename_local part"
  define cand where "cand = q @ ''/'' @ take (length base - length RECORDER_PART_SUFFIX) base @ ''_'' @
    dec_of_nat i @ RECORDER_PART_SUFFIX"
  obtain b w1 where pe: "path_exists_local (Some cand) w = (b, w1)" by fastforce
  note t = local_probes_touch(1)[OF pe]
  have p1: "preserves E w w1" using t by (rule preserves_touches) simp
  have r1: "\<not> rename_replaces w1" using t Cons.prems(2) by (simp add: touches_def)
  have ends: "ends_with ''.wav.part'' cand"
    using ends_with_append[of "''.wav.part''" "q @ ''/'' @ take (length base - length RECORDER_PART_SUFFIX) base @ ''_'' @ dec_of_nat i"]
    by (simp add: cand_def RECORDER_PART_SUFFIX_def)
  then have nE: "cand \<notin> E" using Cons.prems(3) by (auto simp: no_audio_paths_def)
  have "w' = w \<or> (ok, w') = c_rename part cand w1 \<or> (ok, w') = quarantine_try part q is w1"
    using Cons.prems(1)[unfolded quarantine_try.simps Let_def, folded base_def, folded cand_def] pe
    by (auto simp del: path_exists_local.simps split: if_splits bool.splits)
  then consider "w' = w" | "c_rename part cand w1 = (ok, w')" | "quarantine_try part q is w1 = (ok, w')"
    by metis
  then show ?case
  proof cases
    case 1 then show ?thesis by simp
  next
    case 2
    from preserves_rename[OF this r1 nE Cons.prems(4)] p1 show ?thesis by (metis preserves_trans)
  next
    case 3
    from Cons.IH[OF this r1 Cons.prems(3,4)] p1 show ?thesis by (metis preserves_trans)
  qed
qed simp

lemma basename_suffix: "\<exists>pre. path = pre @ basename_local path"
  using takeWhile_dropWhile_id[of "\<lambda>c. \<not> is_sep c" "rev path"]
  by (metis basename_local_def rev_append rev_rev_ident)

lemma ends_with_basename:
  assumes "ends_with ''.wav.part'' path" shows "ends_with ''.wav.part'' (basename_local path)"
proof -
  obtain pre where "path = pre @ ''.wav.part''" using assms by (rule ends_withE)
  then have "basename_local path = basename_local pre @ ''.wav.part''"
    by (simp add: basename_local_def is_sep_def)
  then show ?thesis by simp
qed

lemma quarantine_move_preserves:
  assumes "quarantine_move (Some part) (Some q) w = (ok, w')" "\<not> rename_replaces w" "no_audio_paths E"
  shows "preserves E w w'"
proof -
  obtain b w1 where ed: "wav_recovery_ensure_dir (Some q) w = (b, w1)" by fastforce
  note t1 = ensure_dir_touches[OF ed]
  let ?c = "wav_recovery_build_quarantine_path (Some part) (Some q) RECORDER_MAX_PATH_LEN"
  obtain b2 w2 where pe: "path_exists_local ?c w1 = (b2, w2)" by fastforce
  have t2: "touches {} w w2" using t1 local_probes_touch(1)[OF pe] by (rule touches_trans)
  have p: "preserves E w w1" "preserves E w w2" "\<not> rename_replaces w2"
    using t1 t2 assms(2) by (auto intro!: preserves_touches simp: touches_def)
  consider "w' = w" | "w' = w1" | cand where "?c = Some cand" "c_rename part cand w2 = (ok, w')"
      "ends_with ''.wav.part'' part"
    | "quarantine_try part q [1..<100] w2 = (ok, w')" "ends_with ''.wav.part'' part"
    using assms(1) ed pe
    by (auto simp: config_simps simp del: wav_recovery_ensure_dir.simps path_exists_local.simps
        wav_recovery_build_quarantine_path.simps quarantine_try.simps upt.simps
        split: if_splits bool.splits option.splits)
  then show ?thesis
  proof cases
    case (3 cand)
    then have "cand = q @ ''/'' @ basename_local part" by (auto simp: Let_def split: if_splits)
    moreover obtain pre where "basename_local part = pre @ ''.wav.part''"
      using ends_with_basename[OF 3(3)] by (rule ends_withE)
    ultimately have "ends_with ''.wav.part'' cand"
      using ends_with_append[of "''.wav.part''" "q @ ''/'' @ pre"] by simp
    then have "cand \<notin> E" "part \<notin> E" using assms(3) 3(3) by (auto simp: no_audio_paths_def)
    from preserves_rename[OF 3(2) p(3) this] p(2) show ?thesis by (metis preserves_trans)
  next
    case 4
    then have "part \<notin> E" using assms(3) by (auto simp: no_audio_paths_def)
    from quarantine_try_preserves[OF 4(1) p(3) assms(3) this] p(2) show ?thesis by (metis preserves_trans)
  qed (use p in simp_all)
qed

lemma quarantine_or_error_preserves:
  assumes "quarantine_or_error part q w = (r, n, w')" "\<not> rename_replaces w" "no_audio_paths E"
  shows "preserves E w w'"
  using assms quarantine_move_preserves[of part q w _ w' E]
  by (auto simp: quarantine_or_error_def simp del: quarantine_move.simps split: prod.splits)

definition recorder_header :: "nat \<Rightarrow> byte list" where
  "recorder_header n = wav_part_build_header (of_nat n) (of_nat RECORDER_SAMPLE_RATE_HZ)
     (of_nat RECORDER_CHANNELS) (of_nat RECORDER_BITS_PER_SAMPLE)"

lemma length_recorder_header [simp]: "length (recorder_header n) = RECORDER_WAV_HEADER_SIZE"
  by (simp add: recorder_header_def)

definition even_part :: "nat \<Rightarrow> nat" where
  "even_part n = n - n mod 2"

lemma recovered_word:
  assumes "n < 2 ^ 32"
  shows "(of_nat n :: u32) - of_nat n mod of_nat RECORDER_BYTES_PER_SAMPLE = of_nat (even_part n)"
proof -
  have "(of_nat n :: u32) mod 2 = of_nat (n mod 2)"
    using assms by (intro word_unat_eq_iff[THEN iffD2]) (simp add: unat_mod unat_of_nat_small)
  then show ?thesis by (simp add: even_part_def RECORDER_BYTES_PER_SAMPLE_def)
qed

text \<open>The content after a header rewrite: new or half-written header, then all the audio.\<close>

lemma audio_kept_header:
  "length c \<ge> RECORDER_WAV_HEADER_SIZE \<Longrightarrow> length h = RECORDER_WAV_HEADER_SIZE \<Longrightarrow>
   audio_kept c (write_at 0 (take k h) c)"
  by (auto simp: audio_kept_def write_at_0 drop_drop)

lemma even_part_take:
  "take (even_part (length xs)) xs = (if odd (length xs) then butlast xs else xs)"
  by (auto simp: even_part_def butlast_conv_take odd_iff_mod_2_eq_one)

lemma audio_kept_truncated:
  assumes "length c \<ge> RECORDER_WAV_HEADER_SIZE" "length h = RECORDER_WAV_HEADER_SIZE"
  shows "audio_kept c (h @ take (even_part (length c - RECORDER_WAV_HEADER_SIZE)) (drop RECORDER_WAV_HEADER_SIZE c))"
proof -
  have "odd (length c - RECORDER_WAV_HEADER_SIZE) = odd (length c)"
    using assms(1) by (simp add: RECORDER_WAV_HEADER_SIZE_def)
  then show ?thesis
    using assms even_part_take[of "drop RECORDER_WAV_HEADER_SIZE c"] by (auto simp: audio_kept_def)
qed

lemma c_truncate_cases:
  assumes "c_truncate p n w = (ok, w')" "files w p = Some c" "n \<le> length c"
  shows "(files w' p = Some c \<or> files w' p = Some (take n c)) \<and> unsynced w' = unsynced w"
proof (cases "io_try w")
  case (Pair ok1 w1)
  show ?thesis
    using assms Pair io_try_same(1,2)[OF Pair] by (auto simp: c_truncate_def split: bool.splits)
qed

lemma files_snd_fclose [simp]:
  "files (snd (fclose h w)) = files w" "unsynced (snd (fclose h w)) = unsynced w"
  using fclose_files[of h w "fst (fclose h w)" "snd (fclose h w)"] by simp_all

lemma touches_fclose: "touches A w v \<Longrightarrow> touches A w (snd (fclose h v))"
  using fclose_touches[of h v "fst (fclose h v)" "snd (fclose h v)" A] touches_trans by simp

text \<open>
  Rewriting the header of a residual file, for every script of outcomes: nothing was written, or a
  prefix of the header was, or all of it was and is on the card, and then the file may be truncated.
\<close>

lemma rewrite_header_with_sync_cases:
  assumes c: "files w part = Some c" "RECORDER_WAV_HEADER_SIZE \<le> length c" "length c < 2 ^ 31"
    and n: "n \<le> length c - RECORDER_WAV_HEADER_SIZE"
    and run: "rewrite_header_with_sync part (of_nat n) w = (ok, w')"
  obtains (broken) j where "\<not> ok" "j \<le> RECORDER_WAV_HEADER_SIZE" "touches {part} w w'"
      "files w' part = Some (write_at 0 (take j (recorder_header n)) c)"
  | (complete) v where "ok" "files v part = Some (recorder_header n @ drop RECORDER_WAV_HEADER_SIZE c)"
      "\<not> unsynced v part" "touches {part} w v"
      "v = w' \<or> (\<exists>b. c_truncate part (RECORDER_WAV_HEADER_SIZE + n) v = (b, w'))"
proof -
  let ?H = "RECORDER_WAV_HEADER_SIZE" and ?h = "recorder_header n"
  have tail: "sint (of_nat ?H + of_nat n :: u32) = int (?H + n)"
    using sint_tail[of n] c(2,3) n by simp
  obtain f w1 where c1: "fopen RPB part w = (f, w1)" by fastforce
  have t1: "touches {} w w1" by (rule fopen_rpb_touches[OF c1])
  show ?thesis
  proof (cases f)
    case None
    then have "w' = w1" "\<not> ok" using run c1 by (auto simp: rewrite_header_with_sync_def Let_def)
    then show ?thesis
      using touches_nothing[OF t1] touches_mono[OF t1] c(1) by (intro broken[of 0]) auto
  next
    case (Some fp)
    have fp: "fpath fp = part"
      using c1 Some by (auto simp: fopen_def split: prod.splits bool.splits option.splits)
    obtain b2 fp2 w2 where c2: "fseek fp 0 w1 = (b2, fp2, w2)" by (metis prod_cases3)
    obtain k fp3 w3 where c3: "fwrite fp2 ?h w2 = (k, fp3, w3)" by (metis prod_cases3)
    obtain b4 w4 where c4: "fflush fp3 w3 = (b4, w4)" by fastforce
    obtain b5 w5 where c5: "fileno fp3 w4 = (b5, w5)" by fastforce
    obtain b6 w6 where c6: "fsync fp3 w5 = (b6, w6)" by fastforce
    obtain b7 w7 where c7: "fclose fp3 w6 = (b7, w7)" by fastforce
    obtain s8 w8 where c8: "file_size_local (Some part) w7 = (s8, w8)" by fastforce
    have r: "\<not> ok \<and> \<not> b2 \<and> w' = snd (fclose fp2 w2)
      \<or> \<not> ok \<and> b2 \<and> (\<exists>v \<in> {w3, w4, w5, w6, w7}. w' = v \<or> w' = snd (fclose fp3 v))
      \<or> ok \<and> b2 \<and> k = ?H \<and> b6 \<and> (w' = w8 \<or> w' = snd (c_truncate part (?H + n) w8))"
      using run c1 Some c2 c3 c4 c5 c6 c7 c8 tail
      unfolding rewrite_header_with_sync_def Let_def recorder_header_def[symmetric] length_recorder_header
      by (auto simp: nat_int_add simp del: file_size_local.simps split: bool.splits if_splits option.splits)
    have fh: "fpath fp2 = part" "fpath fp3 = part" "b2 \<longrightarrow> fpos fp2 = 0"
      using fseek_handle[OF c2] fwrite_files(2)[OF c3] fp by auto
    have f2: "files w2 part = Some c" using fseek_files[OF c2] touches_nothing[OF t1] c(1) by simp
    have fs: "files w4 = files w3" "files w5 = files w3" "files w6 = files w3" "files w7 = files w3"
      "files w8 = files w3" "unsynced w8 = unsynced w6"
      using fflush_files[OF c4] fileno_files[OF c5] fsync_files[OF c6] fclose_files[OF c7]
        touches_nothing[OF local_probes_touch(3)[OF c8]] by simp_all
    have t2: "touches {part} w w2"
      using touches_mono[OF t1] fseek_touches[OF c2] by (blast intro: touches_trans)
    have t3: "touches {part} w w3" using t2 fwrite_touches[OF c3] fh by (metis touches_trans)
    have t4: "touches {part} w w4" using t3 fflush_touches[OF c4] by (rule touches_trans)
    have t5: "touches {part} w w5" using t4 fileno_touches[OF c5] by (rule touches_trans)
    have t6: "touches {part} w w6" using t5 fsync_touches[OF c6] fh by (metis touches_trans)
    have t7: "touches {part} w w7" using t6 fclose_touches[OF c7] by (rule touches_trans)
    have t8: "touches {part} w w8"
      using t7 touches_mono[OF local_probes_touch(3)[OF c8]] by (blast intro: touches_trans)
    obtain j where j: "j \<le> ?H" "k = ?H \<longrightarrow> j = ?H"
      "\<forall>c. files w2 (fpath fp2) = Some c \<and> fpos fp2 \<le> length c \<longrightarrow>
         files w3 (fpath fp2) = Some (write_at (fpos fp2) (take j ?h) c)"
      using fwrite_files(1)[OF c3] unfolding length_recorder_header by blast
    then have f3: "b2 \<longrightarrow> files w3 part = Some (write_at 0 (take j ?h) c)"
      using fh f2 by simp
    from r consider "\<not> ok" "w' = snd (fclose fp2 w2)"
      | v where "\<not> ok" "b2" "v \<in> {w3, w4, w5, w6, w7}" "w' = v \<or> w' = snd (fclose fp3 v)"
      | "ok" "b2" "k = ?H" "b6" "w' = w8 \<or> w' = snd (c_truncate part (?H + n) w8)"
      by blast
    then show ?thesis
    proof cases
      case 1
      then show ?thesis using f2 t2 touches_fclose by (intro broken[of 0]) auto
    next
      case (2 v)
      then show ?thesis using f3 j(1) fs t3 t4 t5 t6 t7 touches_fclose by (intro broken[of j]) auto
    next
      case 3
      have "files w8 part = Some (?h @ drop ?H c)" using f3 j 3 fs by (simp add: write_at_0)
      moreover have "\<not> unsynced w8 part" using fs(6) fsync_synced[of fp3 w5 w6] c6 3 fh by simp
      moreover have "w8 = w' \<or> (\<exists>b. c_truncate part (?H + n) w8 = (b, w'))"
        using 3(5) by (metis prod.collapse)
      ultimately show ?thesis using 3(1) t8 by (intro complete[of w8])
    qed
  qed
qed

lemma rewrite_header_with_sync_keeps:
  assumes c: "files w part = Some c" "RECORDER_WAV_HEADER_SIZE \<le> length c" "length c < 2 ^ 31"
    and n: "n = even_part (length c - RECORDER_WAV_HEADER_SIZE)"
    and run: "rewrite_header_with_sync part (of_nat n) w = (ok, w')"
  shows "touches {part} w w'"
    and "\<exists>c'. files w' part = Some c' \<and> audio_kept c c' \<and>
      (ok \<longrightarrow> \<not> unsynced w' part \<and> (\<exists>junk. length junk \<le> 1 \<and>
         c' = recorder_header n @ take n (drop RECORDER_WAV_HEADER_SIZE c) @ junk))"
proof -
  let ?H = "RECORDER_WAV_HEADER_SIZE" and ?h = "recorder_header n"
  have nl: "n \<le> length c - ?H" by (simp add: n even_part_def)
  from c nl run have "touches {part} w w' \<and> (\<exists>c'. files w' part = Some c' \<and> audio_kept c c' \<and>
      (ok \<longrightarrow> \<not> unsynced w' part \<and> (\<exists>junk. length junk \<le> 1 \<and> c' = ?h @ take n (drop ?H c) @ junk)))"
  proof (cases rule: rewrite_header_with_sync_cases)
    case (broken j)
    then show ?thesis using audio_kept_header[OF c(2), of ?h j] by auto
  next
    case (complete v)
    have junk: "length (drop n (drop ?H c)) \<le> 1" by (simp add: n even_part_def)
    have k1: "audio_kept c (?h @ drop ?H c)"
      using audio_kept_header[OF c(2), of ?h ?H] by (simp add: write_at_0)
    have k2: "audio_kept c (?h @ take n (drop ?H c))"
      using audio_kept_truncated[OF c(2), of ?h] n by simp
    from complete(5) have "touches {part} w w' \<and> \<not> unsynced w' part \<and>
        (files w' part = Some (?h @ drop ?H c) \<or> files w' part = Some (?h @ take n (drop ?H c)))"
    proof
      assume "v = w'" then show ?thesis using complete by simp
    next
      assume "\<exists>b. c_truncate part (?H + n) v = (b, w')"
      then obtain b where t: "c_truncate part (?H + n) v = (b, w')" by blast
      then show ?thesis
        using c_truncate_cases[OF t complete(2)] nl complete(3,4) c_truncate_touches[OF t]
        by (auto intro: touches_trans)
    qed
    then show ?thesis
      using k1 k2 junk append_take_drop_id[of n "drop ?H c"] by (metis append_Nil2 le0 list.size(3))
  qed
  then show "touches {part} w w'" and "\<exists>c'. files w' part = Some c' \<and> audio_kept c c' \<and>
      (ok \<longrightarrow> \<not> unsynced w' part \<and> (\<exists>junk. length junk \<le> 1 \<and>
         c' = recorder_header n @ take n (drop RECORDER_WAV_HEADER_SIZE c) @ junk))" by auto
qed

lemma recover_payload_preserves:
  assumes c: "files w part = Some c" "RECORDER_WAV_HEADER_SIZE \<le> length c" "length c < 2 ^ 31"
    and run: "recover_payload part wav q (length c) w = (r, n, w')"
    and fat: "\<not> rename_replaces w" and E: "no_audio_paths E" "ends_with ''.wav'' wav" "part \<notin> E"
  shows "preserves E w w'"
proof -
  let ?H = "RECORDER_WAV_HEADER_SIZE"
  define e where "e = even_part (length c - ?H)"
  obtain f w1 where c1: "fopen RB part w = (f, w1)" by fastforce
  have t1: "touches {} w w1" by (rule fopen_rb_touches[OF c1])
  show ?thesis
  proof (cases f)
    case None
    then show ?thesis using run c1 preserves_touches[OF t1] by (auto simp: recover_payload_def)
  next
    case (Some fp)
    obtain hd fp2 w2 where c2: "fread fp ?H w1 = (hd, fp2, w2)" by (metis prod_cases3)
    obtain b3 w3 where c3: "fclose fp2 w2 = (b3, w3)" by fastforce
    have t3: "touches {} w w3"
      using touches_trans[OF touches_trans[OF t1 fread_touches[OF c2]] fclose_touches[OF c3]] .
    have p3: "preserves E w w3" "\<not> rename_replaces w3" "files w3 part = Some c"
      using preserves_touches[OF t3] fat c(1) touches_nothing[OF t3] t3 by (auto simp: touches_def)
    obtain b4 w4 where c4: "rewrite_header_with_sync part (of_nat e) w3 = (b4, w4)" by fastforce
    have k4: "touches {part} w3 w4" "\<exists>c'. files w4 part = Some c' \<and> audio_kept c c'"
      using rewrite_header_with_sync_keeps[OF p3(3) c(2,3) e_def c4] by auto
    have p4: "preserves E w w4" "\<not> rename_replaces w4"
    proof -
      obtain c' where c': "files w4 part = Some c'" "audio_kept c c'" using k4(2) by blast
      have "preserves E w3 w4"
        using preserves_update[OF p3(3) c'(2) _ c'(1)] k4(1) by (auto simp: touches_def)
      with p3(1) show "preserves E w w4" by (rule preserves_trans)
      show "\<not> rename_replaces w4" using k4(1) p3(2) by (simp add: touches_def)
    qed
    obtain b5 w5 where c5: "c_rename part wav w4 = (b5, w5)" by fastforce
    have wE: "wav \<notin> E" using E(1,2) by (auto simp: no_audio_paths_def)
    have p5: "preserves E w w5" "\<not> rename_replaces w5"
      using preserves_trans[OF p4(1) preserves_rename[OF c5 p4(2) wE E(3)]] c_rename_touches[OF c5] p4(2)
      by (auto simp: touches_def)
    have "w' \<in> {w3, w4, w5} \<or> quarantine_or_error part q w3 = (r, n, w') \<or>
        quarantine_or_error part q w5 = (r, n, w')"
      using run c1 Some c2 c3 c4 c5 recovered_word[of "length c - ?H"] c(3)
      by (auto simp: recover_payload_def Let_def e_def[symmetric] split: if_splits bool.splits)
    then show ?thesis
      using p3 p4 p5 quarantine_or_error_preserves[OF _ _ E(1)] by (blast intro: preserves_trans)
  qed
qed

lemma recover_file_preserves:
  assumes run: "wav_recovery_recover_file (Some part) (Some wav) (Some q) w = (r, n, w')"
    and fat: "\<not> rename_replaces w" and size: "\<And>c. files w part = Some c \<Longrightarrow> length c < 2 ^ 31"
    and E: "no_audio_paths E"
  shows "preserves E w w'"
proof (cases "wav_rotation_part_to_wav (Some part) RECORDER_MAX_PATH_LEN = Some wav \<and>
    has_part_suffix_local (Some part) \<and> wav \<noteq> [] \<and> q \<noteq> []")
  case False
  then show ?thesis using run by (auto split: if_splits)
next
  case True
  then have d: "ends_with ''.wav.part'' part" "ends_with ''.wav'' wav" "part \<noteq> wav"
    using part_to_wavD by blast+
  obtain b1 w1 where c1: "path_exists_local (Some part) w = (b1, w1)" by fastforce
  obtain b2 w2 where c2: "path_exists_local (Some wav) w1 = (b2, w2)" by fastforce
  obtain s3 w3 where c3: "file_size_local (Some part) w2 = (s3, w3)" by fastforce
  have t1: "touches {} w w1" by (rule local_probes_touch(1)[OF c1])
  have t2: "touches {} w w2" using t1 local_probes_touch(1)[OF c2] by (rule touches_trans)
  have t3: "touches {} w w3" using t2 local_probes_touch(3)[OF c3] by (rule touches_trans)
  have p: "preserves E w w1" "preserves E w w2" "preserves E w w3" "\<not> rename_replaces w2"
    "\<not> rename_replaces w3" "files w3 = files w" "files w2 = files w"
    using t1 t2 t3 fat touches_nothing[OF t3] touches_nothing[OF t2]
    by (auto intro: preserves_touches simp: touches_def)
  have "w' \<in> {w1, w2, w3} \<or> quarantine_or_error part q w2 = (r, n, w') \<or>
     quarantine_or_error part q w3 = (r, n, w') \<or>
     (\<exists>m. s3 = Some m \<and> RECORDER_WAV_HEADER_SIZE \<le> m \<and> recover_payload part wav q m w3 = (r, n, w'))"
    using run True c1 c2 c3
    by (auto simp del: path_exists_local.simps file_size_local.simps has_part_suffix_local.simps
        split: if_splits bool.splits option.splits)
  then consider "w' \<in> {w1, w2, w3}" | "quarantine_or_error part q w2 = (r, n, w')"
    | "quarantine_or_error part q w3 = (r, n, w')"
    | m where "s3 = Some m" "RECORDER_WAV_HEADER_SIZE \<le> m" "recover_payload part wav q m w3 = (r, n, w')"
    by blast
  then show ?thesis
  proof cases
    case (4 m)
    have "m > 0" using 4(2) by (simp add: RECORDER_WAV_HEADER_SIZE_def)
    then obtain c where c: "files w2 part = Some c" "length c = m"
      using c3 4(1) c_stat_file by (fastforce split: prod.splits option.splits stat_t.splits)
    have "part \<notin> E" using E d(1) by (auto simp: no_audio_paths_def)
    from recover_payload_preserves[of w3 part c wav q r n w' E] 4 c p size d this E
    show ?thesis by (metis preserves_trans)
  qed (use p quarantine_or_error_preserves[OF _ _ E] in \<open>blast intro: preserves_trans\<close>)+
qed

section \<open>The events file\<close>

lemma fput_touches:
  assumes "fput s (fp, w) = (fp', w')"
  shows "touches {fpath fp} w w' \<and> fpath fp' = fpath fp"
proof -
  obtain n where f: "fwrite fp (bytes_of_string s) w = (n, fp', w')"
    using assms by (cases "fwrite fp (bytes_of_string s) w") (simp add: fput_def)
  show ?thesis using fwrite_touches[OF f] fwrite_files(2)[OF f] by simp
qed

lemma fput_all_touches:
  assumes "foldl (\<lambda>fw c. fput (g c) fw) (fp, w) cs = (fp', w')"
  shows "touches {fpath fp} w w' \<and> fpath fp' = fpath fp"
  using assms
proof (induction cs arbitrary: fp w)
  case (Cons c cs)
  obtain fp1 w1 where f: "fput (g c) (fp, w) = (fp1, w1)" by fastforce
  from Cons.IH[of fp1 w1] Cons.prems f fput_touches[OF f] show ?case by (auto intro: touches_trans)
qed simp

lemma finish_event_touches:
  assumes "finish_event fp w = (ok, w')" shows "touches {fpath fp} w w'"
proof -
  obtain b1 w1 where c1: "fflush fp w = (b1, w1)" by fastforce
  obtain b2 w2 where c2: "fileno fp w1 = (b2, w2)" by fastforce
  obtain b3 w3 where c3: "fsync fp w2 = (b3, w3)" by fastforce
  have t1: "touches {fpath fp} w w1" by (rule fflush_touches[OF c1])
  have t2: "touches {fpath fp} w w2" using t1 fileno_touches[OF c2] by (rule touches_trans)
  have t3: "touches {fpath fp} w w3" using t2 fsync_touches[OF c3] by (rule touches_trans)
  have "w' \<in> {snd (fclose fp w1), snd (fclose fp w2), snd (fclose fp w3)}"
    using assms c1 c2 c3 by (auto simp: finish_event_def split: bool.splits intro: arg_cong[where f=snd])
  then show ?thesis using t1 t2 t3 touches_fclose by auto
qed

lemma fopen_path: "fopen m p w = (Some fp, w') \<Longrightarrow> fpath fp = p"
  by (auto simp: fopen_def split: prod.splits bool.splits fmode.splits option.splits)

lemma append_file_event_touches:
  assumes "append_file_event (Some ev) (Some pp) (Some res) n w = (ok, w')"
  shows "touches {ev} w w'"
proof -
  obtain f w1 where c1: "fopen AB ev w = (f, w1)" by fastforce
  note t1 = fopen_touches[OF c1]
  show ?thesis
  proof (cases f)
    case None
    then show ?thesis using assms c1 t1 by (auto simp: append_file_event_def split: if_splits)
  next
    case (Some fp)
    have fp: "fpath fp = ev" using fopen_path c1 Some by blast
    let ?s1 = "''{\"event\":\"recovery_file\",\"file\":\"''"
    let ?s3 = "''\",\"result\":\"'' @ res @ ''\",\"pcm_bytes\":'' @ dec_of_nat (unat n) @ ''}'' @ [CHR 0x0A]"
    obtain fp2 w2 where c2: "fput ?s1 (fp, w1) = (fp2, w2)" by (metis prod.exhaust)
    obtain fp3 w3 where c3: "foldl (\<lambda>fw c. fput [safe_name_char c] fw) (fp2, w2)
        (take 128 (basename_local pp)) = (fp3, w3)" by (metis prod.exhaust)
    obtain fp4 w4 where c4: "fput ?s3 (fp3, w3) = (fp4, w4)" by (metis prod.exhaust)
    have t2: "touches {ev} w w2" "fpath fp2 = ev" using fput_touches[OF c2] t1 fp by (auto intro: touches_trans)
    have t3: "touches {ev} w w3" "fpath fp3 = ev" using fput_all_touches[OF c3] t2 by (auto intro: touches_trans)
    have t4: "touches {ev} w w4" "fpath fp4 = ev" using fput_touches[OF c4] t3 by (auto intro: touches_trans)
    have "w' = w \<or> finish_event fp4 w4 = (ok, w')"
      using assms c1 Some c2 c3 c4
      unfolding append_file_event_def Let_def by (auto split: if_splits)
    then show ?thesis using t4 finish_event_touches[of fp4 w4 ok w'] by (auto intro: touches_trans)
  qed
qed

lemma append_summary_event_touches:
  assumes "wav_recovery_append_summary_event (Some ev) (Some st) w = (ok, w')"
  shows "touches {ev} w w'"
proof -
  obtain f w1 where c1: "fopen AB ev w = (f, w1)" by fastforce
  note t1 = fopen_touches[OF c1]
  show ?thesis
  proof (cases f)
    case None
    then show ?thesis using assms c1 t1 by (auto split: if_splits)
  next
    case (Some fp)
    have fp: "fpath fp = ev" using fopen_path c1 Some by blast
    obtain fp2 w2 where c2: "fput (summary_line st) (fp, w1) = (fp2, w2)" by (metis prod.exhaust)
    have t2: "touches {ev} w w2" "fpath fp2 = ev" using fput_touches[OF c2] t1 fp by (auto intro: touches_trans)
    have "w' = w \<or> finish_event fp2 w2 = (ok, w')" using assms c1 Some c2 by (auto split: if_splits)
    then show ?thesis using t2 finish_event_touches[of fp2 w2 ok w'] by (auto intro: touches_trans)
  qed
qed

lemma log_event_touches: "touches (set_option ev) w (log_event ev part res n w)"
proof (cases ev)
  case (Some e)
  then show ?thesis
    using append_file_event_touches[of e part res n w "fst (append_file_event ev (Some part) (Some res) n w)"]
    by (auto simp: log_event_def)
qed (simp add: log_event_def)

section \<open>The boot scan\<close>

definition files_small :: "string set \<Rightarrow> io_world \<Rightarrow> bool" where
  "files_small E w \<longleftrightarrow> (\<forall>p c. p \<notin> E \<longrightarrow> files w p = Some c \<longrightarrow> length c < 2 ^ 31)"

lemma preserves_small:
  assumes "preserves E w w'" "files_small E w" shows "files_small E w'"
proof -
  have "length c' < 2 ^ 31" if f': "p' \<notin> E" "files w' p' = Some c'" for p' c'
  proof -
    obtain p c where "p \<notin> E" "files w p = Some c" "audio_kept c c'"
      using preserves_back[OF assms(1) f'] by blast
    then show ?thesis using assms(2) audio_kept_length[of c c'] by (fastforce simp: files_small_def)
  qed
  then show ?thesis by (simp add: files_small_def)
qed

text \<open>The situation of the boot scan: the device's file system, files that a \<open>long\<close> can measure.\<close>

definition scan_ok :: "string ptr \<Rightarrow> io_world \<Rightarrow> bool" where
  "scan_ok ev w \<longleftrightarrow> \<not> rename_replaces w \<and> files_small (set_option ev) w \<and> no_audio_paths (set_option ev)"

lemma scan_ok_preserves: "preserves (set_option ev) w w' \<Longrightarrow> scan_ok ev w \<Longrightarrow> scan_ok ev w'"
  using preserves_small[of "set_option ev" w w'] preserves_replaces[of "set_option ev" w w']
  by (simp add: scan_ok_def)

lemma handle_one_part_preserves:
  assumes "handle_one_part part q ev st w = (st', w')" "scan_ok ev w"
  shows "preserves (set_option ev) w w'"
proof (cases "wav_rotation_part_to_wav (Some part) RECORDER_MAX_PATH_LEN")
  case None
  then show ?thesis using assms by (auto simp: handle_one_part_def)
next
  case (Some wav)
  obtain r n w1 where rf: "wav_recovery_recover_file (Some part) (Some wav) (Some q) w = (r, n, w1)"
    by (metis prod_cases3)
  have "part \<notin> set_option ev"
    using part_to_wavD[OF Some] assms(2) by (auto simp: scan_ok_def no_audio_paths_def)
  then have p1: "preserves (set_option ev) w w1"
    using recover_file_preserves[OF rf] assms(2) by (auto simp: scan_ok_def files_small_def)
  have "\<exists>res k. w' = log_event ev part res k w1"
    using assms(1) Some rf
    by (auto simp: handle_one_part_def Let_def simp del: wav_recovery_recover_file.simps
        split: wav_recovery_outcome_t.splits)
  then have "preserves (set_option ev) w1 w'" using log_event_touches preserves_touches by blast
  with p1 show ?thesis by (rule preserves_trans)
qed

lemma probe_scan:
  assumes "touches {} w w1" "scan_ok ev w"
  shows "preserves (set_option ev) w w1" "scan_ok ev w1"
  using preserves_touches[OF assms(1)] scan_ok_preserves[OF _ assms(2)] by simp_all

lemma scan_sub_preserves:
  assumes "scan_sub child q ev names st w = (st', w')" "scan_ok ev w"
  shows "preserves (set_option ev) w w'"
  using assms
proof (induction names arbitrary: st w)
  case (Cons name names)
  let ?part = "child @ ''/'' @ name"
  obtain b w1 where c1: "path_is_dir_local (Some ?part) w = (b, w1)" by fastforce
  note p1 = probe_scan[OF local_probes_touch(2)[OF c1] Cons.prems(2)]
  obtain st2 w2 where c2: "handle_one_part ?part q ev st w1 = (st2, w2)" by fastforce
  note p2 = handle_one_part_preserves[OF c2 p1(2)]
  have p12: "preserves (set_option ev) w w2" "scan_ok ev w2"
    using preserves_trans[OF p1(1) p2] scan_ok_preserves[OF p2 p1(2)] .
  consider v where "scan_sub child q ev names v w = (st', w')"
    | "scan_sub child q ev names st w1 = (st', w')" | "scan_sub child q ev names st2 w2 = (st', w')"
    using Cons.prems(1) c1 c2
    by (auto simp: Let_def simp del: path_is_dir_local.simps has_part_suffix_local.simps
        split: if_splits bool.splits)
  then show ?case
    using Cons.IH Cons.prems(2) p1 p12 by cases (blast intro: preserves_trans)+
qed simp

lemma scan_dir_preserves:
  assumes "scan_dir dir q ev names st w = (st', w')" "scan_ok ev w"
  shows "preserves (set_option ev) w w'"
  using assms
proof (induction names arbitrary: st w)
  case (Cons name names)
  let ?child = "dir @ ''/'' @ name"
  obtain b w1 where c1: "path_is_dir_local (Some ?child) w = (b, w1)" by fastforce
  note p1 = probe_scan[OF local_probes_touch(2)[OF c1] Cons.prems(2)]
  obtain l w2 where c2: "c_opendir ?child w1 = (l, w2)" by fastforce
  note p2 = probe_scan[OF c_opendir_touches[OF c2] p1(2)]
  obtain st3 w3 where c3: "scan_sub ?child q ev (the l) st w2 = (st3, w3)" by fastforce
  note p3 = scan_sub_preserves[OF c3 p2(2)]
  obtain st4 w4 where c4: "handle_one_part ?child q ev st w1 = (st4, w4)" by fastforce
  note p4 = handle_one_part_preserves[OF c4 p1(2)]
  have p: "preserves (set_option ev) w w2" "preserves (set_option ev) w w3" "preserves (set_option ev) w w4"
    "scan_ok ev w3" "scan_ok ev w4"
    using preserves_trans[OF p1(1) p2(1)] preserves_trans[OF preserves_trans[OF p1(1) p2(1)] p3]
      preserves_trans[OF p1(1) p4] scan_ok_preserves[OF p3 p2(2)] scan_ok_preserves[OF p4 p1(2)] .
  consider v where "scan_dir dir q ev names v w = (st', w')"
    | "scan_dir dir q ev names st w1 = (st', w')" | v where "scan_dir dir q ev names v w2 = (st', w')"
    | "scan_dir dir q ev names st3 w3 = (st', w')" | "scan_dir dir q ev names st4 w4 = (st', w')"
    using Cons.prems(1) c1 c2 c3 c4
    by (auto simp: Let_def simp del: path_is_dir_local.simps has_part_suffix_local.simps scan_sub.simps
        split: if_splits bool.splits option.splits)
  then show ?case
    using Cons.IH Cons.prems(2) p1 p2 p by cases (blast intro: preserves_trans)+
qed simp

section \<open>Recovery without faults\<close>

lemma rewrite_header_with_sync_quiet:
  assumes q: "quiet w" and c: "files w part = Some c" "RECORDER_WAV_HEADER_SIZE \<le> length c" "length c < 2 ^ 31"
    and n: "n = even_part (length c - RECORDER_WAV_HEADER_SIZE)"
  shows "\<exists>w'. rewrite_header_with_sync part (of_nat n) w = (True, w') \<and> quiet w' \<and> dirs w' = dirs w \<and>
    files w' = (files w)(part := Some (recorder_header n @ take n (drop RECORDER_WAV_HEADER_SIZE c))) \<and>
    \<not> unsynced w' part"
proof -
  let ?H = "RECORDER_WAV_HEADER_SIZE" and ?h = "recorder_header n"
  have nl: "n \<le> length c - ?H" by (simp add: n even_part_def)
  have tail: "sint (of_nat ?H + of_nat n :: u32) = int (?H + n)"
    using sint_tail[of n] c(2,3) nl by simp
  define fp where "fp = \<lparr>fpath = part, fpos = 0, ferr = False\<rparr>"
  define w1 where "w1 = set_file part (Some (?h @ drop ?H c)) True w"
  define w2 where "w2 = w1\<lparr>unsynced := (unsynced w1)(part := False)\<rparr>"
  have op: "fopen RPB part w = (Some fp, w)" using q c(1) by (simp add: fopen_def fp_def)
  have pb: "put_bytes fp ?h w = w1" using c(1) by (simp add: put_bytes_def fp_def w1_def write_at_0)
  have q1: "quiet w1" "quiet w2" using q by (simp_all add: w1_def w2_def)
  have fs: "file_size_local (Some part) w2 = (Some (length c), w2)"
    using q1 c(2) by (simp add: c_stat_quiet w2_def w1_def)
  have sy: "fsync (fp\<lparr>fpos := ?H\<rparr>) w1 = (True, w2)"
    using q1 by (simp add: fsync_def w2_def fp_def)
  have run: "rewrite_header_with_sync part (of_nat n) w =
      (True, if length c > ?H + n then snd (c_truncate part (?H + n) w2) else w2)"
    using q q1 op pb fs sy tail
    unfolding rewrite_header_with_sync_def Let_def recorder_header_def[symmetric] length_recorder_header
    by (simp add: fflush_def fileno_def fclose_def fp_def nat_int_add del: file_size_local.simps)
  have tr: "snd (c_truncate part (?H + n) w2) =
      set_file part (Some (?h @ take n (drop ?H c))) False w2" if "length c > ?H + n"
    using q1 that by (simp add: c_truncate_def w2_def w1_def)
  show ?thesis
  proof (cases "length c > ?H + n")
    case True
    then show ?thesis using run tr q1 by (simp add: w2_def w1_def)
  next
    case False
    then have "take n (drop ?H c) = drop ?H c" using nl c(2) by simp
    with False show ?thesis using run q1 by (simp add: w2_def w1_def)
  qed
qed

lemma recover_file_quiet:
  assumes q: "quiet w" and c: "files w part = Some c" "RECORDER_WAV_HEADER_SIZE \<le> length c" "length c < 2 ^ 31"
    and hdr: "wav_recovery_validate_header (Some (take RECORDER_WAV_HEADER_SIZE c))"
    and wav: "wav_rotation_part_to_wav (Some part) RECORDER_MAX_PATH_LEN = Some wav"
    and free: "files w wav = None" "\<not> dirs w wav" and qd: "qdir \<noteq> []"
    and n: "n = even_part (length c - RECORDER_WAV_HEADER_SIZE)"
  shows "\<exists>w'. wav_recovery_recover_file (Some part) (Some wav) (Some qdir) w =
      (WAV_RECOVERY_RECOVERED, of_nat n, w') \<and>
    files w' = (files w)(wav := Some (recorder_header n @ take n (drop RECORDER_WAV_HEADER_SIZE c)), part := None) \<and>
    \<not> unsynced w' wav"
proof -
  let ?H = "RECORDER_WAV_HEADER_SIZE"
  note d = part_to_wavD[OF wav]
  have suf: "has_part_suffix_local (Some part)"
    unfolding has_part_suffix_local.simps config_simps using d by blast
  have ne: "wav \<noteq> []" "part \<noteq> wav" using d by (auto simp: ends_with_def)
  let ?w = "w\<lparr>errno_of := ENOENT\<rparr>"
  have p1: "path_exists_local (Some part) w = (True, w)" using q c(1) by (simp add: c_stat_quiet)
  have p2: "path_exists_local (Some wav) w = (False, ?w)" using q free by (simp add: c_stat_quiet)
  have p3: "file_size_local (Some part) ?w = (Some (length c), ?w)" using q c(1) by (simp add: c_stat_quiet)
  define fp where "fp = \<lparr>fpath = part, fpos = 0, ferr = False\<rparr>"
  have op: "fopen RB part ?w = (Some fp, ?w)" using q c(1) by (simp add: fopen_def fp_def)
  obtain fp2 where rd: "fread fp ?H ?w = (take ?H c, fp2, ?w)"
    using q c(1) by (simp add: fread_def fp_def)
  have cl: "fclose fp2 ?w = (True, ?w)" using q by (simp add: fclose_def)
  obtain w2 where rw: "rewrite_header_with_sync part (of_nat n) ?w = (True, w2)" "quiet w2" "dirs w2 = dirs w"
    "files w2 = (files w)(part := Some (recorder_header n @ take n (drop ?H c)))" "\<not> unsynced w2 part"
    using rewrite_header_with_sync_quiet[of ?w part c n] q c n by auto
  let ?w3 = "set_file part None False (set_file wav (files w2 part) (unsynced w2 part) w2)"
  have rn: "c_rename part wav w2 = (True, ?w3)"
    using rw ne free by (simp add: c_rename_def)
  have lt: "length (take ?H c) = ?H" using c(2) by simp
  have "recover_payload part wav qdir (length c) ?w = (WAV_RECOVERY_RECOVERED, of_nat n, ?w3)"
    using op rd cl lt hdr rw(1) rn recovered_word[of "length c - ?H"] c(3) n
    by (simp add: recover_payload_def Let_def del: wav_recovery_validate_header.simps)
  then have run: "wav_recovery_recover_file (Some part) (Some wav) (Some qdir) w =
      (WAV_RECOVERY_RECOVERED, of_nat n, ?w3)"
    using suf wav p1 p2 p3 ne qd c(2)
    by (simp del: path_exists_local.simps file_size_local.simps has_part_suffix_local.simps)
  have "files ?w3 = (files w)(wav := Some (recorder_header n @ take n (drop ?H c)), part := None)"
    using rw(4) ne by auto
  moreover have "\<not> unsynced ?w3 wav" using rw(5) ne by simp
  ultimately show ?thesis using run by blast
qed

section \<open>Properties\<close>

text \<open>
  C13: The boot scan never deletes audio. On the device's file system, for every pattern of I/O
  errors and every point of power loss, every file other than the events file is still on the card
  afterwards, under its own or a new name and with its audio (at most a last odd byte is cut off), no
  two files have become one, and no file has appeared from nowhere.
\<close>

theorem scan_never_deletes_audio:
  assumes run: "wav_recovery_scan_recordings (Some dir) (Some q) ev w = (ok, st, w')"
    and fat: "\<not> rename_replaces w" and small: "files_small (set_option ev) w"
    and ev: "no_audio_paths (set_option ev)"
  shows "preserves (set_option ev) w w'"
proof -
  have s: "scan_ok ev w" using fat small ev by (simp add: scan_ok_def)
  obtain b1 w1 where c1: "wav_recovery_ensure_dir (Some q) w = (b1, w1)" by fastforce
  note p1 = probe_scan[OF ensure_dir_touches[OF c1] s]
  obtain l w2 where c2: "c_opendir dir w1 = (l, w2)" by fastforce
  note p2 = probe_scan[OF c_opendir_touches[OF c2] p1(2)]
  obtain st3 w3 where c3: "scan_dir dir q ev (the l) zero_stats w2 = (st3, w3)" by fastforce
  note p3 = scan_dir_preserves[OF c3 p2(2)]
  have p: "preserves (set_option ev) w w2" "preserves (set_option ev) w w3"
    using preserves_trans[OF p1(1) p2(1)] preserves_trans[OF preserves_trans[OF p1(1) p2(1)] p3] .
  obtain b4 w4 where c4: "wav_recovery_append_summary_event ev (Some st3) w3 = (b4, w4)" by fastforce
  have p4: "preserves (set_option ev) w3 w4" if ne: "ev \<noteq> None"
  proof -
    obtain e where "ev = Some e" using ne by blast
    then show ?thesis using append_summary_event_touches[of e st3 w3 b4 w4] c4 preserves_touches by auto
  qed
  have "w' \<in> {w, w1, w2, w3} \<or> ev \<noteq> None \<and> w' = w4"
    using run c1 c2 c3 c4
    by (auto simp del: wav_recovery_ensure_dir.simps wav_recovery_append_summary_event.simps
        split: if_splits bool.splits option.splits)
  then consider "w' \<in> {w, w1, w2, w3}" | "ev \<noteq> None" "w' = w4" by blast
  then show ?thesis
  proof cases
    case 1 then show ?thesis using p1(1) p by auto
  next
    case 2 then show ?thesis using preserves_trans[OF p(2) p4] by simp
  qed
qed

definition card_with_stub :: io_world where
  "card_with_stub = (set_file ''/rec/a.wav.part'' (Some [1, 2]) False empty_card)
     \<lparr>listing := (\<lambda>p. if p = ''/rec'' then Some [''a.wav.part''] else None)\<rparr>"

theorem scan_never_deletes_audio_witness:
  "preserves {} card_with_stub
     (snd (snd (wav_recovery_scan_recordings (Some ''/rec'') (Some ''/q'') None card_with_stub)))"
proof -
  obtain ok st w' where r:
    "wav_recovery_scan_recordings (Some ''/rec'') (Some ''/q'') None card_with_stub = (ok, st, w')"
    by (metis prod_cases3)
  have "preserves (set_option None) card_with_stub w'"
    by (rule scan_never_deletes_audio[OF r])
      (simp_all add: card_with_stub_def empty_card_def files_small_def no_audio_paths_def)
  then show ?thesis using r by simp
qed



text \<open>
  C20: The header codec. Reading back the fields of a header that the writer built gives the values it
  was built from, with the RIFF size 36 more than the payload; and boot recovery accepts such a header
  exactly when the format is the recorder's: 16 kHz, mono, 16 bits.
\<close>

theorem header_codec:
  "get_u32le (drop 4 (wav_part_build_header n r c b)) = 36 + n \<and>
   get_u16le (drop 22 (wav_part_build_header n r c b)) = c \<and>
   get_u32le (drop 24 (wav_part_build_header n r c b)) = r \<and>
   get_u16le (drop 34 (wav_part_build_header n r c b)) = b \<and>
   get_u32le (drop 40 (wav_part_build_header n r c b)) = n \<and>
   (wav_recovery_validate_header (Some (wav_part_build_header n r c b)) \<longleftrightarrow>
      r = 16000 \<and> c = 1 \<and> b = 16)"
proof -
  let ?h = "wav_part_build_header n r c b"
  have d: "drop (16 + k) ?h = drop k (drop 16 ?h)" for k by (simp add: add.commute)
  have f: "get_u16le (drop 22 ?h) = c" "get_u32le (drop 24 ?h) = r" "get_u16le (drop 34 ?h) = b"
    "get_u32le (drop 40 ?h) = n" "get_u16le (drop 20 ?h) = 1" "get_u32le (drop 16 ?h) = 16"
    "get_u32le (drop 28 ?h) = r * ucast (c * (b div 8))" "get_u16le (drop 32 ?h) = c * (b div 8)"
    "take 4 (drop 36 ?h) = bytes_of_string ''data''"
    using d[of 6] d[of 8] d[of 18] d[of 24] d[of 4] d[of 12] d[of 16] d[of 20]
    by (simp_all add: build_header_slices)
  have m: "get_u32le (drop 4 ?h) = 36 + n" "take 4 ?h = bytes_of_string ''RIFF''"
    "take 4 (drop 8 ?h) = bytes_of_string ''WAVE''" "take 4 (drop 12 ?h) = bytes_of_string ''fmt ''"
    by (simp_all add: wav_part_build_header_def Let_def)
  have "wav_recovery_validate_header (Some ?h) \<longleftrightarrow> r = 16000 \<and> c = 1 \<and> b = 16"
    by (auto simp: f m config_simps)
  with f m show ?thesis by blast
qed

end
