(* ===== verification/Sha256.thy ===== *)
theory Sha256
  imports C_Stdio
begin

text \<open>
  The incremental SHA-256 of \<open>firmware/components/recorder/sha256.c\<close> on 32-bit words, its hexadecimal
  rendering and the hash of a file, read in chunks of 1 KiB. The specification is the one-shot
  hash: pad the whole message, cut it into 64-byte blocks and compress them one after the other.
\<close>

section \<open>Model\<close>

definition ROTRIGHT :: "u32 \<Rightarrow> nat \<Rightarrow> u32" where
  "ROTRIGHT a b = drop_bit b a OR push_bit (32 - b) a"

definition CH :: "u32 \<Rightarrow> u32 \<Rightarrow> u32 \<Rightarrow> u32" where
  "CH x y z = (x AND y) XOR (NOT x AND z)"

definition MAJ :: "u32 \<Rightarrow> u32 \<Rightarrow> u32 \<Rightarrow> u32" where
  "MAJ x y z = (x AND y) XOR (x AND z) XOR (y AND z)"

definition EP0 :: "u32 \<Rightarrow> u32" where
  "EP0 x = ROTRIGHT x 2 XOR ROTRIGHT x 13 XOR ROTRIGHT x 22"

definition EP1 :: "u32 \<Rightarrow> u32" where
  "EP1 x = ROTRIGHT x 6 XOR ROTRIGHT x 11 XOR ROTRIGHT x 25"

definition SIG0 :: "u32 \<Rightarrow> u32" where
  "SIG0 x = ROTRIGHT x 7 XOR ROTRIGHT x 18 XOR drop_bit 3 x"

definition SIG1 :: "u32 \<Rightarrow> u32" where
  "SIG1 x = ROTRIGHT x 17 XOR ROTRIGHT x 19 XOR drop_bit 10 x"

definition sha_k :: "u32 list" where
  "sha_k =
     [0x428a2f98, 0x71374491, 0xb5c0fbcf, 0xe9b5dba5, 0x3956c25b] @
     [0x59f111f1, 0x923f82a4, 0xab1c5ed5, 0xd807aa98, 0x12835b01] @
     [0x243185be, 0x550c7dc3, 0x72be5d74, 0x80deb1fe, 0x9bdc06a7] @
     [0xc19bf174, 0xe49b69c1, 0xefbe4786, 0x0fc19dc6, 0x240ca1cc] @
     [0x2de92c6f, 0x4a7484aa, 0x5cb0a9dc, 0x76f988da, 0x983e5152] @
     [0xa831c66d, 0xb00327c8, 0xbf597fc7, 0xc6e00bf3, 0xd5a79147] @
     [0x06ca6351, 0x14292967, 0x27b70a85, 0x2e1b2138, 0x4d2c6dfc] @
     [0x53380d13, 0x650a7354, 0x766a0abb, 0x81c2c92e, 0x92722c85] @
     [0xa2bfe8a1, 0xa81a664b, 0xc24b8b70, 0xc76c51a3, 0xd192e819] @
     [0xd6990624, 0xf40e3585, 0x106aa070, 0x19a4c116, 0x1e376c08] @
     [0x2748774c, 0x34b0bcb5, 0x391c0cb3, 0x4ed8aa4a, 0x5b9cca4f] @
     [0x682e6ff3, 0x748f82ee, 0x78a5636f, 0x84c87814, 0x8cc70208] @
     [0x90befffa, 0xa4506ceb, 0xbef9a3f7, 0xc67178f2]"

record sha256_ctx_t =
  sha_state :: "u32 list"
  sha_bitlen :: u64
  sha_data :: "byte list"
  sha_datalen :: nat

text \<open>The message schedule: sixteen big-endian words of the block, then 48 computed ones.\<close>

definition be_word :: "byte list \<Rightarrow> nat \<Rightarrow> u32" where
  "be_word data j =
     push_bit 24 (ucast (data ! j)) OR push_bit 16 (ucast (data ! (j + 1))) OR
     push_bit 8 (ucast (data ! (j + 2))) OR ucast (data ! (j + 3))"

definition schedule :: "byte list \<Rightarrow> u32 list" where
  "schedule data =
     foldl (\<lambda>m i. m @ [SIG1 (m ! (i - 2)) + m ! (i - 7) + SIG0 (m ! (i - 15)) + m ! (i - 16)])
       (map (\<lambda>i. be_word data (4 * i)) [0..<16]) [16..<64]"

type_synonym regs = "u32 \<times> u32 \<times> u32 \<times> u32 \<times> u32 \<times> u32 \<times> u32 \<times> u32"

definition sha_round :: "u32 list \<Rightarrow> regs \<Rightarrow> nat \<Rightarrow> regs" where
  "sha_round m r i =
     (case r of (a, b, c, d, e, f, g, h) \<Rightarrow>
       (let t1 = h + EP1 e + CH e f g + sha_k ! i + m ! i;
            t2 = EP0 a + MAJ a b c
        in (t1 + t2, a, b, c, d + t1, e, f, g)))"

text \<open>\<open>compress\<close> is the effect of \<open>sha256_transform\<close> on the eight state words.\<close>

definition compress :: "u32 list \<Rightarrow> byte list \<Rightarrow> u32 list" where
  "compress st data =
     (let m = schedule data in
      case foldl (sha_round m) (st ! 0, st ! 1, st ! 2, st ! 3, st ! 4, st ! 5, st ! 6, st ! 7) [0..<64] of
        (a, b, c, d, e, f, g, h) \<Rightarrow>
          [st ! 0 + a, st ! 1 + b, st ! 2 + c, st ! 3 + d, st ! 4 + e, st ! 5 + f, st ! 6 + g, st ! 7 + h])"

definition sha256_transform :: "sha256_ctx_t \<Rightarrow> byte list \<Rightarrow> sha256_ctx_t" where
  "sha256_transform ctx data = ctx\<lparr>sha_state := compress (sha_state ctx) data\<rparr>"

definition sha_h0 :: "u32 list" where
  "sha_h0 = [0x6a09e667, 0xbb67ae85, 0x3c6ef372, 0xa54ff53a, 0x510e527f, 0x9b05688c, 0x1f83d9ab, 0x5be0cd19]"

fun sha256_init :: "sha256_ctx_t ptr \<Rightarrow> sha256_ctx_t ptr" where
  "sha256_init None = None"
| "sha256_init (Some ctx) = Some (ctx\<lparr>sha_datalen := 0, sha_bitlen := 0, sha_state := sha_h0\<rparr>)"

definition absorb :: "sha256_ctx_t \<Rightarrow> byte \<Rightarrow> sha256_ctx_t" where
  "absorb ctx b =
     (let ctx = ctx\<lparr>sha_data := (sha_data ctx)[sha_datalen ctx := b], sha_datalen := sha_datalen ctx + 1\<rparr> in
      if sha_datalen ctx = 64
      then (let ctx = sha256_transform ctx (sha_data ctx)
            in ctx\<lparr>sha_bitlen := sha_bitlen ctx + 512, sha_datalen := 0\<rparr>)
      else ctx)"

fun sha256_update :: "sha256_ctx_t ptr \<Rightarrow> byte list ptr \<Rightarrow> sha256_ctx_t ptr" where
  "sha256_update None data = None"
| "sha256_update (Some ctx) None = Some ctx"
| "sha256_update (Some ctx) (Some data) = Some (foldl absorb ctx data)"

text \<open>\<open>while (i < stop) data[i++] = 0x00;\<close>\<close>

function zero_fill :: "nat \<Rightarrow> nat \<Rightarrow> byte list \<Rightarrow> byte list" where
  "zero_fill i stop data = (if i < stop then zero_fill (i + 1) stop (data[i := 0]) else data)"
  by auto
termination by (relation "measure (\<lambda>(i, stop, _). stop - i)") auto

definition put_bitlen :: "u64 \<Rightarrow> byte list \<Rightarrow> byte list" where
  "put_bitlen n data = data[63 := ucast n, 62 := ucast (drop_bit 8 n), 61 := ucast (drop_bit 16 n),
     60 := ucast (drop_bit 24 n), 59 := ucast (drop_bit 32 n), 58 := ucast (drop_bit 40 n),
     57 := ucast (drop_bit 48 n), 56 := ucast (drop_bit 56 n)]"

definition digest_bytes :: "u32 list \<Rightarrow> byte list" where
  "digest_bytes st = concat (map (\<lambda>i. [ucast (drop_bit 24 (st ! i)), ucast (drop_bit 16 (st ! i)),
     ucast (drop_bit 8 (st ! i)), ucast (st ! i)]) [0..<8])"

text \<open>The digest and the consumed context.\<close>

definition sha256_final :: "sha256_ctx_t \<Rightarrow> byte list \<times> sha256_ctx_t" where
  "sha256_final ctx =
     (let i = sha_datalen ctx;
          ctx = (if sha_datalen ctx < 56
                 then ctx\<lparr>sha_data := zero_fill (i + 1) 56 ((sha_data ctx)[i := 0x80])\<rparr>
                 else (let ctx = ctx\<lparr>sha_data := zero_fill (i + 1) 64 ((sha_data ctx)[i := 0x80])\<rparr>;
                           ctx = sha256_transform ctx (sha_data ctx)
                       in ctx\<lparr>sha_data := zero_fill 0 56 (sha_data ctx)\<rparr>));
          ctx = ctx\<lparr>sha_bitlen := sha_bitlen ctx + of_nat (sha_datalen ctx) * 8\<rparr>;
          ctx = ctx\<lparr>sha_data := put_bitlen (sha_bitlen ctx) (sha_data ctx)\<rparr>;
          ctx = sha256_transform ctx (sha_data ctx)
      in (digest_bytes (sha_state ctx), ctx))"

definition nibble_to_lower_hex :: "byte \<Rightarrow> char" where
  "nibble_to_lower_hex v =
     (let v = v AND 0x0F in
      if v < 10 then char_of (of_char CHR ''0'' + unat v) else char_of (of_char CHR ''a'' + (unat v - 10)))"

definition sha256_to_hex :: "byte list \<Rightarrow> string" where
  "sha256_to_hex hash = concat (map (\<lambda>b. [nibble_to_lower_hex (drop_bit 4 b), nibble_to_lower_hex b]) hash)"

fun sha256_is_valid_hex :: "string ptr \<Rightarrow> bool" where
  "sha256_is_valid_hex None = False"
| "sha256_is_valid_hex (Some s) =
     (length s = 64 \<and>
      list_all (\<lambda>c. ((of_char CHR ''0'' :: nat) \<le> of_char c \<and> (of_char c :: nat) \<le> of_char CHR ''9'') \<or>
                    ((of_char CHR ''a'' :: nat) \<le> of_char c \<and> (of_char c :: nat) \<le> of_char CHR ''f'')) s)"

text \<open>The read loop: 1 KiB at a time until a short read; \<open>None\<close> is a read error.\<close>

definition remaining :: "FILE \<Rightarrow> io_world \<Rightarrow> nat" where
  "remaining fp w = (case files w (fpath fp) of None \<Rightarrow> 0 | Some c \<Rightarrow> length c - fpos fp)"

function hash_loop :: "sha256_ctx_t \<Rightarrow> FILE \<Rightarrow> io_world \<Rightarrow> sha256_ctx_t option \<times> FILE \<times> io_world" where
  "hash_loop ctx fp w =
     (case fread fp 1024 w of (buf, fp, w) \<Rightarrow>
       (let ctx = (if length buf > 0 then foldl absorb ctx buf else ctx) in
        if length buf < 1024 then (if ferr fp then (None, fp, w) else (Some ctx, fp, w))
        else hash_loop ctx fp w))"
  by auto

lemma fread_progress:
  assumes "fread fp n w = (buf, fp', w')" "\<not> length buf < n" "0 < n"
  shows "remaining fp' w' < remaining fp w"
proof -
  note f = fread_prefix[OF assms(1)]
  have same: "files w' = files w" using fread_touches[OF assms(1), of "{}"] by (auto simp: touches_def)
  have len: "length buf = n" using f(2) assms(2) by simp
  obtain k where k: "buf = take k (case files w (fpath fp) of None \<Rightarrow> [] | Some c \<Rightarrow> drop (fpos fp) c)"
    using f(1) by blast
  show ?thesis
  proof (cases "files w (fpath fp)")
    case None
    then show ?thesis using k len assms(3) by simp
  next
    case (Some c)
    have "length buf \<le> length c - fpos fp" using k Some by simp
    then show ?thesis using Some same f(3,4) len assms(3) by (simp add: remaining_def)
  qed
qed

termination hash_loop
proof (relation "measure (\<lambda>(_, fp, w). remaining fp w)", goal_cases)
  case (2 ctx fp w buf rest fp' w' ctx')
  then show ?case using fread_progress[of fp 1024 w buf fp' w'] by auto
qed simp

fun sha256_file_hex :: "string ptr \<Rightarrow> io_world \<Rightarrow> string option \<times> io_world" where
  \<comment> \<open>\<open>Some hex\<close>: true with \<open>hex\<close> in \<open>out_hex\<close>; \<open>None\<close>: false with the empty string.\<close>
  "sha256_file_hex None w = (None, w)"
| "sha256_file_hex (Some path) w =
     (if path = [] then (None, w)
      else case fopen RB path w of
        (None, w) \<Rightarrow> (None, w)
      | (Some fp, w) \<Rightarrow>
          (let ctx = the (sha256_init (Some \<lparr>sha_state = [], sha_bitlen = 0, sha_data = replicate 64 0, sha_datalen = 0\<rparr>)) in
           case hash_loop ctx fp w of
             (None, fp, w) \<Rightarrow> (None, snd (fclose fp w))
           | (Some ctx, fp, w) \<Rightarrow> (Some (sha256_to_hex (fst (sha256_final ctx))), snd (fclose fp w))))"

declare zero_fill.simps [simp del] hash_loop.simps [simp del]

section \<open>Specification: the one-shot hash\<close>

fun blocks :: "byte list \<Rightarrow> byte list list" where
  "blocks xs = (if length xs < 64 then [] else take 64 xs # blocks (drop 64 xs))"

declare blocks.simps [simp del]

definition be64 :: "u64 \<Rightarrow> byte list" where
  "be64 n = map (\<lambda>i. ucast (drop_bit (8 * (7 - i)) n)) [0..<8]"

text \<open>FIPS 180-4 padding: a one bit, zeros up to 56 modulo 64, and the length in bits.\<close>

definition pad :: "byte list \<Rightarrow> byte list" where
  "pad msg = msg @ [0x80] @ replicate ((119 - length msg mod 64) mod 64) 0 @ be64 (of_nat (8 * length msg))"

definition sha256_spec :: "byte list \<Rightarrow> byte list" where
  "sha256_spec msg = digest_bytes (foldl compress sha_h0 (blocks (pad msg)))"

section \<open>Lemmas\<close>

lemma blocks_Nil [simp]: "blocks [] = []"
  by (simp add: blocks.simps)

lemma blocks_one [simp]: "length b = 64 \<Longrightarrow> blocks (b @ xs) = b # blocks xs"
  by (subst blocks.simps) simp

lemma blocks_append:
  assumes "length xs mod 64 = 0" shows "blocks (xs @ ys) = blocks xs @ blocks ys"
  using assms
proof (induction xs rule: blocks.induct)
  case (1 xs)
  show ?case
  proof (cases "length xs < 64")
    case True
    then show ?thesis using 1(2) by simp
  next
    case False
    then have "blocks (drop 64 xs @ ys) = blocks (drop 64 xs) @ blocks ys"
      using 1 by (simp add: le_mod_geq)
    with False show ?thesis by (subst (1 2) blocks.simps) simp
  qed
qed

lemma blocks_single: "length b = 64 \<Longrightarrow> blocks b = [b]"
  using blocks_one[of b "[]"] by simp

lemma zero_fill_eq:
  "i \<le> stop \<Longrightarrow> stop \<le> length data \<Longrightarrow>
   zero_fill i stop data = take i data @ replicate (stop - i) 0 @ drop stop data"
proof (induction i stop data rule: zero_fill.induct)
  case (1 i stop data)
  show ?case
  proof (cases "i < stop")
    case True
    have "take (Suc i) (data[i := 0]) = take i data @ [0]"
      using True 1(3) by (simp add: take_Suc_conv_app_nth)
    moreover have "replicate (stop - i) (0::byte) = 0 # replicate (stop - Suc i) 0"
      using True by (simp add: Suc_diff_Suc flip: replicate_Suc)
    ultimately show ?thesis using 1 True by (subst zero_fill.simps) simp
  next
    case False
    then show ?thesis using 1(2,3) by (subst zero_fill.simps) simp
  qed
qed

lemma be64_eq:
  "be64 n = [ucast (drop_bit 56 n), ucast (drop_bit 48 n), ucast (drop_bit 40 n), ucast (drop_bit 32 n),
     ucast (drop_bit 24 n), ucast (drop_bit 16 n), ucast (drop_bit 8 n), ucast n]"
  by (simp add: be64_def upt_rec)

lemma put_bitlen_eq:
  assumes "length pre = 56" "length post = 8" shows "put_bitlen n (pre @ post) = pre @ be64 n"
proof -
  obtain a b c d e f g h where "post = [a, b, c, d, e, f, g, h]"
    using assms(2) by (auto simp: length_Suc_conv numeral_eq_Suc)
  then show ?thesis using assms(1) by (simp add: put_bitlen_def be64_eq list_update_append)
qed

text \<open>
  The state of a context that has absorbed \<open>msg\<close>: the full blocks are compressed and counted, the rest
  waits in the buffer.
\<close>

definition absorbed :: "sha256_ctx_t \<Rightarrow> byte list \<Rightarrow> bool" where
  "absorbed ctx msg \<longleftrightarrow> sha_datalen ctx < 64 \<and> length (sha_data ctx) = 64 \<and>
     (\<exists>full. msg = full @ take (sha_datalen ctx) (sha_data ctx) \<and> length full mod 64 = 0 \<and>
        sha_state ctx = foldl compress sha_h0 (blocks full) \<and> sha_bitlen ctx = of_nat (8 * length full))"

lemma absorbed_init:
  "length (sha_data ctx) = 64 \<Longrightarrow> absorbed (the (sha256_init (Some ctx))) []"
  by (simp add: absorbed_def)

lemma absorbed_step:
  assumes "absorbed ctx msg" shows "absorbed (absorb ctx b) (msg @ [b])"
proof -
  let ?d = "sha_datalen ctx"
  obtain full where f: "msg = full @ take ?d (sha_data ctx)" "length full mod 64 = 0"
    "sha_state ctx = foldl compress sha_h0 (blocks full)" "sha_bitlen ctx = of_nat (8 * length full)"
    and d: "?d < 64" "length (sha_data ctx) = 64"
    using assms by (auto simp: absorbed_def)
  let ?data = "(sha_data ctx)[?d := b]"
  have t: "take (Suc ?d) ?data = take ?d (sha_data ctx) @ [b]"
    using d by (simp add: take_Suc_conv_app_nth)
  show ?thesis
  proof (cases "Suc ?d = 64")
    case True
    then have "?data = take ?d (sha_data ctx) @ [b]" using t d by simp
    then have m: "msg @ [b] = full @ ?data" using f(1) by simp
    have "blocks (full @ ?data) = blocks full @ [?data]"
      using f(2) d by (simp add: blocks_append blocks_single)
    then show ?thesis using True f d m
      by (auto simp: absorbed_def absorb_def Let_def sha256_transform_def intro!: exI[of _ "full @ ?data"])
  next
    case False
    then show ?thesis using f d t by (auto simp: absorbed_def absorb_def Let_def intro!: exI[of _ full])
  qed
qed

lemma absorbed_update:
  "absorbed ctx msg \<Longrightarrow> absorbed (foldl absorb ctx bs) (msg @ bs)"
proof (induction bs arbitrary: ctx msg)
  case (Cons b bs)
  from Cons.IH[OF absorbed_step[OF Cons.prems]] show ?case by simp
qed simp

lemma sha256_final_spec:
  assumes "absorbed ctx msg" shows "fst (sha256_final ctx) = sha256_spec msg"
proof -
  let ?d = "sha_datalen ctx"
  obtain full where f: "msg = full @ take ?d (sha_data ctx)" "length full mod 64 = 0"
    "sha_state ctx = foldl compress sha_h0 (blocks full)" "sha_bitlen ctx = of_nat (8 * length full)"
    and d: "?d < 64" "length (sha_data ctx) = 64"
    using assms by (auto simp: absorbed_def)
  have lm: "length msg = length full + ?d" "length msg mod 64 = ?d" using f d by auto
  have bl: "sha_bitlen ctx + of_nat ?d * 8 = of_nat (8 * length msg)" using f(4) lm by simp
  let ?b = "be64 (of_nat (8 * length msg))"
  have tk: "take (Suc ?d) ((sha_data ctx)[?d := 0x80]) = take ?d (sha_data ctx) @ [0x80]"
    using d by (simp add: take_Suc_conv_app_nth)
  show ?thesis
  proof (cases "?d < 56")
    case True
    let ?blk = "take ?d (sha_data ctx) @ [0x80] @ replicate (55 - ?d) 0 @ ?b"
    have "zero_fill (?d + 1) 56 ((sha_data ctx)[?d := 0x80]) =
        (take ?d (sha_data ctx) @ [0x80] @ replicate (55 - ?d) 0) @ drop 56 (sha_data ctx)"
      using True d tk by (subst zero_fill_eq) simp_all
    then have data: "put_bitlen (of_nat (8 * length msg)) (zero_fill (?d + 1) 56 ((sha_data ctx)[?d := 0x80])) = ?blk"
      using True d by (simp add: put_bitlen_eq del: append_assoc)
    have "(119 - ?d) mod 64 = 55 - ?d" using True by (simp add: mod_if)
    then have "pad msg = full @ ?blk" using f(1) lm by (simp add: pad_def)
    then have "blocks (pad msg) = blocks full @ [?blk]"
      using f(2) True d by (simp add: blocks_append blocks_single be64_eq)
    then show ?thesis using True data bl f(3)
      by (simp add: sha256_final_def sha256_spec_def Let_def sha256_transform_def)
  next
    case False
    let ?b1 = "take ?d (sha_data ctx) @ [0x80] @ replicate (63 - ?d) 0"
    let ?b2 = "replicate 56 0 @ ?b"
    have z1: "zero_fill (?d + 1) 64 ((sha_data ctx)[?d := 0x80]) = ?b1"
      using False d tk by (subst zero_fill_eq) simp_all
    have "zero_fill 0 56 ?b1 = replicate 56 0 @ drop 56 ?b1" using d by (subst zero_fill_eq) simp_all
    then have z2: "put_bitlen (of_nat (8 * length msg)) (zero_fill 0 56 ?b1) = ?b2"
      using False d by (simp add: put_bitlen_eq del: drop_append)
    have "(119 - ?d) mod 64 = 119 - ?d" using False by simp
    moreover have "replicate (119 - ?d) (0::byte) = replicate (63 - ?d) 0 @ replicate 56 0"
      using d False by (simp flip: replicate_add)
    ultimately have "pad msg = full @ ?b1 @ ?b2" using f(1) lm by (simp add: pad_def)
    then have "blocks (pad msg) = blocks full @ [?b1, ?b2]"
      using f(2) False d by (simp add: blocks_append blocks_single be64_eq del: append_assoc)
    then show ?thesis using False z1 z2 bl f(3)
      by (simp add: sha256_final_def sha256_spec_def Let_def sha256_transform_def)
  qed
qed

lemma hash_loop_absorbs:
  assumes "hash_loop ctx fp w = (Some ctx', fp', w')" "absorbed ctx msg"
    "files w (fpath fp) = Some c"
  shows "absorbed ctx' (msg @ drop (fpos fp) c) \<and> files w' = files w"
  using assms
proof (induction ctx fp w arbitrary: msg rule: hash_loop.induct)
  case (1 ctx fp w)
  obtain buf fp1 w1 where r: "fread fp 1024 w = (buf, fp1, w1)" by (metis prod_cases3)
  note f = fread_prefix[OF r]
  have same: "files w1 = files w" using fread_touches[OF r, of "{}"] by (auto simp: touches_def)
  let ?ctx = "if length buf > 0 then foldl absorb ctx buf else ctx"
  have a: "absorbed ?ctx (msg @ buf)" using absorbed_update[OF 1(3), of buf] 1(3) by auto
  show ?case
  proof (cases "length buf < 1024")
    case True
    then have e: "\<not> ferr fp1" "ctx' = ?ctx" "w' = w1"
      using 1(2) r by (auto simp: hash_loop.simps[of ctx fp w] Let_def split: if_splits)
    then have "buf = take 1024 (drop (fpos fp) c)" using f(5) 1(4) by simp
    with True have "buf = drop (fpos fp) c" by (simp add: min_def split: if_splits)
    then show ?thesis using a e same by simp
  next
    case False
    have l: "hash_loop ?ctx fp1 w1 = (Some ctx', fp', w')"
      using 1(2) r False by (simp add: hash_loop.simps[of ctx fp w] Let_def)
    obtain k where "buf = take k (drop (fpos fp) c)" using f(1) 1(4) by auto
    then have b: "drop (fpos fp) c = buf @ drop (fpos fp1) c"
      using f(4) append_take_drop_id[of "length buf" "drop (fpos fp) c"]
      by (simp add: add.commute min_def split: if_splits)
    have "absorbed ctx' ((msg @ buf) @ drop (fpos fp1) c) \<and> files w' = files w1"
      using 1(1)[OF r[symmetric] refl refl False l a] same f(3) 1(4) by simp
    then show ?thesis using b same by simp
  qed
qed

lemma hash_loop_quiet:
  "quiet w \<Longrightarrow> \<exists>ctx' fp'. hash_loop ctx fp w = (Some ctx', fp', w)"
proof (induction ctx fp w rule: hash_loop.induct)
  case (1 ctx fp w)
  obtain buf fp1 where r: "fread fp 1024 w = (buf, fp1, w)" "\<not> ferr fp1"
    using 1(2) by (simp add: fread_def Let_def)
  show ?case
  proof (cases "length buf < 1024")
    case True
    then show ?thesis using r by (simp add: hash_loop.simps[of ctx fp w] Let_def)
  next
    case False
    from 1(1)[OF r(1)[symmetric] refl refl False 1(2)] r False show ?thesis
      by (simp add: hash_loop.simps[of ctx fp w] Let_def)
  qed
qed

lemma hash_loop_touches: "hash_loop ctx fp w = (r, fp', w') \<Longrightarrow> files w' = files w"
proof (induction ctx fp w rule: hash_loop.induct)
  case (1 ctx fp w)
  obtain buf fp1 w1 where r: "fread fp 1024 w = (buf, fp1, w1)" by (metis prod_cases3)
  have same: "files w1 = files w" using fread_touches[OF r, of "{}"] by (auto simp: touches_def)
  show ?case
    using 1(1)[OF r[symmetric] refl refl] 1(2) r same
    by (auto simp: hash_loop.simps[of ctx fp w] Let_def split: if_splits)
qed

text \<open>Hexadecimal digits.\<close>

definition hex_value :: "char \<Rightarrow> byte" where
  "hex_value c = (let n = of_char c :: nat in if n < 58 then of_nat (n - 48) else of_nat (n - 87))"

lemma nibble_cases:
  fixes v :: byte
  shows "v AND 0x0F \<in> {0, 1, 2, 3, 4, 5, 6, 7, 8, 9, 10, 11, 12, 13, 14, 15}"
proof -
  have "v AND 0x0F = v AND mask 4" by (simp add: mask_eq_exp_minus_1)
  then have "unat (v AND 0x0F) = unat v mod 16"
    by (simp add: take_bit_eq_mask[symmetric] unsigned_take_bit_eq take_bit_eq_mod unat_mod)
  then have "unat (v AND 0x0F) \<in> set [0..<16]" by simp
  then have "of_nat (unat (v AND 0x0F)) \<in> (of_nat :: nat \<Rightarrow> byte) ` set [0..<16]" by (rule imageI)
  moreover have "(of_nat :: nat \<Rightarrow> byte) ` set [0..<16] = {0, 1, 2, 3, 4, 5, 6, 7, 8, 9, 10, 11, 12, 13, 14, 15}"
    by (simp add: upt_rec)
  ultimately show ?thesis by (simp del: set_upt)
qed

lemma hex_value_nibble: "hex_value (nibble_to_lower_hex v) = v AND 0x0F"
  using nibble_cases[of v] by (auto simp: nibble_to_lower_hex_def hex_value_def Let_def)

lemma nibble_valid:
  "((of_char CHR ''0'' :: nat) \<le> of_char (nibble_to_lower_hex v) \<and>
     (of_char (nibble_to_lower_hex v) :: nat) \<le> of_char CHR ''9'') \<or>
   ((of_char CHR ''a'' :: nat) \<le> of_char (nibble_to_lower_hex v) \<and>
     (of_char (nibble_to_lower_hex v) :: nat) \<le> of_char CHR ''f'')"
  using nibble_cases[of v] by (auto simp: nibble_to_lower_hex_def Let_def)

lemma byte_of_nibbles: "(v :: byte) = push_bit 4 (drop_bit 4 v AND 0x0F) OR (v AND 0x0F)"
proof -
  have m: "(0x0F :: byte) = mask 4" by (simp add: mask_eq_exp_minus_1)
  show ?thesis unfolding m by (rule bit_word_eqI) (auto simp: bit_simps not_less)
qed

lemma sha256_to_hex_inject: "sha256_to_hex a = sha256_to_hex b \<Longrightarrow> a = b"
proof (induction a arbitrary: b)
  case Nil
  then show ?case by (cases b) (simp_all add: sha256_to_hex_def)
next
  case (Cons x a)
  then obtain y b' where b: "b = y # b'" by (cases b) (simp_all add: sha256_to_hex_def)
  have "nibble_to_lower_hex (drop_bit 4 x) = nibble_to_lower_hex (drop_bit 4 y)"
    "nibble_to_lower_hex x = nibble_to_lower_hex y" "sha256_to_hex a = sha256_to_hex b'"
    using Cons.prems b by (simp_all add: sha256_to_hex_def)
  then have "drop_bit 4 x AND 0x0F = drop_bit 4 y AND 0x0F" "x AND 0x0F = y AND 0x0F" "a = b'"
    using Cons.IH hex_value_nibble by metis+
  then show ?case using byte_of_nibbles[of x] byte_of_nibbles[of y] b by simp
qed

lemma length_sha256_to_hex [simp]: "length (sha256_to_hex h) = 2 * length h"
  by (induction h) (simp_all add: sha256_to_hex_def)

lemma sha256_to_hex_valid: "length h = 32 \<Longrightarrow> sha256_is_valid_hex (Some (sha256_to_hex h))"
proof -
  have "list_all (\<lambda>c. ((of_char CHR ''0'' :: nat) \<le> of_char c \<and> (of_char c :: nat) \<le> of_char CHR ''9'') \<or>
      ((of_char CHR ''a'' :: nat) \<le> of_char c \<and> (of_char c :: nat) \<le> of_char CHR ''f'')) (sha256_to_hex h)"
    using nibble_valid by (auto simp: list_all_iff sha256_to_hex_def)
  then show "length h = 32 \<Longrightarrow> ?thesis" by simp
qed

lemma length_sha256_spec [simp]: "length (sha256_spec msg) = 32"
  by (simp add: sha256_spec_def digest_bytes_def upt_rec)

section \<open>Properties\<close>

text \<open>
  C14: The incremental hash is SHA-256: absorbing a message in any pieces and finalizing gives the
  one-shot hash of the whole message (padding, length and block cut as in FIPS 180-4), whatever the
  context held before.
\<close>

theorem sha256_incremental:
  assumes "length (sha_data ctx) = 64"
  shows "\<exists>ctx'. foldl (\<lambda>c d. sha256_update c (Some d)) (sha256_init (Some ctx)) pieces = Some ctx' \<and>
    fst (sha256_final ctx') = sha256_spec (concat pieces)"
proof -
  have "\<exists>ctx'. foldl (\<lambda>c d. sha256_update c (Some d)) (Some c0) pieces = Some ctx' \<and>
      absorbed ctx' (msg @ concat pieces)" if "absorbed c0 msg" for c0 msg
    using that
  proof (induction pieces arbitrary: c0 msg)
    case (Cons d pieces)
    from Cons.IH[OF absorbed_update[OF Cons.prems, of d]] show ?case by simp
  qed simp
  from this[OF absorbed_init[OF assms]] show ?thesis using sha256_final_spec by fastforce
qed

definition blank_ctx :: sha256_ctx_t where
  "blank_ctx = \<lparr>sha_state = [], sha_bitlen = 7, sha_data = replicate 64 9, sha_datalen = 3\<rparr>"

theorem sha256_incremental_witness:
  "\<exists>ctx'. foldl (\<lambda>c d. sha256_update c (Some d)) (sha256_init (Some blank_ctx)) [[1, 2], [], [3]] = Some ctx' \<and>
    fst (sha256_final ctx') = sha256_spec [1, 2, 3]"
  using sha256_incremental[of blank_ctx "[[1, 2], [], [3]]"] by (simp add: blank_ctx_def)

lemma sha256_file_hex_result:
  assumes "sha256_file_hex (Some path) w = (r, w')"
  shows "files w' = files w \<and>
    (\<forall>hex. r = Some hex \<longrightarrow> (\<exists>c. files w path = Some c \<and> hex = sha256_to_hex (sha256_spec c) \<and>
       sha256_is_valid_hex (Some hex))) \<and>
    (quiet w \<and> path \<noteq> [] \<and> files w path \<noteq> None \<longrightarrow> r \<noteq> None)"
proof -
  obtain f w1 where op: "fopen RB path w = (f, w1)" by fastforce
  have f1: "files w1 = files w"
    using fopen_rb_touches[OF op, of "{}"] by (auto simp: touches_def)
  let ?ctx = "the (sha256_init (Some \<lparr>sha_state = [], sha_bitlen = 0, sha_data = replicate 64 0, sha_datalen = 0\<rparr>))"
  have a0: "absorbed ?ctx []" by (rule absorbed_init) simp
  show ?thesis
  proof (cases "path = [] \<or> f = None")
    case True
    then show ?thesis using assms op f1
      by (auto simp: fopen_def split: prod.splits bool.splits option.splits if_splits)
  next
    case False
    then obtain fp where fp: "f = Some fp" "path \<noteq> []" by auto
    obtain c where c: "files w path = Some c" "fpath fp = path" "fpos fp = 0"
      using op fp f1 by (auto simp: fopen_def split: prod.splits bool.splits option.splits)
    obtain r2 fp2 w2 where l: "hash_loop ?ctx fp w1 = (r2, fp2, w2)" by (metis prod_cases3)
    have w2: "files w2 = files w" using hash_loop_touches[OF l] f1 by simp
    have r: "r = map_option (\<lambda>ctx. sha256_to_hex (fst (sha256_final ctx))) r2" "w' = snd (fclose fp2 w2)"
      using assms fp op l by (auto simp: Let_def split: option.splits)
    have "quiet w \<Longrightarrow> r2 \<noteq> None"
      using hash_loop_quiet[of w1 ?ctx fp] l op fp by (auto simp: fopen_def c(1))
    moreover have "\<exists>c. files w path = Some c \<and> hex = sha256_to_hex (sha256_spec c) \<and>
        sha256_is_valid_hex (Some hex)" if "r = Some hex" for hex
    proof -
      from that r(1) obtain ctx where ctx: "r2 = Some ctx" "hex = sha256_to_hex (fst (sha256_final ctx))" by auto
      have "absorbed ctx ([] @ drop 0 c)"
        using hash_loop_absorbs[of ?ctx fp w1 ctx fp2 w2 "[]" c] l ctx(1) a0 c f1 by simp
      then have "hex = sha256_to_hex (sha256_spec c)" using ctx(2) sha256_final_spec by simp
      then show ?thesis using c(1) sha256_to_hex_valid by simp
    qed
    moreover have "files w' = files w"
      using w2 r(2) fclose_touches[of fp2 w2 "fst (fclose fp2 w2)" "snd (fclose fp2 w2)" "{}"]
      by (auto simp: touches_def)
    ultimately show ?thesis using r(1) by auto
  qed
qed

text \<open>
  C22: The file hash. If \<open>sha256_file_hex\<close> reports success, for whatever I/O errors occurred, then the
  file exists and the result is the lowercase hexadecimal SHA-256 of exactly its content, which
  \<open>sha256_is_valid_hex\<close> accepts; nothing on the card changes. The loop ends on every file, and without
  faults it succeeds on every file that exists.
\<close>

theorem sha256_file_hex_correct:
  assumes "sha256_file_hex (Some path) w = (r, w')"
  shows "files w' = files w \<and>
    (\<forall>hex. r = Some hex \<longrightarrow> (\<exists>c. files w path = Some c \<and> hex = sha256_to_hex (sha256_spec c) \<and>
       sha256_is_valid_hex (Some hex))) \<and>
    (quiet w \<and> path \<noteq> [] \<and> files w path \<noteq> None \<longrightarrow> r \<noteq> None)"
  by (rule sha256_file_hex_result[OF assms])

theorem sha256_file_hex_correct_witness:
  "fst (sha256_file_hex (Some ''/f'') (set_file ''/f'' (Some [1, 2, 3]) False empty_card)) =
     Some (sha256_to_hex (sha256_spec [1, 2, 3]))"
proof -
  let ?w = "set_file ''/f'' (Some [1, 2, 3]) False empty_card"
  obtain r w' where r: "sha256_file_hex (Some ''/f'') ?w = (r, w')" by fastforce
  have "quiet ?w" by simp
  with sha256_file_hex_correct[OF r] r show ?thesis by auto
qed

text \<open>
  The hexadecimal form of a digest determines it: it has 64 characters of \<open>0-9a-f\<close> and no two
  digests share it.
\<close>

theorem sha256_hex_faithful:
  assumes "length a = 32"
  shows "sha256_is_valid_hex (Some (sha256_to_hex a)) \<and> (sha256_to_hex a = sha256_to_hex b \<longrightarrow> a = b)"
  using sha256_to_hex_valid[OF assms] sha256_to_hex_inject by blast

theorem sha256_hex_faithful_witness:
  "sha256_is_valid_hex (Some (sha256_to_hex (replicate 32 0xAB)))"
  using sha256_hex_faithful[of "replicate 32 0xAB"] by simp

end
