(* ===== verification/Recorder_State.thy ===== *)
theory Recorder_State
  imports C_Stdio
begin

text \<open>
  The lifecycle of the recorder, \<open>firmware/components/recorder/recorder_state.c\<close>: the state machine,
  its diagnostics line and the append to the events file.
\<close>

section \<open>Model\<close>

datatype recorder_state_t = RECORDER_STATE_BOOT | RECORDER_STATE_RECOVER | RECORDER_STATE_RECORDING
  | RECORDER_STATE_USB_PREPARE | RECORDER_STATE_USB_SYNC | RECORDER_STATE_REMOUNT
  | RECORDER_STATE_LOW_BATTERY_STOP | RECORDER_STATE_ERROR

datatype recorder_reason_t = RECORDER_REASON_NONE | RECORDER_REASON_BOOT | RECORDER_REASON_RECOVERY
  | RECORDER_REASON_SD_MOUNT | RECORDER_REASON_SD_WRITE | RECORDER_REASON_SD_FLUSH
  | RECORDER_REASON_MIC_INIT | RECORDER_REASON_I2S_READ | RECORDER_REASON_DMA_OVERRUN
  | RECORDER_REASON_BUFFER_OVERFLOW | RECORDER_REASON_LOW_BATTERY | RECORDER_REASON_MANIFEST
  | RECORDER_REASON_FINALIZE | RECORDER_REASON_INTERNAL | RECORDER_REASON_USB

record recorder_state_machine_t =
  rsm_state :: recorder_state_t
  rsm_reason :: recorder_reason_t
  rsm_transition_count :: u32

definition recorder_state_is_terminal :: "recorder_state_t \<Rightarrow> bool" where
  "recorder_state_is_terminal state \<longleftrightarrow>
     state = RECORDER_STATE_LOW_BATTERY_STOP \<or> state = RECORDER_STATE_ERROR"

definition recorder_state_transition_allowed :: "recorder_state_t \<Rightarrow> recorder_state_t \<Rightarrow> bool" where
  "recorder_state_transition_allowed from to =
     (if from = RECORDER_STATE_ERROR then False
      else if from = to then True
      else if to = RECORDER_STATE_ERROR then True
      else if recorder_state_is_terminal from then False
      else case from of
        RECORDER_STATE_BOOT \<Rightarrow> to = RECORDER_STATE_RECOVER
      | RECORDER_STATE_RECOVER \<Rightarrow> to = RECORDER_STATE_RECORDING
      | RECORDER_STATE_RECORDING \<Rightarrow> to = RECORDER_STATE_USB_PREPARE \<or> to = RECORDER_STATE_LOW_BATTERY_STOP
      | RECORDER_STATE_USB_PREPARE \<Rightarrow> to = RECORDER_STATE_USB_SYNC
      | RECORDER_STATE_USB_SYNC \<Rightarrow> to = RECORDER_STATE_REMOUNT
      | RECORDER_STATE_REMOUNT \<Rightarrow> to = RECORDER_STATE_RECOVER
      | RECORDER_STATE_LOW_BATTERY_STOP \<Rightarrow> False
      | RECORDER_STATE_ERROR \<Rightarrow> False)"

fun recorder_state_machine_init :: "recorder_state_machine_t ptr \<Rightarrow> recorder_state_machine_t ptr" where
  "recorder_state_machine_init None = None"
| "recorder_state_machine_init (Some machine) =
     Some (machine\<lparr>rsm_state := RECORDER_STATE_BOOT, rsm_reason := RECORDER_REASON_BOOT, rsm_transition_count := 0\<rparr>)"

fun recorder_state_transition ::
    "recorder_state_machine_t ptr \<Rightarrow> recorder_state_t \<Rightarrow> recorder_reason_t \<Rightarrow>
     bool \<times> recorder_state_machine_t ptr" where
  "recorder_state_transition None next reason = (False, None)"
| "recorder_state_transition (Some machine) next reason =
     (if \<not> recorder_state_transition_allowed (rsm_state machine) next then (False, Some machine)
      else let machine = (if rsm_state machine \<noteq> next
                          then machine\<lparr>rsm_state := next, rsm_transition_count := rsm_transition_count machine + 1\<rparr>
                          else machine)
           in (True, Some (machine\<lparr>rsm_reason := reason\<rparr>)))"

fun recorder_state_str :: "recorder_state_t \<Rightarrow> string" where
  "recorder_state_str RECORDER_STATE_BOOT = ''BOOT''"
| "recorder_state_str RECORDER_STATE_RECOVER = ''RECOVER''"
| "recorder_state_str RECORDER_STATE_RECORDING = ''RECORDING''"
| "recorder_state_str RECORDER_STATE_USB_PREPARE = ''USB_PREPARE''"
| "recorder_state_str RECORDER_STATE_USB_SYNC = ''USB_SYNC''"
| "recorder_state_str RECORDER_STATE_REMOUNT = ''REMOUNT''"
| "recorder_state_str RECORDER_STATE_LOW_BATTERY_STOP = ''LOW_BATTERY_STOP''"
| "recorder_state_str RECORDER_STATE_ERROR = ''ERROR''"

fun recorder_reason_str :: "recorder_reason_t \<Rightarrow> string" where
  "recorder_reason_str RECORDER_REASON_NONE = ''none''"
| "recorder_reason_str RECORDER_REASON_BOOT = ''boot''"
| "recorder_reason_str RECORDER_REASON_RECOVERY = ''recovery''"
| "recorder_reason_str RECORDER_REASON_SD_MOUNT = ''sd-mount''"
| "recorder_reason_str RECORDER_REASON_SD_WRITE = ''sd-write''"
| "recorder_reason_str RECORDER_REASON_SD_FLUSH = ''sd-flush''"
| "recorder_reason_str RECORDER_REASON_MIC_INIT = ''mic-init''"
| "recorder_reason_str RECORDER_REASON_I2S_READ = ''i2s-read''"
| "recorder_reason_str RECORDER_REASON_DMA_OVERRUN = ''dma-overrun''"
| "recorder_reason_str RECORDER_REASON_BUFFER_OVERFLOW = ''buffer-overflow''"
| "recorder_reason_str RECORDER_REASON_LOW_BATTERY = ''low-battery''"
| "recorder_reason_str RECORDER_REASON_MANIFEST = ''manifest''"
| "recorder_reason_str RECORDER_REASON_FINALIZE = ''finalize''"
| "recorder_reason_str RECORDER_REASON_INTERNAL = ''internal''"
| "recorder_reason_str RECORDER_REASON_USB = ''usb''"

text \<open>The four formats of the code differ in the two optional fields. \<open>None\<close>: it does not fit.\<close>

definition recorder_state_format_event ::
    "nat \<Rightarrow> string ptr \<Rightarrow> recorder_state_t \<Rightarrow> recorder_state_t \<Rightarrow> recorder_reason_t \<Rightarrow> int \<Rightarrow> string option" where
  "recorder_state_format_event out_size timestamp from to reason battery_mv =
     (if out_size = 0 then None
      else let have_ts = (timestamp \<noteq> None \<and> timestamp \<noteq> Some []);
               ts = (if have_ts then ''\"timestamp\":\"'' @ the timestamp @ ''\",'' else ''\"timestamp\":null,'');
               mv = (if battery_mv > 0 then dec_of_nat (nat battery_mv) else ''null'');
               out = ''{\"event\":\"state\",'' @ ts @
                     ''\"from\":\"'' @ recorder_state_str from @ ''\",\"to\":\"'' @ recorder_state_str to @ ''\",'' @
                     ''\"reason\":\"'' @ recorder_reason_str reason @ ''\",\"batteryMv\":'' @ mv @ ''}'' @ [CHR 0x0A]
           in if length out \<ge> out_size then None else Some out)"

definition recorder_state_append_event ::
    "string ptr \<Rightarrow> string ptr \<Rightarrow> recorder_state_t \<Rightarrow> recorder_state_t \<Rightarrow> recorder_reason_t \<Rightarrow> int \<Rightarrow>
     io_world \<Rightarrow> bool \<times> io_world" where
  "recorder_state_append_event path timestamp from to reason battery_mv w =
     (case path of
        None \<Rightarrow> (False, w)
      | Some p \<Rightarrow>
          if p = [] then (False, w)
          else (case recorder_state_format_event 320 timestamp from to reason battery_mv of
            None \<Rightarrow> (False, w)
          | Some line \<Rightarrow>
              (case fopen AB p w of
                 (None, w) \<Rightarrow> (False, w)
               | (Some f, w) \<Rightarrow>
                   (case fwrite f (bytes_of_string line) w of (n, f, w) \<Rightarrow>
                    case (if n = length line then fflush f w else (False, w)) of (ok, w) \<Rightarrow>
                    case fclose f w of (closed, w) \<Rightarrow> (if closed then ok else False, w)))))"

section \<open>Runs of the machine\<close>

text \<open>One request after another, accepted or refused; the visited states, the last one first.\<close>

inductive machine_run :: "recorder_state_machine_t \<Rightarrow> recorder_state_t list \<Rightarrow> recorder_state_machine_t \<Rightarrow> bool" where
  start: "machine_run m [rsm_state m] m"
| request: "machine_run m tr m' \<Longrightarrow> recorder_state_transition (Some m') s r = (b, Some m'') \<Longrightarrow>
    machine_run m (rsm_state m'' # tr) m''"

inductive_cases machine_runE: "machine_run m tr m'"

lemma run_head: "machine_run m tr m' \<Longrightarrow> tr \<noteq> [] \<and> hd tr = rsm_state m'"
  by (induction rule: machine_run.induct) simp_all

lemma transition_cases:
  assumes "recorder_state_transition (Some m) s r = (b, Some m')"
  shows "(\<not> b \<and> m' = m) \<or> (b \<and> recorder_state_transition_allowed (rsm_state m) s \<and> rsm_state m' = s \<and> rsm_reason m' = r)"
  using assms by (auto simp: Let_def split: if_splits)

lemma allowed_edges:
  "recorder_state_transition_allowed a RECORDER_STATE_RECORDING \<Longrightarrow> a = RECORDER_STATE_RECORDING \<or> a = RECORDER_STATE_RECOVER"
  "recorder_state_transition_allowed a RECORDER_STATE_RECOVER \<Longrightarrow>
     a = RECORDER_STATE_RECOVER \<or> a = RECORDER_STATE_BOOT \<or> a = RECORDER_STATE_REMOUNT"
  "recorder_state_transition_allowed RECORDER_STATE_ERROR a = False"
  "recorder_state_transition_allowed RECORDER_STATE_LOW_BATTERY_STOP a \<Longrightarrow>
     a = RECORDER_STATE_LOW_BATTERY_STOP \<or> a = RECORDER_STATE_ERROR"
  by (auto simp: recorder_state_transition_allowed_def recorder_state_is_terminal_def
      split: recorder_state_t.splits if_splits)

text \<open>
  A run that starts where the host owns the card cannot reach a recording state without remounting.
\<close>

lemma sync_then_record:
  assumes "machine_run m tr m'" "rsm_state m = RECORDER_STATE_USB_SYNC"
  shows "RECORDER_STATE_REMOUNT \<notin> set tr \<longrightarrow> rsm_state m' \<in> {RECORDER_STATE_USB_SYNC, RECORDER_STATE_ERROR}"
  using assms
proof (induction rule: machine_run.induct)
  case (request m tr m' s r b m'')
  then show ?case
    using transition_cases[OF request.hyps(2)]
    by (auto simp: recorder_state_transition_allowed_def recorder_state_is_terminal_def split: if_splits)
qed simp

lemma remount_then_record:
  assumes "machine_run m tr m'" "rsm_state m = RECORDER_STATE_REMOUNT"
  shows "RECORDER_STATE_RECOVER \<notin> set tr \<longrightarrow> rsm_state m' \<in> {RECORDER_STATE_REMOUNT, RECORDER_STATE_ERROR}"
  using assms
proof (induction rule: machine_run.induct)
  case (request m tr m' s r b m'')
  then show ?case
    using transition_cases[OF request.hyps(2)]
    by (auto simp: recorder_state_transition_allowed_def recorder_state_is_terminal_def split: if_splits)
qed simp

lemma error_run:
  assumes "machine_run m tr m'" "rsm_state m = RECORDER_STATE_ERROR" shows "m' = m"
  using assms
proof (induction rule: machine_run.induct)
  case (request m tr m' s r b m'')
  then show ?case using transition_cases[OF request.hyps(2)] allowed_edges(3) by auto
qed simp

lemma low_battery_run:
  assumes "machine_run m tr m'" "rsm_state m = RECORDER_STATE_LOW_BATTERY_STOP"
  shows "rsm_state m' \<in> {RECORDER_STATE_LOW_BATTERY_STOP, RECORDER_STATE_ERROR}"
  using assms
proof (induction rule: machine_run.induct)
  case (request m tr m' s r b m'')
  then show ?case using transition_cases[OF request.hyps(2)]
    by (auto simp: allowed_edges(3) dest: allowed_edges(4))
qed simp

lemma recording_after_recover:
  assumes "machine_run m tr m'" "rsm_state m \<noteq> RECORDER_STATE_RECORDING" "rsm_state m' = RECORDER_STATE_RECORDING"
  shows "RECORDER_STATE_RECOVER \<in> set tr"
  using assms
proof (induction rule: machine_run.induct)
  case (request m tr m' s r b m'')
  note c = transition_cases[OF request.hyps(2)]
  show ?case
  proof (cases "rsm_state m' = RECORDER_STATE_RECORDING")
    case True
    then show ?thesis using request by simp
  next
    case False
    then have "rsm_state m' = RECORDER_STATE_RECOVER" using c request.prems(2) allowed_edges(1) by auto
    then show ?thesis using run_head[OF request.hyps(1)] by (cases tr) auto
  qed
qed simp

section \<open>Properties\<close>


definition synced_machine :: recorder_state_machine_t where
  "synced_machine = \<lparr>rsm_state = RECORDER_STATE_USB_SYNC, rsm_reason = RECORDER_REASON_USB, rsm_transition_count = 4\<rparr>"


text \<open>
  C24: Diagnostics only ever grow. For every pattern of I/O errors and power loss, appending a state
  event leaves the old content of the events file in place and adds at most a prefix of the line; if it
  reports success, exactly the whole line was added, which ends in a newline and fits the buffer. No
  other file changes.
\<close>

theorem append_event_grows:
  assumes "recorder_state_append_event (Some path) ts s1 s2 r mv w = (ok, w')"
  shows "(\<forall>c. files w path = Some c \<longrightarrow> (\<exists>line k. files w' path = Some (c @ take k line) \<and>
       (ok \<longrightarrow> recorder_state_format_event 320 ts s1 s2 r mv = Some (string_of_bytes line) \<and>
          k = length line \<and> length line < 320 \<and> line \<noteq> [] \<and> last line = 10))) \<and>
    (\<forall>p. p \<noteq> path \<longrightarrow> files w' p = files w p)"
proof (cases "path = [] \<or> recorder_state_format_event 320 ts s1 s2 r mv = None")
  case True
  then have "w' = w" "\<not> ok" using assms by (auto simp: recorder_state_append_event_def split: if_splits)
  then show ?thesis by (auto intro: exI[of _ "[]"])
next
  case False
  then obtain line where l: "path \<noteq> []" "recorder_state_format_event 320 ts s1 s2 r mv = Some line" by auto
  have line: "length line < 320" "line \<noteq> []" "last line = CHR 0x0A"
    using l(2) by (auto simp: recorder_state_format_event_def Let_def split: if_splits)
  let ?b = "bytes_of_string line"
  have last: "last ?b = 10" "?b \<noteq> []" using line by (simp_all add: bytes_of_string_def last_map)
  obtain f w1 where op: "fopen AB path w = (f, w1)" by fastforce
  note t1 = touches_filesD[OF fopen_touches[OF op]]
  have op1: "\<And>c. files w path = Some c \<Longrightarrow> files w1 path = Some c \<and> (\<forall>fp. f = Some fp \<longrightarrow> fpath fp = path \<and> fpos fp = length c)"
    by (rule fopen_ab_keeps[OF op])
  show ?thesis
  proof (cases f)
    case None
    then have "w' = w1" "\<not> ok" using assms l op by (auto simp: recorder_state_append_event_def)
    then show ?thesis using t1 op1 by (auto intro!: exI[of _ "[]"])
  next
    case (Some fp)
    have fp: "fpath fp = path" using op Some by (auto simp: fopen_def split: prod.splits bool.splits option.splits)
    obtain n fp2 w2 where wr: "fwrite fp ?b w1 = (n, fp2, w2)" by (metis prod_cases3)
    obtain b3 w3 where fl: "(if n = length line then fflush fp2 w2 else (False, w2)) = (b3, w3)" by fastforce
    obtain b4 w4 where cl: "fclose fp2 w3 = (b4, w4)" by fastforce
    have r: "w' = w4" "ok \<longrightarrow> b3" using assms l op Some wr fl cl
      by (auto simp: recorder_state_append_event_def split: if_splits)
    have same: "files w' = files w2" "b3 \<longrightarrow> n = length line"
      using fl fflush_touches[of fp2 w2 b3 w3 "{}"] fclose_touches[OF cl, of "{}"] r
      by (auto simp: touches_def split: if_splits)
    note t2 = touches_filesD[OF fwrite_touches[OF wr]]
    have other: "\<forall>p. p \<noteq> path \<longrightarrow> files w' p = files w p" using same t1 t2 fp by auto
    have "\<exists>ln k. files w' path = Some (c @ take k ln) \<and>
       (ok \<longrightarrow> recorder_state_format_event 320 ts s1 s2 r mv = Some (string_of_bytes ln) \<and>
          k = length ln \<and> length ln < 320 \<and> ln \<noteq> [] \<and> last ln = 10)" if c: "files w path = Some c" for c
    proof -
      have c1: "files w1 path = Some c" "fpos fp = length c" using op1[OF c] Some by auto
      obtain k where k': "n = length ?b \<longrightarrow> k = length ?b" "\<forall>c. files w1 (fpath fp) = Some c \<and> fpos fp \<le> length c
          \<longrightarrow> files w2 (fpath fp) = Some (write_at (fpos fp) (take k ?b) c)"
        using fwrite_files(1)[OF wr] by blast
      then have k: "files w2 path = Some (write_at (fpos fp) (take k ?b) c)" "n = length ?b \<longrightarrow> k = length ?b"
        using c1 fp by simp_all
      have "files w' path = Some (c @ take k ?b)" using same c1 k(1) by simp
      moreover have "ok \<longrightarrow> k = length ?b" using same(2) r(2) k(2) by simp
      ultimately show ?thesis using l(2) line last
        by (intro exI[of _ ?b] exI[of _ k]) simp
    qed
    then show ?thesis using other by blast
  qed
qed

theorem append_event_grows_witness:
  "\<exists>ok w'. recorder_state_append_event (Some ''/e'') None RECORDER_STATE_BOOT RECORDER_STATE_RECOVER
      RECORDER_REASON_BOOT 0 (set_file ''/e'' (Some [123]) False empty_card) = (ok, w') \<and>
    (\<exists>line k. files w' ''/e'' = Some ([123] @ take k line))"
proof -
  obtain ok w' where r: "recorder_state_append_event (Some ''/e'') None RECORDER_STATE_BOOT RECORDER_STATE_RECOVER
      RECORDER_REASON_BOOT 0 (set_file ''/e'' (Some [123]) False empty_card) = (ok, w')" by fastforce
  with append_event_grows[OF r] show ?thesis by auto
qed

end
