(* ===== verification/Esp_Nvs.thy ===== *)
theory Esp_Nvs
  imports Recorder_Config
begin

text \<open>
  The platform services of ESP-IDF and FreeRTOS that the recorder calls for its durable state, as a
  parameter of the model: a record of functions on an unspecified state. \<open>nvs_contract\<close> collects what
  their documentation promises; \<open>stored\<close> is the content of the flash, \<open>staged\<close> the last update that was
  set but not yet committed. The wrapper \<open>firmware/components/recorder/recorder_nvs.c\<close>, which
  initializes the partition once and serializes the recorder's transactions, is modelled on top.
\<close>

section \<open>The platform\<close>

datatype esp_err_t = ESP_OK | ESP_FAIL | ESP_ERR_INVALID_ARG | ESP_ERR_INVALID_STATE
  | ESP_ERR_NOT_SUPPORTED | ESP_ERR_NO_MEM | ESP_ERR_NVS_NOT_FOUND | ESP_ERR_OTHER nat

datatype nvs_value = NvsU8 u8 | NvsStr string | NvsBlob "byte list"

record 's esp_api =
  xSemaphoreCreateMutex :: "'s \<Rightarrow> bool \<times> 's"
  xSemaphoreTake :: "'s \<Rightarrow> bool \<times> 's"
  xSemaphoreGive :: "'s \<Rightarrow> 's"
  nvs_flash_init :: "'s \<Rightarrow> esp_err_t \<times> 's"
  nvs_open_ro :: "string \<Rightarrow> 's \<Rightarrow> esp_err_t \<times> 's"
  nvs_open_rw :: "string \<Rightarrow> 's \<Rightarrow> esp_err_t \<times> 's"
  nvs_close :: "string \<Rightarrow> 's \<Rightarrow> 's"
  nvs_get_u8 :: "string \<Rightarrow> string \<Rightarrow> 's \<Rightarrow> esp_err_t \<times> u8 \<times> 's"
  nvs_get_str :: "string \<Rightarrow> string \<Rightarrow> 's \<Rightarrow> esp_err_t \<times> string \<times> 's"
  nvs_get_blob :: "string \<Rightarrow> string \<Rightarrow> 's \<Rightarrow> esp_err_t \<times> byte list \<times> 's"
  nvs_set :: "string \<Rightarrow> string \<Rightarrow> nvs_value \<Rightarrow> 's \<Rightarrow> esp_err_t \<times> 's"
  nvs_erase_key :: "string \<Rightarrow> string \<Rightarrow> 's \<Rightarrow> esp_err_t \<times> 's"
  nvs_commit :: "string \<Rightarrow> 's \<Rightarrow> esp_err_t \<times> 's"
  esp_random :: "'s \<Rightarrow> u32 \<times> 's"

type_synonym flash = "string \<Rightarrow> string \<Rightarrow> nvs_value option"

text \<open>
  \<open>flash_or\<close>: all entries as in \<open>d\<close>, except that entry \<open>ns, k\<close> may already be \<open>v\<close>. \<open>flash_within us d d'\<close>: any
  of the updates \<open>us\<close> have reached the flash, and nothing else.
\<close>

definition flash_put :: "string \<Rightarrow> string \<Rightarrow> nvs_value option \<Rightarrow> flash \<Rightarrow> flash" where
  "flash_put ns k v d = d(ns := (d ns)(k := v))"

definition flash_or :: "string \<Rightarrow> string \<Rightarrow> nvs_value option \<Rightarrow> flash \<Rightarrow> flash \<Rightarrow> bool" where
  "flash_or ns k v d d' \<longleftrightarrow> d' = d \<or> d' = flash_put ns k v d"

type_synonym nvs_update = "string \<times> string \<times> nvs_value option"

definition flash_puts :: "nvs_update list \<Rightarrow> flash \<Rightarrow> flash" where
  "flash_puts us d = fold (\<lambda>(ns, k, v). flash_put ns k v) us d"

definition flash_within :: "nvs_update list \<Rightarrow> flash \<Rightarrow> flash \<Rightarrow> bool" where
  "flash_within us d d' \<longleftrightarrow> (\<exists>vs. set vs \<subseteq> set us \<and> d' = flash_puts vs d)"

text \<open>What the documentation of NVS promises; \<open>staged\<close> lists the updates of the open handle since it was opened.\<close>

definition nvs_contract ::
    "'s esp_api \<Rightarrow> ('s \<Rightarrow> flash) \<Rightarrow> ('s \<Rightarrow> nvs_update list) \<Rightarrow> bool" where
  "nvs_contract api stored staged \<longleftrightarrow>
     (\<forall>s. stored (snd (xSemaphoreCreateMutex api s)) = stored s \<and> stored (snd (xSemaphoreTake api s)) = stored s \<and>
          stored (xSemaphoreGive api s) = stored s \<and> stored (snd (nvs_flash_init api s)) = stored s \<and>
          stored (snd (esp_random api s)) = stored s \<and> staged (snd (esp_random api s)) = staged s) \<and>
     (\<forall>s ns. stored (snd (nvs_open_ro api ns s)) = stored s \<and> stored (snd (nvs_open_rw api ns s)) = stored s \<and>
          stored (nvs_close api ns s) = stored s \<and>
          (fst (nvs_open_rw api ns s) = ESP_OK \<longrightarrow> staged (snd (nvs_open_rw api ns s)) = []) \<and>
          (fst (nvs_open_ro api ns s) = ESP_ERR_NVS_NOT_FOUND \<longrightarrow> stored s ns = (\<lambda>_. None))) \<and>
     (\<forall>s ns k. stored (snd (snd (nvs_get_u8 api ns k s))) = stored s \<and>
          stored (snd (snd (nvs_get_str api ns k s))) = stored s \<and>
          stored (snd (snd (nvs_get_blob api ns k s))) = stored s \<and>
          staged (snd (snd (nvs_get_str api ns k s))) = staged s \<and>
          (fst (nvs_get_u8 api ns k s) = ESP_OK \<longrightarrow> stored s ns k = Some (NvsU8 (fst (snd (nvs_get_u8 api ns k s))))) \<and>
          (fst (nvs_get_u8 api ns k s) = ESP_ERR_NVS_NOT_FOUND \<longrightarrow> (\<forall>v. stored s ns k \<noteq> Some (NvsU8 v))) \<and>
          (fst (nvs_get_str api ns k s) = ESP_OK \<longrightarrow> stored s ns k = Some (NvsStr (fst (snd (nvs_get_str api ns k s))))) \<and>
          (fst (nvs_get_str api ns k s) = ESP_ERR_NVS_NOT_FOUND \<longrightarrow> (\<forall>v. stored s ns k \<noteq> Some (NvsStr v))) \<and>
          (fst (nvs_get_blob api ns k s) = ESP_OK \<longrightarrow> stored s ns k = Some (NvsBlob (fst (snd (nvs_get_blob api ns k s))))) \<and>
          (fst (nvs_get_blob api ns k s) = ESP_ERR_NVS_NOT_FOUND \<longrightarrow> (\<forall>v. stored s ns k \<noteq> Some (NvsBlob v)))) \<and>
     (\<forall>s ns k v. flash_or ns k (Some v) (stored s) (stored (snd (nvs_set api ns k v s))) \<and>
          (fst (nvs_set api ns k v s) = ESP_OK \<longrightarrow> staged (snd (nvs_set api ns k v s)) = staged s @ [(ns, k, Some v)])) \<and>
     (\<forall>s ns k. flash_or ns k None (stored s) (stored (snd (nvs_erase_key api ns k s))) \<and>
          (fst (nvs_erase_key api ns k s) = ESP_OK \<longrightarrow> staged (snd (nvs_erase_key api ns k s)) = staged s @ [(ns, k, None)]) \<and>
          (fst (nvs_erase_key api ns k s) = ESP_ERR_NVS_NOT_FOUND \<longrightarrow>
             stored s ns k = None \<and> staged (snd (nvs_erase_key api ns k s)) = staged s)) \<and>
     (\<forall>s ns. (\<forall>u \<in> set (staged s). fst u = ns) \<longrightarrow>
          flash_within (staged s) (stored s) (stored (snd (nvs_commit api ns s))) \<and>
          (fst (nvs_commit api ns s) = ESP_OK \<longrightarrow> stored (snd (nvs_commit api ns s)) = flash_puts (staged s) (stored s)))"

section \<open>recorder\_nvs.c\<close>

record recorder_nvs_t =
  s_nvs_lock :: bool
  s_nvs_initialized :: bool

type_synonym 's nvs_world = "recorder_nvs_t \<times> 's"

definition recorder_nvs_init :: "'s esp_api \<Rightarrow> 's nvs_world \<Rightarrow> esp_err_t \<times> 's nvs_world" where
  "recorder_nvs_init api w =
     (case w of (n, s) \<Rightarrow>
      case (if \<not> s_nvs_lock n then xSemaphoreCreateMutex api s else (True, s)) of (created, s) \<Rightarrow>
      if \<not> created then (ESP_ERR_NO_MEM, (n, s))
      else let n = n\<lparr>s_nvs_lock := True\<rparr> in
      case xSemaphoreTake api s of (taken, s) \<Rightarrow>
      if \<not> taken then (ESP_FAIL, (n, s))
      else if s_nvs_initialized n then (ESP_OK, (n, xSemaphoreGive api s))
      else case nvs_flash_init api s of (err, s) \<Rightarrow>
        (err, (n\<lparr>s_nvs_initialized := (err = ESP_OK)\<rparr>, xSemaphoreGive api s)))"

definition recorder_nvs_lock :: "'s esp_api \<Rightarrow> 's nvs_world \<Rightarrow> esp_err_t \<times> 's nvs_world" where
  "recorder_nvs_lock api w =
     (case recorder_nvs_init api w of (err, (n, s)) \<Rightarrow>
      if err \<noteq> ESP_OK then (err, (n, s))
      else case xSemaphoreTake api s of (taken, s) \<Rightarrow>
      if \<not> taken then (ESP_FAIL, (n, s))
      else if \<not> s_nvs_initialized n then (ESP_ERR_INVALID_STATE, (n, xSemaphoreGive api s))
      else (ESP_OK, (n, s)))"

definition recorder_nvs_unlock :: "'s esp_api \<Rightarrow> 's nvs_world \<Rightarrow> 's nvs_world" where
  "recorder_nvs_unlock api w =
     (case w of (n, s) \<Rightarrow> if s_nvs_lock n then (n, xSemaphoreGive api s) else (n, s))"

section \<open>Laws\<close>

abbreviation on_flash :: "('s \<Rightarrow> flash) \<Rightarrow> 's nvs_world \<Rightarrow> flash" where
  "on_flash stored w \<equiv> stored (snd w)"

lemma nvs_contract_sem:
  assumes "nvs_contract api stored staged"
  shows "xSemaphoreCreateMutex api s = (b, s') \<Longrightarrow> stored s' = stored s"
    "xSemaphoreTake api s = (b, s') \<Longrightarrow> stored s' = stored s"
    "stored (xSemaphoreGive api s) = stored s"
    "nvs_flash_init api s = (e, s') \<Longrightarrow> stored s' = stored s"
    "esp_random api s = (r, s') \<Longrightarrow> stored s' = stored s"
    "nvs_open_ro api ns s = (e, s') \<Longrightarrow> stored s' = stored s"
    "nvs_open_rw api ns s = (e, s') \<Longrightarrow> stored s' = stored s"
    "stored (nvs_close api ns s) = stored s"
    "nvs_open_ro api ns s = (ESP_ERR_NVS_NOT_FOUND, s') \<Longrightarrow> stored s ns = (\<lambda>_. None)"
    "nvs_open_rw api ns s = (ESP_OK, s') \<Longrightarrow> staged s' = []"
    "esp_random api s = (r, s') \<Longrightarrow> staged s' = staged s"
  using assms unfolding nvs_contract_def by (metis fst_conv snd_conv)+

lemma nvs_contract_get_u8:
  assumes "nvs_contract api stored staged" "nvs_get_u8 api ns k s = (e, v, s')"
  shows "stored s' = stored s" "e = ESP_OK \<Longrightarrow> stored s ns k = Some (NvsU8 v)"
    "e = ESP_ERR_NVS_NOT_FOUND \<Longrightarrow> stored s ns k \<noteq> Some (NvsU8 x)"
  using assms unfolding nvs_contract_def by (metis fst_conv snd_conv)+

lemma nvs_contract_set:
  assumes "nvs_contract api stored staged" "nvs_set api ns k v s = (e, s')"
  shows "flash_or ns k (Some v) (stored s) (stored s')" "e = ESP_OK \<Longrightarrow> staged s' = staged s @ [(ns, k, Some v)]"
  using assms unfolding nvs_contract_def by (metis fst_conv snd_conv)+

lemma nvs_contract_erase:
  assumes "nvs_contract api stored staged" "nvs_erase_key api ns k s = (e, s')"
  shows "flash_or ns k None (stored s) (stored s')" "e = ESP_OK \<Longrightarrow> staged s' = staged s @ [(ns, k, None)]"
    "e = ESP_ERR_NVS_NOT_FOUND \<Longrightarrow> stored s ns k = None \<and> staged s' = staged s"
  using assms unfolding nvs_contract_def by (metis fst_conv snd_conv)+

lemma nvs_contract_commits:
  assumes "nvs_contract api stored staged" "nvs_commit api ns s = (e, s')" "\<forall>u \<in> set (staged s). fst u = ns"
  shows "flash_within (staged s) (stored s) (stored s')" "e = ESP_OK \<Longrightarrow> stored s' = flash_puts (staged s) (stored s)"
  using assms unfolding nvs_contract_def by (metis fst_conv snd_conv)+

lemma flash_put_put [simp]: "flash_put ns k v (flash_put ns k u d) = flash_put ns k v d"
  by (simp add: flash_put_def)

lemma flash_within_one:
  assumes "flash_within [(ns, k, v)] d d'" shows "flash_or ns k v d d'"
proof -
  obtain vs where vs: "set vs \<subseteq> {(ns, k, v)}" "d' = flash_puts vs d" using assms by (auto simp: flash_within_def)
  have "flash_puts vs d = d \<or> flash_puts vs d = flash_put ns k v d" using vs(1)
  proof (induction vs arbitrary: d)
    case (Cons u vs)
    have "flash_puts (u # vs) d = flash_puts vs (flash_put ns k v d)" using Cons.prems by (auto simp: flash_puts_def)
    then show ?case using Cons.IH[of "flash_put ns k v d"] Cons.prems by simp
  qed (simp add: flash_puts_def)
  then show ?thesis using vs(2) by (auto simp: flash_or_def)
qed

lemma flash_within_frame:
  assumes "flash_within us d d'" "\<forall>u \<in> set us. (fst u, fst (snd u)) \<noteq> (ns, k)" shows "d' ns k = d ns k"
proof -
  obtain vs where vs: "set vs \<subseteq> set us" "d' = flash_puts vs d" using assms(1) by (auto simp: flash_within_def)
  have "\<forall>u \<in> set vs. (fst u, fst (snd u)) \<noteq> (ns, k)" using vs(1) assms(2) by blast
  then have "flash_puts vs d ns k = d ns k"
    by (induction vs arbitrary: d) (auto simp: flash_puts_def flash_put_def)
  then show ?thesis using vs(2) by simp
qed

lemma nvs_contract_commit:
  assumes "nvs_contract api stored staged" "nvs_commit api ns s = (e, s')" "staged s = [(ns, k, v)]"
  shows "flash_or ns k v (stored s) (stored s')" "e = ESP_OK \<Longrightarrow> stored s' = flash_put ns k v (stored s)"
  using nvs_contract_commits[OF assms(1,2)] assms(3) flash_within_one by (auto simp: flash_puts_def)

lemma flash_or_trans:
  "flash_or ns k v d d' \<Longrightarrow> flash_or ns k v d' d'' \<Longrightarrow> flash_or ns k v d d''"
  by (auto simp: flash_or_def flash_put_def)

lemma flash_put_same [simp]: "flash_put ns k v d ns k = v"
  by (simp add: flash_put_def)

lemma flash_or_refl [simp]: "flash_or ns k v d d"
  by (simp add: flash_or_def)

lemma recorder_nvs_init_stored:
  assumes "nvs_contract api stored staged" "recorder_nvs_init api w = (e, w')"
  shows "on_flash stored w' = on_flash stored w"
proof -
  obtain n s where w: "w = (n, s)" by fastforce
  obtain c s1 where c: "(if \<not> s_nvs_lock n then xSemaphoreCreateMutex api s else (True, s)) = (c, s1)" by fastforce
  obtain t s2 where t: "xSemaphoreTake api s1 = (t, s2)" by fastforce
  obtain i s3 where i: "nvs_flash_init api s2 = (i, s3)" by fastforce
  have "stored s1 = stored s" using c nvs_contract_sem(1)[OF assms(1)] by (auto split: if_splits)
  moreover have "stored s2 = stored s1" "stored s3 = stored s2"
    using nvs_contract_sem(2)[OF assms(1) t] nvs_contract_sem(4)[OF assms(1) i] .
  moreover have "snd w' \<in> {s1, s2, xSemaphoreGive api s2, xSemaphoreGive api s3}"
    using assms(2) w c t i by (auto simp: recorder_nvs_init_def Let_def split: if_splits)
  ultimately show ?thesis using nvs_contract_sem(3)[OF assms(1)] w by auto
qed

lemma recorder_nvs_lock_stored:
  assumes "nvs_contract api stored staged" "recorder_nvs_lock api w = (e, w')"
  shows "on_flash stored w' = on_flash stored w"
proof -
  obtain e1 n s where i: "recorder_nvs_init api w = (e1, (n, s))" by (metis prod_cases3)
  obtain t s2 where t: "xSemaphoreTake api s = (t, s2)" by fastforce
  have "stored s = on_flash stored w" using recorder_nvs_init_stored[OF assms(1) i] by simp
  moreover have "stored s2 = stored s" by (rule nvs_contract_sem(2)[OF assms(1) t])
  moreover have "snd w' \<in> {s, s2, xSemaphoreGive api s2}"
    using assms(2) i t by (auto simp: recorder_nvs_lock_def split: if_splits)
  ultimately show ?thesis using nvs_contract_sem(3)[OF assms(1)] by auto
qed

lemma recorder_nvs_unlock_stored:
  assumes "nvs_contract api stored staged"
  shows "on_flash stored (recorder_nvs_unlock api w) = on_flash stored w"
  using nvs_contract_sem(3)[OF assms] by (auto simp: recorder_nvs_unlock_def split: prod.splits)

section \<open>A flash without faults\<close>

text \<open>An instance of the platform that keeps the contract, for concrete evaluations.\<close>

type_synonym mem_nvs = "flash \<times> nvs_update list"

definition mem_commit :: "mem_nvs \<Rightarrow> mem_nvs" where
  "mem_commit s = (flash_puts (snd s) (fst s), [])"

definition mem_api :: "mem_nvs esp_api" where
  "mem_api = \<lparr>xSemaphoreCreateMutex = (\<lambda>s. (True, s)), xSemaphoreTake = (\<lambda>s. (True, s)), xSemaphoreGive = (\<lambda>s. s),
     nvs_flash_init = (\<lambda>s. (ESP_OK, s)), nvs_open_ro = (\<lambda>ns s. (ESP_OK, s)), nvs_open_rw = (\<lambda>ns s. (ESP_OK, (fst s, []))),
     nvs_close = (\<lambda>ns s. s),
     nvs_get_u8 = (\<lambda>ns k s. case fst s ns k of Some (NvsU8 v) \<Rightarrow> (ESP_OK, v, s) | _ \<Rightarrow> (ESP_ERR_NVS_NOT_FOUND, 0, s)),
     nvs_get_str = (\<lambda>ns k s. case fst s ns k of Some (NvsStr v) \<Rightarrow> (ESP_OK, v, s) | _ \<Rightarrow> (ESP_ERR_NVS_NOT_FOUND, [], s)),
     nvs_get_blob = (\<lambda>ns k s. case fst s ns k of Some (NvsBlob v) \<Rightarrow> (ESP_OK, v, s) | _ \<Rightarrow> (ESP_ERR_NVS_NOT_FOUND, [], s)),
     nvs_set = (\<lambda>ns k v s. (ESP_OK, (fst s, snd s @ [(ns, k, Some v)]))),
     nvs_erase_key = (\<lambda>ns k s. if fst s ns k = None then (ESP_ERR_NVS_NOT_FOUND, s) else (ESP_OK, (fst s, snd s @ [(ns, k, None)]))),
     nvs_commit = (\<lambda>ns s. (ESP_OK, mem_commit s)), esp_random = (\<lambda>s. (0, s))\<rparr>"

lemma mem_api_contract: "nvs_contract mem_api fst snd"
  unfolding nvs_contract_def mem_api_def
  by (auto simp: flash_or_def flash_within_def mem_commit_def split: option.splits nvs_value.splits)

end
