(* ===== verification/Shutdown_Armed.thy ===== *)
theory Shutdown_Armed
  imports Esp_Nvs
begin

text \<open>
  The durable shutdown lifecycle, \<open>firmware/components/recorder/shutdown_armed.c\<close> (the
  \<open>ESP_PLATFORM\<close> build), and the proof of a manual wake that every boot has to give before normal
  operation returns, \<open>firmware/main/task87_wake_recovery.c\<close>.

  The hook \<open>rtc_correction_flush_pending_event\<close> is a weak symbol of the source: here it is an optional
  argument, \<open>None\<close> when it is not linked.
\<close>

section \<open>Model\<close>

definition k_namespace :: string where "k_namespace = ''m5daylog''"
definition k_key :: string where "k_key = ''shutdown_armed''"

datatype shutdown_lifecycle_state_t = SHUTDOWN_LIFECYCLE_NORMAL | SHUTDOWN_LIFECYCLE_ARMED
  | SHUTDOWN_LIFECYCLE_HOST_UNRESOLVED | SHUTDOWN_LIFECYCLE_WAKE_RECOVERY_PENDING

fun lifecycle_byte :: "shutdown_lifecycle_state_t \<Rightarrow> u8" where
  "lifecycle_byte SHUTDOWN_LIFECYCLE_NORMAL = 0"
| "lifecycle_byte SHUTDOWN_LIFECYCLE_ARMED = 1"
| "lifecycle_byte SHUTDOWN_LIFECYCLE_HOST_UNRESOLVED = 2"
| "lifecycle_byte SHUTDOWN_LIFECYCLE_WAKE_RECOVERY_PENDING = 3"

definition lifecycle_of_byte :: "u8 \<Rightarrow> shutdown_lifecycle_state_t option" where
  \<comment> \<open>the range check and the cast of \<open>shutdown_armed_read_state\<close>\<close>
  "lifecycle_of_byte v =
     (if v > lifecycle_byte SHUTDOWN_LIFECYCLE_WAKE_RECOVERY_PENDING then None
      else if v = 0 then Some SHUTDOWN_LIFECYCLE_NORMAL
      else if v = 1 then Some SHUTDOWN_LIFECYCLE_ARMED
      else if v = 2 then Some SHUTDOWN_LIFECYCLE_HOST_UNRESOLVED
      else Some SHUTDOWN_LIFECYCLE_WAKE_RECOVERY_PENDING)"

datatype shutdown_armed_boot_action_t = SHUTDOWN_ARMED_BOOT_NORMAL | SHUTDOWN_ARMED_BOOT_STAY_SHUTDOWN
  | SHUTDOWN_ARMED_BOOT_MANUAL_RESUME

definition shutdown_armed_write :: "'s esp_api \<Rightarrow> u8 \<Rightarrow> 's nvs_world \<Rightarrow> esp_err_t \<times> 's nvs_world" where
  "shutdown_armed_write api val w =
     (case recorder_nvs_lock api w of (err, (n, s)) \<Rightarrow>
      if err \<noteq> ESP_OK then (err, (n, s))
      else case nvs_open_rw api k_namespace s of (err, s) \<Rightarrow>
      if err \<noteq> ESP_OK then (err, recorder_nvs_unlock api (n, s))
      else case nvs_set api k_namespace k_key (NvsU8 val) s of (err, s) \<Rightarrow>
      if err \<noteq> ESP_OK then (err, recorder_nvs_unlock api (n, nvs_close api k_namespace s))
      else case nvs_commit api k_namespace s of (err, s) \<Rightarrow>
      (err, recorder_nvs_unlock api (n, nvs_close api k_namespace s)))"

text \<open>The error and \<open>*state\<close>; the \<open>state == NULL\<close> branch is unreachable, every caller passes a local.\<close>

definition shutdown_armed_read_state ::
    "'s esp_api \<Rightarrow> 's nvs_world \<Rightarrow> esp_err_t \<times> shutdown_lifecycle_state_t \<times> 's nvs_world" where
  "shutdown_armed_read_state api w =
     (case recorder_nvs_lock api w of (err, (n, s)) \<Rightarrow>
      if err \<noteq> ESP_OK then (err, SHUTDOWN_LIFECYCLE_NORMAL, (n, s))
      else case nvs_open_ro api k_namespace s of (err, s) \<Rightarrow>
      if err = ESP_ERR_NVS_NOT_FOUND
      then (ESP_OK, SHUTDOWN_LIFECYCLE_NORMAL, recorder_nvs_unlock api (n, s))
      else if err \<noteq> ESP_OK then (err, SHUTDOWN_LIFECYCLE_NORMAL, recorder_nvs_unlock api (n, s))
      else case nvs_get_u8 api k_namespace k_key s of (err, v, s) \<Rightarrow>
      let w = recorder_nvs_unlock api (n, nvs_close api k_namespace s) in
      if err = ESP_ERR_NVS_NOT_FOUND then (ESP_OK, SHUTDOWN_LIFECYCLE_NORMAL, w)
      else if err \<noteq> ESP_OK then (err, SHUTDOWN_LIFECYCLE_NORMAL, w)
      else (case lifecycle_of_byte v of
              None \<Rightarrow> (ESP_FAIL, SHUTDOWN_LIFECYCLE_NORMAL, w)
            | Some st \<Rightarrow> (ESP_OK, st, w)))"

definition shutdown_armed_read :: "'s esp_api \<Rightarrow> 's nvs_world \<Rightarrow> esp_err_t \<times> bool \<times> 's nvs_world" where
  "shutdown_armed_read api w =
     (case shutdown_armed_read_state api w of (err, state, w) \<Rightarrow>
      if err \<noteq> ESP_OK then (err, False, w)
      else if state = SHUTDOWN_LIFECYCLE_HOST_UNRESOLVED then (ESP_ERR_INVALID_STATE, False, w)
      else (ESP_OK, state = SHUTDOWN_LIFECYCLE_ARMED \<or> state = SHUTDOWN_LIFECYCLE_WAKE_RECOVERY_PENDING, w))"

definition shutdown_armed_mark_host_unresolved :: "'s esp_api \<Rightarrow> 's nvs_world \<Rightarrow> esp_err_t \<times> 's nvs_world" where
  "shutdown_armed_mark_host_unresolved api w =
     shutdown_armed_write api (lifecycle_byte SHUTDOWN_LIFECYCLE_HOST_UNRESOLVED) w"

definition shutdown_armed_commit :: "'s esp_api \<Rightarrow> 's nvs_world \<Rightarrow> esp_err_t \<times> 's nvs_world" where
  "shutdown_armed_commit api w = shutdown_armed_write api (lifecycle_byte SHUTDOWN_LIFECYCLE_ARMED) w"

definition shutdown_armed_mark_wake_recovery_pending ::
    "'s esp_api \<Rightarrow> 's nvs_world \<Rightarrow> esp_err_t \<times> 's nvs_world" where
  "shutdown_armed_mark_wake_recovery_pending api w =
     (case shutdown_armed_read_state api w of (err, state, w) \<Rightarrow>
      if err \<noteq> ESP_OK then (err, w)
      else if state = SHUTDOWN_LIFECYCLE_WAKE_RECOVERY_PENDING then (ESP_OK, w)
      else if state \<noteq> SHUTDOWN_LIFECYCLE_ARMED then (ESP_ERR_INVALID_STATE, w)
      else shutdown_armed_write api (lifecycle_byte SHUTDOWN_LIFECYCLE_WAKE_RECOVERY_PENDING) w)"

definition shutdown_armed_complete_wake_recovery ::
    "'s esp_api \<Rightarrow> 's nvs_world \<Rightarrow> esp_err_t \<times> 's nvs_world" where
  "shutdown_armed_complete_wake_recovery api w =
     (case shutdown_armed_read_state api w of (err, state, w) \<Rightarrow>
      if err \<noteq> ESP_OK then (err, w)
      else if state \<noteq> SHUTDOWN_LIFECYCLE_WAKE_RECOVERY_PENDING then (ESP_ERR_INVALID_STATE, w)
      else shutdown_armed_write api (lifecycle_byte SHUTDOWN_LIFECYCLE_NORMAL) w)"

definition shutdown_armed_clear :: "'s esp_api \<Rightarrow> 's nvs_world \<Rightarrow> esp_err_t \<times> 's nvs_world" where
  "shutdown_armed_clear api w =
     (case shutdown_armed_read_state api w of (err, state, w) \<Rightarrow>
      if err \<noteq> ESP_OK then (err, w)
      else if state \<noteq> SHUTDOWN_LIFECYCLE_ARMED then (ESP_ERR_INVALID_STATE, w)
      else shutdown_armed_write api (lifecycle_byte SHUTDOWN_LIFECYCLE_NORMAL) w)"

definition shutdown_armed_boot_action ::
    "'s esp_api \<Rightarrow> bool \<Rightarrow> 's nvs_world \<Rightarrow> esp_err_t \<times> shutdown_armed_boot_action_t \<times> 's nvs_world" where
  "shutdown_armed_boot_action api manual_wake w =
     (case shutdown_armed_read_state api w of (err, state, w) \<Rightarrow>
      if err \<noteq> ESP_OK then (err, SHUTDOWN_ARMED_BOOT_STAY_SHUTDOWN, w)
      else if state = SHUTDOWN_LIFECYCLE_NORMAL then (ESP_OK, SHUTDOWN_ARMED_BOOT_NORMAL, w)
      else if (state = SHUTDOWN_LIFECYCLE_ARMED \<or> state = SHUTDOWN_LIFECYCLE_WAKE_RECOVERY_PENDING) \<and> manual_wake
      then (ESP_OK, SHUTDOWN_ARMED_BOOT_MANUAL_RESUME, w)
      else (ESP_OK, SHUTDOWN_ARMED_BOOT_STAY_SHUTDOWN, w))"

subsection \<open>The per-boot proof of a manual wake\<close>

record task87_wake_recovery_t =
  manual_resume_pending :: bool
  device_recovery_complete :: bool
  fresh_recording_started :: bool

fun task87_wake_recovery_init :: "task87_wake_recovery_t ptr \<Rightarrow> bool \<Rightarrow> task87_wake_recovery_t ptr" where
  "task87_wake_recovery_init None manual_resume = None"
| "task87_wake_recovery_init (Some r) manual_resume =
     Some (r\<lparr>manual_resume_pending := manual_resume, device_recovery_complete := False,
            fresh_recording_started := False\<rparr>)"

fun task87_wake_recovery_pending :: "task87_wake_recovery_t ptr \<Rightarrow> bool" where
  "task87_wake_recovery_pending None = False"
| "task87_wake_recovery_pending (Some r) = manual_resume_pending r"

definition task87_wake_recovery_complete_device_recovery ::
    "'s esp_api \<Rightarrow> (string \<Rightarrow> 's nvs_world \<Rightarrow> esp_err_t \<times> 's nvs_world) option \<Rightarrow>
     task87_wake_recovery_t ptr \<Rightarrow> string ptr \<Rightarrow> 's nvs_world \<Rightarrow>
     esp_err_t \<times> task87_wake_recovery_t ptr \<times> 's nvs_world" where
  "task87_wake_recovery_complete_device_recovery api rtc_flush recovery events_path w =
     (case (recovery, events_path) of
        (Some r, Some ev) \<Rightarrow>
          if \<not> manual_resume_pending r \<or> device_recovery_complete r then (ESP_ERR_INVALID_STATE, recovery, w)
          else (case (case rtc_flush of None \<Rightarrow> (ESP_OK, w) | Some f \<Rightarrow> f ev w) of (err, w) \<Rightarrow>
            if err \<noteq> ESP_OK then (err, recovery, w)
            else case shutdown_armed_mark_wake_recovery_pending api w of (err, w) \<Rightarrow>
            if err \<noteq> ESP_OK then (err, recovery, w)
            else (ESP_OK, Some (r\<lparr>device_recovery_complete := True\<rparr>), w))
      | _ \<Rightarrow> (ESP_ERR_INVALID_ARG, recovery, w))"

definition task87_wake_recovery_note_recording_started ::
    "'s esp_api \<Rightarrow> task87_wake_recovery_t ptr \<Rightarrow> bool \<Rightarrow> 's nvs_world \<Rightarrow>
     esp_err_t \<times> task87_wake_recovery_t ptr \<times> 's nvs_world" where
  "task87_wake_recovery_note_recording_started api recovery fresh_recording_id_present w =
     (case recovery of
        None \<Rightarrow> (ESP_ERR_INVALID_ARG, recovery, w)
      | Some r \<Rightarrow>
          if \<not> manual_resume_pending r then (ESP_OK, recovery, w)
          else if \<not> device_recovery_complete r \<or> \<not> fresh_recording_id_present
          then (ESP_ERR_INVALID_STATE, recovery, w)
          else (case shutdown_armed_complete_wake_recovery api w of (err, w) \<Rightarrow>
            if err \<noteq> ESP_OK then (err, recovery, w)
            else (ESP_OK, Some (r\<lparr>fresh_recording_started := True, manual_resume_pending := False\<rparr>), w)))"

fun task87_wake_recovery_requires_shutdown :: "task87_wake_recovery_t ptr \<Rightarrow> bool" where
  "task87_wake_recovery_requires_shutdown None = False"
| "task87_wake_recovery_requires_shutdown (Some r) = manual_resume_pending r"

fun task87_wake_recovery_usb_rearm_allowed :: "task87_wake_recovery_t ptr \<Rightarrow> bool" where
  "task87_wake_recovery_usb_rearm_allowed None = False"
| "task87_wake_recovery_usb_rearm_allowed (Some r) = (\<not> manual_resume_pending r)"

section \<open>Lemmas\<close>

definition armed_entry :: "('s \<Rightarrow> flash) \<Rightarrow> 's nvs_world \<Rightarrow> nvs_value option" where
  "armed_entry stored w = stored (snd w) k_namespace k_key"

lemma byte_le_3:
  assumes "\<not> 3 < (v :: u8)" shows "v = 0 \<or> v = 1 \<or> v = 2 \<or> v = 3"
proof -
  have "unat v \<le> 3" using assms by (simp add: word_less_nat_alt not_less)
  then have "unat v = 0 \<or> unat v = 1 \<or> unat v = 2 \<or> unat v = 3" by linarith
  then show ?thesis by (auto simp: word_unat_eq_iff)
qed

lemma shutdown_armed_write_stored:
  assumes nvs: "nvs_contract api stored staged" and run: "shutdown_armed_write api v w = (err, w')"
  shows "flash_or k_namespace k_key (Some (NvsU8 v)) (on_flash stored w) (on_flash stored w')"
    "err = ESP_OK \<Longrightarrow> armed_entry stored w' = Some (NvsU8 v)"
proof -
  obtain e0 n s0 where l: "recorder_nvs_lock api w = (e0, (n, s0))" by (metis prod_cases3)
  obtain e1 s1 where o1: "nvs_open_rw api k_namespace s0 = (e1, s1)" by fastforce
  obtain e2 s2 where o2: "nvs_set api k_namespace k_key (NvsU8 v) s1 = (e2, s2)" by fastforce
  obtain e3 s3 where o3: "nvs_commit api k_namespace s2 = (e3, s3)" by fastforce
  have d: "stored s0 = on_flash stored w" "stored s1 = stored s0"
    using recorder_nvs_lock_stored[OF nvs l] nvs_contract_sem(7)[OF nvs o1] by simp_all
  note set = nvs_contract_set[OF nvs o2]
  note unl = recorder_nvs_unlock_stored[OF nvs] nvs_contract_sem(8)[OF nvs]
  have c: "e1 = ESP_OK \<Longrightarrow> e2 = ESP_OK \<Longrightarrow> flash_or k_namespace k_key (Some (NvsU8 v)) (stored s2) (stored s3)"
    "e1 = ESP_OK \<Longrightarrow> e2 = ESP_OK \<Longrightarrow> e3 = ESP_OK \<Longrightarrow> stored s3 k_namespace k_key = Some (NvsU8 v)"
    using nvs_contract_commit[OF nvs o3] set(2) nvs_contract_sem(10)[OF nvs] o1 by simp_all
  have r: "(err \<noteq> ESP_OK \<and> on_flash stored w' = on_flash stored w) \<or>
      (err \<noteq> ESP_OK \<and> on_flash stored w' = stored s2) \<or>
      (e1 = ESP_OK \<and> e2 = ESP_OK \<and> err = e3 \<and> on_flash stored w' = stored s3)"
    using run l o1 o2 o3 d unl by (auto simp: shutdown_armed_write_def split: if_splits)
  show "flash_or k_namespace k_key (Some (NvsU8 v)) (on_flash stored w) (on_flash stored w')"
    using r set(1) c(1) d flash_or_trans by (metis flash_or_refl)
  show "err = ESP_OK \<Longrightarrow> armed_entry stored w' = Some (NvsU8 v)"
    using r c(2) by (auto simp: armed_entry_def)
qed

lemma shutdown_armed_read_state_stored:
  assumes nvs: "nvs_contract api stored staged" and run: "shutdown_armed_read_state api w = (err, st, w')"
  shows "on_flash stored w' = on_flash stored w"
    "err = ESP_OK \<Longrightarrow> armed_entry stored w = Some (NvsU8 (lifecycle_byte st)) \<or>
       st = SHUTDOWN_LIFECYCLE_NORMAL \<and> (\<forall>v. armed_entry stored w \<noteq> Some (NvsU8 v))"
proof -
  obtain e0 n s0 where l: "recorder_nvs_lock api w = (e0, (n, s0))" by (metis prod_cases3)
  obtain e1 s1 where o1: "nvs_open_ro api k_namespace s0 = (e1, s1)" by fastforce
  obtain e2 v s2 where o2: "nvs_get_u8 api k_namespace k_key s1 = (e2, v, s2)" by (metis prod_cases3)
  note unl = recorder_nvs_unlock_stored[OF nvs] nvs_contract_sem(8)[OF nvs]
  note g = nvs_contract_get_u8[OF nvs o2]
  have d: "stored s0 = on_flash stored w" "stored s1 = stored s0" "stored s2 = stored s1"
    using recorder_nvs_lock_stored[OF nvs l] nvs_contract_sem(6)[OF nvs o1] g(1) by simp_all
  have nf: "e1 = ESP_ERR_NVS_NOT_FOUND \<Longrightarrow> stored s0 k_namespace = (\<lambda>_. None)"
    using nvs_contract_sem(9)[OF nvs] o1 by blast
  have lb: "lifecycle_of_byte v = Some st' \<Longrightarrow> v = lifecycle_byte st'" for st'
    using byte_le_3[of v] by (auto simp: lifecycle_of_byte_def split: if_splits)
  show "on_flash stored w' = on_flash stored w"
    using run l o1 o2 d unl by (auto simp: shutdown_armed_read_state_def Let_def split: if_splits option.splits)
  show "err = ESP_OK \<Longrightarrow> armed_entry stored w = Some (NvsU8 (lifecycle_byte st)) \<or>
       st = SHUTDOWN_LIFECYCLE_NORMAL \<and> (\<forall>v. armed_entry stored w \<noteq> Some (NvsU8 v))"
    using run l o1 o2 d nf g(2,3) lb
    by (auto simp: shutdown_armed_read_state_def Let_def armed_entry_def split: if_splits option.splits)
qed

section \<open>Executions across boots\<close>

text \<open>
  What the firmware does with the durable marker over any number of boots. A boot keeps the flash and
  starts with a fresh process state; every call may fail at any point. \<open>Sync\<close> and \<open>Release\<close> are the
  two writes of the host hand-over.
\<close>

datatype life_event = Boot bool shutdown_armed_boot_action_t | Recovered | Started bool | Sync | Release

type_synonym 's life = "task87_wake_recovery_t \<times> 's nvs_world"

inductive life_step ::
    "'s esp_api \<Rightarrow> (string \<Rightarrow> 's nvs_world \<Rightarrow> esp_err_t \<times> 's nvs_world) option \<Rightarrow> ('s \<Rightarrow> flash) \<Rightarrow>
     's life \<Rightarrow> life_event \<Rightarrow> 's life \<Rightarrow> bool"
  for api rtc_flush stored where
  boot: "on_flash stored w1 = on_flash stored w \<Longrightarrow>
     shutdown_armed_boot_action api manual w1 = (err, act, w2) \<Longrightarrow>
     task87_wake_recovery_init (Some r) (act = SHUTDOWN_ARMED_BOOT_MANUAL_RESUME) = Some r' \<Longrightarrow>
     life_step api rtc_flush stored (r, w) (Boot manual act) (r', w2)"
| recovered: "task87_wake_recovery_complete_device_recovery api rtc_flush (Some r) (Some ev) w = (err, Some r', w') \<Longrightarrow>
     life_step api rtc_flush stored (r, w) Recovered (r', w')"
| started: "task87_wake_recovery_note_recording_started api (Some r) fresh w = (err, Some r', w') \<Longrightarrow>
     life_step api rtc_flush stored (r, w) (Started fresh) (r', w')"
| sync: "shutdown_armed_mark_host_unresolved api w = (err, w') \<Longrightarrow>
     life_step api rtc_flush stored (r, w) Sync (r, w')"
| release: "shutdown_armed_commit api w = (err, w') \<Longrightarrow>
     life_step api rtc_flush stored (r, w) Release (r, w')"

inductive life_run ::
    "'s esp_api \<Rightarrow> (string \<Rightarrow> 's nvs_world \<Rightarrow> esp_err_t \<times> 's nvs_world) option \<Rightarrow> ('s \<Rightarrow> flash) \<Rightarrow>
     's life \<Rightarrow> life_event list \<Rightarrow> 's life \<Rightarrow> bool"
  for api rtc_flush stored where
  none: "life_run api rtc_flush stored l [] l"
| more: "life_run api rtc_flush stored l es l' \<Longrightarrow> life_step api rtc_flush stored l' e l'' \<Longrightarrow>
     life_run api rtc_flush stored l (es @ [e]) l''"

text \<open>The RTC hook works on its own entry.\<close>

definition hook_leaves_marker ::
    "(string \<Rightarrow> 's nvs_world \<Rightarrow> esp_err_t \<times> 's nvs_world) option \<Rightarrow> ('s \<Rightarrow> flash) \<Rightarrow> bool" where
  "hook_leaves_marker rtc_flush stored \<longleftrightarrow>
     (\<forall>f ev w. rtc_flush = Some f \<longrightarrow> armed_entry stored (snd (f ev w)) = armed_entry stored w)"

lemma armed_entry_write:
  assumes "nvs_contract api stored staged" "shutdown_armed_write api v w = (err, w')"
  shows "armed_entry stored w' = armed_entry stored w \<or> armed_entry stored w' = Some (NvsU8 v)"
  using shutdown_armed_write_stored(1)[OF assms] by (auto simp: flash_or_def armed_entry_def)

lemma armed_entry_read:
  assumes "nvs_contract api stored staged" "shutdown_armed_read_state api w = (err, st, w')"
  shows "armed_entry stored w' = armed_entry stored w"
  using shutdown_armed_read_state_stored(1)[OF assms] by (simp add: armed_entry_def)

lemma mark_pending_cases:
  assumes "nvs_contract api stored staged" "shutdown_armed_mark_wake_recovery_pending api w = (err, w')"
  shows "armed_entry stored w' = armed_entry stored w \<or>
    armed_entry stored w = Some (NvsU8 1) \<and> armed_entry stored w' = Some (NvsU8 3)"
proof -
  obtain e st w1 where r: "shutdown_armed_read_state api w = (e, st, w1)" by (metis prod_cases3)
  note s = armed_entry_read[OF assms(1) r] shutdown_armed_read_state_stored(2)[OF assms(1) r]
  show ?thesis
    using assms(2) r s armed_entry_write[OF assms(1), of 3 w1 err w']
    by (auto simp: shutdown_armed_mark_wake_recovery_pending_def split: if_splits)
qed

lemma complete_wake_cases:
  assumes "nvs_contract api stored staged" "shutdown_armed_complete_wake_recovery api w = (err, w')"
  shows "armed_entry stored w' = armed_entry stored w \<or>
    armed_entry stored w = Some (NvsU8 3) \<and> armed_entry stored w' = Some (NvsU8 0)"
proof -
  obtain e st w1 where r: "shutdown_armed_read_state api w = (e, st, w1)" by (metis prod_cases3)
  note s = armed_entry_read[OF assms(1) r] shutdown_armed_read_state_stored(2)[OF assms(1) r]
  show ?thesis
    using assms(2) r s armed_entry_write[OF assms(1), of 0 w1 err w']
    by (auto simp: shutdown_armed_complete_wake_recovery_def split: if_splits)
qed

lemma boot_action_cases:
  assumes "nvs_contract api stored staged" "shutdown_armed_boot_action api manual w = (err, act, w')"
  shows "armed_entry stored w' = armed_entry stored w"
    "act = SHUTDOWN_ARMED_BOOT_MANUAL_RESUME \<Longrightarrow> manual \<and> err = ESP_OK \<and>
       armed_entry stored w \<in> {Some (NvsU8 1), Some (NvsU8 3)}"
    "act = SHUTDOWN_ARMED_BOOT_NORMAL \<Longrightarrow> err = ESP_OK \<and>
       (armed_entry stored w = Some (NvsU8 0) \<or> (\<forall>v. armed_entry stored w \<noteq> Some (NvsU8 v)))"
proof -
  obtain e st w1 where r: "shutdown_armed_read_state api w = (e, st, w1)" by (metis prod_cases3)
  note s = armed_entry_read[OF assms(1) r] shutdown_armed_read_state_stored(2)[OF assms(1) r]
  show "armed_entry stored w' = armed_entry stored w"
    "act = SHUTDOWN_ARMED_BOOT_MANUAL_RESUME \<Longrightarrow> manual \<and> err = ESP_OK \<and>
       armed_entry stored w \<in> {Some (NvsU8 1), Some (NvsU8 3)}"
    "act = SHUTDOWN_ARMED_BOOT_NORMAL \<Longrightarrow> err = ESP_OK \<and>
       (armed_entry stored w = Some (NvsU8 0) \<or> (\<forall>v. armed_entry stored w \<noteq> Some (NvsU8 v)))"
    using assms(2) r s by (auto simp: shutdown_armed_boot_action_def split: if_splits)
qed

text \<open>One step, seen at the marker and at the proof of the current boot.\<close>

definition locked_values :: "nvs_value option set" where
  "locked_values = {Some (NvsU8 1), Some (NvsU8 2), Some (NvsU8 3)}"

lemma device_recovery_cases:
  assumes nvs: "nvs_contract api stored staged" and hook: "hook_leaves_marker rtc_flush stored"
    and run: "task87_wake_recovery_complete_device_recovery api rtc_flush (Some r) (Some ev) w = (err, Some r', w')"
  shows "armed_entry stored w' = armed_entry stored w \<or>
      armed_entry stored w = Some (NvsU8 1) \<and> armed_entry stored w' = Some (NvsU8 3)"
    "r' = r \<or> (manual_resume_pending r \<and> r' = r\<lparr>device_recovery_complete := True\<rparr>)"
proof -
  obtain e1 w1 where h: "(case rtc_flush of None \<Rightarrow> (ESP_OK, w) | Some f \<Rightarrow> f ev w) = (e1, w1)" by (metis prod.exhaust)
  have h1: "armed_entry stored w1 = armed_entry stored w"
  proof (cases rtc_flush)
    case (Some f)
    then have "snd (f ev w) = w1" using h by simp
    then show ?thesis using hook Some unfolding hook_leaves_marker_def by blast
  qed (use h in simp)
  obtain e2 w2 where m: "shutdown_armed_mark_wake_recovery_pending api w1 = (e2, w2)" by (metis prod.exhaust)
  have r: "w' = w \<and> r' = r \<or> w' = w1 \<and> r' = r \<or> w' = w2 \<and> (r' = r \<or> manual_resume_pending r \<and> r' = r\<lparr>device_recovery_complete := True\<rparr>)"
    using run h m by (auto simp: task87_wake_recovery_complete_device_recovery_def split: if_splits)
  show "armed_entry stored w' = armed_entry stored w \<or>
      armed_entry stored w = Some (NvsU8 1) \<and> armed_entry stored w' = Some (NvsU8 3)"
    using r h1 mark_pending_cases[OF nvs m] by auto
  show "r' = r \<or> (manual_resume_pending r \<and> r' = r\<lparr>device_recovery_complete := True\<rparr>)"
    using r by blast
qed

lemma recording_started_cases:
  assumes nvs: "nvs_contract api stored staged"
    and run: "task87_wake_recovery_note_recording_started api (Some r) fresh w = (err, Some r', w')"
  shows "armed_entry stored w' = armed_entry stored w \<or>
      armed_entry stored w = Some (NvsU8 3) \<and> armed_entry stored w' = Some (NvsU8 0)"
    "r' = r \<or> \<not> manual_resume_pending r'"
    "\<not> (manual_resume_pending r \<and> device_recovery_complete r \<and> fresh) \<Longrightarrow> r' = r \<and> w' = w"
proof -
  obtain e2 w2 where m: "shutdown_armed_complete_wake_recovery api w = (e2, w2)" by (metis prod.exhaust)
  show "armed_entry stored w' = armed_entry stored w \<or>
      armed_entry stored w = Some (NvsU8 3) \<and> armed_entry stored w' = Some (NvsU8 0)"
    "r' = r \<or> \<not> manual_resume_pending r'"
    "\<not> (manual_resume_pending r \<and> device_recovery_complete r \<and> fresh) \<Longrightarrow> r' = r \<and> w' = w"
    using run m complete_wake_cases[OF nvs m]
    by (auto simp: task87_wake_recovery_note_recording_started_def split: if_splits)
qed

lemma life_step_cases:
  assumes nvs: "nvs_contract api stored staged" and hook: "hook_leaves_marker rtc_flush stored"
    and step: "life_step api rtc_flush stored (r, w) e (r', w')"
  obtains (kept) "armed_entry stored w' = armed_entry stored w" "e \<noteq> Recovered" "\<And>m a. e \<noteq> Boot m a" "r' = r"
  | (booted) m a where "e = Boot m a" "armed_entry stored w' = armed_entry stored w"
      "manual_resume_pending r' \<longrightarrow> m \<and> a = SHUTDOWN_ARMED_BOOT_MANUAL_RESUME" "\<not> device_recovery_complete r'"
  | (gated) "e = Recovered" "armed_entry stored w' = armed_entry stored w \<or>
        armed_entry stored w = Some (NvsU8 1) \<and> armed_entry stored w' = Some (NvsU8 3)"
      "r' = r \<or> (manual_resume_pending r \<and> r' = r\<lparr>device_recovery_complete := True\<rparr>)"
  | (proved) "e = Started True" "manual_resume_pending r" "device_recovery_complete r"
      "armed_entry stored w' = armed_entry stored w \<or>
        armed_entry stored w = Some (NvsU8 3) \<and> armed_entry stored w' = Some (NvsU8 0)"
      "r' = r \<or> \<not> manual_resume_pending r'"
  | (written) "e \<in> {Sync, Release}" "r' = r"
      "armed_entry stored w' = Some (NvsU8 (if e = Sync then 2 else 1))"
  using step
proof cases
  case (boot w1 manual err act)
  have "armed_entry stored w1 = armed_entry stored w" using boot(2) by (simp add: armed_entry_def)
  with boot boot_action_cases[OF nvs boot(3)] show ?thesis by (intro booted) auto
next
  case (recovered ev err)
  then show ?thesis using device_recovery_cases[OF nvs hook] by (intro gated) blast+
next
  case (started fresh err)
  show ?thesis
  proof (cases "manual_resume_pending r \<and> device_recovery_complete r \<and> fresh")
    case True
    then show ?thesis using started recording_started_cases[OF nvs started(2)] by (intro proved) blast+
  next
    case False
    then show ?thesis using started recording_started_cases[OF nvs started(2)] by (intro kept) auto
  qed
next
  case (sync err)
  then have "armed_entry stored w' = armed_entry stored w \<or> armed_entry stored w' = Some (NvsU8 2)"
    using armed_entry_write[OF nvs, of 2 w err w'] by (simp add: shutdown_armed_mark_host_unresolved_def)
  then show ?thesis
  proof
    assume "armed_entry stored w' = armed_entry stored w" then show ?thesis using sync by (intro kept) auto
  next
    assume "armed_entry stored w' = Some (NvsU8 2)" then show ?thesis using sync by (intro written) auto
  qed
next
  case (release err)
  then have "armed_entry stored w' = armed_entry stored w \<or> armed_entry stored w' = Some (NvsU8 1)"
    using armed_entry_write[OF nvs, of 1 w err w'] by (simp add: shutdown_armed_commit_def)
  then show ?thesis
  proof
    assume "armed_entry stored w' = armed_entry stored w" then show ?thesis using release by (intro kept) auto
  next
    assume "armed_entry stored w' = Some (NvsU8 1)" then show ?thesis using release by (intro written) auto
  qed
qed

text \<open>The evidence for normal operation that a run has to contain.\<close>

definition no_boot :: "life_event list \<Rightarrow> bool" where
  "no_boot es \<longleftrightarrow> (\<forall>m a. Boot m a \<notin> set es)"

definition woken :: "life_event list \<Rightarrow> bool" where
  "woken es \<longleftrightarrow> (\<exists>es1 es2. es = es1 @ [Boot True SHUTDOWN_ARMED_BOOT_MANUAL_RESUME] @ es2 \<and> no_boot es2)"

definition recovered_after_wake :: "life_event list \<Rightarrow> bool" where
  "recovered_after_wake es \<longleftrightarrow> (\<exists>es1 es2. es = es1 @ [Recovered] @ es2 \<and> woken es1 \<and> no_boot es2)"

definition wake_proof :: "life_event list \<Rightarrow> bool" where
  "wake_proof es \<longleftrightarrow> (\<exists>es1 es2. es = es1 @ [Started True] @ es2 \<and> recovered_after_wake es1)"

lemma no_boot_snoc: "no_boot es \<Longrightarrow> (\<And>m a. e \<noteq> Boot m a) \<Longrightarrow> no_boot (es @ [e])"
  by (auto simp: no_boot_def)

lemma woken_snoc:
  assumes "woken es" "\<And>m a. e \<noteq> Boot m a" shows "woken (es @ [e])"
proof -
  obtain es1 es2 where "es = es1 @ [Boot True SHUTDOWN_ARMED_BOOT_MANUAL_RESUME] @ es2" "no_boot es2"
    using assms(1) unfolding woken_def by blast
  then have "es @ [e] = es1 @ [Boot True SHUTDOWN_ARMED_BOOT_MANUAL_RESUME] @ (es2 @ [e])" "no_boot (es2 @ [e])"
    using no_boot_snoc[OF _ assms(2)] by simp_all
  then show ?thesis unfolding woken_def by blast
qed

lemma recovered_snoc:
  assumes "recovered_after_wake es" "\<And>m a. e \<noteq> Boot m a" shows "recovered_after_wake (es @ [e])"
proof -
  obtain es1 es2 where "es = es1 @ [Recovered] @ es2" "woken es1" "no_boot es2"
    using assms(1) unfolding recovered_after_wake_def by blast
  then have "es @ [e] = es1 @ [Recovered] @ (es2 @ [e])" "woken es1" "no_boot (es2 @ [e])"
    using no_boot_snoc[OF _ assms(2)] by simp_all
  then show ?thesis unfolding recovered_after_wake_def by blast
qed

lemma recovered_now: "woken es \<Longrightarrow> recovered_after_wake (es @ [Recovered])"
  unfolding recovered_after_wake_def by (rule exI[of _ es], rule exI[of _ "[]"]) (simp add: no_boot_def)

lemma proof_snoc: "wake_proof es \<Longrightarrow> wake_proof (es @ [e])"
  unfolding wake_proof_def by fastforce

lemma proof_now: "recovered_after_wake es \<Longrightarrow> wake_proof (es @ [Started True])"
  unfolding wake_proof_def by fastforce

lemma woken_now: "woken (es @ [Boot True SHUTDOWN_ARMED_BOOT_MANUAL_RESUME])"
  unfolding woken_def by (rule exI[of _ es], rule exI[of _ "[]"]) (simp add: no_boot_def)

lemma life_run_invariant:
  assumes nvs: "nvs_contract api stored staged" and hook: "hook_leaves_marker rtc_flush stored"
    and run: "life_run api rtc_flush stored (r, w) es (r', w')"
    and lock: "armed_entry stored w \<in> locked_values" "\<not> manual_resume_pending r"
  shows "(armed_entry stored w' \<in> locked_values \<or> armed_entry stored w' = Some (NvsU8 0) \<and> wake_proof es) \<and>
    (manual_resume_pending r' \<longrightarrow> woken es) \<and>
    (manual_resume_pending r' \<and> device_recovery_complete r' \<longrightarrow> recovered_after_wake es)"
  using run lock
proof (induction "(r, w)" es "(r', w')" arbitrary: r' w' rule: life_run.induct)
  case none
  then show ?case by simp
next
  case (more es l' e)
  obtain r1 w1 where l: "l' = (r1, w1)" by (metis prod.exhaust)
  note IH = more(2)[OF l more.prems]
  note step = more(3)[unfolded l]
  from nvs hook step show ?case
  proof (cases rule: life_step_cases)
    case kept
    then show ?thesis using IH woken_snoc recovered_snoc proof_snoc by metis
  next
    case (booted m a)
    then show ?thesis using IH woken_now[of es] proof_snoc by auto
  next
    case gated
    then have nb: "\<And>m a. e \<noteq> Boot m a" by simp
    have "manual_resume_pending r' \<longrightarrow> woken (es @ [e])"
      using gated(3) IH woken_snoc[OF _ nb] by auto
    moreover have "manual_resume_pending r' \<and> device_recovery_complete r' \<longrightarrow> recovered_after_wake (es @ [e])"
      using gated(1,3) IH recovered_now by auto
    ultimately show ?thesis using gated(2) IH proof_snoc by (auto simp: locked_values_def)
  next
    case proved
    then have nb: "\<And>m a. e \<noteq> Boot m a" by simp
    have "wake_proof (es @ [e])" using proved(1-3) IH proof_now by auto
    then show ?thesis using proved(4,5) IH woken_snoc[OF _ nb] recovered_snoc[OF _ nb] by auto
  next
    case written
    then have nb: "\<And>m a. e \<noteq> Boot m a" by auto
    show ?thesis using written(2,3) IH woken_snoc[OF _ nb] recovered_snoc[OF _ nb]
      by (auto simp: locked_values_def)
  qed
qed

lemma unresolved_stays:
  assumes nvs: "nvs_contract api stored staged" and hook: "hook_leaves_marker rtc_flush stored"
    and run: "life_run api rtc_flush stored (r, w) es (r', w')"
    and "armed_entry stored w = Some (NvsU8 2)" "Release \<notin> set es"
  shows "armed_entry stored w' = Some (NvsU8 2)"
  using run assms(4,5)
proof (induction "(r, w)" es "(r', w')" arbitrary: r' w' rule: life_run.induct)
  case (more es l' e)
  obtain r1 w1 where l: "l' = (r1, w1)" by (metis prod.exhaust)
  have "armed_entry stored w1 = Some (NvsU8 2)" using more(2)[OF l] more.prems by simp
  with nvs hook more(3)[unfolded l] show ?case
    by (cases rule: life_step_cases) (use more.prems in auto)
qed simp

section \<open>Properties\<close>


text \<open>
  C25: Classifying a boot fails closed: normal operation only when the marker is normal or absent, manual
  resume only with the wake button held on an armed or recovery-pending marker, and every read failure
  or unknown value keeps the device shut down. Nothing durable changes.
\<close>

theorem boot_action_fails_closed:
  assumes "nvs_contract api stored staged"
    and "shutdown_armed_boot_action api manual w = (err, act, w')"
  shows "on_flash stored w' = on_flash stored w \<and>
    (err \<noteq> ESP_OK \<longrightarrow> act = SHUTDOWN_ARMED_BOOT_STAY_SHUTDOWN) \<and>
    (act = SHUTDOWN_ARMED_BOOT_NORMAL \<longrightarrow>
       armed_entry stored w = Some (NvsU8 0) \<or> (\<forall>v. armed_entry stored w \<noteq> Some (NvsU8 v))) \<and>
    (act = SHUTDOWN_ARMED_BOOT_MANUAL_RESUME \<longrightarrow>
       manual \<and> armed_entry stored w \<in> {Some (NvsU8 1), Some (NvsU8 3)})"
proof -
  obtain e st w1 where r: "shutdown_armed_read_state api w = (e, st, w1)" by (metis prod_cases3)
  have "on_flash stored w' = on_flash stored w" "err \<noteq> ESP_OK \<longrightarrow> act = SHUTDOWN_ARMED_BOOT_STAY_SHUTDOWN"
    using assms(2) r shutdown_armed_read_state_stored(1)[OF assms(1) r]
    by (auto simp: shutdown_armed_boot_action_def split: if_splits)
  then show ?thesis using boot_action_cases(2,3)[OF assms] by blast
qed

text \<open>A run from armed to normal on a flash without faults.\<close>

definition marker_world :: "u8 \<Rightarrow> mem_nvs nvs_world" where
  "marker_world v = (\<lparr>s_nvs_lock = True, s_nvs_initialized = True\<rparr>,
     (flash_put k_namespace k_key (Some (NvsU8 v)) (\<lambda>_ _. None), []))"

definition no_wake :: task87_wake_recovery_t where
  "no_wake = \<lparr>manual_resume_pending = False, device_recovery_complete = False, fresh_recording_started = False\<rparr>"

lemmas marker_eval = marker_world_def no_wake_def mem_api_def mem_commit_def recorder_nvs_lock_def recorder_nvs_init_def
  recorder_nvs_unlock_def shutdown_armed_read_state_def shutdown_armed_write_def lifecycle_of_byte_def
  armed_entry_def flash_puts_def

lemma armed_to_normal:
  "\<exists>r' w'. life_run mem_api None fst (no_wake, marker_world 1)
     [Boot True SHUTDOWN_ARMED_BOOT_MANUAL_RESUME, Recovered, Started True] (r', w') \<and>
     armed_entry fst w' = Some (NvsU8 0)"
proof -
  let ?r = "\<lambda>a b c. \<lparr>manual_resume_pending = a, device_recovery_complete = b, fresh_recording_started = c\<rparr>"
  let ?st = "\<lambda>v. (\<lparr>s_nvs_lock = True, s_nvs_initialized = True\<rparr>,
     (flash_put k_namespace k_key (Some (NvsU8 v)) (\<lambda>_ _. None), [] :: nvs_update list))"
  have 0: "life_step mem_api None fst (no_wake, marker_world 1) (Boot True SHUTDOWN_ARMED_BOOT_MANUAL_RESUME)
      (?r True False False, ?st 1)"
    by (rule boot[of fst "marker_world 1" "marker_world 1" mem_api True ESP_OK])
      (simp_all add: shutdown_armed_boot_action_def marker_eval Let_def)
  have 1: "life_step mem_api None fst (?r True False False, ?st 1) Recovered (?r True True False, ?st 3)"
    by (rule recovered[of mem_api None _ "[]" _ ESP_OK])
      (simp add: task87_wake_recovery_complete_device_recovery_def shutdown_armed_mark_wake_recovery_pending_def
        marker_eval Let_def)
  have 2: "life_step mem_api None fst (?r True True False, ?st 3) (Started True) (?r False True True, ?st 0)"
    by (rule started[of mem_api _ True _ ESP_OK])
      (simp add: task87_wake_recovery_note_recording_started_def shutdown_armed_complete_wake_recovery_def
        marker_eval Let_def)
  have "life_run mem_api None fst (no_wake, marker_world 1)
     ((([] @ [Boot True SHUTDOWN_ARMED_BOOT_MANUAL_RESUME]) @ [Recovered]) @ [Started True]) (?r False True True, ?st 0)"
    by (rule more[OF more[OF more[OF none 0] 1] 2])
  moreover have "armed_entry fst (?st 0) = Some (NvsU8 0)" by (simp add: armed_entry_def)
  ultimately show ?thesis by (metis append.simps)
qed


theorem boot_action_fails_closed_witness:
  "shutdown_armed_boot_action mem_api False (marker_world 2) =
     (ESP_OK, SHUTDOWN_ARMED_BOOT_STAY_SHUTDOWN, marker_world 2) \<and>
   on_flash fst (marker_world 2) = on_flash fst (marker_world 2)"
proof -
  have r: "shutdown_armed_boot_action mem_api False (marker_world 2) =
     (ESP_OK, SHUTDOWN_ARMED_BOOT_STAY_SHUTDOWN, marker_world 2)"
    by (simp add: shutdown_armed_boot_action_def marker_eval Let_def)
  with boot_action_fails_closed[OF mem_api_contract r] show ?thesis by blast
qed

end
