(* ===== verification/Usb_Cdc_Session_Gate.thy ===== *)
theory Usb_Cdc_Session_Gate
  imports Recorder_Config
begin

text \<open>
  The gate between the USB CDC callbacks, the command worker and the lifecycle,
  \<open>firmware/components/recorder/usb_cdc_session_gate.c\<close>.

  The functions are modelled as they run without interference: a compare-and-exchange loop then
  succeeds on its first comparison that can succeed. The race that the gate exists for, commands
  entering while a reset tears the session down, is modelled separately as an interleaving of single
  atomic operations (section \<open>The reset barrier\<close>).
\<close>

section \<open>Model\<close>

datatype usb_cdc_session_gate_phase_t = USB_CDC_SESSION_GATE_CLOSED | USB_CDC_SESSION_GATE_OPEN
  | USB_CDC_SESSION_GATE_RESETTING

record usb_cdc_session_snapshot_t =
  snap_generation :: u32
  snap_admitted :: bool

record usb_cdc_session_gate_t =
  generation :: u32
  active_commands :: u32
  phase :: usb_cdc_session_gate_phase_t
  rx_state :: u32
  rx_discard_epoch :: u32
  rx_drained_epoch :: u32

definition RX_STATE_OPEN :: u32 where "RX_STATE_OPEN = push_bit 31 1"
definition RX_STATE_DIRTY :: u32 where "RX_STATE_DIRTY = push_bit 30 1"
definition RX_STATE_OPENING :: u32 where "RX_STATE_OPENING = push_bit 29 1"
definition RX_STATE_COUNT_MASK :: u32 where "RX_STATE_COUNT_MASK = RX_STATE_OPENING - 1"

definition gate_has_pending_rx_discard :: "usb_cdc_session_gate_t \<Rightarrow> bool" where
  "gate_has_pending_rx_discard gate \<longleftrightarrow> rx_discard_epoch gate \<noteq> rx_drained_epoch gate"

definition gate_rx_admission_is_open :: "usb_cdc_session_gate_t \<Rightarrow> bool" where
  "gate_rx_admission_is_open gate \<longleftrightarrow> rx_state gate = RX_STATE_OPEN"

definition gate_try_clear_rx_dirty :: "usb_cdc_session_gate_t \<Rightarrow> usb_cdc_session_gate_t" where
  "gate_try_clear_rx_dirty gate =
     (let state = rx_state gate in
      if state AND (RX_STATE_OPEN OR RX_STATE_OPENING) \<noteq> 0 \<or> state AND RX_STATE_DIRTY = 0 \<or>
         state AND RX_STATE_COUNT_MASK \<noteq> 0 \<or> gate_has_pending_rx_discard gate
      then gate
      else gate\<lparr>rx_state := state AND NOT RX_STATE_DIRTY\<rparr>)"

definition gate_cancel_rx_opening :: "usb_cdc_session_gate_t \<Rightarrow> usb_cdc_session_gate_t" where
  "gate_cancel_rx_opening gate =
     (let state = rx_state gate in
      if state AND RX_STATE_OPENING = 0 then gate
      else gate_try_clear_rx_dirty (gate\<lparr>rx_state := state AND NOT RX_STATE_OPENING\<rparr>))"

definition gate_mark_rx_boundary_stale :: "usb_cdc_session_gate_t \<Rightarrow> usb_cdc_session_gate_t" where
  "gate_mark_rx_boundary_stale gate =
     (let count = rx_state gate AND RX_STATE_COUNT_MASK;
          desired = (if count = RX_STATE_COUNT_MASK then count OR RX_STATE_DIRTY
                     else (count + 1) OR RX_STATE_DIRTY);
          gate = gate\<lparr>rx_state := desired\<rparr>;
          gate = gate\<lparr>rx_discard_epoch := rx_discard_epoch gate + 1\<rparr>;
          gate = (if count \<noteq> RX_STATE_COUNT_MASK then gate\<lparr>rx_state := rx_state gate - 1\<rparr> else gate)
      in gate_try_clear_rx_dirty gate)"

definition gate_close_rx_admission :: "usb_cdc_session_gate_t \<Rightarrow> usb_cdc_session_gate_t" where
  "gate_close_rx_admission gate =
     (let state = rx_state gate in
      if state AND (RX_STATE_OPEN OR RX_STATE_OPENING) = 0 then gate
      else gate_try_clear_rx_dirty (gate\<lparr>rx_state := state AND NOT (RX_STATE_OPEN OR RX_STATE_OPENING)\<rparr>))"

fun usb_cdc_session_gate_init :: "usb_cdc_session_gate_t ptr \<Rightarrow> usb_cdc_session_gate_t ptr" where
  "usb_cdc_session_gate_init None = None"
| "usb_cdc_session_gate_init (Some gate) =
     Some (gate\<lparr>generation := 1, active_commands := 0, phase := USB_CDC_SESSION_GATE_CLOSED, rx_state := 0,
               rx_discard_epoch := 0, rx_drained_epoch := 0\<rparr>)"

fun usb_cdc_session_gate_generation :: "usb_cdc_session_gate_t ptr \<Rightarrow> u32" where
  "usb_cdc_session_gate_generation None = 0"
| "usb_cdc_session_gate_generation (Some gate) = generation gate"

fun usb_cdc_session_gate_is_open :: "usb_cdc_session_gate_t ptr \<Rightarrow> bool" where
  "usb_cdc_session_gate_is_open None = False"
| "usb_cdc_session_gate_is_open (Some gate) =
     (phase gate = USB_CDC_SESSION_GATE_OPEN \<and> gate_rx_admission_is_open gate \<and> \<not> gate_has_pending_rx_discard gate)"

text \<open>
  Opening. The phase is read again after each exchange in the source; without interference it has the
  value just written, so the last two checks pass.
\<close>

fun usb_cdc_session_gate_open :: "usb_cdc_session_gate_t ptr \<Rightarrow> bool \<times> usb_cdc_session_gate_t ptr" where
  "usb_cdc_session_gate_open None = (False, None)"
| "usb_cdc_session_gate_open (Some gate) =
     (if phase gate = USB_CDC_SESSION_GATE_RESETTING then (False, Some gate)
      else if phase gate = USB_CDC_SESSION_GATE_OPEN \<and> gate_rx_admission_is_open gate
      then (\<not> gate_has_pending_rx_discard gate, Some gate)
      else if rx_state gate \<noteq> 0 then (False, Some gate)
      else let gate = gate\<lparr>rx_state := RX_STATE_OPENING\<rparr>;
               gate = (if phase gate = USB_CDC_SESSION_GATE_CLOSED
                       then gate\<lparr>phase := USB_CDC_SESSION_GATE_OPEN\<rparr> else gate)
      in if phase gate \<noteq> USB_CDC_SESSION_GATE_OPEN then (False, Some (gate_cancel_rx_opening gate))
      else if rx_state gate \<noteq> RX_STATE_OPENING then (False, Some (gate_cancel_rx_opening gate))
      else let gate = gate\<lparr>rx_state := RX_STATE_OPEN\<rparr>
      in if phase gate \<noteq> USB_CDC_SESSION_GATE_OPEN then (False, Some (gate_mark_rx_boundary_stale gate))
      else (True, Some gate))"

fun usb_cdc_session_gate_close :: "usb_cdc_session_gate_t ptr \<Rightarrow> usb_cdc_session_gate_t ptr" where
  "usb_cdc_session_gate_close None = None"
| "usb_cdc_session_gate_close (Some gate) =
     (if phase gate = USB_CDC_SESSION_GATE_OPEN
      then let gate = gate\<lparr>phase := USB_CDC_SESSION_GATE_CLOSED\<rparr>;
               gate = gate\<lparr>generation := generation gate + 1\<rparr>
           in Some (gate_mark_rx_boundary_stale gate)
      else Some gate)"

fun usb_cdc_session_gate_snapshot :: "usb_cdc_session_gate_t ptr \<Rightarrow> usb_cdc_session_snapshot_t" where
  "usb_cdc_session_gate_snapshot None = \<lparr>snap_generation = 0, snap_admitted = False\<rparr>"
| "usb_cdc_session_gate_snapshot (Some gate) =
     (let admitted = (phase gate = USB_CDC_SESSION_GATE_OPEN \<and> gate_rx_admission_is_open gate \<and>
                      \<not> gate_has_pending_rx_discard gate);
          stale = (phase gate \<noteq> USB_CDC_SESSION_GATE_OPEN \<or> generation gate \<noteq> generation gate \<or>
                   \<not> gate_rx_admission_is_open gate \<or> gate_has_pending_rx_discard gate)
      in \<lparr>snap_generation = generation gate, snap_admitted = (if admitted \<and> stale then False else admitted)\<rparr>)"

fun usb_cdc_session_gate_snapshot_is_current ::
    "usb_cdc_session_gate_t ptr \<Rightarrow> usb_cdc_session_snapshot_t \<Rightarrow> bool" where
  "usb_cdc_session_gate_snapshot_is_current None snapshot = False"
| "usb_cdc_session_gate_snapshot_is_current (Some gate) snapshot =
     (snap_admitted snapshot \<and> phase gate = USB_CDC_SESSION_GATE_OPEN \<and>
      generation gate = snap_generation snapshot \<and> gate_rx_admission_is_open gate \<and>
      \<not> gate_has_pending_rx_discard gate)"

fun usb_cdc_session_gate_note_rx :: "usb_cdc_session_gate_t ptr \<Rightarrow> usb_cdc_session_gate_t ptr" where
  "usb_cdc_session_gate_note_rx None = None"
| "usb_cdc_session_gate_note_rx (Some gate) =
     (let state = rx_state gate in
      if state = RX_STATE_OPEN then Some gate
      else if state AND RX_STATE_COUNT_MASK = RX_STATE_COUNT_MASK
      then Some (gate\<lparr>rx_discard_epoch := rx_discard_epoch gate + 1, rx_state := state OR RX_STATE_DIRTY\<rparr>)
      else let gate = gate\<lparr>rx_state := state + 1\<rparr>;
               gate = gate\<lparr>rx_discard_epoch := rx_discard_epoch gate + 1\<rparr>;
               gate = gate\<lparr>rx_state := rx_state gate OR RX_STATE_DIRTY\<rparr>
           in Some (gate\<lparr>rx_state := rx_state gate - 1\<rparr>))"

fun usb_cdc_session_gate_rx_discard_epoch :: "usb_cdc_session_gate_t ptr \<Rightarrow> u32" where
  "usb_cdc_session_gate_rx_discard_epoch None = 0"
| "usb_cdc_session_gate_rx_discard_epoch (Some gate) = rx_discard_epoch gate"

fun usb_cdc_session_gate_should_discard_rx :: "usb_cdc_session_gate_t ptr \<Rightarrow> bool" where
  "usb_cdc_session_gate_should_discard_rx None = True"
| "usb_cdc_session_gate_should_discard_rx (Some gate) = gate_has_pending_rx_discard gate"

fun usb_cdc_session_gate_mark_rx_drained ::
    "usb_cdc_session_gate_t ptr \<Rightarrow> u32 \<Rightarrow> usb_cdc_session_gate_t ptr" where
  "usb_cdc_session_gate_mark_rx_drained None observed_epoch = None"
| "usb_cdc_session_gate_mark_rx_drained (Some gate) observed_epoch =
     Some (gate_try_clear_rx_dirty
       (if rx_drained_epoch gate < observed_epoch then gate\<lparr>rx_drained_epoch := observed_epoch\<rparr> else gate))"

text \<open>The condition that \<open>command_begin\<close> reads twice.\<close>

definition gate_admits :: "usb_cdc_session_gate_t \<Rightarrow> u32 \<Rightarrow> bool" where
  "gate_admits gate frame_generation \<longleftrightarrow>
     phase gate = USB_CDC_SESSION_GATE_OPEN \<and> generation gate = frame_generation \<and>
     gate_rx_admission_is_open gate \<and> \<not> gate_has_pending_rx_discard gate"

fun usb_cdc_session_gate_command_begin ::
    "usb_cdc_session_gate_t ptr \<Rightarrow> u32 \<Rightarrow> bool \<times> usb_cdc_session_gate_t ptr" where
  "usb_cdc_session_gate_command_begin None frame_generation = (False, None)"
| "usb_cdc_session_gate_command_begin (Some gate) frame_generation =
     (if \<not> gate_admits gate frame_generation then (False, Some gate)
      else let gate = gate\<lparr>active_commands := active_commands gate + 1\<rparr>
      in if \<not> gate_admits gate frame_generation
         then (False, Some (gate\<lparr>active_commands := active_commands gate - 1\<rparr>))
         else (True, Some gate))"

fun usb_cdc_session_gate_command_end :: "usb_cdc_session_gate_t ptr \<Rightarrow> usb_cdc_session_gate_t ptr" where
  "usb_cdc_session_gate_command_end None = None"
| "usb_cdc_session_gate_command_end (Some gate) = Some (gate\<lparr>active_commands := active_commands gate - 1\<rparr>)"

text \<open>
  The wait of \<open>reset\<close> ends when no command is active; \<open>wait_fn\<close> is what the other tasks do to the gate
  during one wait (the identity when it is \<open>NULL\<close>). \<open>None\<close>: the reset never returns.
\<close>

partial_function (option) reset_wait ::
    "(usb_cdc_session_gate_t \<Rightarrow> usb_cdc_session_gate_t) \<Rightarrow> usb_cdc_session_gate_t \<Rightarrow> usb_cdc_session_gate_t option" where
  "reset_wait wait_fn gate =
     (if active_commands gate \<noteq> 0 then reset_wait wait_fn (wait_fn gate) else Some gate)"

fun usb_cdc_session_gate_reset ::
    "usb_cdc_session_gate_t ptr \<Rightarrow> (usb_cdc_session_gate_t \<Rightarrow> usb_cdc_session_gate_t) \<Rightarrow>
     usb_cdc_session_gate_t ptr option" where
  "usb_cdc_session_gate_reset None wait_fn = Some None"
| "usb_cdc_session_gate_reset (Some gate) wait_fn =
     (let gate = gate\<lparr>phase := USB_CDC_SESSION_GATE_RESETTING\<rparr>;
          gate = gate_close_rx_admission gate;
          gate = gate\<lparr>generation := generation gate + 1\<rparr>
      in map_option (\<lambda>gate. Some (gate\<lparr>phase := USB_CDC_SESSION_GATE_CLOSED\<rparr>)) (reset_wait wait_fn gate))"

section \<open>The RX admission word\<close>

lemma rx_consts:
  "RX_STATE_OPEN = 0x80000000" "RX_STATE_DIRTY = 0x40000000" "RX_STATE_OPENING = 0x20000000"
  "RX_STATE_COUNT_MASK = 0x1FFFFFFF"
  by (simp_all add: RX_STATE_OPEN_def RX_STATE_DIRTY_def RX_STATE_OPENING_def RX_STATE_COUNT_MASK_def push_bit_eq_mult)

text \<open>
  Between calls the admission word is clean, dirty or open; stale input is pending only when it is
  dirty, and the drained epoch never runs ahead of the discard epoch.
\<close>

definition gate_inv :: "usb_cdc_session_gate_t \<Rightarrow> bool" where
  "gate_inv gate \<longleftrightarrow> rx_state gate \<in> {0, RX_STATE_DIRTY, RX_STATE_OPEN} \<and>
     (rx_state gate \<noteq> RX_STATE_DIRTY \<longrightarrow> \<not> gate_has_pending_rx_discard gate) \<and>
     rx_drained_epoch gate \<le> rx_discard_epoch gate"

lemma try_clear_dirty:
  assumes "rx_state gate = RX_STATE_DIRTY"
  shows "gate_try_clear_rx_dirty gate = (if gate_has_pending_rx_discard gate then gate else gate\<lparr>rx_state := 0\<rparr>)"
  using assms by (simp add: gate_try_clear_rx_dirty_def rx_consts)

lemma try_clear_other:
  assumes "rx_state gate = 0 \<or> rx_state gate = RX_STATE_OPEN"
  shows "gate_try_clear_rx_dirty gate = gate"
  using assms by (auto simp: gate_try_clear_rx_dirty_def rx_consts)

lemma mark_boundary_stale:
  assumes "rx_state gate \<in> {0, RX_STATE_DIRTY, RX_STATE_OPEN}"
  shows "gate_mark_rx_boundary_stale gate =
    gate_try_clear_rx_dirty (gate\<lparr>rx_discard_epoch := rx_discard_epoch gate + 1, rx_state := RX_STATE_DIRTY\<rparr>)"
  using assms by (auto simp: gate_mark_rx_boundary_stale_def Let_def rx_consts)

lemma note_rx_closed:
  assumes "rx_state gate \<in> {0, RX_STATE_DIRTY}"
  shows "usb_cdc_session_gate_note_rx (Some gate) =
    Some (gate\<lparr>rx_discard_epoch := rx_discard_epoch gate + 1, rx_state := RX_STATE_DIRTY\<rparr>)"
  using assms by (auto simp: Let_def rx_consts)

lemma close_rx_admission:
  assumes "rx_state gate \<in> {0, RX_STATE_DIRTY, RX_STATE_OPEN}"
  shows "gate_close_rx_admission gate = (if rx_state gate = RX_STATE_OPEN then gate\<lparr>rx_state := 0\<rparr> else gate)"
  using assms by (auto simp: gate_close_rx_admission_def gate_try_clear_rx_dirty_def Let_def rx_consts)

lemma open_cases:
  assumes "gate_inv gate" "usb_cdc_session_gate_open (Some gate) = (ok, Some gate')"
  shows "(gate' = gate \<and> (ok \<longrightarrow> rx_state gate = RX_STATE_OPEN)) \<or>
    (ok \<and> rx_state gate = 0 \<and> gate' = gate\<lparr>phase := USB_CDC_SESSION_GATE_OPEN, rx_state := RX_STATE_OPEN\<rparr>)"
  using assms
  by (cases "phase gate")
    (auto simp: Let_def gate_inv_def gate_rx_admission_is_open_def rx_consts split: if_splits)

section \<open>Sequences of calls\<close>

datatype gate_op = GOpen | GClose | GNoteRx | GDrained u32 | GBegin u32 | GEnd | GReset

text \<open>
  One call. The worker passes \<open>mark_rx_drained\<close> an epoch it read before, so not a later one; while a
  reset waits, the other tasks only end their commands.
\<close>

inductive gate_step :: "usb_cdc_session_gate_t \<Rightarrow> gate_op \<Rightarrow> usb_cdc_session_gate_t \<Rightarrow> bool" where
  gopen: "usb_cdc_session_gate_open (Some g) = (ok, Some g') \<Longrightarrow> gate_step g GOpen g'"
| gclose: "usb_cdc_session_gate_close (Some g) = Some g' \<Longrightarrow> gate_step g GClose g'"
| gnote: "usb_cdc_session_gate_note_rx (Some g) = Some g' \<Longrightarrow> gate_step g GNoteRx g'"
| gdrained: "e \<le> rx_discard_epoch g \<Longrightarrow> usb_cdc_session_gate_mark_rx_drained (Some g) e = Some g' \<Longrightarrow>
    gate_step g (GDrained e) g'"
| gbegin: "usb_cdc_session_gate_command_begin (Some g) f = (ok, Some g') \<Longrightarrow> gate_step g (GBegin f) g'"
| gend: "usb_cdc_session_gate_command_end (Some g) = Some g' \<Longrightarrow> gate_step g GEnd g'"
| greset: "(\<And>h. wait h = h\<lparr>active_commands := f h\<rparr>) \<Longrightarrow>
    usb_cdc_session_gate_reset (Some g) wait = Some (Some g') \<Longrightarrow> gate_step g GReset g'"

inductive gate_run :: "usb_cdc_session_gate_t \<Rightarrow> gate_op list \<Rightarrow> usb_cdc_session_gate_t \<Rightarrow> bool" where
  idle: "gate_run g [] g"
| step: "gate_step g op g' \<Longrightarrow> gate_run g' ops g'' \<Longrightarrow> gate_run g (op # ops) g''"

inductive_cases gate_runE: "gate_run g ops g'"

lemma reset_wait_only_active:
  assumes "\<And>h. wait h = h\<lparr>active_commands := f h\<rparr>" "reset_wait wait g = Some g'"
  shows "\<exists>a. g' = g\<lparr>active_commands := a\<rparr> \<and> active_commands g' = 0"
proof -
  have "(\<forall>h. wait h = h\<lparr>active_commands := f h\<rparr>) \<longrightarrow>
      (\<exists>a. g' = g\<lparr>active_commands := a\<rparr> \<and> active_commands g' = 0)"
  proof (rule reset_wait.raw_induct[OF _ assms(2)], intro impI)
    fix rw w g g'
    assume ih: "\<And>w g g'. rw w g = Some g' \<Longrightarrow> (\<forall>h. w h = h\<lparr>active_commands := f h\<rparr>) \<longrightarrow>
        (\<exists>a. g' = g\<lparr>active_commands := a\<rparr> \<and> active_commands g' = 0)"
      and s: "(if active_commands g \<noteq> 0 then rw w (w g) else Some g) = Some g'"
      and w: "\<forall>h. w h = h\<lparr>active_commands := f h\<rparr>"
    show "\<exists>a. g' = g\<lparr>active_commands := a\<rparr> \<and> active_commands g' = 0"
    proof (cases "active_commands g = 0")
      case True
      then show ?thesis using s by (intro exI[of _ 0]) auto
    next
      case False
      then have "rw w (w g) = Some g'" using s by simp
      from ih[OF this] w obtain a where "g' = (w g)\<lparr>active_commands := a\<rparr>" "active_commands g' = 0" by blast
      then show ?thesis using spec[OF w, of g] by auto
    qed
  qed
  then show ?thesis using assms(1) by blast
qed

lemma reset_effect:
  assumes "\<And>h. wait h = h\<lparr>active_commands := f h\<rparr>" "usb_cdc_session_gate_reset (Some g) wait = Some (Some g')"
    "rx_state g \<in> {0, RX_STATE_DIRTY, RX_STATE_OPEN}"
  shows "phase g' = USB_CDC_SESSION_GATE_CLOSED" "generation g' = generation g + 1" "active_commands g' = 0"
    "rx_state g' = (if rx_state g = RX_STATE_OPEN then 0 else rx_state g)"
    "rx_discard_epoch g' = rx_discard_epoch g" "rx_drained_epoch g' = rx_drained_epoch g"
proof -
  let ?g1 = "gate_close_rx_admission (g\<lparr>phase := USB_CDC_SESSION_GATE_RESETTING\<rparr>)"
  obtain h where h: "reset_wait wait (?g1\<lparr>generation := generation ?g1 + 1\<rparr>) = Some h"
    "g' = h\<lparr>phase := USB_CDC_SESSION_GATE_CLOSED\<rparr>"
    using assms(2) by (auto simp: Let_def)
  obtain a where a: "h = ?g1\<lparr>generation := generation ?g1 + 1, active_commands := a\<rparr>" "active_commands h = 0"
    using reset_wait_only_active[OF assms(1) h(1)] by auto
  have c: "?g1 = (if rx_state g = RX_STATE_OPEN then g\<lparr>phase := USB_CDC_SESSION_GATE_RESETTING, rx_state := 0\<rparr>
      else g\<lparr>phase := USB_CDC_SESSION_GATE_RESETTING\<rparr>)"
    using close_rx_admission[of "g\<lparr>phase := USB_CDC_SESSION_GATE_RESETTING\<rparr>"] assms(3) by auto
  show "phase g' = USB_CDC_SESSION_GATE_CLOSED" "generation g' = generation g + 1" "active_commands g' = 0"
    "rx_state g' = (if rx_state g = RX_STATE_OPEN then 0 else rx_state g)"
    "rx_discard_epoch g' = rx_discard_epoch g" "rx_drained_epoch g' = rx_drained_epoch g"
    using h(2) a unfolding c by (auto split: if_splits)
qed

text \<open>What one call does to generation and epochs.\<close>

lemma epoch_suc:
  fixes a b :: u32
  assumes "a \<le> b" "unat b + 1 < 2 ^ 32" shows "a \<le> b + 1" "b < b + 1" "unat (b + 1) = unat b + 1"
proof -
  show u: "unat (b + 1) = unat b + 1" using unat_plus_simple_bound[of b 1] assms(2) by simp
  show "a \<le> b + 1" "b < b + 1" using assms(1) u by (simp_all add: word_le_nat_alt word_less_nat_alt)
qed

lemma gate_step_effect:
  assumes "gate_step g op g'" "gate_inv g" "unat (rx_discard_epoch g) + 1 < 2 ^ 32"
  shows "gate_inv g' \<and> unat (rx_discard_epoch g') \<le> unat (rx_discard_epoch g) + 1 \<and>
    rx_discard_epoch g \<le> rx_discard_epoch g' \<and>
    (rx_drained_epoch g' = rx_drained_epoch g \<or> (\<exists>e. op = GDrained e \<and> rx_drained_epoch g' = e)) \<and>
    (generation g' = generation g \<or> generation g' = generation g + 1) \<and>
    (op = GReset \<or> (op = GClose \<and> phase g = USB_CDC_SESSION_GATE_OPEN) \<longrightarrow> generation g' = generation g + 1)"
  using assms
proof cases
  case (gopen ok)
  then show ?thesis using open_cases[OF assms(2) gopen(2)] assms(2)
    by (auto simp: gate_inv_def gate_has_pending_rx_discard_def rx_consts)
next
  case gclose
  have st: "rx_state g \<in> {0, RX_STATE_DIRTY, RX_STATE_OPEN}" using assms(2) by (simp add: gate_inv_def)
  note e = epoch_suc[OF _ assms(3), of "rx_drained_epoch g"]
  have ne: "rx_discard_epoch g + 1 \<noteq> rx_drained_epoch g"
    using e assms(2) by (auto simp: gate_inv_def)
  show ?thesis
  proof (cases "phase g = USB_CDC_SESSION_GATE_OPEN")
    case True
    then have "g' = g\<lparr>phase := USB_CDC_SESSION_GATE_CLOSED, generation := generation g + 1,
        rx_discard_epoch := rx_discard_epoch g + 1, rx_state := RX_STATE_DIRTY\<rparr>"
      using gclose st ne
      by (simp add: Let_def mark_boundary_stale try_clear_dirty gate_has_pending_rx_discard_def)
    then show ?thesis using e assms(2,3) gclose
      by (auto simp: gate_inv_def gate_has_pending_rx_discard_def word_le_nat_alt)
  next
    case False
    then show ?thesis using gclose assms by auto
  qed
next
  case gnote
  note e = epoch_suc[OF _ assms(3), of "rx_drained_epoch g"]
  show ?thesis
  proof (cases "rx_state g = RX_STATE_OPEN")
    case True
    then show ?thesis using gnote assms by (auto simp: Let_def)
  next
    case False
    then have "g' = g\<lparr>rx_discard_epoch := rx_discard_epoch g + 1, rx_state := RX_STATE_DIRTY\<rparr>"
      using gnote note_rx_closed[of g] assms(2) by (auto simp: gate_inv_def simp del: usb_cdc_session_gate_note_rx.simps)
    then show ?thesis using e assms(2,3) gnote by (auto simp: gate_inv_def word_le_nat_alt)
  qed
next
  case (gdrained e)
  let ?h = "if rx_drained_epoch g < e then g\<lparr>rx_drained_epoch := e\<rparr> else g"
  have h: "gate_inv g \<Longrightarrow> rx_state g \<in> {0, RX_STATE_DIRTY, RX_STATE_OPEN}" by (simp add: gate_inv_def)
  have np: "rx_state g \<noteq> RX_STATE_DIRTY \<Longrightarrow> ?h = g"
    using assms(2) gdrained(2) by (auto simp: gate_inv_def gate_has_pending_rx_discard_def)
  have "g' = gate_try_clear_rx_dirty ?h" using gdrained(3) by simp
  then have "g' = (if rx_state g = RX_STATE_DIRTY \<and> \<not> gate_has_pending_rx_discard ?h then ?h\<lparr>rx_state := 0\<rparr> else ?h)"
    using try_clear_dirty[of ?h] try_clear_other[of g] np h[OF assms(2)]
    by (cases "rx_state g = RX_STATE_DIRTY") auto
  then show ?thesis using assms(2,3) gdrained np
    by (auto simp: gate_inv_def gate_has_pending_rx_discard_def)
next
  case (gbegin f ok)
  then show ?thesis using assms by (auto simp: Let_def gate_inv_def gate_has_pending_rx_discard_def split: if_splits)
next
  case gend
  then show ?thesis using assms by (auto simp: gate_inv_def gate_has_pending_rx_discard_def)
next
  case (greset wait f)
  then show ?thesis
    using reset_effect[OF greset(2,3)] assms by (auto simp: gate_inv_def gate_has_pending_rx_discard_def rx_consts)
qed

text \<open>What holds along a run, while the discard epoch has not wrapped.\<close>

lemma gate_run_effect:
  assumes "gate_run g ops g'" "gate_inv g" "unat (rx_discard_epoch g) + length ops < 2 ^ 32"
  shows "gate_inv g' \<and> rx_discard_epoch g \<le> rx_discard_epoch g' \<and>
    (rx_drained_epoch g' = rx_drained_epoch g \<or> GDrained (rx_drained_epoch g') \<in> set ops) \<and>
    (\<exists>k \<le> length ops. generation g' = generation g + of_nat k)"
  using assms
proof induction
  case (idle g)
  then show ?case by (auto intro: exI[of _ 0])
next
  case (step g op g' ops g'')
  have s: "gate_inv g'" "unat (rx_discard_epoch g') \<le> unat (rx_discard_epoch g) + 1"
    "rx_discard_epoch g \<le> rx_discard_epoch g'"
    "rx_drained_epoch g' = rx_drained_epoch g \<or> op = GDrained (rx_drained_epoch g')"
    "generation g' = generation g \<or> generation g' = generation g + 1"
    using gate_step_effect[OF step.hyps(1) step.prems(1)] step.prems(2) by auto
  have i: "gate_inv g''" "rx_discard_epoch g' \<le> rx_discard_epoch g''"
    "rx_drained_epoch g'' = rx_drained_epoch g' \<or> GDrained (rx_drained_epoch g'') \<in> set ops"
    "\<exists>k \<le> length ops. generation g'' = generation g' + of_nat k"
    using step.IH[OF s(1)] s(2) step.prems(2) by auto
  obtain k where k: "k \<le> length ops" "generation g'' = generation g' + of_nat k" using i(4) by blast
  have "\<exists>k \<le> length (op # ops). generation g'' = generation g + of_nat k"
    using s(5)
  proof
    assume "generation g' = generation g"
    then show ?thesis using k by (intro exI[of _ k]) simp
  next
    assume "generation g' = generation g + 1"
    then show ?thesis using k by (intro exI[of _ "Suc k"]) simp
  qed
  moreover have "rx_drained_epoch g'' = rx_drained_epoch g \<or> GDrained (rx_drained_epoch g'') \<in> set (op # ops)"
    using s(4) i(3) by auto
  moreover have "rx_discard_epoch g \<le> rx_discard_epoch g''" using s(3) i(2) by (rule order_trans)
  ultimately show ?case using i(1) by blast
qed

lemma pending_blocks:
  assumes "gate_inv g" "gate_has_pending_rx_discard g"
  shows "\<not> usb_cdc_session_gate_is_open (Some g)" "\<not> fst (usb_cdc_session_gate_open (Some g))"
    "\<not> fst (usb_cdc_session_gate_command_begin (Some g) f)" "usb_cdc_session_gate_should_discard_rx (Some g)"
    "\<not> snap_admitted (usb_cdc_session_gate_snapshot (Some g))"
  using assms by (auto simp: gate_inv_def gate_admits_def Let_def rx_consts)

lemma of_nat_ne_self:
  fixes x :: u32
  assumes "0 < k" "k < 2 ^ 32" shows "x + of_nat k \<noteq> x"
proof -
  have "unat (of_nat k :: u32) = k" using assms(2) by (simp add: unat_of_nat)
  then have "(of_nat k :: u32) \<noteq> 0" using assms(1) by auto
  then show ?thesis by simp
qed

text \<open>
  C26: Bytes that arrive while the session is not open are never served. Once the receive callback has
  registered them under an epoch \<open>e\<close>, then whatever sequence of opens, closes, resets, commands and
  further callbacks follows, the gate refuses to open, refuses every command and asks for the input to
  be discarded, until the worker reports a drain that it began after \<open>e\<close> was published.
\<close>

theorem stale_rx_fenced:
  assumes "gate_inv g" "rx_state g \<noteq> RX_STATE_OPEN" "usb_cdc_session_gate_note_rx (Some g) = Some g1"
    "gate_run g1 ops g2" "\<forall>o'. GDrained o' \<in> set ops \<longrightarrow> o' < usb_cdc_session_gate_rx_discard_epoch (Some g1)"
    "unat (rx_discard_epoch g) + length ops + 1 < 2 ^ 32"
  shows "\<not> usb_cdc_session_gate_is_open (Some g2) \<and> \<not> fst (usb_cdc_session_gate_open (Some g2)) \<and>
    (\<forall>f. \<not> fst (usb_cdc_session_gate_command_begin (Some g2) f)) \<and>
    usb_cdc_session_gate_should_discard_rx (Some g2)"
proof -
  have g1: "g1 = g\<lparr>rx_discard_epoch := rx_discard_epoch g + 1, rx_state := RX_STATE_DIRTY\<rparr>"
    using assms(1-3) note_rx_closed[of g] by (auto simp: gate_inv_def simp del: usb_cdc_session_gate_note_rx.simps)
  have e: "rx_drained_epoch g < rx_discard_epoch g + 1" "unat (rx_discard_epoch g + 1) = unat (rx_discard_epoch g) + 1"
    using epoch_suc[of "rx_drained_epoch g" "rx_discard_epoch g"] assms(1,6) by (auto simp: gate_inv_def)
  have inv1: "gate_inv g1" using e(1) by (auto simp: g1 gate_inv_def)
  have r: "gate_inv g2" "rx_discard_epoch g1 \<le> rx_discard_epoch g2"
    "rx_drained_epoch g2 = rx_drained_epoch g1 \<or> GDrained (rx_drained_epoch g2) \<in> set ops"
    using gate_run_effect[OF assms(4) inv1] e(2) assms(6) by (auto simp: g1)
  have "rx_drained_epoch g2 < rx_discard_epoch g1" using r(3) assms(5) e(1) by (auto simp: g1)
  then have "gate_has_pending_rx_discard g2" using r(2) by (auto simp: gate_has_pending_rx_discard_def)
  then show ?thesis using pending_blocks[OF r(1)] by blast
qed

definition fresh_gate :: usb_cdc_session_gate_t where
  "fresh_gate = \<lparr>generation = 1, active_commands = 0, phase = USB_CDC_SESSION_GATE_CLOSED, rx_state = 0,
     rx_discard_epoch = 0, rx_drained_epoch = 0\<rparr>"

lemma fresh_gate_inv: "gate_inv fresh_gate"
  by (simp add: fresh_gate_def gate_inv_def gate_has_pending_rx_discard_def)

theorem stale_rx_fenced_witness:
  "\<not> usb_cdc_session_gate_is_open (Some (fresh_gate\<lparr>rx_discard_epoch := 1, rx_state := RX_STATE_DIRTY\<rparr>))"
proof -
  let ?g = "fresh_gate\<lparr>rx_discard_epoch := 1, rx_state := RX_STATE_DIRTY\<rparr>"
  have n: "usb_cdc_session_gate_note_rx (Some fresh_gate) = Some ?g"
    using note_rx_closed[of fresh_gate] by (simp add: fresh_gate_def)
  have "gate_step ?g (GDrained 0) ?g"
    by (rule gdrained) (simp_all add: fresh_gate_def try_clear_dirty gate_has_pending_rx_discard_def)
  then have r: "gate_run ?g [GDrained 0] ?g" using gate_run.intros by blast
  show ?thesis
    using stale_rx_fenced[OF fresh_gate_inv _ n r] by (simp add: fresh_gate_def rx_consts)
qed

text \<open>
  C27: Closing an open session, or resetting the gate, revokes every frame acquired before: a command
  carrying the old generation is refused, and a snapshot of the old generation is no longer current,
  after any further sequence of fewer than \<open>2\<^sup>32 - 1\<close> calls.
\<close>

theorem generation_fence:
  assumes "gate_inv g" "op = GReset \<or> (op = GClose \<and> phase g = USB_CDC_SESSION_GATE_OPEN)" "gate_step g op g1"
    "gate_run g1 ops g2" "unat (rx_discard_epoch g) + length ops + 1 < 2 ^ 32"
  shows "\<not> fst (usb_cdc_session_gate_command_begin (Some g2) (usb_cdc_session_gate_generation (Some g))) \<and>
    \<not> usb_cdc_session_gate_snapshot_is_current (Some g2) (usb_cdc_session_gate_snapshot (Some g))"
proof -
  have s: "gate_inv g1" "generation g1 = generation g + 1" "unat (rx_discard_epoch g1) \<le> unat (rx_discard_epoch g) + 1"
    using gate_step_effect[OF assms(3,1)] assms(2,5) by auto
  obtain k where k: "k \<le> length ops" "generation g2 = generation g1 + of_nat k"
    using gate_run_effect[OF assms(4) s(1)] s(3) assms(5) by auto
  have "generation g2 = generation g + of_nat (Suc k)" using k(2) s(2) by simp
  then have "generation g2 \<noteq> generation g" using of_nat_ne_self[of "Suc k"] k(1) assms(5) by simp
  then show ?thesis by (simp add: gate_admits_def Let_def)
qed

theorem generation_fence_witness:
  "\<not> fst (usb_cdc_session_gate_command_begin
      (Some (fresh_gate\<lparr>generation := 2\<rparr>)) 1)"
proof -
  let ?w = "\<lambda>h. h\<lparr>active_commands := active_commands h\<rparr> :: usb_cdc_session_gate_t"
  have "gate_step fresh_gate GReset (fresh_gate\<lparr>generation := 2\<rparr>)"
  proof (rule greset[of ?w active_commands])
    show "usb_cdc_session_gate_reset (Some fresh_gate) ?w = Some (Some (fresh_gate\<lparr>generation := 2\<rparr>))"
      by (subst usb_cdc_session_gate_reset.simps, subst reset_wait.simps)
        (simp add: fresh_gate_def gate_close_rx_admission_def Let_def)
  qed simp
  from generation_fence[OF fresh_gate_inv _ this idle] show ?thesis by (simp add: fresh_gate_def)
qed

section \<open>The reset barrier\<close>

text \<open>
  Commands and a reset as interleaved threads; each step is one atomic operation of the source, in
  the source's order. A command thread makes the four checks of \<open>command_begin\<close>, joins the active set,
  makes the four checks again, runs, and leaves. Of the other tasks only what they may do to the gate
  matters: the opener and closer exchange the phase between \<open>CLOSED\<close> and \<open>OPEN\<close>, the closer advances
  the generation, and callbacks change the receive words arbitrarily. One task at a time resets.
\<close>

datatype cmd_pc = C_idle
  | C_phase u32 | C_gen u32 | C_rx u32 | C_epoch u32 | C_epoch2 u32 u32 | C_join u32
  | C_phase' u32 | C_gen' u32 | C_rx' u32 | C_epoch' u32 | C_epoch2' u32 u32 | C_backout | C_running u32

datatype reset_pc = R_idle | R_admission | R_generation | R_wait | R_store

record race =
  the_gate :: usb_cdc_session_gate_t
  cmds :: "cmd_pc list"
  resetter :: reset_pc

text \<open>One atomic operation of a command thread: its new position and the gate.\<close>

fun cmd_step :: "usb_cdc_session_gate_t \<Rightarrow> cmd_pc \<Rightarrow> cmd_pc \<times> usb_cdc_session_gate_t" where
  "cmd_step g C_idle = (C_idle, g)"
| "cmd_step g (C_phase f) = (if phase g \<noteq> USB_CDC_SESSION_GATE_OPEN then C_idle else C_gen f, g)"
| "cmd_step g (C_gen f) = (if generation g \<noteq> f then C_idle else C_rx f, g)"
| "cmd_step g (C_rx f) = (if \<not> gate_rx_admission_is_open g then C_idle else C_epoch f, g)"
| "cmd_step g (C_epoch f) = (C_epoch2 f (rx_discard_epoch g), g)"
| "cmd_step g (C_epoch2 f e) = (if e \<noteq> rx_drained_epoch g then C_idle else C_join f, g)"
| "cmd_step g (C_join f) = (C_phase' f, g\<lparr>active_commands := active_commands g + 1\<rparr>)"
| "cmd_step g (C_phase' f) = (if phase g \<noteq> USB_CDC_SESSION_GATE_OPEN then C_backout else C_gen' f, g)"
| "cmd_step g (C_gen' f) = (if generation g \<noteq> f then C_backout else C_rx' f, g)"
| "cmd_step g (C_rx' f) = (if \<not> gate_rx_admission_is_open g then C_backout else C_epoch' f, g)"
| "cmd_step g (C_epoch' f) = (C_epoch2' f (rx_discard_epoch g), g)"
| "cmd_step g (C_epoch2' f e) = (if e \<noteq> rx_drained_epoch g then C_backout else C_running f, g)"
| "cmd_step g C_backout = (C_idle, g\<lparr>active_commands := active_commands g - 1\<rparr>)"
| "cmd_step g (C_running f) = (C_idle, g\<lparr>active_commands := active_commands g - 1\<rparr>)"

text \<open>One atomic operation of the reset.\<close>

fun reset_step :: "usb_cdc_session_gate_t \<Rightarrow> reset_pc \<Rightarrow> reset_pc \<times> usb_cdc_session_gate_t" where
  "reset_step g R_idle = (R_admission, g\<lparr>phase := USB_CDC_SESSION_GATE_RESETTING\<rparr>)"
| "reset_step g R_admission = (R_generation, gate_close_rx_admission g)"
| "reset_step g R_generation = (R_wait, g\<lparr>generation := generation g + 1\<rparr>)"
| "reset_step g R_wait = (if active_commands g \<noteq> 0 then R_wait else R_store, g)"
| "reset_step g R_store = (R_idle, g\<lparr>phase := USB_CDC_SESSION_GATE_CLOSED\<rparr>)"

inductive race_step :: "race \<Rightarrow> race \<Rightarrow> bool" where
  cmd_begin: "i < length (cmds r) \<Longrightarrow> cmds r ! i = C_idle \<Longrightarrow> race_step r (r\<lparr>cmds := (cmds r)[i := C_phase f]\<rparr>)"
| cmd: "i < length (cmds r) \<Longrightarrow> cmd_step (the_gate r) (cmds r ! i) = (c, g) \<Longrightarrow>
    race_step r (r\<lparr>the_gate := g, cmds := (cmds r)[i := c]\<rparr>)"
| reset: "reset_step (the_gate r) (resetter r) = (p, g) \<Longrightarrow> race_step r (r\<lparr>the_gate := g, resetter := p\<rparr>)"
| env_open: "phase (the_gate r) = USB_CDC_SESSION_GATE_CLOSED \<Longrightarrow>
    race_step r (r\<lparr>the_gate := (the_gate r)\<lparr>phase := USB_CDC_SESSION_GATE_OPEN\<rparr>\<rparr>)"
| env_close: "phase (the_gate r) = USB_CDC_SESSION_GATE_OPEN \<Longrightarrow>
    race_step r (r\<lparr>the_gate := (the_gate r)\<lparr>phase := USB_CDC_SESSION_GATE_CLOSED\<rparr>\<rparr>)"
| env_gen: "race_step r (r\<lparr>the_gate := (the_gate r)\<lparr>generation := generation (the_gate r) + 1\<rparr>\<rparr>)"
| env_rx: "race_step r (r\<lparr>the_gate := (the_gate r)\<lparr>rx_state := a, rx_discard_epoch := b, rx_drained_epoch := c\<rparr>\<rparr>)"

text \<open>Threads counted in \<open>active_commands\<close>, and those that have passed the second phase check.\<close>

fun joined :: "cmd_pc \<Rightarrow> bool" where
  "joined (C_phase' f) = True" | "joined (C_gen' f) = True" | "joined (C_rx' f) = True"
| "joined (C_epoch' f) = True" | "joined (C_epoch2' f e) = True" | "joined C_backout = True"
| "joined (C_running f) = True" | "joined _ = False"

fun past_phase :: "cmd_pc \<Rightarrow> bool" where
  "past_phase (C_gen' f) = True" | "past_phase (C_rx' f) = True" | "past_phase (C_epoch' f) = True"
| "past_phase (C_epoch2' f e) = True" | "past_phase (C_running f) = True" | "past_phase _ = False"

definition race_start :: "usb_cdc_session_gate_t \<Rightarrow> nat \<Rightarrow> race" where
  "race_start g n = \<lparr>the_gate = g, cmds = replicate n C_idle, resetter = R_idle\<rparr>"

definition race_inv :: "nat \<Rightarrow> race \<Rightarrow> bool" where
  "race_inv n r \<longleftrightarrow> length (cmds r) = n \<and>
     active_commands (the_gate r) = of_nat (length (filter joined (cmds r))) \<and>
     (resetter r \<noteq> R_idle \<longrightarrow> phase (the_gate r) = USB_CDC_SESSION_GATE_RESETTING) \<and>
     (resetter r = R_store \<longrightarrow> (\<forall>c \<in> set (cmds r). \<not> past_phase c))"

lemma past_phase_joined: "past_phase c \<Longrightarrow> joined c"
  by (cases c) auto

lemma filter_update_count:
  assumes "i < length xs"
  shows "of_nat (length (filter P (xs[i := x]))) + (if P (xs ! i) then 1 else 0) =
    (of_nat (length (filter P xs)) + (if P x then 1 else 0) :: u32)"
  using assms
proof (induction xs arbitrary: i)
  case (Cons y ys)
  then show ?case
  proof (cases i)
    case (Suc j)
    then show ?thesis using Cons.IH[of j] Cons.prems by (auto simp: algebra_simps)
  qed (auto simp: algebra_simps)
qed simp

lemma cmd_step_count:
  assumes "cmd_step g c = (c', g')"
  shows "active_commands g' + (if joined c then 1 else 0) = active_commands g + (if joined c' then 1 else 0)"
    "phase g' = phase g" "past_phase c' \<Longrightarrow> past_phase c \<or> phase g = USB_CDC_SESSION_GATE_OPEN"
  using assms by (cases c; auto split: if_splits)+

lemma close_rx_admission_keeps:
  "phase (gate_close_rx_admission g) = phase g" "active_commands (gate_close_rx_admission g) = active_commands g"
  by (auto simp: gate_close_rx_admission_def gate_try_clear_rx_dirty_def Let_def)

lemma race_inv_cmd:
  assumes "race_inv n r" "i < length (cmds r)" "cmd_step (the_gate r) (cmds r ! i) = (c, g)"
  shows "race_inv n (r\<lparr>the_gate := g, cmds := (cmds r)[i := c]\<rparr>)"
proof -
  note s = cmd_step_count[OF assms(3)]
  have "active_commands g = of_nat (length (filter joined ((cmds r)[i := c])))"
    using s(1) filter_update_count[OF assms(2), of joined c] assms(1)
    by (simp add: race_inv_def split: if_splits) (metis add_right_cancel)+
  moreover have "\<not> past_phase c'" if "resetter r = R_store" "c' \<in> set ((cmds r)[i := c])" for c'
    using that assms(1,2) s(3) set_update_subset_insert[of "cmds r" i c] nth_mem[OF assms(2)]
    by (auto simp: race_inv_def)
  ultimately show ?thesis using assms(1) s(2) by (auto simp: race_inv_def)
qed

lemma race_inv_reset:
  assumes "race_inv n r" "n < 2 ^ 32" "reset_step (the_gate r) (resetter r) = (p, g)"
  shows "race_inv n (r\<lparr>the_gate := g, resetter := p\<rparr>)"
proof (cases "resetter r = R_wait \<and> active_commands (the_gate r) = 0")
  case True
  have le: "length (filter joined (cmds r)) < 2 ^ 32"
    using assms(1,2) length_filter_le[of joined "cmds r"] by (auto simp: race_inv_def)
  have "length (filter joined (cmds r)) = 0"
    using True assms(1) le unat_of_nat[where 'a=32, of "length (filter joined (cmds r))"]
    by (auto simp: race_inv_def)
  then have "\<forall>c \<in> set (cmds r). \<not> past_phase c" using past_phase_joined by (auto simp: filter_empty_conv)
  then show ?thesis using True assms by (auto simp: race_inv_def)
next
  case False
  then show ?thesis using assms close_rx_admission_keeps
    by (cases "resetter r") (auto simp: race_inv_def)
qed

lemma race_inv_step:
  assumes "race_step r r'" "race_inv n r" "n < 2 ^ 32"
  shows "race_inv n r'"
  using assms
proof cases
  case (cmd_begin i f)
  then show ?thesis
    using assms(2) filter_update_count[OF cmd_begin(2), of joined "C_phase f"] set_update_subset_insert[of "cmds r" i "C_phase f"]
    by (auto simp: race_inv_def)
next
  case (cmd i c g)
  then show ?thesis using race_inv_cmd assms(2) by simp
next
  case (reset p g)
  then show ?thesis using race_inv_reset assms(2,3) by simp
qed (auto simp: race_inv_def)

lemma race_inv_reachable:
  assumes "race_step\<^sup>*\<^sup>* (race_start g n) r" "active_commands g = 0" "n < 2 ^ 32"
  shows "race_inv n r"
  using assms(1)
proof (induction rule: rtranclp_induct)
  case base
  show ?case using assms(2) by (simp add: race_inv_def race_start_def)
next
  case (step r r')
  then show ?case using race_inv_step assms(3) by blast
qed

text \<open>
  C12: The reset barrier. In every interleaving of the atomic operations of any number of command
  threads, openers, closers and callbacks with a reset: from the moment the reset has seen no active
  command until it has returned, no command is running and none has passed its second phase check, so
  any command that runs later makes both its phase and its generation check after the reset.
\<close>

theorem reset_barrier:
  assumes "race_step\<^sup>*\<^sup>* (race_start g n) r" "active_commands g = 0" "n < 2 ^ 32" "resetter r = R_store" "c \<in> set (cmds r)"
  shows "\<not> past_phase c \<and> (\<forall>f. c \<noteq> C_running f) \<and> phase (the_gate r) = USB_CDC_SESSION_GATE_RESETTING"
proof -
  have "race_inv n r" using assms race_inv_reachable by blast
  then have "\<not> past_phase c" "phase (the_gate r) = USB_CDC_SESSION_GATE_RESETTING"
    using assms(4,5) by (auto simp: race_inv_def)
  then show ?thesis by auto
qed

theorem reset_barrier_witness:
  "\<not> past_phase (C_phase 1)"
proof -
  let ?g = "fresh_gate\<lparr>phase := USB_CDC_SESSION_GATE_RESETTING\<rparr>"
  let ?r = "\<lambda>g p c. \<lparr>the_gate = g, cmds = [c], resetter = p\<rparr>"
  have 0: "race_start fresh_gate 1 = ?r fresh_gate R_idle C_idle" by (simp add: race_start_def)
  have 1: "race_step (?r fresh_gate R_idle C_idle) (?r fresh_gate R_idle (C_phase 1))"
    using cmd_begin[of 0 "?r fresh_gate R_idle C_idle" 1] by simp
  have 2: "race_step (?r fresh_gate R_idle (C_phase 1)) (?r ?g R_admission (C_phase 1))"
    using reset[of "?r fresh_gate R_idle (C_phase 1)"] by simp
  have 3: "race_step (?r ?g R_admission (C_phase 1)) (?r ?g R_generation (C_phase 1))"
    using reset[of "?r ?g R_admission (C_phase 1)"]
    by (simp add: fresh_gate_def gate_close_rx_admission_def Let_def)
  have 4: "race_step (?r ?g R_generation (C_phase 1)) (?r (?g\<lparr>generation := 2\<rparr>) R_wait (C_phase 1))"
    using reset[of "?r ?g R_generation (C_phase 1)"] by (simp add: fresh_gate_def)
  have 5: "race_step (?r (?g\<lparr>generation := 2\<rparr>) R_wait (C_phase 1)) (?r (?g\<lparr>generation := 2\<rparr>) R_store (C_phase 1))"
    using reset[of "?r (?g\<lparr>generation := 2\<rparr>) R_wait (C_phase 1)"] by (simp add: fresh_gate_def)
  have "race_step\<^sup>*\<^sup>* (race_start fresh_gate 1) (?r (?g\<lparr>generation := 2\<rparr>) R_store (C_phase 1))"
    unfolding 0
    by (rule converse_rtranclp_into_rtranclp, rule 1, rule converse_rtranclp_into_rtranclp, rule 2,
      rule converse_rtranclp_into_rtranclp, rule 3, rule converse_rtranclp_into_rtranclp, rule 4,
      rule r_into_rtranclp, rule 5)
  from reset_barrier[OF this] show ?thesis by (simp add: fresh_gate_def)
qed

end
