(* ===== verification/Usb_Cdc_Tx.thy ===== *)
theory Usb_Cdc_Tx
  imports Recorder_Config
begin

text \<open>
  The response writer of the CDC command channel, \<open>firmware/components/recorder/usb_cdc_tx.c\<close>: queueing
  a response and its line feed while the session stays current, and the wait for the final USB IN
  transaction before a release may tear the session down.

  The transport (TinyUSB, the scheduler, the session gate) is reached only through the function
  pointers of the two operation records, so it is a parameter: functions on an unspecified state. What
  the writer relies on is stated as \<open>transport_contract\<close>, \<open>transport_progress\<close> and
  \<open>final_wait_contract\<close>. A loop that never ends has no value (\<open>None\<close>); that the loops end is proved.
\<close>

section \<open>Model\<close>

record 's usb_cdc_tx_ops_t =
  is_connected :: "('s \<Rightarrow> bool \<times> 's) ptr"
  session_is_current :: "(u32 \<Rightarrow> 's \<Rightarrow> bool \<times> 's) ptr"
  queue :: "(byte list \<Rightarrow> 's \<Rightarrow> nat \<times> 's) ptr"
  queue_char :: "(byte \<Rightarrow> 's \<Rightarrow> nat \<times> 's) ptr"
  tx_flush :: "(u32 \<Rightarrow> 's \<Rightarrow> bool \<times> 's) ptr"
  tx_wait :: "('s \<Rightarrow> 's) ptr"
  await_endpoint :: "(u32 \<Rightarrow> 's \<Rightarrow> bool \<times> 's) ptr"
  endpoint_timeout_ms :: u32
  retry_flush_timeout_ms :: u32
  final_flush_timeout_ms :: u32

record 's usb_cdc_tx_final_wait_ops_t =
  session_current :: "('s \<Rightarrow> bool \<times> 's) ptr"
  sample :: "('s \<Rightarrow> bool \<times> u32 \<times> bool \<times> bool \<times> 's) ptr"
  now_ticks :: "('s \<Rightarrow> u32 \<times> 's) ptr"
  delay_ticks :: "(u32 \<Rightarrow> 's \<Rightarrow> 's) ptr"
  callbacks_before :: u32
  timeout_ticks :: u32
  host_grace_ticks :: u32

text \<open>The second operand of \<open>&&\<close> is called only when the first is true.\<close>

definition tx_is_current :: "'s usb_cdc_tx_ops_t \<Rightarrow> u32 \<Rightarrow> 's \<Rightarrow> bool \<times> 's" where
  "tx_is_current ops response_generation s =
     (case the (is_connected ops) s of
        (False, s) \<Rightarrow> (False, s)
      | (True, s) \<Rightarrow> the (session_is_current ops) response_generation s)"

definition usb_cdc_tx_final_in_complete :: "u32 \<Rightarrow> u32 \<Rightarrow> bool \<Rightarrow> bool \<Rightarrow> bool" where
  "usb_cdc_tx_final_in_complete before callbacks_after fifo_drained endpoint_busy \<longleftrightarrow>
     callbacks_after \<noteq> before \<and> fifo_drained \<and> \<not> endpoint_busy"

definition tx_final_in_sample_ready :: "'s usb_cdc_tx_final_wait_ops_t \<Rightarrow> 's \<Rightarrow> bool \<times> 's" where
  "tx_final_in_sample_ready ops s =
     (let (ok, after, drained, busy, s) = the (sample ops) s
      in (ok \<and> usb_cdc_tx_final_in_complete (callbacks_before ops) after drained busy, s))"

text \<open>
  The body of the \<open>do\<close> loop: \<open>Inl\<close> is a \<open>return\<close>, \<open>Inr\<close> reaches the loop condition, by the end of the
  body or by \<open>continue\<close>.
\<close>

definition final_in_body :: "'s usb_cdc_tx_final_wait_ops_t \<Rightarrow> 's \<Rightarrow> (bool \<times> 's) + 's" where
  "final_in_body ops s =
     (let (current, s) = the (session_current ops) s in
      if \<not> current then Inl (False, s)
      else let (ready, s) = tx_final_in_sample_ready ops s in
      if ready
      then let s = the (delay_ticks ops) 1 s;
               (current, s) = the (session_current ops) s in
           if \<not> current then Inl (False, s)
           else let (ready, s) = tx_final_in_sample_ready ops s in
           if \<not> ready then Inr s
           else let s = the (delay_ticks ops) (host_grace_ticks ops) s;
                    (current, s) = the (session_current ops) s in
                if \<not> current then Inl (False, s) else Inl (tx_final_in_sample_ready ops s)
      else Inr (the (delay_ticks ops) 1 s))"

partial_function (option) final_in_loop ::
    "'s usb_cdc_tx_final_wait_ops_t \<Rightarrow> u32 \<Rightarrow> 's \<Rightarrow> (bool \<times> 's) option" where
  "final_in_loop ops start s =
     (case final_in_body ops s of
        Inl r \<Rightarrow> Some r
      | Inr s \<Rightarrow> (let (now, s) = the (now_ticks ops) s in
                  if now - start < timeout_ticks ops then final_in_loop ops start s else Some (False, s)))"

fun usb_cdc_tx_wait_final_in :: "'s usb_cdc_tx_final_wait_ops_t ptr \<Rightarrow> 's \<Rightarrow> (bool \<times> 's) option" where
  "usb_cdc_tx_wait_final_in None s = Some (False, s)"
| "usb_cdc_tx_wait_final_in (Some ops) s =
     (if session_current ops = None \<or> sample ops = None \<or> now_ticks ops = None \<or> delay_ticks ops = None \<or>
         timeout_ticks ops = 0
      then Some (False, s)
      else let (start, s) = the (now_ticks ops) s in final_in_loop ops start s)"

text \<open>The callback is the release coordinator; \<open>s\<close> is its context.\<close>

fun usb_cdc_tx_complete_accepted_release ::
    "bool \<Rightarrow> bool \<Rightarrow> string ptr \<Rightarrow> (string \<Rightarrow> 's \<Rightarrow> bool \<times> 's) ptr \<Rightarrow> 's \<Rightarrow> bool \<times> 's" where
  "usb_cdc_tx_complete_accepted_release release_accepted response_complete (Some attempt_id) (Some callback) s =
     (if \<not> release_accepted \<or> \<not> response_complete then (False, s) else callback attempt_id s)"
| "usb_cdc_tx_complete_accepted_release release_accepted response_complete attempt_id callback s = (False, s)"

text \<open>One round of the queueing loop: \<open>Inl\<close> returns false, \<open>Inr\<close> goes on with a new \<open>sent\<close>.\<close>

definition tx_queue_round :: "'s usb_cdc_tx_ops_t \<Rightarrow> byte list \<Rightarrow> nat \<Rightarrow> u32 \<Rightarrow> nat \<Rightarrow> 's \<Rightarrow> 's + nat \<times> 's" where
  "tx_queue_round ops response len response_generation sent s =
     (let (current, s) = tx_is_current ops response_generation s in
      if \<not> current then Inl s
      else let (queued, s) = the (queue ops) (take (len - sent) (drop sent response)) s in
      if queued > len - sent then Inl s
      else if queued = 0
      then let (current, s) = tx_is_current ops response_generation s in
           if \<not> current then Inl s
           else let (flushed, s) = the (tx_flush ops) (retry_flush_timeout_ms ops) s in
           Inr (sent, if \<not> flushed \<and> tx_wait ops \<noteq> None then the (tx_wait ops) s else s)
      else Inr (sent + queued, s))"

partial_function (option) tx_queue_loop ::
    "'s usb_cdc_tx_ops_t \<Rightarrow> byte list \<Rightarrow> nat \<Rightarrow> u32 \<Rightarrow> nat \<Rightarrow> 's \<Rightarrow> (bool \<times> 's) option" where
  "tx_queue_loop ops response len response_generation sent s =
     (if sent < len
      then (case tx_queue_round ops response len response_generation sent s of
              Inl s \<Rightarrow> Some (False, s)
            | Inr (sent, s) \<Rightarrow> tx_queue_loop ops response len response_generation sent s)
      else Some (True, s))"

text \<open>One round of the line feed loop: \<open>Inl\<close> leaves the loop (false is a return), \<open>Inr\<close> tries again.\<close>

definition tx_newline_round :: "'s usb_cdc_tx_ops_t \<Rightarrow> u32 \<Rightarrow> 's \<Rightarrow> (bool \<times> 's) + 's" where
  "tx_newline_round ops response_generation s =
     (let (current, s) = tx_is_current ops response_generation s in
      if \<not> current then Inl (False, s)
      else let (queued, s) = the (queue_char ops) 10 s in
      if queued \<noteq> 0 then Inl (True, s)
      else let (flushed, s) = the (tx_flush ops) (retry_flush_timeout_ms ops) s in
           Inr (if tx_wait ops \<noteq> None then the (tx_wait ops) s else s))"

partial_function (option) tx_newline_loop :: "'s usb_cdc_tx_ops_t \<Rightarrow> u32 \<Rightarrow> 's \<Rightarrow> (bool \<times> 's) option" where
  "tx_newline_loop ops response_generation s =
     (case tx_newline_round ops response_generation s of
        Inl r \<Rightarrow> Some r
      | Inr s \<Rightarrow> tx_newline_loop ops response_generation s)"

text \<open>What follows the line feed.\<close>

definition tx_finish :: "'s usb_cdc_tx_ops_t \<Rightarrow> u32 \<Rightarrow> 's \<Rightarrow> bool \<times> 's" where
  "tx_finish ops response_generation s =
     (let (current, s) = tx_is_current ops response_generation s in
      if \<not> current then (False, s)
      else let (flushed, s) = the (tx_flush ops) (final_flush_timeout_ms ops) s in
      if \<not> flushed then (False, s)
      else let (arrived, s) = (case await_endpoint ops of
                                 None \<Rightarrow> (True, s) | Some await \<Rightarrow> await (endpoint_timeout_ms ops) s) in
      if \<not> arrived then (False, s)
      else the (session_is_current ops) response_generation s)"

fun usb_cdc_tx_write_response ::
    "'s usb_cdc_tx_ops_t ptr \<Rightarrow> byte list ptr \<Rightarrow> nat \<Rightarrow> u32 \<Rightarrow> 's \<Rightarrow> (bool \<times> 's) option" where
  "usb_cdc_tx_write_response None response len response_generation s = Some (False, s)"
| "usb_cdc_tx_write_response (Some ops) response len response_generation s =
     (if (response = None \<and> len \<noteq> 0) \<or> is_connected ops = None \<or> session_is_current ops = None \<or>
         queue ops = None \<or> queue_char ops = None \<or> tx_flush ops = None
      then Some (False, s)
      else case tx_queue_loop ops (case response of None \<Rightarrow> [] | Some bytes \<Rightarrow> bytes) len response_generation 0 s of
             None \<Rightarrow> None
           | Some (False, s) \<Rightarrow> Some (False, s)
           | Some (True, s) \<Rightarrow>
               (case tx_newline_loop ops response_generation s of
                  None \<Rightarrow> None
                | Some (False, s) \<Rightarrow> Some (False, s)
                | Some (True, s) \<Rightarrow> Some (tx_finish ops response_generation s)))"

section \<open>The transport\<close>

text \<open>
  What the transport's documentation promises: \<open>queue\<close> takes a prefix of the data it is given and
  reports its length, \<open>queue_char\<close> takes the character or nothing, and no other call takes bytes.
  \<open>accepted\<close> is everything the transport has taken so far.
\<close>

definition transport_contract :: "'s usb_cdc_tx_ops_t \<Rightarrow> ('s \<Rightarrow> byte list) \<Rightarrow> bool" where
  "transport_contract ops accepted \<longleftrightarrow>
     is_connected ops \<noteq> None \<and> session_is_current ops \<noteq> None \<and> queue ops \<noteq> None \<and> queue_char ops \<noteq> None \<and>
     tx_flush ops \<noteq> None \<and>
     (\<forall>s. accepted (snd (the (is_connected ops) s)) = accepted s) \<and>
     (\<forall>g s. accepted (snd (the (session_is_current ops) g s)) = accepted s) \<and>
     (\<forall>t s. accepted (snd (the (tx_flush ops) t s)) = accepted s) \<and>
     (\<forall>w s. tx_wait ops = Some w \<longrightarrow> accepted (w s) = accepted s) \<and>
     (\<forall>a t s. await_endpoint ops = Some a \<longrightarrow> accepted (snd (a t s)) = accepted s) \<and>
     (\<forall>d s. accepted (snd (the (queue ops) d s)) = accepted s @ take (fst (the (queue ops) d s)) d) \<and>
     (\<forall>c s. accepted (snd (the (queue_char ops) c s)) =
            accepted s @ (if fst (the (queue_char ops) c s) = 0 then [] else [c]))"

text \<open>
  The transport does not refuse for ever: \<open>patience\<close> bounds how often it may still refuse before it
  takes a byte. Only taking a byte may renew it.
\<close>

definition transport_progress :: "'s usb_cdc_tx_ops_t \<Rightarrow> ('s \<Rightarrow> nat) \<Rightarrow> bool" where
  "transport_progress ops patience \<longleftrightarrow>
     (\<forall>s. patience (snd (the (is_connected ops) s)) \<le> patience s) \<and>
     (\<forall>g s. patience (snd (the (session_is_current ops) g s)) \<le> patience s) \<and>
     (\<forall>t s. patience (snd (the (tx_flush ops) t s)) \<le> patience s) \<and>
     (\<forall>w s. tx_wait ops = Some w \<longrightarrow> patience (w s) \<le> patience s) \<and>
     (\<forall>d s. d \<noteq> [] \<and> fst (the (queue ops) d s) = 0 \<longrightarrow> patience (snd (the (queue ops) d s)) < patience s) \<and>
     (\<forall>c s. fst (the (queue_char ops) c s) = 0 \<longrightarrow> patience (snd (the (queue_char ops) c s)) < patience s)"

lemma tx_is_current_effect:
  assumes "tx_is_current ops g s = (c, s')"
  shows "transport_contract ops accepted \<Longrightarrow> accepted s' = accepted s"
    "transport_progress ops patience \<Longrightarrow> patience s' \<le> patience s"
proof -
  obtain c1 s1 where 1: "the (is_connected ops) s = (c1, s1)" by fastforce
  obtain c2 s2 where 2: "the (session_is_current ops) g s1 = (c2, s2)" by fastforce
  have s': "s' = (if c1 then s2 else s1)" using assms 1 2 by (auto simp: tx_is_current_def split: bool.splits)
  show "accepted s' = accepted s" if "transport_contract ops accepted"
    using that 1 2 s' unfolding transport_contract_def by (metis snd_conv)
  show "patience s' \<le> patience s" if "transport_progress ops patience"
    using that 1 2 s' unfolding transport_progress_def by (metis order_trans snd_conv)
qed

section \<open>The loops\<close>

lemma tx_queue_round_accepted:
  assumes "transport_contract ops accepted" "sent \<le> len"
  shows "case tx_queue_round ops response len g sent s of
      Inl s' \<Rightarrow> \<exists>k. accepted s' = accepted s @ take k (take (len - sent) (drop sent response))
    | Inr (sent', s') \<Rightarrow> sent \<le> sent' \<and> sent' \<le> len \<and>
        accepted s' = accepted s @ take (sent' - sent) (take (len - sent) (drop sent response))"
proof -
  let ?d = "take (len - sent) (drop sent response)"
  obtain c1 s1 where 1: "tx_is_current ops g s = (c1, s1)" by fastforce
  obtain q s2 where 2: "the (queue ops) ?d s1 = (q, s2)" by fastforce
  obtain c2 s3 where 3: "tx_is_current ops g s2 = (c2, s3)" by fastforce
  obtain f s4 where 4: "the (tx_flush ops) (retry_flush_timeout_ms ops) s3 = (f, s4)" by fastforce
  have a1: "accepted s1 = accepted s" using tx_is_current_effect(1)[OF 1 assms(1)] .
  have a2: "accepted s2 = accepted s @ take q ?d"
    using assms(1) 2 a1 unfolding transport_contract_def by (metis fst_conv snd_conv)
  have a3: "accepted s3 = accepted s2" using tx_is_current_effect(1)[OF 3 assms(1)] .
  have a4: "accepted s4 = accepted s3" using assms(1) 4 unfolding transport_contract_def by (metis snd_conv)
  have a5: "accepted (the (tx_wait ops) s4) = accepted s4" if "tx_wait ops \<noteq> None"
    using assms(1) that unfolding transport_contract_def by auto
  let ?w = "if \<not> f \<and> tx_wait ops \<noteq> None then the (tx_wait ops) s4 else s4"
  have w: "accepted ?w = accepted s2" using a3 a4 a5 by auto
  consider (stop) "\<not> c1" | (over) "c1" "len - sent < q" | (took) "c1" "q \<le> len - sent" "q \<noteq> 0"
    | (gone) "c1" "q = 0" "\<not> c2" | (retry) "c1" "q = 0" "c2" by fastforce
  then show ?thesis
  proof cases
    case stop
    then have "tx_queue_round ops response len g sent s = Inl s1" by (simp add: tx_queue_round_def 1)
    then show ?thesis using a1 by (auto intro: exI[of _ 0])
  next
    case over
    then have "tx_queue_round ops response len g sent s = Inl s2" by (simp add: tx_queue_round_def 1 2)
    then show ?thesis using a2 by auto
  next
    case took
    then have "tx_queue_round ops response len g sent s = Inr (sent + q, s2)" by (simp add: tx_queue_round_def 1 2)
    then show ?thesis using a2 took assms(2) by simp
  next
    case gone
    then have "tx_queue_round ops response len g sent s = Inl s3" by (simp add: tx_queue_round_def 1 2 3)
    then show ?thesis using a2 a3 gone by (auto intro: exI[of _ 0])
  next
    case retry
    then have "tx_queue_round ops response len g sent s = Inr (sent, ?w)" by (simp add: tx_queue_round_def 1 2 3 4)
    then show ?thesis using a2 w retry assms(2) by simp
  qed
qed

lemma take_glue:
  assumes "n \<le> m"
  shows "take n r @ take k (take (m - n) (drop n r)) = take (min (n + k) m) r"
proof -
  have "min (n + k) m = n + min k (m - n)" using assms by (auto simp: min_def)
  then show ?thesis by (simp add: take_add)
qed

lemma tx_queue_loop_accepted:
  fixes accepted :: "'s \<Rightarrow> byte list"
  assumes "transport_contract ops accepted"
    "tx_queue_loop ops response len g sent s = Some (ok, s')" "sent \<le> len" "len \<le> length response"
    "accepted s = a @ take sent response"
  shows "\<exists>k \<le> len. accepted s' = a @ take k response \<and> (ok \<longrightarrow> k = len)"
proof -
  have "sent \<le> len \<longrightarrow> accepted s = a @ take sent response \<longrightarrow> (len \<le> length response \<longrightarrow> transport_contract ops accepted \<longrightarrow>
    (\<exists>k \<le> len. accepted (snd (ok, s')) = a @ take k response \<and> (fst (ok, s') \<longrightarrow> k = len)))"
  proof (rule tx_queue_loop.raw_induct[OF _ assms(2)], intro impI)
    fix rec and ops :: "'s usb_cdc_tx_ops_t" and response len g sent s r
    assume ih: "\<And>ops response len g sent s r. rec ops response len g sent s = Some r \<Longrightarrow>
        sent \<le> len \<longrightarrow> accepted s = a @ take sent response \<longrightarrow> (len \<le> length response \<longrightarrow> transport_contract ops accepted \<longrightarrow>
        (\<exists>k \<le> len. accepted (snd r) = a @ take k response \<and> (fst r \<longrightarrow> k = len)))"
      and step: "(if sent < len
        then (case tx_queue_round ops response len g sent s of
              Inl s \<Rightarrow> Some (False, s)
            | Inr (sent, s) \<Rightarrow> rec ops response len g sent s)
        else Some (True, s)) = Some r"
      and le: "sent \<le> len" "accepted s = a @ take sent response" "len \<le> length response"
      and con: "transport_contract ops accepted"
    note rnd = tx_queue_round_accepted[OF con le(1), where response = response and g = g and s = s]
    note glue = take_glue[OF le(1), where r = response]
    show "\<exists>k \<le> len. accepted (snd r) = a @ take k response \<and> (fst r \<longrightarrow> k = len)"
    proof (cases "sent < len")
      case False
      then show ?thesis using step le by auto
    next
      case True
      show ?thesis
      proof (cases "tx_queue_round ops response len g sent s")
        case (Inl s1)
        then obtain k where "accepted s1 = accepted s @ take k (take (len - sent) (drop sent response))" using rnd by auto
        then have "accepted s1 = a @ take (min (sent + k) len) response" using le(2) glue[of k] by simp
        moreover have "r = (False, s1)" using step True Inl by simp
        ultimately show ?thesis by (intro exI[of _ "min (sent + k) len"]) simp
      next
        case (Inr p)
        obtain sent1 s1 where p: "p = (sent1, s1)" by fastforce
        have r1: "sent \<le> sent1" "sent1 \<le> len"
          "accepted s1 = accepted s @ take (sent1 - sent) (take (len - sent) (drop sent response))"
          using rnd Inr p by auto
        then have "accepted s1 = a @ take sent1 response" using glue[of "sent1 - sent"] le(2) by simp
        moreover have "rec ops response len g sent1 s1 = Some r" using step True Inr p by simp
        ultimately show ?thesis using ih[of ops response len g sent1 s1 r] r1(2) le(3) con by blast
      qed
    qed
  qed
  then show ?thesis using assms by simp
qed

lemma tx_newline_round_accepted:
  assumes "transport_contract ops accepted"
  shows "case tx_newline_round ops g s of
      Inl (ok, s') \<Rightarrow> accepted s' = accepted s @ (if ok then [10] else [])
    | Inr s' \<Rightarrow> accepted s' = accepted s"
proof -
  obtain c1 s1 where 1: "tx_is_current ops g s = (c1, s1)" by fastforce
  obtain q s2 where 2: "the (queue_char ops) 10 s1 = (q, s2)" by fastforce
  obtain f s3 where 3: "the (tx_flush ops) (retry_flush_timeout_ms ops) s2 = (f, s3)" by fastforce
  have a: "accepted s1 = accepted s" using tx_is_current_effect(1)[OF 1 assms] .
  have b: "accepted s2 = accepted s1 @ (if q = 0 then [] else [10])"
    using assms 2 unfolding transport_contract_def by (metis fst_conv snd_conv)
  have c: "accepted s3 = accepted s2" using assms 3 unfolding transport_contract_def by (metis snd_conv)
  have d: "tx_wait ops \<noteq> None \<Longrightarrow> accepted (the (tx_wait ops) s3) = accepted s3"
    using assms unfolding transport_contract_def by auto
  show ?thesis
  proof (cases "c1 \<and> q = 0")
    case True
    then have "tx_newline_round ops g s = Inr (if tx_wait ops \<noteq> None then the (tx_wait ops) s3 else s3)"
      by (simp add: tx_newline_round_def 1 2 3)
    then show ?thesis using a b c d True by simp
  next
    case False
    then have "tx_newline_round ops g s = Inl (if c1 then (True, s2) else (False, s1))"
      by (auto simp: tx_newline_round_def 1 2)
    then show ?thesis using a b False by (cases c1) auto
  qed
qed

lemma tx_newline_loop_accepted:
  assumes "transport_contract ops accepted" "tx_newline_loop ops g s = Some r"
  shows "accepted (snd r) = accepted s @ (if fst r then [10] else [])"
  using assms(1)
proof (induction rule: tx_newline_loop.raw_induct[OF _ assms(2), consumes 0])
  case (1 rec ops g s r)
  note rnd = tx_newline_round_accepted[OF 1(3), where g = g and s = s]
  show ?case
  proof (cases "tx_newline_round ops g s")
    case (Inl p)
    then show ?thesis using 1(2) rnd by (cases r) simp
  next
    case (Inr s1)
    then show ?thesis using 1(1)[of ops g s1 r] 1(2,3) rnd by simp
  qed
qed

lemma tx_finish_effect:
  assumes "transport_contract ops accepted" "tx_finish ops g s = (ok, s')"
  shows "accepted s' = accepted s"
    "ok \<Longrightarrow> \<exists>s1 s2 s3. the (tx_flush ops) (final_flush_timeout_ms ops) s1 = (True, s2) \<and>
       (case await_endpoint ops of None \<Rightarrow> s3 = s2 | Some await \<Rightarrow> await (endpoint_timeout_ms ops) s2 = (True, s3)) \<and>
       the (session_is_current ops) g s3 = (True, s')"
proof -
  obtain c1 s1 where 1: "tx_is_current ops g s = (c1, s1)" by fastforce
  obtain f s2 where 2: "the (tx_flush ops) (final_flush_timeout_ms ops) s1 = (f, s2)" by fastforce
  obtain w s3 where 3: "(case await_endpoint ops of None \<Rightarrow> (True, s2) | Some await \<Rightarrow> await (endpoint_timeout_ms ops) s2) = (w, s3)"
    by fastforce
  obtain c4 s4 where 4: "the (session_is_current ops) g s3 = (c4, s4)" by fastforce
  have a: "accepted s1 = accepted s" using tx_is_current_effect(1)[OF 1 assms(1)] .
  have b: "accepted s2 = accepted s1" using assms(1) 2 unfolding transport_contract_def by (metis snd_conv)
  have "\<forall>a t s. await_endpoint ops = Some a \<longrightarrow> accepted (snd (a t s)) = accepted s"
    using assms(1) unfolding transport_contract_def by blast
  then have c: "accepted s3 = accepted s2" using 3 by (cases "await_endpoint ops") (auto, metis snd_conv)
  have d: "accepted s4 = accepted s3" using assms(1) 4 unfolding transport_contract_def by (metis snd_conv)
  have r: "(ok, s') = (if \<not> c1 then (False, s1) else if \<not> f then (False, s2) else if \<not> w then (False, s3) else (c4, s4))"
    using assms(2) 1 2 3 4 by (auto simp: tx_finish_def)
  show "accepted s' = accepted s" using r a b c d by (auto split: if_splits)
  assume ok
  then have "f" "w" "c4" "s' = s4" using r by (auto split: if_splits)
  then show "\<exists>s1 s2 s3. the (tx_flush ops) (final_flush_timeout_ms ops) s1 = (True, s2) \<and>
       (case await_endpoint ops of None \<Rightarrow> s3 = s2 | Some await \<Rightarrow> await (endpoint_timeout_ms ops) s2 = (True, s3)) \<and>
       the (session_is_current ops) g s3 = (True, s')"
    using 2 3 4 by (intro exI[of _ s1] exI[of _ s2] exI[of _ s3]) (auto split: option.splits)
qed

text \<open>
  C28: What reaches the host is never garbled. Whatever the transport does (short writes, refusals,
  disconnects), the bytes it has taken are a prefix of the response followed by its line feed. Success
  is reported only when all of them were taken, the final flush and, where it is required, the
  endpoint wait succeeded, and the session was still the originating one at the very end.
\<close>

theorem write_response_exact:
  assumes "transport_contract ops accepted"
    "usb_cdc_tx_write_response (Some ops) (Some response) (length response) g s = Some (ok, s')"
  shows "\<exists>sent. accepted s' = accepted s @ sent \<and> prefix sent (response @ [10]) \<and>
    (ok \<longrightarrow> sent = response @ [10] \<and>
      (\<exists>s1 s2 s3. the (tx_flush ops) (final_flush_timeout_ms ops) s1 = (True, s2) \<and>
         (case await_endpoint ops of None \<Rightarrow> s3 = s2 | Some await \<Rightarrow> await (endpoint_timeout_ms ops) s2 = (True, s3)) \<and>
         the (session_is_current ops) g s3 = (True, s')))"
proof -
  have nn: "\<not> (is_connected ops = None \<or> session_is_current ops = None \<or> queue ops = None \<or> queue_char ops = None \<or> tx_flush ops = None)"
    using assms(1) by (auto simp: transport_contract_def)
  obtain ok1 s1 where 1: "tx_queue_loop ops response (length response) g 0 s = Some (ok1, s1)"
    using assms(2) nn by (auto split: option.splits)
  obtain k where k: "k \<le> length response" "accepted s1 = accepted s @ take k response" "ok1 \<longrightarrow> k = length response"
    using tx_queue_loop_accepted[OF assms(1) 1, of "accepted s"] by auto
  have pre: "prefix (take n response) (response @ [10])" for n
    by (metis take_is_prefix prefix_prefix)
  show ?thesis
  proof (cases ok1)
    case False
    then have "ok = False" "s' = s1" using assms(2) nn 1 by auto
    then show ?thesis using k(2) pre by auto
  next
    case True
    obtain ok2 s2 where 2: "tx_newline_loop ops g s1 = Some (ok2, s2)"
      using assms(2) nn 1 True by (auto split: option.splits)
    have a2: "accepted s2 = accepted s @ response @ (if ok2 then [10] else [])"
      using tx_newline_loop_accepted[OF assms(1) 2] k True by simp
    show ?thesis
    proof (cases ok2)
      case False
      then have "ok = False" "s' = s2" using assms(2) nn 1 2 True by auto
      then show ?thesis using a2 False by auto
    next
      case ok2: True
      then have f: "tx_finish ops g s2 = (ok, s')" using assms(2) nn 1 2 True by auto
      show ?thesis using a2 ok2 tx_finish_effect[OF assms(1) f] by (intro exI[of _ "response @ [10]"]) simp
    qed
  qed
qed

text \<open>A transport that takes at most two bytes at a time; the state is what it has taken.\<close>

definition two_byte_transport :: "byte list usb_cdc_tx_ops_t" where
  "two_byte_transport = \<lparr>is_connected = Some (\<lambda>s. (True, s)), session_is_current = Some (\<lambda>g s. (g = 7, s)),
     queue = Some (\<lambda>d s. (min 2 (length d), s @ take 2 d)), queue_char = Some (\<lambda>c s. (1, s @ [c])),
     tx_flush = Some (\<lambda>t s. (True, s)), tx_wait = None, await_endpoint = None, endpoint_timeout_ms = 0,
     retry_flush_timeout_ms = 10, final_flush_timeout_ms = 10\<rparr>"

lemma two_byte_transport_contract: "transport_contract two_byte_transport (\<lambda>s. s)"
  by (simp add: transport_contract_def two_byte_transport_def take_Cons min_def)

lemma two_byte_transport_run:
  "usb_cdc_tx_write_response (Some two_byte_transport) (Some [1, 2, 3]) (length [1, 2, 3 :: byte]) 7 [] =
    Some (True, [1, 2, 3, 10])"
  by (simp add: tx_queue_loop.simps tx_newline_loop.simps tx_queue_round_def tx_newline_round_def tx_finish_def
      tx_is_current_def two_byte_transport_def)

theorem write_response_exact_witness:
  "\<exists>sent. [1, 2, 3, 10] = [] @ sent \<and> prefix sent ([1, 2, 3] @ [10 :: byte])"
  using write_response_exact[OF two_byte_transport_contract two_byte_transport_run] by blast

section \<open>The loops end\<close>

lemma tx_queue_round_progress:
  assumes "transport_progress ops patience" "sent < len" "len \<le> length response"
    "tx_queue_round ops response len g sent s = Inr (sent', s')"
  shows "sent < sent' \<and> sent' \<le> len \<or> sent' = sent \<and> patience s' < patience s"
proof -
  let ?d = "take (len - sent) (drop sent response)"
  obtain c1 s1 where 1: "tx_is_current ops g s = (c1, s1)" by fastforce
  obtain q s2 where 2: "the (queue ops) ?d s1 = (q, s2)" by fastforce
  obtain c2 s3 where 3: "tx_is_current ops g s2 = (c2, s3)" by fastforce
  obtain f s4 where 4: "the (tx_flush ops) (retry_flush_timeout_ms ops) s3 = (f, s4)" by fastforce
  have r: "c1" "q \<le> len - sent" using assms(4) by (auto simp: tx_queue_round_def 1 2 split: if_splits)
  show ?thesis
  proof (cases "q = 0")
    case False
    then have "sent' = sent + q" using assms(4) r by (simp add: tx_queue_round_def 1 2)
    then show ?thesis using False assms(2) r(2) by linarith
  next
    case True
    then have s': "sent' = sent" "s' = (if \<not> f \<and> tx_wait ops \<noteq> None then the (tx_wait ops) s4 else s4)"
      using assms(4) r by (auto simp: tx_queue_round_def 1 2 3 4 split: if_splits)
    have "?d \<noteq> []" using assms(2,3) by simp
    then have "patience s2 < patience s1"
      using assms(1) 2 True unfolding transport_progress_def by (metis fst_conv snd_conv)
    moreover have "patience s1 \<le> patience s" "patience s3 \<le> patience s2"
      using tx_is_current_effect(2)[OF 1 assms(1)] tx_is_current_effect(2)[OF 3 assms(1)] .
    moreover have "patience s4 \<le> patience s3" using assms(1) 4 unfolding transport_progress_def by (metis snd_conv)
    moreover have "patience s' \<le> patience s4" using assms(1) s'(2) unfolding transport_progress_def by auto
    ultimately show ?thesis using s'(1) by simp
  qed
qed

lemma tx_queue_loop_returns:
  assumes "transport_progress ops patience" "len \<le> length response"
  shows "tx_queue_loop ops response len g sent s \<noteq> None"
proof (induction "(len - sent, patience s)" arbitrary: sent s rule: wf_induct_rule[OF wf_lex_prod[OF wf_less_than wf_less_than]])
  case 1
  show ?case
  proof (cases "sent < len")
    case False
    then show ?thesis by (simp add: tx_queue_loop.simps)
  next
    case True
    show ?thesis
    proof (cases "tx_queue_round ops response len g sent s")
      case (Inl s1)
      then show ?thesis using True by (simp add: tx_queue_loop.simps)
    next
      case (Inr p)
      obtain sent1 s1 where p: "p = (sent1, s1)" by fastforce
      have "sent < sent1 \<and> sent1 \<le> len \<or> sent1 = sent \<and> patience s1 < patience s"
        using tx_queue_round_progress[OF assms(1) True assms(2)] Inr p by simp
      then have "((len - sent1, patience s1), (len - sent, patience s)) \<in> less_than <*lex*> less_than"
        using True by auto
      from 1[OF this] show ?thesis using True Inr p by (subst tx_queue_loop.simps) simp
    qed
  qed
qed

lemma tx_newline_round_progress:
  assumes "transport_progress ops patience" "tx_newline_round ops g s = Inr s'"
  shows "patience s' < patience s"
proof -
  obtain c1 s1 where 1: "tx_is_current ops g s = (c1, s1)" by fastforce
  obtain q s2 where 2: "the (queue_char ops) 10 s1 = (q, s2)" by fastforce
  obtain f s3 where 3: "the (tx_flush ops) (retry_flush_timeout_ms ops) s2 = (f, s3)" by fastforce
  have q: "q = 0" and s': "s' = (if tx_wait ops \<noteq> None then the (tx_wait ops) s3 else s3)"
    using assms(2) by (auto simp: tx_newline_round_def 1 2 3 split: if_splits)
  have "patience s1 \<le> patience s" using tx_is_current_effect(2)[OF 1 assms(1)] .
  moreover have "patience s2 < patience s1"
    using assms(1) 2 q unfolding transport_progress_def by (metis fst_conv snd_conv)
  moreover have "patience s3 \<le> patience s2" using assms(1) 3 unfolding transport_progress_def by (metis snd_conv)
  moreover have "patience s' \<le> patience s3" using assms(1) s' unfolding transport_progress_def by auto
  ultimately show ?thesis by simp
qed

lemma tx_newline_loop_returns:
  assumes "transport_progress ops patience"
  shows "tx_newline_loop ops g s \<noteq> None"
proof (induction "patience s" arbitrary: s rule: less_induct)
  case less
  show ?case
  proof (cases "tx_newline_round ops g s")
    case (Inl r)
    then show ?thesis by (simp add: tx_newline_loop.simps)
  next
    case (Inr s1)
    from less[OF tx_newline_round_progress[OF assms Inr]] show ?thesis
      using Inr by (subst tx_newline_loop.simps) simp
  qed
qed

text \<open>
  C29: Writing a response always returns, provided the transport does not refuse bytes for ever.
\<close>

theorem write_response_returns:
  assumes "transport_progress ops patience"
  shows "\<exists>ok s'. usb_cdc_tx_write_response (Some ops) (Some response) (length response) g s = Some (ok, s')"
proof -
  obtain ok1 s1 where 1: "tx_queue_loop ops response (length response) g 0 s = Some (ok1, s1)"
    using tx_queue_loop_returns[OF assms, of "length response" response g 0 s] by auto
  obtain ok2 s2 where 2: "tx_newline_loop ops g s1 = Some (ok2, s2)"
    using tx_newline_loop_returns[OF assms, of g s1] by auto
  obtain ok3 s3 where 3: "tx_finish ops g s2 = (ok3, s3)" by fastforce
  have "usb_cdc_tx_write_response (Some ops) (Some response) (length response) g s \<noteq> None"
    using 1 2 3 by (cases ok1; cases ok2) (simp_all del: not_None_eq)
  then show ?thesis by auto
qed

theorem write_response_returns_witness:
  "\<exists>ok s'. usb_cdc_tx_write_response (Some two_byte_transport) (Some [1, 2, 3]) (length [1, 2, 3 :: byte]) 7 [] = Some (ok, s')"
proof -
  have "transport_progress two_byte_transport (\<lambda>s. 0)"
    by (simp add: transport_progress_def two_byte_transport_def min_def)
  then show ?thesis by (rule write_response_returns)
qed

section \<open>Waiting for the final USB IN transaction\<close>

text \<open>
  The scheduler clock: \<open>clock\<close> is the number of ticks since boot, \<open>now_ticks\<close> reports it modulo \<open>2\<^sup>32\<close>,
  a delay of \<open>n\<close> ticks lets at least \<open>n\<close> pass, and no call takes more than \<open>d\<close> ticks longer than it was
  asked to.
\<close>

definition final_wait_contract :: "'s usb_cdc_tx_final_wait_ops_t \<Rightarrow> ('s \<Rightarrow> nat) \<Rightarrow> nat \<Rightarrow> bool" where
  "final_wait_contract ops clock d \<longleftrightarrow>
     session_current ops \<noteq> None \<and> sample ops \<noteq> None \<and> now_ticks ops \<noteq> None \<and> delay_ticks ops \<noteq> None \<and>
     (\<forall>s. clock s \<le> clock (snd (the (session_current ops) s)) \<and> clock (snd (the (session_current ops) s)) \<le> clock s + d) \<and>
     (\<forall>s ok a f b s'. the (sample ops) s = (ok, a, f, b, s') \<longrightarrow> clock s \<le> clock s' \<and> clock s' \<le> clock s + d) \<and>
     (\<forall>s. clock s \<le> clock (snd (the (now_ticks ops) s)) \<and> clock (snd (the (now_ticks ops) s)) \<le> clock s + d \<and>
          fst (the (now_ticks ops) s) = of_nat (clock (snd (the (now_ticks ops) s)))) \<and>
     (\<forall>n s. clock s + unat n \<le> clock (the (delay_ticks ops) n s) \<and> clock (the (delay_ticks ops) n s) \<le> clock s + unat n + d)"

text \<open>The observation that a successful wait ends with.\<close>

definition final_in_observed :: "'s usb_cdc_tx_final_wait_ops_t \<Rightarrow> 's \<Rightarrow> bool" where
  "final_in_observed ops s' \<longleftrightarrow>
     (\<exists>s1 s2 after. the (session_current ops) s1 = (True, s2) \<and>
        the (sample ops) s2 = (True, after, True, False, s') \<and> after \<noteq> callbacks_before ops)"

lemma sample_ready_clock:
  assumes "final_wait_contract ops clock d" "tx_final_in_sample_ready ops s = (ready, s')"
  shows "clock s \<le> clock s' \<and> clock s' \<le> clock s + d"
proof -
  obtain ok a f b s1 where 1: "the (sample ops) s = (ok, a, f, b, s1)" by (metis prod_cases5)
  moreover have "s' = s1" using assms(2) 1 by (simp add: tx_final_in_sample_ready_def)
  ultimately show ?thesis using assms(1) unfolding final_wait_contract_def by blast
qed

lemma sample_ready_evidence:
  assumes "tx_final_in_sample_ready ops s = (True, s')"
  shows "\<exists>after. the (sample ops) s = (True, after, True, False, s') \<and> after \<noteq> callbacks_before ops"
  using assms by (auto simp: tx_final_in_sample_ready_def usb_cdc_tx_final_in_complete_def split: prod.splits)

lemma session_clock:
  assumes "final_wait_contract ops clock d" "the (session_current ops) s = (c, s')"
  shows "clock s \<le> clock s' \<and> clock s' \<le> clock s + d"
  using assms unfolding final_wait_contract_def by (metis snd_conv)

text \<open>A round that goes on takes at least one tick; a round that returns is bounded by the grace period.\<close>

lemma final_in_body_clock:
  assumes c: "final_wait_contract ops clock d"
  shows "case final_in_body ops s of
      Inl (ok, s') \<Rightarrow> clock s' \<le> clock s + unat (host_grace_ticks ops) + 8 * d + 1 \<and> (ok \<longrightarrow> final_in_observed ops s')
    | Inr s' \<Rightarrow> clock s + 1 \<le> clock s' \<and> clock s' \<le> clock s + 5 * d + 1"
proof -
  obtain c1 s1 where 1: "the (session_current ops) s = (c1, s1)" by fastforce
  obtain r2 s2 where 2: "tx_final_in_sample_ready ops s1 = (r2, s2)" by fastforce
  define s3 where 3: "s3 = the (delay_ticks ops) 1 s2"
  obtain c4 s4 where 4: "the (session_current ops) s3 = (c4, s4)" by fastforce
  obtain r5 s5 where 5: "tx_final_in_sample_ready ops s4 = (r5, s5)" by fastforce
  define s6 where 6: "s6 = the (delay_ticks ops) (host_grace_ticks ops) s5"
  obtain c7 s7 where 7: "the (session_current ops) s6 = (c7, s7)" by fastforce
  obtain r8 s8 where 8: "tx_final_in_sample_ready ops s7 = (r8, s8)" by fastforce
  have k1: "clock s \<le> clock s1 \<and> clock s1 \<le> clock s + d" by (rule session_clock[OF c 1])
  have k2: "clock s1 \<le> clock s2 \<and> clock s2 \<le> clock s1 + d" by (rule sample_ready_clock[OF c 2])
  have k3: "clock s2 + 1 \<le> clock s3 \<and> clock s3 \<le> clock s2 + 1 + d"
    using c 3 unfolding final_wait_contract_def by (metis unat_1)
  have k4: "clock s3 \<le> clock s4 \<and> clock s4 \<le> clock s3 + d" by (rule session_clock[OF c 4])
  have k5: "clock s4 \<le> clock s5 \<and> clock s5 \<le> clock s4 + d" by (rule sample_ready_clock[OF c 5])
  have k6: "clock s6 \<le> clock s5 + unat (host_grace_ticks ops) + d"
    using c 6 unfolding final_wait_contract_def by metis
  have k7: "clock s7 \<le> clock s6 + d" using session_clock[OF c 7] by simp
  have k8: "clock s8 \<le> clock s7 + d" using sample_ready_clock[OF c 8] by simp
  have body: "final_in_body ops s =
      (if \<not> c1 then Inl (False, s1) else if \<not> r2 then Inr s3 else if \<not> c4 then Inl (False, s4)
       else if \<not> r5 then Inr s5 else if \<not> c7 then Inl (False, s7) else Inl (r8, s8))"
    by (simp add: final_in_body_def 1 2 4 5 7 8 flip: 3 6)
  have ev: "final_in_observed ops s8" if "c7" "r8"
    using that 7 8 sample_ready_evidence[of ops s7 s8] unfolding final_in_observed_def by auto
  show ?thesis unfolding body using k1 k2 k3 k4 k5 k6 k7 k8 ev by auto
qed

lemma elapsed_ticks:
  assumes "a \<le> b" "b - a < 2 ^ 32"
  shows "unat (of_nat b - of_nat a :: u32) = b - a"
proof -
  have "(of_nat b - of_nat a :: u32) = of_nat (b - a)" using assms(1) by (simp add: of_nat_diff)
  then show ?thesis using assms(2) by (simp add: unat_of_nat_small)
qed

lemma final_in_loop_bounded:
  assumes c: "final_wait_contract ops clock d"
    and t: "unat (timeout_ticks ops) + 6 * d + 1 < 2 ^ 32"
    and st: "st \<le> clock s" "clock s - st < unat (timeout_ticks ops)"
  shows "\<exists>ok s'. final_in_loop ops (of_nat st) s = Some (ok, s') \<and> (ok \<longrightarrow> final_in_observed ops s') \<and>
    clock s' \<le> st + unat (timeout_ticks ops) + unat (host_grace_ticks ops) + 8 * d"
  using st
proof (induction "st + unat (timeout_ticks ops) - clock s" arbitrary: s rule: less_induct)
  case less
  note body = final_in_body_clock[OF c, of s]
  show ?case
  proof (cases "final_in_body ops s")
    case (Inl r)
    obtain ok s' where r: "r = (ok, s')" by fastforce
    have "clock s' \<le> clock s + unat (host_grace_ticks ops) + 8 * d + 1" "ok \<longrightarrow> final_in_observed ops s'"
      using body Inl r by auto
    then show ?thesis using less.prems Inl r by (subst final_in_loop.simps) simp
  next
    case (Inr s1)
    obtain n s2 where n: "the (now_ticks ops) s1 = (n, s2)" by fastforce
    have s1: "clock s + 1 \<le> clock s1" "clock s1 \<le> clock s + 5 * d + 1" using body Inr by auto
    have s2: "clock s1 \<le> clock s2" "clock s2 \<le> clock s1 + d" "n = of_nat (clock s2)"
      using c n unfolding final_wait_contract_def by (metis fst_conv snd_conv)+
    have le: "st \<le> clock s2" "clock s2 - st < unat (timeout_ticks ops) + 6 * d + 1" using s1 s2 less.prems by linarith+
    then have el: "unat (n - of_nat st) = clock s2 - st" using elapsed_ticks[of st "clock s2"] t s2(3) by simp
    have step: "final_in_loop ops (of_nat st) s =
        (if clock s2 - st < unat (timeout_ticks ops) then final_in_loop ops (of_nat st) s2 else Some (False, s2))"
      using Inr n el by (subst final_in_loop.simps) (simp add: word_less_nat_alt)
    show ?thesis
    proof (cases "clock s2 - st < unat (timeout_ticks ops)")
      case True
      then have "st + unat (timeout_ticks ops) - clock s2 < st + unat (timeout_ticks ops) - clock s"
        using s1 s2 less.prems by linarith
      then show ?thesis using less.hyps[of s2] True le step by simp
    next
      case False
      moreover have "clock s2 \<le> st + unat (timeout_ticks ops) + unat (host_grace_ticks ops) + 8 * d"
        using s1 s2 less.prems by linarith
      ultimately show ?thesis using step by (intro exI[of _ False] exI[of _ s2]) simp
    qed
  qed
qed

text \<open>
  C30: The wait before a release always ends, within its timeout plus the grace period and at most nine
  calls' overhead, also when the 32-bit tick counter wraps during it. It reports success only when, in
  a session still current, its last look at the endpoint showed a completion callback newer than the
  baseline, an empty FIFO and an idle endpoint.
\<close>

theorem wait_final_in_bounded:
  assumes "final_wait_contract ops clock d" "timeout_ticks ops \<noteq> 0" "unat (timeout_ticks ops) + 6 * d + 1 < 2 ^ 32"
  shows "\<exists>ok s'. usb_cdc_tx_wait_final_in (Some ops) s = Some (ok, s') \<and> (ok \<longrightarrow> final_in_observed ops s') \<and>
    clock s' \<le> clock s + unat (timeout_ticks ops) + unat (host_grace_ticks ops) + 9 * d"
proof -
  obtain n s1 where n: "the (now_ticks ops) s = (n, s1)" by fastforce
  have s1: "clock s \<le> clock s1" "clock s1 \<le> clock s + d" "n = of_nat (clock s1)"
    using assms(1) n unfolding final_wait_contract_def by (metis fst_conv snd_conv)+
  have w: "usb_cdc_tx_wait_final_in (Some ops) s = final_in_loop ops (of_nat (clock s1)) s1"
    using assms(1,2) n s1(3) by (auto simp: final_wait_contract_def)
  have "0 < unat (timeout_ticks ops)" using assms(2) by (simp add: unat_gt_0)
  then obtain ok s' where "final_in_loop ops (of_nat (clock s1)) s1 = Some (ok, s')" "ok \<longrightarrow> final_in_observed ops s'"
    "clock s' \<le> clock s1 + unat (timeout_ticks ops) + unat (host_grace_ticks ops) + 8 * d"
    using final_in_loop_bounded[OF assms(1,3), of "clock s1" s1] by auto
  then show ?thesis using w s1(2) by (intro exI[of _ ok] exI[of _ s']) simp
qed

text \<open>An endpoint that never completes; the state is the tick counter.\<close>

definition stuck_endpoint :: "nat usb_cdc_tx_final_wait_ops_t" where
  "stuck_endpoint = \<lparr>session_current = Some (\<lambda>s. (True, s)), sample = Some (\<lambda>s. (True, 5, False, True, s)),
     now_ticks = Some (\<lambda>s. (of_nat s, s)), delay_ticks = Some (\<lambda>n s. s + unat n),
     callbacks_before = 5, timeout_ticks = 2, host_grace_ticks = 3\<rparr>"

theorem wait_final_in_bounded_witness:
  "\<exists>ok s'. usb_cdc_tx_wait_final_in (Some stuck_endpoint) (0 :: nat) = Some (ok, s') \<and> s' \<le> 5"
proof -
  have "final_wait_contract stuck_endpoint (\<lambda>s. s) 0" by (simp add: final_wait_contract_def stuck_endpoint_def)
  from wait_final_in_bounded[OF this, of 0] show ?thesis by (auto simp: stuck_endpoint_def)
qed

end
