(* ===== verification/C_String.thy ===== *)
theory C_String
  imports Recorder_Config
begin

text \<open>
  The C string and memory scans that the metadata modules share. A buffer is the list of its
  characters; a scan that the source bounds by a length gets the bounded list, one that stops at the
  terminator gets the list from the pointer on, whose end stands for the terminator.
\<close>

section \<open>Scans\<close>

abbreviation NUL :: char where "NUL \<equiv> CHR 0x00"

text \<open>\<open>strchr\<close>: the offset of the first occurrence before the terminator.\<close>

fun c_strchr :: "char \<Rightarrow> string \<Rightarrow> nat option" where
  "c_strchr c [] = None"
| "c_strchr c (x # xs) = (if x = c then Some 0 else if x = NUL then None else map_option Suc (c_strchr c xs))"

text \<open>The bounded \<open>memmem\<close> loop: the offset of the first occurrence of a needle.\<close>

fun memfind :: "string \<Rightarrow> string \<Rightarrow> nat option" where
  "memfind ndl [] = None"
| "memfind ndl (x # xs) =
     (if ndl = [] then None else if take (length ndl) (x # xs) = ndl then Some 0 else map_option Suc (memfind ndl xs))"

text \<open>Reading one character; past the end of the buffer it is taken to be the terminator.\<close>

definition mem_at :: "string \<Rightarrow> nat \<Rightarrow> char" where
  "mem_at mem i = (if i < length mem then mem ! i else NUL)"

definition is_blank :: "char \<Rightarrow> bool" where
  "is_blank c \<longleftrightarrow> c = CHR '' '' \<or> c = CHR 0x09"

definition ascii_digit :: "char \<Rightarrow> bool" where
  "ascii_digit c \<longleftrightarrow> (48::nat) \<le> of_char c \<and> of_char c \<le> (57::nat)"

definition digit_val :: "char \<Rightarrow> nat" where
  "digit_val c = of_char c - 48"

definition digit_char :: "nat \<Rightarrow> char" where
  "digit_char d = char_of (48 + d)"

text \<open>Text that needs no escaping in a JSON string: the loop shared by all writers.\<close>

definition json_clean :: "char \<Rightarrow> bool" where
  "json_clean c \<longleftrightarrow> c \<noteq> CHR 0x22 \<and> c \<noteq> CHR 0x5C \<and> (0x20::nat) \<le> of_char c"

text \<open>\<open>snprintf\<close> into a buffer of \<open>size\<close> bytes: \<open>None\<close> when the text and its terminator do not fit.\<close>

definition snprintf_fits :: "nat \<Rightarrow> string \<Rightarrow> string option" where
  "snprintf_fits out_size s = (if length s < out_size then Some s else None)"

section \<open>Lemmas\<close>

lemma c_strchr_append:
  assumes "c \<notin> set xs" "NUL \<notin> set xs"
  shows "c_strchr c (xs @ c # ys) = Some (length xs)"
  using assms by (induction xs) auto

lemma c_strchr_some:
  "c_strchr c xs = Some i \<Longrightarrow> i < length xs \<and> xs ! i = c \<and> c \<notin> set (take i xs)"
  by (induction xs arbitrary: i) (auto split: if_splits)

lemma memfind_some:
  "memfind ndl hay = Some i \<Longrightarrow> ndl \<noteq> [] \<and> take (length ndl) (drop i hay) = ndl \<and> i + length ndl \<le> length hay"
proof (induction hay arbitrary: i)
  case (Cons x xs)
  show ?case
  proof (cases "take (length ndl) (x # xs) = ndl")
    case True
    then have "length ndl \<le> length (x # xs)" by (metis length_take min.cobounded1)
    then show ?thesis using True Cons.prems by (auto split: if_splits)
  next
    case False
    then obtain j where "memfind ndl xs = Some j" "i = Suc j" "ndl \<noteq> []" using Cons.prems by (auto split: if_splits)
    then show ?thesis using Cons.IH[of j] by simp
  qed
qed simp

lemma memfind_least:
  "memfind ndl hay = Some i \<Longrightarrow> j < i \<Longrightarrow> take (length ndl) (drop j hay) \<noteq> ndl"
proof (induction hay arbitrary: i j)
  case (Cons x xs)
  show ?case
  proof (cases j)
    case 0
    then show ?thesis using Cons.prems by (auto split: if_splits)
  next
    case (Suc k)
    then obtain l where "memfind ndl xs = Some l" "i = Suc l" using Cons.prems by (auto split: if_splits)
    then show ?thesis using Cons.IH[of l k] Cons.prems(2) Suc by simp
  qed
qed simp

lemma memfind_none:
  "memfind ndl hay = None \<Longrightarrow> ndl \<noteq> [] \<Longrightarrow> take (length ndl) (drop j hay) \<noteq> ndl"
proof (induction hay arbitrary: j)
  case (Cons x xs)
  then show ?case by (cases j) (auto split: if_splits)
qed auto

lemma digit_char_props:
  assumes "d < 10"
  shows "ascii_digit (digit_char d)" "digit_val (digit_char d) = d"
proof -
  have "(of_char (digit_char d) :: nat) = 48 + d" using assms by (simp add: digit_char_def)
  then show "ascii_digit (digit_char d)" "digit_val (digit_char d) = d"
    using assms by (simp_all add: ascii_digit_def digit_val_def)
qed

lemma digit_val_less: "ascii_digit c \<Longrightarrow> digit_val c < 10"
  unfolding ascii_digit_def digit_val_def by linarith

end
