(* ===== verification/Device_Identity.thy ===== *)
theory Device_Identity
  imports C_String C_Stdio Esp_Nvs
begin

text \<open>
  The identity of the device, \<open>firmware/components/recorder/device_identity.c\<close>: UUIDs, the
  \<open>device.json\<close> document and its two field scanners, the file on the card, and the identifier kept in
  NVS. Output buffers are results: \<open>Some text\<close> stands for true with the text in the buffer, \<open>None\<close> for
  false with the empty string there.
\<close>

section \<open>Model\<close>

definition is_hex :: "char \<Rightarrow> bool" where
  "is_hex c \<longleftrightarrow> (let n = of_char c :: nat in
     (of_char CHR ''0'' \<le> n \<and> n \<le> of_char CHR ''9'') \<or> (of_char CHR ''a'' \<le> n \<and> n \<le> of_char CHR ''f'') \<or>
     (of_char CHR ''A'' \<le> n \<and> n \<le> of_char CHR ''F''))"

fun device_identity_is_valid_uuid :: "string ptr \<Rightarrow> bool" where
  "device_identity_is_valid_uuid None = False"
| "device_identity_is_valid_uuid (Some s) =
     (length s = 36 \<and>
      list_all (\<lambda>i. if i = 8 \<or> i = 13 \<or> i = 18 \<or> i = 23 then s ! i = CHR ''-'' else is_hex (s ! i)) [0..<36])"

definition hexd :: string where "hexd = ''0123456789abcdef''"

text \<open>The array of 16 random bytes; setting the version and variant bits, then rendering.\<close>

definition uuid_v4_bits :: "byte list \<Rightarrow> byte list" where
  "uuid_v4_bits rand16 = rand16[6 := (rand16 ! 6 AND 0x0F) OR 0x40, 8 := (rand16 ! 8 AND 0x3F) OR 0x80]"

definition uuid_render :: "byte list \<Rightarrow> string" where
  "uuid_render b = concat (map (\<lambda>i. (if i = 4 \<or> i = 6 \<or> i = 8 \<or> i = 10 then ''-'' else []) @
     [hexd ! unat (drop_bit 4 (b ! i) AND 0x0F), hexd ! unat (b ! i AND 0x0F)]) [0..<16])"

fun device_identity_format_uuid_v4 :: "byte list ptr \<Rightarrow> string option" where
  "device_identity_format_uuid_v4 None = None"
| "device_identity_format_uuid_v4 (Some rand16) =
     (let out = uuid_render (uuid_v4_bits rand16)
      in if length out = 36 \<and> device_identity_is_valid_uuid (Some out) then Some out else None)"

fun safe_token :: "string ptr \<Rightarrow> bool" where
  "safe_token None = False"
| "safe_token (Some s) = (s \<noteq> [] \<and> length s \<le> 64 \<and> list_all json_clean s)"

definition device_json_text :: "string \<Rightarrow> string \<Rightarrow> string \<Rightarrow> string" where
  "device_json_text device_id model firmware_version =
     ''{\"schemaVersion\":'' @ dec_of_nat RECORDER_METADATA_SCHEMA_VERSION @ '',\"deviceId\":\"'' @ device_id @
     ''\",\"model\":\"'' @ model @ ''\",\"firmwareVersion\":\"'' @ firmware_version @
     ''\",\"audioCapabilities\":{\"sampleRate\":'' @ dec_of_nat RECORDER_SAMPLE_RATE_HZ @
     '',\"bitDepth\":'' @ dec_of_nat RECORDER_BITS_PER_SAMPLE @ '',\"channels\":'' @ dec_of_nat RECORDER_CHANNELS @
     '',\"format\":\"pcm\"}}''"

definition device_identity_build_device_json ::
    "string ptr \<Rightarrow> string ptr \<Rightarrow> string ptr \<Rightarrow> nat \<Rightarrow> string option" where
  "device_identity_build_device_json device_id model firmware_version out_size =
     (let model = (case model of None \<Rightarrow> RECORDER_MODEL | Some m \<Rightarrow> m);
          firmware_version = (case firmware_version of None \<Rightarrow> RECORDER_FIRMWARE_VERSION | Some f \<Rightarrow> f)
      in if out_size = 0 then None
         else if \<not> device_identity_is_valid_uuid device_id then None
         else if \<not> safe_token (Some model) \<or> \<not> safe_token (Some firmware_version) then None
         else snprintf_fits out_size (device_json_text (the device_id) model firmware_version))"

text \<open>The digit loop of \<open>parse_schema_version\<close>; \<open>None\<close> is its early return.\<close>

fun version_digits :: "string \<Rightarrow> nat \<Rightarrow> bool \<Rightarrow> (nat \<times> bool) option" where
  "version_digits [] value any = Some (value, any)"
| "version_digits (c # cs) value any =
     (if ascii_digit c
      then (let value = value * 10 + digit_val c in if value > 1000000 then None else version_digits cs value True)
      else Some (value, any))"

text \<open>
  Both scanners look for a key in the first \<open>json_len\<close> bytes, for the colon from there on in memory,
  and skip blanks: the rest of the document after them. \<open>json\<close> is the memory from the document on.
\<close>

definition json_value_at :: "string \<Rightarrow> string \<Rightarrow> nat \<Rightarrow> string option" where
  "json_value_at key json json_len =
     (case memfind key (take json_len json) of
        None \<Rightarrow> None
      | Some at \<Rightarrow>
          (case c_strchr CHR '':'' (drop at json) of
             None \<Rightarrow> None
           | Some k \<Rightarrow> (if at + k \<ge> json_len then None
                        else Some (dropWhile is_blank (drop (at + k + 1) (take json_len json))))))"

fun device_identity_parse_schema_version :: "string ptr \<Rightarrow> nat \<Rightarrow> nat option" where
  "device_identity_parse_schema_version None json_len = None"
| "device_identity_parse_schema_version (Some json) json_len =
     (if json_len = 0 then None
      else case json_value_at ''\"schemaVersion\"'' json json_len of
        None \<Rightarrow> None
      | Some p \<Rightarrow> (case version_digits p 0 False of
                     None \<Rightarrow> None
                   | Some (value, any) \<Rightarrow> (if any then Some value else None)))"

fun device_identity_parse_device_id :: "string ptr \<Rightarrow> nat \<Rightarrow> string option" where
  "device_identity_parse_device_id None json_len = None"
| "device_identity_parse_device_id (Some json) json_len =
     (if json_len = 0 then None
      else case json_value_at ''\"deviceId\"'' json json_len of
        None \<Rightarrow> None
      | Some p \<Rightarrow>
          (if p = [] \<or> hd p \<noteq> CHR 0x22 then None
           else let p = tl p; at = json_len - length p in
           if at + 36 > json_len then None
           else let out = take 36 p in
           if mem_at json (at + 36) \<noteq> CHR 0x22 then None
           else if device_identity_is_valid_uuid (Some out) then Some out else None))"

definition write_all_synced :: "FILE ptr \<Rightarrow> string ptr \<Rightarrow> io_world \<Rightarrow> bool \<times> FILE ptr \<times> io_world" where
  "write_all_synced fp doc w =
     (case (fp, doc) of
        (Some fp, Some doc) \<Rightarrow>
          (case fwrite fp (bytes_of_string doc) w of (wrote, fp, w) \<Rightarrow>
           if wrote \<noteq> length doc then (False, Some fp, w)
           else case fflush fp w of (flushed, w) \<Rightarrow>
           if \<not> flushed then (False, Some fp, w)
           else case fileno fp w of (fd, w) \<Rightarrow>
           if \<not> fd then (False, Some fp, w)
           else case fsync fp w of (synced, w) \<Rightarrow> (synced, Some fp, w))
      | _ \<Rightarrow> (False, fp, w))"

text \<open>\<open>fseek\<close> to the end followed by \<open>ftell\<close>: both may fail; the position is the length of the file.\<close>

definition fseek_end :: "FILE \<Rightarrow> io_world \<Rightarrow> bool \<times> FILE \<times> io_world" where
  "fseek_end h w =
     (case io_try w of (ok, w) \<Rightarrow>
      if ok then (True, h\<lparr>fpos := (case files w (fpath h) of None \<Rightarrow> 0 | Some c \<Rightarrow> length c)\<rparr>, w) else (False, h, w))"

definition ftell :: "FILE \<Rightarrow> io_world \<Rightarrow> nat option \<times> io_world" where
  "ftell h w = (case io_try w of (ok, w) \<Rightarrow> (if ok then Some (fpos h) else None, w))"

definition LOCAL_SIZE :: nat where "LOCAL_SIZE = 2048"

text \<open>
  The bounded read of an existing file into the static buffer \<open>local\<close>, of \<open>LOCAL_SIZE\<close> bytes, which
  keeps what earlier calls left behind the new content.
\<close>

definition existing_device_json ::
    "FILE \<Rightarrow> string \<Rightarrow> string \<Rightarrow> io_world \<Rightarrow> bool \<times> string \<times> io_world" where
  "existing_device_json fp device_id local w =
     (case fseek_end fp w of (ok, fp, w) \<Rightarrow>
      if \<not> ok then (False, local, snd (fclose fp w))
      else case ftell fp w of (len, w) \<Rightarrow>
      (case len of
         None \<Rightarrow> (False, local, snd (fclose fp w))
       | Some len \<Rightarrow>
           if len > 8192 then (False, local, snd (fclose fp w))
           else case fseek fp 0 w of (ok, fp, w) \<Rightarrow>
           if \<not> ok then (False, local, snd (fclose fp w))
           else if len > LOCAL_SIZE then (False, local, snd (fclose fp w))
           else case fread fp len w of (bs, fp, w) \<Rightarrow>
           let local = string_of_bytes bs @ drop (length bs) local; got = length bs; w = snd (fclose fp w) in
           if got \<noteq> len then (False, local, w)
           else if device_identity_parse_schema_version (Some local) got \<noteq> Some RECORDER_METADATA_SCHEMA_VERSION
           then (False, local, w)
           else (case device_identity_parse_device_id (Some local) got of
                   None \<Rightarrow> (False, local, w)
                 | Some existing \<Rightarrow> (existing = device_id, local, w))))"

definition create_device_json :: "string \<Rightarrow> string \<Rightarrow> io_world \<Rightarrow> bool \<times> io_world" where
  "create_device_json path doc w =
     (case fopen WB path w of
        (None, w) \<Rightarrow> (False, w)
      | (Some out, w) \<Rightarrow>
          (case write_all_synced (Some out) (Some doc) w of (ok, out, w) \<Rightarrow>
           case fclose (the out) w of (closed, w) \<Rightarrow> (ok \<and> closed, w)))"

fun device_identity_ensure_device_json ::
    "string ptr \<Rightarrow> string ptr \<Rightarrow> string ptr \<Rightarrow> string ptr \<Rightarrow> string \<Rightarrow> io_world \<Rightarrow> bool \<times> string \<times> io_world" where
  "device_identity_ensure_device_json None device_id model firmware_version local w = (False, local, w)"
| "device_identity_ensure_device_json (Some path) device_id model firmware_version local w =
     (if path = [] then (False, local, w)
      else if \<not> device_identity_is_valid_uuid device_id then (False, local, w)
      else case device_identity_build_device_json device_id model firmware_version 512 of
        None \<Rightarrow> (False, local, w)
      | Some doc \<Rightarrow>
          (case fopen RB path w of
             (None, w) \<Rightarrow> (case create_device_json path doc w of (ok, w) \<Rightarrow> (ok, local, w))
           | (Some fp, w) \<Rightarrow> existing_device_json fp (the device_id) local w))"

text \<open>Four words of the hardware generator, most significant byte first.\<close>

definition word_bytes :: "u32 \<Rightarrow> byte list" where
  "word_bytes x = [ucast (drop_bit 24 x), ucast (drop_bit 16 x), ucast (drop_bit 8 x), ucast x]"

definition random16 :: "'s esp_api \<Rightarrow> 's \<Rightarrow> byte list \<times> 's" where
  "random16 api s =
     (case esp_random api s of (w0, s) \<Rightarrow> case esp_random api s of (w1, s) \<Rightarrow>
      case esp_random api s of (w2, s) \<Rightarrow> case esp_random api s of (w3, s) \<Rightarrow>
      (word_bytes w0 @ word_bytes w1 @ word_bytes w2 @ word_bytes w3, s))"

text \<open>
  The first \<open>nvs_get_str\<close> asks for the length only. The second has a buffer of
  \<open>RECORDER_UUID_STR_LEN\<close> bytes: a longer value does not fit and is an error.
\<close>

definition device_identity_ensure_device_id :: "'s esp_api \<Rightarrow> 's \<Rightarrow> (esp_err_t \<times> string) \<times> 's" where
  "device_identity_ensure_device_id api s =
     (case nvs_flash_init api s of (err, s) \<Rightarrow>
      if err \<noteq> ESP_OK then ((err, []), s)
      else case nvs_open_rw api ''m5daylog'' s of (err, s) \<Rightarrow>
      if err \<noteq> ESP_OK then ((err, []), s)
      else case nvs_get_str api ''m5daylog'' ''device_id'' s of (err, need, s) \<Rightarrow>
      if err = ESP_OK
      then (case nvs_get_str api ''m5daylog'' ''device_id'' s of (err, stored, s) \<Rightarrow>
            let s = nvs_close api ''m5daylog'' s in
            if err \<noteq> ESP_OK \<or> length stored \<ge> RECORDER_UUID_STR_LEN \<or> \<not> device_identity_is_valid_uuid (Some stored)
            then ((ESP_FAIL, []), s) else ((ESP_OK, stored), s))
      else if err \<noteq> ESP_ERR_NVS_NOT_FOUND then ((err, []), nvs_close api ''m5daylog'' s)
      else case random16 api s of (rand16, s) \<Rightarrow>
      (case device_identity_format_uuid_v4 (Some rand16) of
         None \<Rightarrow> ((ESP_FAIL, []), nvs_close api ''m5daylog'' s)
       | Some fresh \<Rightarrow>
           (case nvs_set api ''m5daylog'' ''device_id'' (NvsStr fresh) s of (err, s) \<Rightarrow>
            if err \<noteq> ESP_OK then ((ESP_FAIL, []), nvs_close api ''m5daylog'' s)
            else case nvs_commit api ''m5daylog'' s of (err, s) \<Rightarrow>
            let s = nvs_close api ''m5daylog'' s in
            if err \<noteq> ESP_OK then ((err, []), s) else ((ESP_OK, fresh), s))))"

section \<open>UUIDs\<close>

lemma hexd_is_hex: "n < 16 \<Longrightarrow> is_hex (hexd ! n)"
proof -
  have "list_all is_hex hexd" by code_simp
  moreover have "length hexd = 16" by (simp add: hexd_def)
  ultimately show "n < 16 \<Longrightarrow> is_hex (hexd ! n)" by (simp add: list_all_length)
qed

lemma hexd_inj: "m < 16 \<Longrightarrow> n < 16 \<Longrightarrow> hexd ! m = hexd ! n \<Longrightarrow> m = n"
proof -
  have "distinct hexd" by code_simp
  moreover have "length hexd = 16" by (simp add: hexd_def)
  ultimately show "m < 16 \<Longrightarrow> n < 16 \<Longrightarrow> hexd ! m = hexd ! n \<Longrightarrow> m = n" by (simp add: nth_eq_iff_index_eq)
qed

lemma unat_nibble: "unat (x AND 0x0F :: byte) < 16"
  using word_and_le1[of x "0x0F"] by (simp add: word_le_nat_alt)

lemma nibbles_eq:
  fixes x y :: byte
  assumes "drop_bit 4 x AND 0x0F = drop_bit 4 y AND 0x0F" "x AND 0x0F = y AND 0x0F"
  shows "x = y"
proof (rule bit_word_eqI)
  fix n assume n: "n < LENGTH(8)"
  have m: "(0x0F :: byte) = mask 4" by (simp add: mask_eq_exp_minus_1)
  show "bit x n = bit y n"
  proof (cases "n < 4")
    case True
    then show ?thesis using arg_cong[OF assms(2), of "\<lambda>z. bit z n"] unfolding m by (simp add: bit_simps)
  next
    case False
    then have "n - 4 < 4" "n - 4 < 8" using n by simp_all
    then show ?thesis using arg_cong[OF assms(1), of "\<lambda>z. bit z (n - 4)"] n False unfolding m by (simp add: bit_simps)
  qed
qed

lemma hex_pair_inj:
  fixes x y :: byte
  assumes "hexd ! unat (drop_bit 4 x AND 0x0F) = hexd ! unat (drop_bit 4 y AND 0x0F)"
    "hexd ! unat (x AND 0x0F) = hexd ! unat (y AND 0x0F)"
  shows "x = y"
  by (rule nibbles_eq) (simp_all add: word_unat_eq_iff hexd_inj[OF unat_nibble unat_nibble assms(1)]
      hexd_inj[OF unat_nibble unat_nibble assms(2)])

lemma upt16: "[0..<16] = [0, 1, 2, 3, 4, 5, 6, 7, 8, 9, 10, 11, 12, 13, 14, 15]"
  by (simp add: upt_conv_Cons numeral_eq_Suc)

lemma upt36: "[0..<36] = [0, 1, 2, 3, 4, 5, 6, 7, 8, 9, 10, 11, 12, 13, 14, 15, 16, 17, 18, 19, 20, 21, 22, 23, 24, 25,
    26, 27, 28, 29, 30, 31, 32, 33, 34, 35]"
  by (simp add: upt_conv_Cons numeral_eq_Suc)

abbreviation hx :: "byte \<Rightarrow> string" where
  "hx x \<equiv> [hexd ! unat (drop_bit 4 x AND 0x0F), hexd ! unat (x AND 0x0F)]"

lemma uuid_render_eq:
  "uuid_render b = hx (b ! 0) @ hx (b ! 1) @ hx (b ! 2) @ hx (b ! 3) @ ''-'' @ hx (b ! 4) @ hx (b ! 5) @ ''-'' @
     hx (b ! 6) @ hx (b ! 7) @ ''-'' @ hx (b ! 8) @ hx (b ! 9) @ ''-'' @ hx (b ! 10) @ hx (b ! 11) @ hx (b ! 12) @
     hx (b ! 13) @ hx (b ! 14) @ hx (b ! 15)"
  by (simp add: uuid_render_def upt16)

lemma uuid_render_valid: "device_identity_is_valid_uuid (Some (uuid_render b))"
  by (simp add: uuid_render_eq upt36 hexd_is_hex unat_nibble)

lemma uuid_render_inj:
  assumes "uuid_render a = uuid_render b" "length a = 16" "length b = 16"
  shows "a = b"
proof -
  have "\<forall>i \<in> set [0..<16]. a ! i = b ! i"
    using assms(1) unfolding uuid_render_eq upt16 by simp (auto intro!: hex_pair_inj)
  then show ?thesis using assms(2,3) by (intro nth_equalityI) auto
qed

lemma version_nibble: "drop_bit 4 ((x AND 0x0F) OR 0x40 :: byte) AND 0x0F = 4"
  by (simp add: drop_bit_or drop_bit_and)

lemma variant_nibble: "drop_bit 4 ((x AND 0x3F) OR 0x80 :: byte) AND 0x0F \<in> {8, 9, 10, 11}"
proof -
  have e: "drop_bit 4 ((x AND 0x3F) OR 0x80 :: byte) AND 0x0F = (drop_bit 4 x AND 3) OR 8"
    by (simp add: drop_bit_or drop_bit_and bit.conj_disj_distrib2 and.assoc)
  have "unat (drop_bit 4 x AND 3 :: byte) \<le> 3" using word_and_le1[of "drop_bit 4 x" 3] by (simp add: word_le_nat_alt)
  then have "unat (drop_bit 4 x AND 3 :: byte) \<in> {0, 1, 2, 3}" by auto
  then have "(drop_bit 4 x AND 3 :: byte) \<in> {0, 1, 2, 3}" by (auto simp: word_unat_eq_iff)
  then show ?thesis unfolding e by auto
qed

lemma format_uuid_v4_eq:
  "device_identity_format_uuid_v4 (Some rand16) = Some (uuid_render (uuid_v4_bits rand16))"
  using uuid_render_valid[of "uuid_v4_bits rand16"] by simp

text \<open>
  C32: A fresh identifier. From any 16 random bytes \<open>format_uuid_v4\<close> succeeds with a canonical UUID that
  carries the version digit 4 and an RFC 4122 variant digit, and the identifier determines the 122
  random bits: two draws give the same UUID only if they agree outside the six fixed bits.
\<close>

theorem uuid_v4_wellformed:
  assumes "length rand16 = 16"
  shows "\<exists>u. device_identity_format_uuid_v4 (Some rand16) = Some u \<and> device_identity_is_valid_uuid (Some u) \<and>
    u ! 14 = CHR ''4'' \<and> u ! 19 \<in> set ''89ab'' \<and>
    (\<forall>r. length r = 16 \<longrightarrow> device_identity_format_uuid_v4 (Some r) = Some u \<longrightarrow> uuid_v4_bits r = uuid_v4_bits rand16)"
proof (intro exI conjI allI impI)
  let ?b = "uuid_v4_bits rand16"
  show "device_identity_format_uuid_v4 (Some rand16) = Some (uuid_render ?b)" by (rule format_uuid_v4_eq)
  show "device_identity_is_valid_uuid (Some (uuid_render ?b))" by (rule uuid_render_valid)
  have b6: "?b ! 6 = (rand16 ! 6 AND 0x0F) OR 0x40" and b8: "?b ! 8 = (rand16 ! 8 AND 0x3F) OR 0x80"
    using assms by (simp_all add: uuid_v4_bits_def)
  have "uuid_render ?b ! 14 = hexd ! unat (drop_bit 4 (?b ! 6) AND 0x0F)" by (simp add: uuid_render_eq)
  then show "uuid_render ?b ! 14 = CHR ''4''" unfolding b6 version_nibble by (simp add: hexd_def)
  have "uuid_render ?b ! 19 = hexd ! unat (drop_bit 4 (?b ! 8) AND 0x0F)" by (simp add: uuid_render_eq)
  then show "uuid_render ?b ! 19 \<in> set ''89ab''"
    unfolding b8 using variant_nibble[of "rand16 ! 8"] by (auto simp: hexd_def)
  fix r :: "byte list" assume r: "length r = 16" "device_identity_format_uuid_v4 (Some r) = Some (uuid_render ?b)"
  have "uuid_render (uuid_v4_bits r) = uuid_render ?b" using r(2) format_uuid_v4_eq[of r] by simp
  then show "uuid_v4_bits r = ?b" using r(1) assms by (intro uuid_render_inj) (simp_all add: uuid_v4_bits_def)
qed

theorem uuid_v4_wellformed_witness:
  "\<exists>u. device_identity_format_uuid_v4 (Some (replicate 16 0)) = Some u \<and> u ! 14 = CHR ''4''"
  using uuid_v4_wellformed[OF length_replicate] by blast

section \<open>The device.json document\<close>

lemma dec_of_nat_1: "dec_of_nat 1 = ''1''"
  by code_simp

lemma device_json_prefix:
  "device_json_text u m f = ''{\"schemaVersion\":1,\"deviceId\":\"'' @ u @ CHR 0x22 # drop 1 (''\",\"model\":\"'' @ m @ ''\",\"firmwareVersion\":\"'' @ f @
     ''\",\"audioCapabilities\":{\"sampleRate\":'' @ dec_of_nat RECORDER_SAMPLE_RATE_HZ @
     '',\"bitDepth\":'' @ dec_of_nat RECORDER_BITS_PER_SAMPLE @ '',\"channels\":'' @ dec_of_nat RECORDER_CHANNELS @
     '',\"format\":\"pcm\"}}'')"
  by (simp add: device_json_text_def RECORDER_METADATA_SCHEMA_VERSION_def dec_of_nat_1[simplified])

lemma take_prefix_rest: "length p = n \<Longrightarrow> take (n + length r) (p @ r @ rest) = p @ r"
  by simp

lemma json_value_schema:
  "json_value_at ''\"schemaVersion\"'' (''{\"schemaVersion\":1,\"deviceId\":\"'' @ r @ rest) (31 + length r) =
    Some (''1,\"deviceId\":\"'' @ r)"
proof -
  have "take (31 + length r) (''{\"schemaVersion\":1,\"deviceId\":\"'' @ r @ rest) = ''{\"schemaVersion\":1,\"deviceId\":\"'' @ r"
    by (rule take_prefix_rest) simp
  then show ?thesis unfolding json_value_at_def by (simp add: is_blank_def)
qed

lemma json_value_device:
  "json_value_at ''\"deviceId\"'' (''{\"schemaVersion\":1,\"deviceId\":\"'' @ r @ rest) (31 + length r) = Some (CHR 0x22 # r)"
proof -
  have "take (31 + length r) (''{\"schemaVersion\":1,\"deviceId\":\"'' @ r @ rest) = ''{\"schemaVersion\":1,\"deviceId\":\"'' @ r"
    by (rule take_prefix_rest) simp
  then show ?thesis unfolding json_value_at_def by (simp add: is_blank_def)
qed

text \<open>Both scanners on any document that begins as the writers of this firmware begin it.\<close>

lemma parse_canonical_schema:
  "device_identity_parse_schema_version (Some (''{\"schemaVersion\":1,\"deviceId\":\"'' @ r @ rest)) (31 + length r) = Some 1"
  using json_value_schema[of r rest] by (simp add: ascii_digit_def digit_val_def)

lemma parse_canonical_device:
  assumes "device_identity_is_valid_uuid (Some u)"
  shows "device_identity_parse_device_id (Some (''{\"schemaVersion\":1,\"deviceId\":\"'' @ (u @ CHR 0x22 # r) @ rest))
    (31 + length (u @ CHR 0x22 # r)) = Some u"
proof -
  have l: "length u = 36" using assms by simp
  let ?pre = "''{\"schemaVersion\":1,\"deviceId\":\"''"
  have "mem_at (?pre @ (u @ CHR 0x22 # r) @ rest) 67 = CHR 0x22"
    using l by (simp add: mem_at_def nth_append)
  then show ?thesis
    unfolding device_identity_parse_device_id.simps json_value_device using assms l
    by (simp del: device_identity_is_valid_uuid.simps)
qed

text \<open>The shape of every document that \<open>build_device_json\<close> accepts.\<close>

lemma build_device_json_shape:
  assumes "device_identity_build_device_json device_id model firmware_version out_size = Some doc"
  obtains u r where "device_id = Some u" "device_identity_is_valid_uuid (Some u)" "length doc < out_size"
    "doc = ''{\"schemaVersion\":1,\"deviceId\":\"'' @ u @ CHR 0x22 # r"
proof -
  obtain u m f where "device_id = Some u" "device_identity_is_valid_uuid (Some u)" "length doc < out_size"
    "doc = device_json_text u m f"
    using assms by (cases device_id)
      (auto simp: device_identity_build_device_json_def snprintf_fits_def Let_def
        simp del: device_identity_is_valid_uuid.simps(2) safe_token.simps(2) split: if_splits)
  then show ?thesis using that device_json_prefix by metis
qed

lemma canonical_document_parses:
  assumes "device_identity_is_valid_uuid (Some u)" "doc = ''{\"schemaVersion\":1,\"deviceId\":\"'' @ u @ CHR 0x22 # r"
  shows "device_identity_parse_schema_version (Some (doc @ rest)) (length doc) = Some 1"
    "device_identity_parse_device_id (Some (doc @ rest)) (length doc) = Some u"
proof -
  have l: "length doc = 31 + length (u @ CHR 0x22 # r)" using assms(2) by simp
  have d: "doc @ rest = ''{\"schemaVersion\":1,\"deviceId\":\"'' @ (u @ CHR 0x22 # r) @ rest" using assms(2) by simp
  show "device_identity_parse_schema_version (Some (doc @ rest)) (length doc) = Some 1"
    unfolding l d by (rule parse_canonical_schema)
  show "device_identity_parse_device_id (Some (doc @ rest)) (length doc) = Some u"
    unfolding l d by (rule parse_canonical_device[OF assms(1)])
qed

text \<open>
  C33: Round trip. Every \<open>device.json\<close> document that the builder produces, whatever the model and version
  texts and whatever follows the document in memory, is read back by the two scanners as schema version
  1 and the same device identifier.
\<close>

theorem device_json_roundtrip:
  assumes "device_identity_build_device_json device_id model firmware_version out_size = Some doc"
  shows "device_identity_parse_schema_version (Some (doc @ rest)) (length doc) = Some RECORDER_METADATA_SCHEMA_VERSION \<and>
    device_identity_parse_device_id (Some (doc @ rest)) (length doc) = device_id"
proof -
  obtain u r where "device_id = Some u" "device_identity_is_valid_uuid (Some u)"
    "doc = ''{\"schemaVersion\":1,\"deviceId\":\"'' @ u @ CHR 0x22 # r"
    by (rule build_device_json_shape[OF assms]) blast
  then show ?thesis using canonical_document_parses[of u doc r rest] by (simp add: config_simps)
qed

definition sample_uuid :: string where "sample_uuid = ''01234567-89ab-4def-8123-456789abcdef''"

lemma sample_uuid_valid: "device_identity_is_valid_uuid (Some sample_uuid)"
  by code_simp

lemma sample_device_json:
  "device_identity_build_device_json (Some sample_uuid) None None 512 =
    Some (device_json_text sample_uuid RECORDER_MODEL RECORDER_FIRMWARE_VERSION)"
proof -
  have "safe_token (Some RECORDER_MODEL)" "safe_token (Some RECORDER_FIRMWARE_VERSION)" by code_simp+
  moreover have "length (device_json_text sample_uuid RECORDER_MODEL RECORDER_FIRMWARE_VERSION) < 512"
    by (simp add: device_json_text_def sample_uuid_def config_simps dec_of_nat.simps)
  ultimately show ?thesis
    using sample_uuid_valid by (simp add: device_identity_build_device_json_def snprintf_fits_def
        del: device_identity_is_valid_uuid.simps safe_token.simps)
qed

theorem device_json_roundtrip_witness:
  "device_identity_parse_device_id (Some (device_json_text sample_uuid RECORDER_MODEL RECORDER_FIRMWARE_VERSION @ []))
     (length (device_json_text sample_uuid RECORDER_MODEL RECORDER_FIRMWARE_VERSION)) = Some sample_uuid"
  using device_json_roundtrip[OF sample_device_json, of "[]"] by blast

section \<open>The file on the card\<close>

lemma fseek_end_touches [io_frame]: "fseek_end h w = (ok, h', w') \<Longrightarrow> touches A w w'"
  using io_try_touches[of w _ _ A] by (auto simp: fseek_end_def split: prod.splits if_splits)

lemma fseek_end_handle:
  assumes "fseek_end h w = (True, h', w')"
  shows "fpath h' = fpath h" "fpos h' = (case files w (fpath h) of None \<Rightarrow> 0 | Some c \<Rightarrow> length c)"
  using assms io_try_same(1)[of w] by (auto simp: fseek_end_def split: prod.splits if_splits)

lemma ftell_touches [io_frame]: "ftell h w = (n, w') \<Longrightarrow> touches A w w'"
  using io_try_touches[of w _ _ A] by (auto simp: ftell_def split: prod.splits)

text \<open>Looking at an existing file changes nothing; a positive answer means that the file names the device.\<close>

lemma existing_device_json_effect:
  assumes "existing_device_json fp device_id loc w = (ok, loc', w')"
  shows "touches A w w'"
    "ok \<Longrightarrow> fpos fp = 0 \<Longrightarrow> files w (fpath fp) = Some c \<Longrightarrow>
      \<exists>rest. device_identity_parse_device_id (Some (string_of_bytes c @ rest)) (length c) = Some device_id"
proof -
  obtain ok1 fp1 w1 where 1: "fseek_end fp w = (ok1, fp1, w1)" by (metis prod_cases3)
  obtain n w2 where 2: "ftell fp1 w1 = (n, w2)" by fastforce
  obtain ok3 fp3 w3 where 3: "fseek fp1 0 w2 = (ok3, fp3, w3)" by (metis prod_cases3)
  obtain bs fp4 w4 where 4: "fread fp3 (the n) w3 = (bs, fp4, w4)" by (metis prod_cases3)
  have t: "touches A w w1" "touches A w1 w2" "touches A w2 w3" "touches A w3 w4" for A
    using fseek_end_touches[OF 1] ftell_touches[OF 2] fseek_touches[OF 3] fread_touches[OF 4] .
  have cl: "touches A v (snd (fclose h v))" for A h v
    using fclose_touches[of h v "fst (fclose h v)" "snd (fclose h v)" A] by simp
  have "w' \<in> {snd (fclose fp1 w1), snd (fclose fp1 w2), snd (fclose fp3 w3), snd (fclose fp4 w4)}"
    using assms 1 2 3 4 by (auto simp: existing_device_json_def Let_def split: if_splits option.splits
        simp del: device_identity_parse_schema_version.simps device_identity_parse_device_id.simps)
  moreover have "touches A w w2" "touches A w w3" "touches A w w4"
    using t[of A] touches_trans by blast+
  ultimately show "touches A w w'" using t(1)[of A] touches_trans[OF _ cl] by auto
  assume ok and pos: "fpos fp = 0" and c: "files w (fpath fp) = Some c"
  then have n: "ok1" "n = Some (fpos fp1)" "ok3" "length bs = fpos fp1"
    and id: "device_identity_parse_device_id (Some (string_of_bytes bs @ drop (length bs) loc)) (length bs) = Some device_id"
    using assms 1 2 3 4 by (auto simp: existing_device_json_def Let_def ftell_def split: if_splits option.splits prod.splits
        simp del: device_identity_parse_schema_version.simps device_identity_parse_device_id.simps)
  have p: "fpath fp1 = fpath fp" "fpos fp1 = length c" using fseek_end_handle[of fp w fp1 w1] 1 n(1) c by auto
  have p3: "fpath fp3 = fpath fp" "fpos fp3 = 0" using fseek_handle[OF 3] n(3) p by auto
  have "files w3 (fpath fp) = Some c" using c t(1,2,3)[of "{}"] by (simp add: touches_filesD)
  then obtain k where "bs = take k c" using fread_prefix(1)[OF 4] p3 by auto
  then have "bs = c" using n(4) p(2) by simp
  then show "\<exists>rest. device_identity_parse_device_id (Some (string_of_bytes c @ rest)) (length c) = Some device_id"
    using id by blast
qed

lemma fopen_rb_some:
  assumes "fopen RB p w = (Some fp, w')"
  shows "fpath fp = p" "fpos fp = 0" "\<exists>c. files w p = Some c" "files w' = files w"
  using assms io_try_same(1)[of w] by (auto simp: fopen_def split: prod.splits bool.splits option.splits)

text \<open>
  C34: An existing \<open>device.json\<close> that can be opened is never rewritten, whatever it holds and whatever
  I/O errors or power loss follow: no file on the card changes. The call succeeds only if the file names
  this device.
\<close>

theorem device_json_preserved:
  assumes "fopen RB path w = (Some fp, w1)"
    "device_identity_ensure_device_json (Some path) device_id model firmware_version loc w = (ok, loc', w')"
  shows "files w' = files w \<and> unsynced w' = unsynced w \<and>
    (ok \<longrightarrow> (\<exists>c rest. files w path = Some c \<and>
       device_identity_parse_device_id (Some (string_of_bytes c @ rest)) (length c) = device_id))"
proof -
  note fo = fopen_rb_some[OF assms(1)]
  have t1: "touches {} w w1" by (rule fopen_rb_touches[OF assms(1)])
  consider (early) "ok = False" "w' = w"
    | (look) "existing_device_json fp (the device_id) loc w1 = (ok, loc', w')" "device_id \<noteq> None"
    using assms by (cases device_id)
      (auto simp del: device_identity_is_valid_uuid.simps(2) split: if_splits option.splits)
  then show ?thesis
  proof cases
    case look
    have t: "touches {} w w'" using existing_device_json_effect(1)[OF look(1)] t1 touches_trans by blast
    obtain c where c: "files w path = Some c" using fo(3) by blast
    have "\<exists>rest. device_identity_parse_device_id (Some (string_of_bytes c @ rest)) (length c) = device_id" if ok
      using existing_device_json_effect(2)[OF look(1) that fo(2)] c fo(1,4) look(2) by auto
    then show ?thesis using t c by (auto simp: touches_def)
  qed simp
qed

lemma fopen_wb_cases:
  assumes "fopen WB p w = (f, w')"
  shows "case f of None \<Rightarrow> files w' = files w
    | Some fp \<Rightarrow> fpath fp = p \<and> fpos fp = 0 \<and> files w' p = Some []"
proof (cases "io_try w")
  case (Pair ok w1)
  then show ?thesis using assms io_try_same(1)[OF Pair] by (auto simp: fopen_def split: bool.splits)
qed

lemma create_device_json_effect:
  assumes "create_device_json path doc w = (ok, w')"
  shows "touches {path} w w'"
    "files w' path = files w path \<or> (\<exists>k. files w' path = Some (take k (bytes_of_string doc)))"
    "ok \<Longrightarrow> files w' path = Some (bytes_of_string doc) \<and> \<not> unsynced w' path"
proof -
  obtain f w1 where 1: "fopen WB path w = (f, w1)" by fastforce
  note o = fopen_wb_cases[OF 1] fopen_touches[OF 1]
  have "touches {path} w w' \<and> (files w' path = files w path \<or> (\<exists>k. files w' path = Some (take k (bytes_of_string doc)))) \<and>
    (ok \<longrightarrow> files w' path = Some (bytes_of_string doc) \<and> \<not> unsynced w' path)"
  proof (cases f)
    case None
    then show ?thesis using assms 1 o by (auto simp: create_device_json_def)
  next
    case (Some out)
    have out: "fpath out = path" "fpos out = 0" "files w1 path = Some []" using o(1) Some by auto
    obtain n out2 w2 where 2: "fwrite out (bytes_of_string doc) w1 = (n, out2, w2)" by (metis prod_cases3)
    obtain fl w3 where 3: "fflush out2 w2 = (fl, w3)" by fastforce
    obtain fd w4 where 4: "fileno out2 w3 = (fd, w4)" by fastforce
    obtain sy w5 where 5: "fsync out2 w4 = (sy, w5)" by fastforce
    define ok1 where "ok1 = (n = length doc \<and> fl \<and> fd \<and> sy)"
    define v where "v = (if n \<noteq> length doc then w2 else if \<not> fl then w3 else if \<not> fd then w4 else w5)"
    obtain cl w6 where 6: "fclose out2 v = (cl, w6)" by fastforce
    have wr: "write_all_synced (Some out) (Some doc) w1 = (ok1, Some out2, v)"
      using 2 3 4 5 by (auto simp: write_all_synced_def ok1_def v_def)
    have r: "ok = (ok1 \<and> cl)" "w' = w6" using assms 1 Some wr 6 by (auto simp: create_device_json_def)
    obtain k where k: "n = length doc \<longrightarrow> k = length doc" "files w2 path = Some (write_at 0 (take k (bytes_of_string doc)) [])"
      using fwrite_files(1)[OF 2] out by auto
    have p2: "fpath out2 = path" using fwrite_files(2)[OF 2] out by simp
    have c2: "files w2 path = Some (take k (bytes_of_string doc))" using k(2) by (simp add: write_at_0)
    have t: "touches {} w2 w3" "touches {} w3 w4" "touches {} v w6" "touches {path} w4 w5" "touches {path} w1 w2"
      using fflush_touches[OF 3] fileno_touches[OF 4] fclose_touches[OF 6] fsync_touches[OF 5] fwrite_touches[OF 2] p2 out(1)
      by simp_all
    have "files w5 = files w4" by (rule fsync_files[OF 5])
    then have cv: "files v path = Some (take k (bytes_of_string doc))"
      using c2 t(1,2) by (auto simp: v_def touches_filesD)
    have c6: "files w6 path = Some (take k (bytes_of_string doc))" using cv t(3) by (simp add: touches_filesD)
    have e: "\<And>a b. touches {} a b \<Longrightarrow> touches {path} a b" using touches_mono by blast
    have "touches {path} w1 w3" "touches {path} w1 w4" "touches {path} w1 w5"
      using t(5) e[OF t(1)] e[OF t(2)] t(4) touches_trans by blast+
    then have "touches {path} w1 v" using t(5) by (simp add: v_def)
    then have tt: "touches {path} w w'" using o(2) e[OF t(3)] r(2) touches_trans by blast
    have "files w' path = Some (bytes_of_string doc) \<and> \<not> unsynced w' path" if ok
    proof -
      have "ok1" using that r by simp
      then have "v = w5" "k = length doc" "sy" using k(1) by (auto simp: ok1_def v_def)
      then show ?thesis using c6 r(2) fsync_synced[of out2 w4 w5] 5 p2 t(3) touches_unsyncedD[OF t(3), of path] by simp
    qed
    then show ?thesis using tt c6 r(2) by blast
  qed
  then show "touches {path} w w'"
    "files w' path = files w path \<or> (\<exists>k. files w' path = Some (take k (bytes_of_string doc)))"
    "ok \<Longrightarrow> files w' path = Some (bytes_of_string doc) \<and> \<not> unsynced w' path"
    by auto
qed

text \<open>Without faults, the file that the builder wrote is accepted.\<close>

lemma ensure_accepts:
  assumes "quiet w" "path \<noteq> []" "device_identity_build_device_json (Some u) model firmware_version 512 = Some doc"
    "device_identity_is_valid_uuid (Some u)" "files w path = Some (bytes_of_string doc)"
  shows "\<exists>loc'. device_identity_ensure_device_json (Some path) (Some u) model firmware_version loc w = (True, loc', w)"
proof -
  let ?fp = "\<lparr>fpath = path, fpos = 0, ferr = False\<rparr>"
  have o: "fopen RB path w = (Some ?fp, w)" using assms(1,5) by (simp add: fopen_def)
  obtain u' r where u: "Some u = Some u'" "device_identity_is_valid_uuid (Some u')" "length doc < 512"
    "doc = ''{\"schemaVersion\":1,\"deviceId\":\"'' @ u' @ CHR 0x22 # r"
    by (rule build_device_json_shape[OF assms(3)])
  note parse = canonical_document_parses[OF u(2,4), of "drop (length doc) loc"]
  have "existing_device_json ?fp u loc w = (True, doc @ drop (length doc) loc, w)"
    using assms(1,5) u(1,3) parse
    by (simp add: existing_device_json_def fseek_end_def ftell_def fread_def fclose_def Let_def LOCAL_SIZE_def
        RECORDER_METADATA_SCHEMA_VERSION_def
        del: device_identity_parse_schema_version.simps device_identity_parse_device_id.simps)
  then show ?thesis using assms(2,3,4) o by (simp del: device_identity_is_valid_uuid.simps)
qed

text \<open>
  C35: Creating \<open>device.json\<close>. When the file is missing and the call succeeds, then despite any error the
  script holds, the file is exactly the canonical document and has been forced to the card, no other
  file changed, and on every later boot with that file the call succeeds again without writing.
\<close>

theorem device_json_created:
  assumes "files w path = None" "device_identity_build_device_json (Some u) model firmware_version 512 = Some doc"
    "device_identity_ensure_device_json (Some path) (Some u) model firmware_version loc w = (True, loc', w')"
  shows "files w' = (files w)(path \<mapsto> bytes_of_string doc) \<and> \<not> unsynced w' path \<and>
    (\<forall>v l. quiet v \<longrightarrow> files v path = files w' path \<longrightarrow>
      (\<exists>l'. device_identity_ensure_device_json (Some path) (Some u) model firmware_version l v = (True, l', v)))"
proof -
  obtain f w1 where 1: "fopen RB path w = (f, w1)" by fastforce
  have g: "path \<noteq> []" "device_identity_is_valid_uuid (Some u)"
    using assms(3) by (auto simp del: device_identity_is_valid_uuid.simps split: if_splits)
  have f: "f = None" using fopen_rb_some(3)[of path w] 1 assms(1) by (cases f) auto
  have t1: "touches {} w w1" by (rule fopen_rb_touches[OF 1])
  have c: "create_device_json path doc w1 = (True, w')"
    using assms(2,3) 1 f g by (auto simp del: device_identity_is_valid_uuid.simps split: prod.splits)
  note e = create_device_json_effect[OF c]
  have "files w' p = files w p" if "p \<noteq> path" for p using e(1) t1 that by (simp add: touches_filesD)
  then have "files w' = (files w)(path \<mapsto> bytes_of_string doc)" using e(3) by auto
  moreover have "\<exists>l'. device_identity_ensure_device_json (Some path) (Some u) model firmware_version l v = (True, l', v)"
    if "quiet v" "files v path = files w' path" for v l
    using ensure_accepts[OF that(1) g(1) assms(2) g(2)] that(2) e(3) by simp
  ultimately show ?thesis using e(3) by blast
qed

theorem device_json_created_witness:
  "\<exists>w' :: io_world. files w' = (files empty_card)(''/sdcard/M5DAYLOG/device.json'' \<mapsto>
      bytes_of_string (device_json_text sample_uuid RECORDER_MODEL RECORDER_FIRMWARE_VERSION))"
proof -
  let ?p = "''/sdcard/M5DAYLOG/device.json''" and ?d = "device_json_text sample_uuid RECORDER_MODEL RECORDER_FIRMWARE_VERSION"
  have "fopen RB ?p empty_card = (None, empty_card\<lparr>errno_of := ENOENT\<rparr>)" by (simp add: fopen_def) (simp add: empty_card_def)
  moreover have "\<exists>w'. create_device_json ?p ?d (empty_card\<lparr>errno_of := ENOENT\<rparr>) = (True, w')"
    by (simp add: create_device_json_def write_all_synced_def fopen_def fflush_def fileno_def fsync_def fclose_def put_bytes_def)
  ultimately obtain w' where e: "device_identity_ensure_device_json (Some ?p) (Some sample_uuid) None None [] empty_card = (True, [], w')"
    using sample_device_json sample_uuid_valid by (auto simp del: device_identity_is_valid_uuid.simps)
  have "files empty_card ?p = None" by (simp add: empty_card_def)
  from device_json_created[OF this sample_device_json e] show ?thesis by blast
qed

theorem device_json_preserved_witness:
  "\<exists>ok loc' w'. device_identity_ensure_device_json (Some ''d'') (Some sample_uuid) None None []
      (set_file ''d'' (Some [1]) False empty_card) = (ok, loc', w') \<and> files w' ''d'' = Some [1]"
proof -
  let ?w = "set_file ''d'' (Some [1]) False empty_card"
  obtain ok l w' where e: "device_identity_ensure_device_json (Some ''d'') (Some sample_uuid) None None [] ?w = (ok, l, w')"
    by (metis prod_cases3)
  have "fopen RB ''d'' ?w = (Some \<lparr>fpath = ''d'', fpos = 0, ferr = False\<rparr>, ?w)" by (simp add: fopen_def)
  from device_json_preserved[OF this e] have "files w' ''d'' = Some [1]" by simp
  then show ?thesis using e by blast
qed



text \<open>
  C36: A transient error on opening an existing file is taken for a missing file. If the first \<open>fopen\<close>
  fails and no later call does, the file is truncated and rewritten with this device's document,
  although it may have held another identity.
\<close>

theorem device_json_open_error_overwrites:
  assumes "script w = [IoErr e n]" "\<not> halted w" "files w path = Some other" "path \<noteq> []"
    "device_identity_is_valid_uuid (Some u)" "device_identity_build_device_json (Some u) model firmware_version 512 = Some doc"
  shows "\<exists>w'. device_identity_ensure_device_json (Some path) (Some u) model firmware_version loc w = (True, loc, w') \<and>
    files w' path = Some (bytes_of_string doc)"
proof -
  let ?w = "w\<lparr>script := [], errno_of := e\<rparr>"
  have o: "fopen RB path w = (None, ?w)" using assms(1,2) by (simp add: fopen_def io_try_def io_next_def)
  have q: "quiet ?w" using assms(2) by (simp add: quiet_def)
  obtain ok w' where c: "create_device_json path doc ?w = (ok, w')" by fastforce
  have "ok"
    using c q by (simp add: create_device_json_def write_all_synced_def fopen_def fflush_def fileno_def fsync_def fclose_def put_bytes_def)
  then show ?thesis using create_device_json_effect(3)[OF c] c o assms(4-6)
    by (simp del: device_identity_is_valid_uuid.simps)
qed

theorem device_json_open_error_overwrites_witness:
  "\<exists>w'. device_identity_ensure_device_json (Some ''d'') (Some sample_uuid) None None []
      ((set_file ''d'' (Some [1]) False empty_card)\<lparr>script := [IoErr EIO 0]\<rparr>) = (True, [], w') \<and>
    files w' ''d'' = Some (bytes_of_string (device_json_text sample_uuid RECORDER_MODEL RECORDER_FIRMWARE_VERSION))"
  by (rule device_json_open_error_overwrites[OF _ _ _ _ sample_uuid_valid sample_device_json, where other = "[1]" and e = EIO and n = 0])
    (simp_all add: empty_card_def)

section \<open>The identifier in NVS\<close>

lemma nvs_contract_get_str:
  assumes "nvs_contract api stored staged" "nvs_get_str api ns k s = (e, v, s')"
  shows "stored s' = stored s" "e = ESP_OK \<Longrightarrow> stored s ns k = Some (NvsStr v)"
    "e = ESP_ERR_NVS_NOT_FOUND \<Longrightarrow> stored s ns k \<noteq> Some (NvsStr x)" "staged s' = staged s"
  using assms unfolding nvs_contract_def by (metis fst_conv snd_conv)+

lemma random16_effect:
  assumes "nvs_contract api stored staged" "random16 api s = (r, s')"
  shows "stored s' = stored s" "length r = 16" "staged s' = staged s"
  using assms(2) nvs_contract_sem(5)[OF assms(1)] nvs_contract_sem(11)[OF assms(1)] by (auto simp: random16_def word_bytes_def split: prod.splits)

text \<open>
  C31: One device keeps one identifier. Whatever NVS reports, a stored identifier is never replaced or
  erased; success returns a valid UUID that is in the flash when the call returns, the stored one if there
  was one; and failure leaves the flash as it was or with a first identifier written, never with a
  second.
\<close>

theorem device_id_stable:
  assumes "nvs_contract api stored staged" "device_identity_ensure_device_id api s = ((err, out), s')"
  shows "(\<forall>v. stored s ''m5daylog'' ''device_id'' = Some (NvsStr v) \<longrightarrow> stored s' = stored s \<and> (err = ESP_OK \<longrightarrow> out = v)) \<and>
    (err = ESP_OK \<longrightarrow> device_identity_is_valid_uuid (Some out) \<and> stored s' ''m5daylog'' ''device_id'' = Some (NvsStr out)) \<and>
    (\<exists>v. flash_or ''m5daylog'' ''device_id'' (Some (NvsStr v)) (stored s) (stored s'))"
proof -
  let ?ns = "''m5daylog''" and ?k = "''device_id''"
  note sem = nvs_contract_sem[OF assms(1)]
  obtain e1 s1 where 1: "nvs_flash_init api s = (e1, s1)" by fastforce
  obtain e2 s2 where 2: "nvs_open_rw api ?ns s1 = (e2, s2)" by fastforce
  obtain e3 need s3 where 3: "nvs_get_str api ?ns ?k s2 = (e3, need, s3)" by (metis prod_cases3)
  obtain e4 v4 s4 where 4: "nvs_get_str api ?ns ?k s3 = (e4, v4, s4)" by (metis prod_cases3)
  obtain r s5 where 5: "random16 api s3 = (r, s5)" by fastforce
  let ?u = "uuid_render (uuid_v4_bits r)"
  have u: "device_identity_format_uuid_v4 (Some r) = Some ?u" by (rule format_uuid_v4_eq)
  obtain e6 s6 where 6: "nvs_set api ?ns ?k (NvsStr ?u) s5 = (e6, s6)" by fastforce
  obtain e7 s7 where 7: "nvs_commit api ?ns s6 = (e7, s7)" by fastforce
  have st: "stored s1 = stored s" "stored s2 = stored s" "stored s3 = stored s" "stored s4 = stored s" "stored s5 = stored s"
    using sem(4)[OF 1] sem(7)[OF 2] nvs_contract_get_str(1)[OF assms(1) 3] nvs_contract_get_str(1)[OF assms(1) 4]
      random16_effect(1)[OF assms(1) 5] by simp_all
  have cl: "stored (nvs_close api ?ns x) = stored x" for x by (rule sem(8))
  have sg5: "e2 = ESP_OK \<Longrightarrow> staged s5 = []"
    using sem(10) 2 nvs_contract_get_str(4)[OF assms(1) 3] random16_effect(3)[OF assms(1) 5] by simp
  consider (fail) "err \<noteq> ESP_OK" "stored s' = stored s"
    | (kept) "err = ESP_OK" "out = v4" "e4 = ESP_OK" "device_identity_is_valid_uuid (Some v4)" "stored s' = stored s"
    | (unset) "err \<noteq> ESP_OK" "e3 = ESP_ERR_NVS_NOT_FOUND" "stored s' = stored s6"
    | (fresh) "e2 = ESP_OK" "e3 = ESP_ERR_NVS_NOT_FOUND" "e6 = ESP_OK" "err = e7" "err = ESP_OK \<longrightarrow> out = ?u" "stored s' = stored s7"
    using assms(2) st cl
    by (auto simp: device_identity_ensure_device_id_def 1 2 3 4 5 6 7 u Let_def
        simp del: device_identity_format_uuid_v4.simps device_identity_is_valid_uuid.simps split: if_splits)
  then show ?thesis
  proof cases
    case fail
    then show ?thesis by (auto intro: exI[of _ "[]"])
  next
    case kept
    then show ?thesis using nvs_contract_get_str(2)[OF assms(1) 4] st by (auto intro: exI[of _ "[]"] simp del: device_identity_is_valid_uuid.simps)
  next
    case unset
    have "stored s ?ns ?k \<noteq> Some (NvsStr v)" for v using nvs_contract_get_str(3)[OF assms(1) 3] unset st by auto
    moreover have "flash_or ?ns ?k (Some (NvsStr ?u)) (stored s) (stored s')"
      using nvs_contract_set(1)[OF assms(1) 6] unset st by simp
    ultimately show ?thesis using unset(1) by blast
  next
    case fresh
    have n: "stored s ?ns ?k \<noteq> Some (NvsStr v)" for v using nvs_contract_get_str(3)[OF assms(1) 3] fresh st by auto
    have sg: "staged s6 = [(?ns, ?k, Some (NvsStr ?u))]"
      using nvs_contract_set(2)[OF assms(1) 6] fresh(1,3) sg5 by simp
    have f6: "flash_or ?ns ?k (Some (NvsStr ?u)) (stored s) (stored s6)" using nvs_contract_set(1)[OF assms(1) 6] st by simp
    have f7: "flash_or ?ns ?k (Some (NvsStr ?u)) (stored s6) (stored s7)" using nvs_contract_commit(1)[OF assms(1) 7 sg] .
    have "flash_or ?ns ?k (Some (NvsStr ?u)) (stored s) (stored s')" using flash_or_trans[OF f6 f7] fresh(6) by simp
    moreover have "stored s' ?ns ?k = Some (NvsStr ?u)" if "err = ESP_OK"
      using nvs_contract_commit(2)[OF assms(1) 7 sg] fresh that by simp
    ultimately show ?thesis using n fresh(5) uuid_render_valid[of "uuid_v4_bits r"] by blast
  qed
qed

theorem device_id_stable_witness:
  "\<exists>err out s'. device_identity_ensure_device_id mem_api (flash_put ''m5daylog'' ''device_id'' (Some (NvsStr sample_uuid)) (\<lambda>_ _. None), []) =
     ((err, out), s') \<and> (err = ESP_OK \<longrightarrow> out = sample_uuid)"
proof -
  let ?s = "(flash_put ''m5daylog'' ''device_id'' (Some (NvsStr sample_uuid)) (\<lambda>_ _. None), []) :: mem_nvs"
  obtain err out s' where e: "device_identity_ensure_device_id mem_api ?s = ((err, out), s')" by (metis prod_cases3 surj_pair)
  have "fst ?s ''m5daylog'' ''device_id'' = Some (NvsStr sample_uuid)" by simp
  then show ?thesis using device_id_stable[OF mem_api_contract e] e by blast
qed

end
