(* ===== verification/Manifest_Format.thy ===== *)
theory Manifest_Format
  imports Device_Identity Sha256 "HOL-Library.Monad_Syntax"
begin

text \<open>
  The text of the recording manifest: the pure half of
  \<open>firmware/components/recorder/device_manifest.c\<close>. Timestamps and the calendar, file names, the entry
  and document writers, and the strict parser \<open>manifest_snapshot_valid\<close> that decides whether bytes on
  the card are a complete manifest of this device.

  A cursor into a buffer with its end is the list of the characters that remain. A scanner that advances
  its cursor returns the value and the remaining characters, \<open>None\<close> when it returns false.
\<close>

section \<open>Calendar and timestamps\<close>

definition days_in_month :: "nat list" where
  "days_in_month = [31, 28, 31, 30, 31, 30, 31, 31, 30, 31, 30, 31]"

definition valid_calendar_date :: "nat \<Rightarrow> nat \<Rightarrow> nat \<Rightarrow> bool" where
  "valid_calendar_date year month day =
     (if year = 0 \<or> month < 1 \<or> month > 12 \<or> day < 1 then False
      else let last = days_in_month ! (month - 1);
               last = (if month = 2 \<and> year mod 4 = 0 \<and> (year mod 100 \<noteq> 0 \<or> year mod 400 = 0) then last + 1 else last)
           in day \<le> last)"

fun device_manifest_is_valid_sha256_hex :: "string ptr \<Rightarrow> bool" where
  "device_manifest_is_valid_sha256_hex s = sha256_is_valid_hex s"

text \<open>The number in two digits of a timestamp.\<close>

definition two_digits :: "string \<Rightarrow> nat \<Rightarrow> nat" where
  "two_digits s i = digit_val (s ! i) * 10 + digit_val (s ! (i + 1))"

definition four_digits :: "string \<Rightarrow> nat" where
  "four_digits s = digit_val (s ! 0) * 1000 + digit_val (s ! 1) * 100 + digit_val (s ! 2) * 10 + digit_val (s ! 3)"

definition iso_shape :: "string \<Rightarrow> bool" where
  "iso_shape s \<longleftrightarrow> s ! 4 = CHR ''-'' \<and> s ! 7 = CHR ''-'' \<and> s ! 10 = CHR ''T'' \<and> s ! 13 = CHR '':'' \<and>
     s ! 16 = CHR '':'' \<and> (s ! 19 = CHR ''+'' \<or> s ! 19 = CHR ''-'') \<and> s ! 22 = CHR '':'' \<and>
     list_all (\<lambda>i. i \<in> {4, 7, 10, 13, 16, 19, 22} \<or> ascii_digit (s ! i)) [0..<25]"

fun device_manifest_is_valid_iso8601_offset :: "string ptr \<Rightarrow> bool" where
  "device_manifest_is_valid_iso8601_offset None = False"
| "device_manifest_is_valid_iso8601_offset (Some s) =
     (if length s \<noteq> 25 then False
      else if \<not> iso_shape s then False
      else let year = four_digits s; mon = two_digits s 5; day = two_digits s 8; hour = two_digits s 11;
               minute = two_digits s 14; sec = two_digits s 17; oh = two_digits s 20; om = two_digits s 23 in
      if \<not> valid_calendar_date year mon day then False
      else if hour > 23 \<or> minute > 59 \<or> sec > 60 then False
      else if oh > 14 \<or> om > 59 \<or> (oh = 14 \<and> om \<noteq> 0) then False
      else True)"

definition put2 :: "nat \<Rightarrow> string" where
  "put2 v = [digit_char (v div 10 mod 10), digit_char (v mod 10)]"

definition as_unsigned :: "int \<Rightarrow> nat" where
  "as_unsigned i = nat (i mod 2 ^ 32)"

definition device_manifest_format_iso8601_utc :: "int \<Rightarrow> int \<Rightarrow> int \<Rightarrow> int \<Rightarrow> int \<Rightarrow> int \<Rightarrow> string option" where
  "device_manifest_format_iso8601_utc year mon mday hour minute sec =
     (if year < 1970 \<or> year > 2100 \<or> \<not> valid_calendar_date (as_unsigned year) (as_unsigned mon) (as_unsigned mday) \<or>
         hour < 0 \<or> hour > 23 \<or> minute < 0 \<or> minute > 59 \<or> sec < 0 \<or> sec > 60
      then None
      else let y = nat year;
               out = [digit_char (y div 1000 mod 10), digit_char (y div 100 mod 10), digit_char (y div 10 mod 10),
                      digit_char (y mod 10)] @ ''-'' @ put2 (as_unsigned mon) @ ''-'' @ put2 (as_unsigned mday) @ ''T'' @
                     put2 (as_unsigned hour) @ '':'' @ put2 (as_unsigned minute) @ '':'' @ put2 (as_unsigned sec) @ ''+00:00''
      in if device_manifest_is_valid_iso8601_offset (Some out) then Some out else None)"

definition device_manifest_duration_ms :: "u32 \<Rightarrow> u32" where
  "device_manifest_duration_ms pcm_bytes = pcm_bytes div 32"

text \<open>
  Days since 1970-01-01 of a date of the Gregorian calendar; \<open>m > 2 ? -3 : 9\<close> rotates the year to begin
  in March.
\<close>

definition civil_days :: "int \<Rightarrow> int \<Rightarrow> int \<Rightarrow> int" where
  "civil_days y m d =
     (let ya = y - (if m \<le> 2 then 1 else 0);
          era = (if ya \<ge> 0 then ya div 400 else - ((399 - ya) div 400));
          yoe = ya - era * 400;
          doy = (153 * (m + (if m > 2 then -3 else 9)) + 2) div 5 + d - 1;
          doe = yoe * 365 + yoe div 4 - yoe div 100 + doy
      in era * 146097 + doe - 719468)"

fun manifest_utc_seconds :: "string ptr \<Rightarrow> int option" where
  "manifest_utc_seconds None = None"
| "manifest_utc_seconds (Some s) =
     (if \<not> device_manifest_is_valid_iso8601_offset (Some s) then None
      else let y = int (four_digits s); m = int (two_digits s 5); d = int (two_digits s 8); hh = int (two_digits s 11);
               mm = int (two_digits s 14); ss = int (two_digits s 17); oh = int (two_digits s 20); om = int (two_digits s 23) in
      if \<not> valid_calendar_date (nat y) (nat m) (nat d) \<or> (oh = 14 \<and> om \<noteq> 0) then None
      else Some (civil_days y m d * 86400 + hh * 3600 + mm * 60 + ss +
                 (if s ! 19 = CHR ''+'' then -1 else 1) * (oh * 3600 + om * 60)))"

definition manifest_start_times_compatible :: "string \<Rightarrow> string \<Rightarrow> bool" where
  "manifest_start_times_compatible committed observed =
     (case (manifest_utc_seconds (Some committed), manifest_utc_seconds (Some observed)) of
        (Some old_time, Some new_time) \<Rightarrow> (let diff = old_time - new_time in diff \<ge> -2 \<and> diff \<le> 2)
      | _ \<Rightarrow> False)"

section \<open>File names, entries and documents\<close>

fun safe_free_text :: "string ptr \<Rightarrow> nat \<Rightarrow> bool" where
  "safe_free_text None max_len = False"
| "safe_free_text (Some s) max_len = (s \<noteq> [] \<and> length s \<le> max_len \<and> list_all json_clean s)"

fun valid_filename :: "string ptr \<Rightarrow> bool" where
  "valid_filename None = False"
| "valid_filename (Some name) =
     (let len = length name in
      if len < 5 \<or> len > 180 then False
      else if take 11 name \<noteq> ''recordings/'' then False
      else if len < 4 \<or> drop (len - 4) name \<noteq> ''.wav'' then False
      else if len \<ge> 9 \<and> drop (len - 9) name = ''.wav.part'' then False
      else list_all json_clean name)"

definition filename_id_char :: "char \<Rightarrow> bool" where
  "filename_id_char c \<longleftrightarrow> c \<noteq> CHR ''/'' \<and> c \<noteq> CHR 0x5C \<and> c \<noteq> CHR 0x22 \<and> (0x20::nat) \<le> of_char c"

fun device_manifest_build_filename :: "string ptr \<Rightarrow> string ptr \<Rightarrow> string ptr \<Rightarrow> nat \<Rightarrow> string option" where
  "device_manifest_build_filename (Some date) (Some time) (Some recording_id) out_size =
     (if out_size = 0 then None
      else if length date \<noteq> 10 \<or> date ! 4 \<noteq> CHR ''-'' \<or> date ! 7 \<noteq> CHR ''-'' then None
      else if \<not> list_all (\<lambda>i. i = 4 \<or> i = 7 \<or> ascii_digit (date ! i)) [0..<10] then None
      else if length time \<noteq> 6 then None
      else if \<not> list_all ascii_digit time then None
      else if recording_id = [] \<or> length recording_id > 64 then None
      else if \<not> list_all filename_id_char recording_id then None
      else (case snprintf_fits out_size (''recordings/'' @ date @ ''/'' @ time @ ''_'' @ recording_id @ ''.wav'') of
              None \<Rightarrow> None
            | Some out \<Rightarrow> (if valid_filename (Some out) then Some out else None)))"
| "device_manifest_build_filename _ _ _ out_size = None"

record manifest_entry =
  me_id :: string
  me_filename :: string
  me_started :: string
  me_duration :: nat
  me_size :: nat
  me_sha :: string
  me_state :: string
  me_fw :: string

definition DEVICE_MANIFEST_STATE_FINALIZED :: string where "DEVICE_MANIFEST_STATE_FINALIZED = ''finalized''"
definition DEVICE_MANIFEST_STATE_RECOVERED :: string where "DEVICE_MANIFEST_STATE_RECOVERED = ''recovered''"

text \<open>The text that \<open>build_entry\<close> prints.\<close>

definition entry_text :: "manifest_entry \<Rightarrow> string" where
  "entry_text e =
     ''{\"recordingId\":\"'' @ me_id e @ ''\",\"filename\":\"'' @ me_filename e @ ''\",\"startedAt\":\"'' @ me_started e @
     ''\",\"durationMs\":'' @ dec_of_nat (me_duration e) @ '',\"sizeBytes\":'' @ dec_of_nat (me_size e) @
     '',\"sha256\":\"'' @ me_sha e @ ''\",\"sampleRate\":'' @ dec_of_nat RECORDER_SAMPLE_RATE_HZ @
     '',\"bitDepth\":'' @ dec_of_nat RECORDER_BITS_PER_SAMPLE @ '',\"channels\":'' @ dec_of_nat RECORDER_CHANNELS @
     '',\"state\":\"'' @ me_state e @ ''\",\"firmwareVersion\":\"'' @ me_fw e @ ''\"}''"

definition device_manifest_build_entry ::
    "string ptr \<Rightarrow> string ptr \<Rightarrow> string ptr \<Rightarrow> u32 \<Rightarrow> u32 \<Rightarrow> string ptr \<Rightarrow> nat \<Rightarrow> nat \<Rightarrow> nat \<Rightarrow> string ptr \<Rightarrow>
     string ptr \<Rightarrow> nat \<Rightarrow> string option" where
  "device_manifest_build_entry recording_id filename started_at duration_ms size_bytes sha256_hex sample_rate_hz
     bit_depth channels state firmware_version out_size =
     (let firmware_version = (case firmware_version of None \<Rightarrow> RECORDER_FIRMWARE_VERSION | Some v \<Rightarrow> v) in
      if out_size = 0 then None
      else if \<not> device_identity_is_valid_uuid recording_id then None
      else if \<not> valid_filename filename then None
      else if \<not> device_manifest_is_valid_iso8601_offset started_at then None
      else if \<not> device_manifest_is_valid_sha256_hex sha256_hex then None
      else if state \<noteq> Some DEVICE_MANIFEST_STATE_FINALIZED \<and> state \<noteq> Some DEVICE_MANIFEST_STATE_RECOVERED then None
      else if \<not> safe_free_text (Some firmware_version) 32 then None
      else if sample_rate_hz \<noteq> RECORDER_SAMPLE_RATE_HZ \<or> bit_depth \<noteq> RECORDER_BITS_PER_SAMPLE \<or> channels \<noteq> RECORDER_CHANNELS
      then None
      else if unat size_bytes < RECORDER_WAV_HEADER_SIZE then None
      else snprintf_fits out_size (entry_text
        \<lparr>me_id = the recording_id, me_filename = the filename, me_started = the started_at, me_duration = unat duration_ms,
         me_size = unat size_bytes, me_sha = the sha256_hex, me_state = the state, me_fw = firmware_version\<rparr>))"

text \<open>A document with the given text between the brackets of \<open>recordings\<close>.\<close>

definition document_text :: "string \<Rightarrow> string \<Rightarrow> string \<Rightarrow> string" where
  "document_text device_id updated_at body =
     ''{\"schemaVersion\":'' @ dec_of_nat RECORDER_METADATA_SCHEMA_VERSION @ '',\"deviceId\":\"'' @ device_id @
     ''\",\"updatedAt\":\"'' @ updated_at @ ''\",\"recordings\":['' @ body @ '']}''"

definition device_manifest_build_empty :: "string ptr \<Rightarrow> string ptr \<Rightarrow> nat \<Rightarrow> string option" where
  "device_manifest_build_empty device_id updated_at out_size =
     (if out_size = 0 then None
      else if \<not> device_identity_is_valid_uuid device_id then None
      else if \<not> device_manifest_is_valid_iso8601_offset updated_at then None
      else snprintf_fits out_size (document_text (the device_id) (the updated_at) []))"

text \<open>The base name begins after the last slash of either kind.\<close>

definition path_base :: "string \<Rightarrow> string" where
  "path_base path = rev (takeWhile (\<lambda>c. c \<noteq> CHR ''/'' \<and> c \<noteq> CHR 0x5C) (rev path))"

definition extract_id_char :: "char \<Rightarrow> bool" where
  "extract_id_char c \<longleftrightarrow> c \<noteq> CHR ''/'' \<and> c \<noteq> CHR 0x5C \<and> c \<noteq> CHR 0x22 \<and> c \<noteq> CHR 0x27 \<and> (0x20::nat) < of_char c"

fun device_manifest_extract_recording_id :: "string ptr \<Rightarrow> nat \<Rightarrow> string option" where
  "device_manifest_extract_recording_id None out_size = None"
| "device_manifest_extract_recording_id (Some wav_path) out_size =
     (if out_size = 0 \<or> wav_path = [] then None
      else let base = path_base wav_path in
      if length base < 12 \<or> memfind ''.wav'' base = None then None
      else if length base < 7 then None
      else if \<not> list_all (\<lambda>i. ascii_digit (base ! i)) [0..<6] then None
      else if base ! 6 \<noteq> CHR ''_'' then None
      else let us = drop 7 base in
      (case memfind ''.wav'' us of
         None \<Rightarrow> None
       | Some id_len \<Rightarrow>
           (if id_len = 0 \<or> id_len + 1 > out_size \<or> id_len > 64 then None
            else if \<not> list_all extract_id_char (take id_len us) then None
            else Some (take id_len us))))"

section \<open>Scanners\<close>

text \<open>\<open>json_string_field\<close> with \<open>start_after\<close> \<open>NULL\<close>, as every caller has it.\<close>

definition json_string_field :: "string \<Rightarrow> string \<Rightarrow> string option" where
  "json_string_field doc key =
     (case memfind key doc of
        None \<Rightarrow> None
      | Some at \<Rightarrow>
          (case c_strchr CHR '':'' (drop at doc) of
             None \<Rightarrow> None
           | Some k \<Rightarrow>
               (let p = dropWhile is_blank (drop (at + k + 1) doc) in
                if p = [] \<or> hd p \<noteq> CHR 0x22 then None
                else let p = tl p; v = takeWhile (\<lambda>c. c \<noteq> CHR 0x22 \<and> c \<noteq> CHR 0x5C) p; q = drop (length v) p in
                if q = [] then None else if hd q = CHR 0x5C then None else Some v)))"

definition manifest_expect :: "string \<Rightarrow> string \<Rightarrow> string option" where
  "manifest_expect literal p = (if take (length literal) p = literal then Some (drop (length literal) p) else None)"

text \<open>The loop of \<open>manifest_string\<close> after the opening quote.\<close>

fun string_body :: "string \<Rightarrow> (string \<times> string) option" where
  "string_body [] = None"
| "string_body (c # p) =
     (if c = CHR 0x22 then Some ([], p)
      else if c = CHR 0x5C \<or> (of_char c :: nat) < 0x20 then None
      else map_option (\<lambda>(v, q). (c # v, q)) (string_body p))"

fun manifest_string :: "string \<Rightarrow> (string \<times> string) option" where
  "manifest_string [] = None"
| "manifest_string (c # p) = (if c \<noteq> CHR 0x22 then None else string_body p)"

fun uint_loop :: "nat \<Rightarrow> string \<Rightarrow> (nat \<times> string) option" where
  "uint_loop result [] = Some (result, [])"
| "uint_loop result (c # p) =
     (if \<not> ascii_digit c then Some (result, c # p)
      else let digit = digit_val c in
      if result > (0xFFFFFFFF - digit) div 10 then None else uint_loop (result * 10 + digit) p)"

fun manifest_uint32 :: "string \<Rightarrow> (nat \<times> string) option" where
  "manifest_uint32 [] = None"
| "manifest_uint32 (c # p) =
     (if \<not> ascii_digit c then None
      else if c = CHR ''0'' \<and> p \<noteq> [] \<and> ascii_digit (hd p) then None
      else uint_loop 0 (c # p))"

definition uint_field :: "string \<Rightarrow> string \<Rightarrow> nat option" where
  "uint_field key doc =
     (case memfind key doc of
        None \<Rightarrow> None
      | Some at \<Rightarrow>
          (case manifest_uint32 (drop (at + length key) doc) of
             Some (v, c # p) \<Rightarrow> (if c = CHR '','' \<or> c = CHR ''}'' then Some v else None)
           | _ \<Rightarrow> None))"

definition manifest_entry_size :: "string \<Rightarrow> nat option" where
  "manifest_entry_size doc = uint_field ''\"sizeBytes\":'' doc"

definition manifest_entry_duration :: "string \<Rightarrow> nat option" where
  "manifest_entry_duration doc = uint_field ''\"durationMs\":'' doc"

definition manifest_iso8601 :: "string \<Rightarrow> bool" where
  "manifest_iso8601 v \<longleftrightarrow> length v = 25 \<and> device_manifest_is_valid_iso8601_offset (Some v)"

definition check :: "bool \<Rightarrow> unit option" where
  "check b = (if b then Some () else None)"

text \<open>The duration that a file of this size must have.\<close>

definition expected_duration :: "nat \<Rightarrow> nat" where
  "expected_duration sz = unat (device_manifest_duration_ms (of_nat (sz - RECORDER_WAV_HEADER_SIZE)))"

text \<open>The long condition of the entry loop: one entry in the fixed order of its fields.\<close>

definition manifest_entry :: "string \<Rightarrow> (manifest_entry \<times> string) option" where
  "manifest_entry p = do {
     p \<leftarrow> manifest_expect ''{\"recordingId\":'' p;
     (id1, p) \<leftarrow> manifest_string p;
     check (length id1 = 36);
     p \<leftarrow> manifest_expect '',\"filename\":'' p;
     (name, p) \<leftarrow> manifest_string p;
     check (length name \<noteq> 0 \<and> length name < 192);
     p \<leftarrow> manifest_expect '',\"startedAt\":'' p;
     (started, p) \<leftarrow> manifest_string p;
     check (manifest_iso8601 started);
     p \<leftarrow> manifest_expect '',\"durationMs\":'' p;
     (stored_duration, p) \<leftarrow> manifest_uint32 p;
     p \<leftarrow> manifest_expect '',\"sizeBytes\":'' p;
     (stored_size, p) \<leftarrow> manifest_uint32 p;
     check (stored_size \<ge> RECORDER_WAV_HEADER_SIZE \<and> (stored_size - RECORDER_WAV_HEADER_SIZE) mod RECORDER_BLOCK_ALIGN = 0 \<and>
            stored_duration = expected_duration stored_size);
     p \<leftarrow> manifest_expect '',\"sha256\":'' p;
     (sha, p) \<leftarrow> manifest_string p;
     check (length sha = 64);
     p \<leftarrow> manifest_expect '',\"sampleRate\":'' p;
     (num, p) \<leftarrow> manifest_uint32 p;
     check (num = RECORDER_SAMPLE_RATE_HZ);
     p \<leftarrow> manifest_expect '',\"bitDepth\":'' p;
     (num, p) \<leftarrow> manifest_uint32 p;
     check (num = RECORDER_BITS_PER_SAMPLE);
     p \<leftarrow> manifest_expect '',\"channels\":'' p;
     (num, p) \<leftarrow> manifest_uint32 p;
     check (num = RECORDER_CHANNELS);
     p \<leftarrow> manifest_expect '',\"state\":'' p;
     (state, p) \<leftarrow> manifest_string p;
     check (state = ''finalized'' \<or> state = ''recovered'');
     p \<leftarrow> manifest_expect '',\"firmwareVersion\":'' p;
     (fw, p) \<leftarrow> manifest_string p;
     check (length fw \<noteq> 0 \<and> length fw \<le> 32);
     p \<leftarrow> manifest_expect ''}'' p;
     Some (\<lparr>me_id = id1, me_filename = name, me_started = started, me_duration = stored_duration, me_size = stored_size,
            me_sha = sha, me_state = state, me_fw = fw\<rparr>, p) }"

definition id_needle :: "string \<Rightarrow> string" where
  "id_needle uuid = ''\"recordingId\":\"'' @ uuid @ ''\"''"

section \<open>What the scanners accept\<close>

lemma manifest_expect_iff: "manifest_expect lit p = Some q \<longleftrightarrow> p = lit @ q"
  unfolding manifest_expect_def by (auto simp: append_take_drop_id) (metis append_take_drop_id)

lemma string_body_iff: "string_body p = Some (v, q) \<longleftrightarrow> p = v @ CHR 0x22 # q \<and> list_all json_clean v"
proof (induction p arbitrary: v)
  case (Cons c p)
  show ?case
  proof (cases "json_clean c")
    case True
    have "string_body (c # p) = Some (v, q) \<longleftrightarrow> (\<exists>v'. v = c # v' \<and> string_body p = Some (v', q))"
      using True by (auto simp: json_clean_def)
    also have "\<dots> \<longleftrightarrow> c # p = v @ CHR 0x22 # q \<and> list_all json_clean v"
      unfolding Cons.IH using True by (cases v) (auto simp: json_clean_def)
    finally show ?thesis .
  next
    case False
    then show ?thesis by (cases v) (auto simp: json_clean_def)
  qed
qed simp

lemma manifest_string_iff:
  "manifest_string p = Some (v, q) \<longleftrightarrow> p = CHR 0x22 # v @ CHR 0x22 # q \<and> list_all json_clean v"
  by (cases p) (auto simp: string_body_iff)

text \<open>Decimal numbers: what \<open>%u\<close> prints and what \<open>manifest_uint32\<close> reads.\<close>

definition dval :: "string \<Rightarrow> nat" where
  "dval ds = foldl (\<lambda>a c. a * 10 + digit_val c) 0 ds"

lemma dval_snoc [simp]: "dval (ds @ [c]) = dval ds * 10 + digit_val c"
  by (simp add: dval_def)

lemma dval_nil [simp]: "dval [] = 0"
  by (simp add: dval_def)

lemma dec_of_nat_small: "n < 10 \<Longrightarrow> dec_of_nat n = [digit_char n]"
  by (simp add: dec_of_nat.simps digit_char_def)

lemma dec_of_nat_large: "\<not> n < 10 \<Longrightarrow> dec_of_nat n = dec_of_nat (n div 10) @ [digit_char (n mod 10)]"
  by (subst dec_of_nat.simps) (simp add: digit_char_def)

lemma digit_char_0: "digit_char 0 = CHR ''0''"
  unfolding digit_char_def by code_simp

lemma dec_of_nat_digits: "list_all ascii_digit (dec_of_nat n) \<and> dec_of_nat n \<noteq> [] \<and> dval (dec_of_nat n) = n"
proof (induction n rule: dec_of_nat.induct)
  case (1 n)
  show ?case
  proof (cases "n < 10")
    case True
    then have "dec_of_nat n = [] @ [digit_char n]" by (simp add: dec_of_nat_small)
    then show ?thesis using True dval_snoc[of "[]" "digit_char n"] digit_char_props by (simp add: dval_def)
  next
    case False
    note large = dec_of_nat_large[OF False]
    from large show ?thesis using 1[OF False] digit_char_props[of "n mod 10"] by simp
  qed
qed

lemma dec_of_nat_lead: "n > 0 \<Longrightarrow> hd (dec_of_nat n) \<noteq> CHR ''0''"
proof (induction n rule: dec_of_nat.induct)
  case (1 n)
  show ?case
  proof (cases "n < 10")
    case True
    then have "dec_of_nat n = [digit_char n]" by (rule dec_of_nat_small)
    moreover have "digit_val (CHR ''0'') = 0" by (simp add: digit_val_def)
    ultimately show ?thesis using True 1(2) digit_char_props(2)[of n] by auto
  next
    case False
    note large = dec_of_nat_large[OF False]
    from large show ?thesis using 1(1)[OF False] False dec_of_nat_digits[of "n div 10"] by (simp add: hd_append)
  qed
qed

lemma digit_char_val: "ascii_digit c \<Longrightarrow> digit_char (digit_val c) = c"
  by (simp add: ascii_digit_def digit_val_def digit_char_def)

lemma dval_pos: "list_all ascii_digit ds \<Longrightarrow> ds \<noteq> [] \<Longrightarrow> hd ds \<noteq> CHR ''0'' \<Longrightarrow> dval ds > 0"
proof (induction ds rule: rev_induct)
  case (snoc c ds)
  show ?case
  proof (cases "ds = []")
    case True
    have "digit_val c \<noteq> 0"
    proof
      assume "digit_val c = 0"
      then have "c = CHR ''0''" using snoc.prems digit_char_val[of c] digit_char_0 by auto
      then show False using snoc.prems True by simp
    qed
    then show ?thesis using True dval_snoc[of "[]" c] by simp
  next
    case False
    then show ?thesis using snoc by simp
  qed
qed simp

text \<open>The decimal text without leading zeros is determined by its value.\<close>

lemma dec_of_nat_dval:
  "list_all ascii_digit ds \<Longrightarrow> ds \<noteq> [] \<Longrightarrow> hd ds \<noteq> CHR ''0'' \<or> length ds = 1 \<Longrightarrow> dec_of_nat (dval ds) = ds"
proof (induction ds rule: rev_induct)
  case (snoc c ds)
  have d: "digit_val c < 10" "digit_char (digit_val c) = c" using snoc.prems digit_val_less digit_char_val by auto
  show ?case
  proof (cases "ds = []")
    case True
    then show ?thesis using d dval_snoc[of "[]" c] by (simp add: dec_of_nat_small)
  next
    case False
    then have lead: "hd ds \<noteq> CHR ''0''" using snoc.prems by auto
    have ih: "dec_of_nat (dval ds) = ds" using snoc.IH snoc.prems False lead by simp
    have "dval ds > 0" using dval_pos[of ds] snoc.prems False lead by simp
    then have "dec_of_nat (dval ds * 10 + digit_val c) = dec_of_nat (dval ds) @ [digit_char (digit_val c)]"
      using d(1) by (subst dec_of_nat_large) simp_all
    then show ?thesis using ih d(2) by simp
  qed
qed simp

lemma foldl_digits_ge: "a \<le> foldl (\<lambda>a c. a * 10 + digit_val c) a xs"
proof (induction xs arbitrary: a)
  case (Cons x xs)
  have "a \<le> a * 10 + digit_val x" by simp
  also have "\<dots> \<le> foldl (\<lambda>a c. a * 10 + digit_val c) (a * 10 + digit_val x) xs" by (rule Cons.IH)
  finally show ?case by simp
qed simp

text \<open>The digit loop reads a maximal run of digits and refuses a value above \<open>UINT32_MAX\<close>.\<close>

lemma uint_loop_digits:
  "list_all ascii_digit ds \<Longrightarrow> q = [] \<or> \<not> ascii_digit (hd q) \<Longrightarrow>
   foldl (\<lambda>a c. a * 10 + digit_val c) acc ds < 2 ^ 32 \<Longrightarrow>
   uint_loop acc (ds @ q) = Some (foldl (\<lambda>a c. a * 10 + digit_val c) acc ds, q)"
proof (induction ds arbitrary: acc)
  case Nil
  then show ?case by (cases q) auto
next
  case (Cons c ds)
  have "acc * 10 + digit_val c \<le> 0xFFFFFFFF"
    using foldl_digits_ge[of "acc * 10 + digit_val c" ds] Cons.prems(3) by simp
  then have "\<not> acc > (0xFFFFFFFF - digit_val c) div 10" by linarith
  then show ?case using Cons.IH[of "acc * 10 + digit_val c"] Cons.prems by simp
qed

lemma uint_loop_some:
  "uint_loop acc p = Some (n, q) \<Longrightarrow> acc < 2 ^ 32 \<Longrightarrow>
   \<exists>ds. p = ds @ q \<and> list_all ascii_digit ds \<and> n = foldl (\<lambda>a c. a * 10 + digit_val c) acc ds \<and> n < 2 ^ 32 \<and>
     (q = [] \<or> \<not> ascii_digit (hd q))"
proof (induction acc p rule: uint_loop.induct)
  case (1 acc)
  then show ?case by (intro exI[of _ "[]"]) auto
next
  case (2 acc c p)
  show ?case
  proof (cases "ascii_digit c")
    case False
    then show ?thesis using 2 by (intro exI[of _ "[]"]) auto
  next
    case True
    then have ok: "\<not> acc > (0xFFFFFFFF - digit_val c) div 10" and l: "uint_loop (acc * 10 + digit_val c) p = Some (n, q)"
      using 2(2) by (auto simp: Let_def split: if_splits)
    have "digit_val c < 10" by (rule digit_val_less[OF True])
    then have "acc * 10 + digit_val c < 2 ^ 32" using ok by simp
    then obtain ds where "p = ds @ q" "list_all ascii_digit ds"
      "n = foldl (\<lambda>a c. a * 10 + digit_val c) (acc * 10 + digit_val c) ds" "n < 2 ^ 32" "q = [] \<or> \<not> ascii_digit (hd q)"
      using 2(1)[OF _ refl ok l] True by auto
    then show ?thesis using True by (intro exI[of _ "c # ds"]) simp
  qed
qed

lemma manifest_uint32_iff:
  "manifest_uint32 p = Some (n, q) \<longleftrightarrow> p = dec_of_nat n @ q \<and> n < 2 ^ 32 \<and> (q = [] \<or> \<not> ascii_digit (hd q))"
proof
  assume a: "manifest_uint32 p = Some (n, q)"
  then obtain c p' where p: "p = c # p'" "ascii_digit c" "\<not> (c = CHR ''0'' \<and> p' \<noteq> [] \<and> ascii_digit (hd p'))"
    and l: "uint_loop 0 (c # p') = Some (n, q)"
    by (cases p) (auto split: if_splits simp del: uint_loop.simps)
  obtain ds where ds: "c # p' = ds @ q" "list_all ascii_digit ds" "n = dval ds" "n < 2 ^ 32" "q = [] \<or> \<not> ascii_digit (hd q)"
    using uint_loop_some[OF l] by (auto simp: dval_def)
  have ne: "ds \<noteq> []" using ds(1,5) p(2) by auto
  then obtain ds' where d: "ds = c # ds'" "p' = ds' @ q" using ds(1) by (cases ds) auto
  have "hd ds \<noteq> CHR ''0'' \<or> length ds = 1" using p(3) d ds(2) by (cases ds') auto
  then have "dec_of_nat n = ds" using dec_of_nat_dval[OF ds(2) ne] ds(3) by simp
  then show "p = dec_of_nat n @ q \<and> n < 2 ^ 32 \<and> (q = [] \<or> \<not> ascii_digit (hd q))" using p(1) ds by simp
next
  assume a: "p = dec_of_nat n @ q \<and> n < 2 ^ 32 \<and> (q = [] \<or> \<not> ascii_digit (hd q))"
  obtain c ds where d: "dec_of_nat n = c # ds" using dec_of_nat_digits[of n] by (cases "dec_of_nat n") auto
  have dg: "list_all ascii_digit (c # ds)" "dval (c # ds) = n" using dec_of_nat_digits[of n] d by auto
  have lead: "\<not> (c = CHR ''0'' \<and> ds @ q \<noteq> [] \<and> ascii_digit (hd (ds @ q)))"
  proof (cases "n = 0")
    case True
    then have "ds = []" using d by (simp add: dec_of_nat_small)
    then show ?thesis using a by auto
  next
    case False
    then show ?thesis using dec_of_nat_lead[of n] d by simp
  qed
  have "uint_loop 0 ((c # ds) @ q) = Some (n, q)"
    using uint_loop_digits[OF dg(1), of q 0] a dg(2) by (simp add: dval_def)
  then show "manifest_uint32 p = Some (n, q)" using a d dg(1) lead by (simp del: uint_loop.simps)
qed

section \<open>One entry\<close>

text \<open>The conditions that \<open>manifest_entry\<close> itself checks, and those of a complete entry.\<close>

definition entry_fields_ok :: "manifest_entry \<Rightarrow> bool" where
  "entry_fields_ok e \<longleftrightarrow> length (me_id e) = 36 \<and> list_all json_clean (me_id e) \<and>
     0 < length (me_filename e) \<and> length (me_filename e) < 192 \<and> list_all json_clean (me_filename e) \<and>
     manifest_iso8601 (me_started e) \<and> list_all json_clean (me_started e) \<and>
     RECORDER_WAV_HEADER_SIZE \<le> me_size e \<and> me_size e < 2 ^ 32 \<and>
     (me_size e - RECORDER_WAV_HEADER_SIZE) mod RECORDER_BLOCK_ALIGN = 0 \<and>
     me_duration e < 2 ^ 32 \<and> me_duration e = expected_duration (me_size e) \<and>
     length (me_sha e) = 64 \<and> list_all json_clean (me_sha e) \<and>
     (me_state e = ''finalized'' \<or> me_state e = ''recovered'') \<and>
     0 < length (me_fw e) \<and> length (me_fw e) \<le> 32 \<and> list_all json_clean (me_fw e)"

lemma check_simps [simp]: "check True = Some ()" "check False = None" "(check b = Some u) = b"
  by (simp_all add: check_def)

lemma comma_not_digit [simp]: "\<not> ascii_digit CHR '',''"
  by (simp add: ascii_digit_def)

lemma manifest_uint32_dec [simp]:
  "n < 2 ^ 32 \<Longrightarrow> q = [] \<or> \<not> ascii_digit (hd q) \<Longrightarrow> manifest_uint32 (dec_of_nat n @ q) = Some (n, q)"
  by (simp add: manifest_uint32_iff del: manifest_uint32.simps)

lemma manifest_string_quoted [simp]:
  "list_all json_clean v \<Longrightarrow> manifest_string (CHR 0x22 # v @ CHR 0x22 # q) = Some (v, q)"
  by (simp add: manifest_string_iff del: manifest_string.simps)

lemma manifest_entry_text:
  assumes "entry_fields_ok e"
  shows "manifest_entry (entry_text e @ q) = Some (e, q)"
proof -
  have c: "RECORDER_SAMPLE_RATE_HZ < 2 ^ 32" "RECORDER_BITS_PER_SAMPLE < 2 ^ 32" "RECORDER_CHANNELS < 2 ^ 32"
    by (simp_all add: config_simps)
  have st: "list_all json_clean (me_state e)"
    using assms by (auto simp: entry_fields_ok_def json_clean_def)
  show ?thesis
    using assms c st unfolding entry_fields_ok_def manifest_entry_def entry_text_def
    by (simp add: manifest_expect_def del: manifest_string.simps manifest_uint32.simps)
qed

lemma manifest_entry_some:
  assumes "manifest_entry p = Some (e, q)"
  shows "p = entry_text e @ q \<and> entry_fields_ok e"
  using assms unfolding manifest_entry_def
  by (auto simp: bind_eq_Some_conv manifest_expect_iff manifest_string_iff manifest_uint32_iff entry_text_def entry_fields_ok_def
      simp del: manifest_string.simps manifest_uint32.simps)

lemma entry_text_start: "\<exists>r. entry_text e = CHR ''{'' # r"
  by (simp add: entry_text_def)

lemma manifest_entry_shorter: "manifest_entry p = Some (e, q) \<Longrightarrow> length q < length p"
  using manifest_entry_some[of p e q] entry_text_start[of e] by auto

section \<open>The snapshot parser\<close>

text \<open>
  The loop over the entries; the result is the cursor behind it, \<open>None\<close> a return of false. A duplicate of
  an identifier is looked for in all that follows its entry.
\<close>

function manifest_entries :: "string \<Rightarrow> string option" where
  "manifest_entries p =
     (if p = [] \<or> hd p = CHR '']'' then Some p
      else case manifest_entry p of
        None \<Rightarrow> None
      | Some (e, p) \<Rightarrow>
          (if \<not> device_identity_is_valid_uuid (Some (me_id e)) \<or> \<not> valid_filename (Some (me_filename e)) \<or>
              \<not> device_manifest_is_valid_sha256_hex (Some (me_sha e)) then None
           else if memfind (id_needle (me_id e)) p \<noteq> None then None
           else if p \<noteq> [] \<and> hd p = CHR '','' then
             (let p = tl p in if p = [] \<or> hd p \<noteq> CHR ''{'' then None else manifest_entries p)
           else if p \<noteq> [] \<and> hd p \<noteq> CHR '']'' then None
           else manifest_entries p))"
  by pat_completeness auto
termination
proof (relation "measure length", goal_cases)
  case (2 p x e q r)
  then have "length q < length p" using manifest_entry_shorter[of p e q] by simp
  then show ?case using 2 by (cases q) auto
next
  case (3 p x e q)
  then show ?case using manifest_entry_shorter[of p e q] by simp
qed simp

declare manifest_entries.simps [simp del]

fun manifest_snapshot_valid :: "string ptr \<Rightarrow> string ptr \<Rightarrow> bool" where
  "manifest_snapshot_valid (Some doc) (Some device_id) =
     (if doc = [] then False
      else if NUL \<in> set doc then False
      else (do {
        p \<leftarrow> manifest_expect ''{\"schemaVersion\":'' doc;
        (ver, p) \<leftarrow> manifest_uint32 p;
        check (ver = RECORDER_METADATA_SCHEMA_VERSION);
        p \<leftarrow> manifest_expect '',\"deviceId\":'' p;
        (v, p) \<leftarrow> manifest_string p;
        check (v = device_id);
        p \<leftarrow> manifest_expect '',\"updatedAt\":'' p;
        (v, p) \<leftarrow> manifest_string p;
        check (manifest_iso8601 v);
        p \<leftarrow> manifest_expect '',\"recordings\":['' p;
        p \<leftarrow> manifest_entries p;
        manifest_expect '']}'' p }) = Some [])"
| "manifest_snapshot_valid _ _ = False"

section \<open>What a manifest is\<close>

text \<open>
  The specification: a list of complete entries with distinct identifiers, printed in order. \<open>body_text\<close> is
  the text between the brackets.
\<close>

fun body_text :: "manifest_entry list \<Rightarrow> string" where
  "body_text [] = []"
| "body_text [e] = entry_text e"
| "body_text (e # es) = entry_text e @ CHR '','' # body_text es"

definition entry_ok :: "manifest_entry \<Rightarrow> bool" where
  "entry_ok e \<longleftrightarrow> device_identity_is_valid_uuid (Some (me_id e)) \<and> valid_filename (Some (me_filename e)) \<and>
     device_manifest_is_valid_iso8601_offset (Some (me_started e)) \<and>
     RECORDER_WAV_HEADER_SIZE \<le> me_size e \<and> me_size e < 2 ^ 32 \<and>
     (me_size e - RECORDER_WAV_HEADER_SIZE) mod RECORDER_BLOCK_ALIGN = 0 \<and> me_duration e = expected_duration (me_size e) \<and>
     device_manifest_is_valid_sha256_hex (Some (me_sha e)) \<and>
     (me_state e = DEVICE_MANIFEST_STATE_FINALIZED \<or> me_state e = DEVICE_MANIFEST_STATE_RECOVERED) \<and>
     safe_free_text (Some (me_fw e)) 32"

definition entries_ok :: "manifest_entry list \<Rightarrow> bool" where
  "entries_ok es \<longleftrightarrow> list_all entry_ok es \<and> distinct (map me_id es)"

lemma hex_clean: "is_hex c \<Longrightarrow> json_clean c"
  by (auto simp: is_hex_def json_clean_def Let_def)

lemma uuid_clean:
  assumes "device_identity_is_valid_uuid (Some u)"
  shows "list_all json_clean u"
proof -
  have a: "length u = 36"
    "\<forall>i \<in> set [0..<36]. if i = 8 \<or> i = 13 \<or> i = 18 \<or> i = 23 then u ! i = CHR ''-'' else is_hex (u ! i)"
    using assms unfolding device_identity_is_valid_uuid.simps list_all_iff by blast+
  have "json_clean (u ! i)" if "i < 36" for i
  proof -
    have "u ! i = CHR ''-'' \<or> is_hex (u ! i)" using bspec[OF a(2), of i] that by (simp split: if_splits)
    moreover have "json_clean CHR ''-''" by (simp add: json_clean_def)
    ultimately show ?thesis using hex_clean by metis
  qed
  then show ?thesis using a(1) by (simp add: list_all_length)
qed

lemma digit_clean: "ascii_digit c \<Longrightarrow> json_clean c"
  by (auto simp: ascii_digit_def json_clean_def)

lemma iso_clean:
  assumes "device_manifest_is_valid_iso8601_offset (Some s)"
  shows "length s = 25" "list_all json_clean s"
proof -
  show l: "length s = 25" using assms by (auto split: if_splits)
  have sh: "iso_shape s" using assms by (auto split: if_splits)
  have "json_clean (s ! i)" if "i < 25" for i
  proof (cases "i \<in> {4, 7, 10, 13, 16, 19, 22}")
    case True
    then show ?thesis using sh by (auto simp: iso_shape_def json_clean_def)
  next
    case False
    then have "ascii_digit (s ! i)" using sh that by (auto simp: iso_shape_def list_all_iff)
    then show ?thesis by (rule digit_clean)
  qed
  then show "list_all json_clean s" using l by (simp add: list_all_length)
qed

lemma sha_clean:
  assumes "device_manifest_is_valid_sha256_hex (Some s)"
  shows "length s = 64" "list_all json_clean s"
proof -
  show "length s = 64" using assms by auto
  show "list_all json_clean s" using assms by (auto simp: list_all_iff json_clean_def)
qed

lemma filename_clean:
  assumes "valid_filename (Some s)"
  shows "0 < length s" "length s < 192" "list_all json_clean s"
  using assms by (auto simp: Let_def split: if_splits)

lemma expected_duration_eq:
  assumes "sz < 2 ^ 32" shows "expected_duration sz = (sz - 44) div 32" "expected_duration sz < 2 ^ 32"
proof -
  have "unat (of_nat (sz - 44) :: u32) = sz - 44" using assms by (intro unat_of_nat_small) simp
  then show e: "expected_duration sz = (sz - 44) div 32"
    by (simp add: expected_duration_def device_manifest_duration_ms_def unat_div config_simps)
  show "expected_duration sz < 2 ^ 32" unfolding e using assms by simp
qed

lemma entry_ok_iff:
  "entry_ok e \<longleftrightarrow> entry_fields_ok e \<and> device_identity_is_valid_uuid (Some (me_id e)) \<and>
     valid_filename (Some (me_filename e)) \<and> device_manifest_is_valid_sha256_hex (Some (me_sha e))"
proof
  assume e: "entry_ok e"
  note cl = uuid_clean[of "me_id e"] iso_clean[of "me_started e"] sha_clean[of "me_sha e"] filename_clean[of "me_filename e"]
  have "length (me_id e) = 36" using e by (simp add: entry_ok_def)
  then show "entry_fields_ok e \<and> device_identity_is_valid_uuid (Some (me_id e)) \<and>
     valid_filename (Some (me_filename e)) \<and> device_manifest_is_valid_sha256_hex (Some (me_sha e))"
    using e cl expected_duration_eq[of "me_size e"] unfolding entry_ok_def entry_fields_ok_def manifest_iso8601_def
    by (simp add: DEVICE_MANIFEST_STATE_FINALIZED_def DEVICE_MANIFEST_STATE_RECOVERED_def
        del: device_identity_is_valid_uuid.simps valid_filename.simps device_manifest_is_valid_iso8601_offset.simps
          device_manifest_is_valid_sha256_hex.simps)
next
  assume "entry_fields_ok e \<and> device_identity_is_valid_uuid (Some (me_id e)) \<and>
     valid_filename (Some (me_filename e)) \<and> device_manifest_is_valid_sha256_hex (Some (me_sha e))"
  then show "entry_ok e" unfolding entry_ok_def entry_fields_ok_def manifest_iso8601_def
    by (simp add: DEVICE_MANIFEST_STATE_FINALIZED_def DEVICE_MANIFEST_STATE_RECOVERED_def
        del: device_identity_is_valid_uuid.simps valid_filename.simps device_manifest_is_valid_iso8601_offset.simps
          device_manifest_is_valid_sha256_hex.simps)
qed

section \<open>Text between quotes\<close>

text \<open>
  A document is read as the segments between its quotation marks. No value contains one, so a quoted key
  can only be found where a segment equals it.
\<close>

fun segs :: "string \<Rightarrow> string list" where
  "segs [] = [[]]"
| "segs (c # s) = (case segs s of [] \<Rightarrow> [] | h # t \<Rightarrow> if c = CHR 0x22 then [] # h # t else (c # h) # t)"

lemma segs_nonempty [simp]: "segs s \<noteq> []"
  by (induction s) (auto split: list.splits)

lemma segs_append_quote: "segs (a @ CHR 0x22 # b) = segs a @ segs b"
proof (induction a)
  case Nil
  then show ?case by (cases "segs b") auto
next
  case (Cons c a)
  then show ?case by (cases "segs a") auto
qed

lemma segs_clean [simp]: "list_all json_clean a \<Longrightarrow> segs a = [a]"
  by (induction a) (auto simp: json_clean_def)

lemma segs_clean_append:
  "list_all json_clean a \<Longrightarrow> segs (a @ b) = (case segs b of [] \<Rightarrow> [] | h # t \<Rightarrow> (a @ h) # t)"
  by (induction a) (auto simp: json_clean_def split: list.splits)

lemma segs_quoted:
  assumes "list_all json_clean k"
  shows "segs (a @ CHR 0x22 # k @ CHR 0x22 # b) = segs a @ k # segs b"
  using assms by (simp add: segs_append_quote)

text \<open>The values that follow a key \<open>recordingId\<close>.\<close>

fun ids_after :: "string list \<Rightarrow> string list" where
  "ids_after (a # b # c # r) =
     (if a = ''recordingId'' \<and> b = '':'' then c # ids_after (b # c # r) else ids_after (b # c # r))"
| "ids_after _ = []"

lemma ids_after_mem: "x \<in> set (ids_after (l @ ''recordingId'' # '':'' # x # r))"
proof (induction l)
  case Nil
  then show ?case by simp
next
  case (Cons y l)
  have "set (ids_after ys) \<subseteq> set (ids_after (y # ys))" for ys
    by (cases ys rule: ids_after.cases) auto
  then show ?case using Cons by auto
qed

lemma ids_after_skip: "a \<noteq> ''recordingId'' \<Longrightarrow> ids_after (a # r) = ids_after r"
  by (cases r rule: ids_after.cases) auto

lemma ids_after_value: "b \<noteq> '':'' \<Longrightarrow> ids_after (a # b # r) = ids_after (b # r)"
  by (cases r) auto

lemma dec_clean: "list_all json_clean (dec_of_nat n)"
  using dec_of_nat_digits[of n] digit_clean by (auto simp: list_all_iff)

definition entry_segs :: "manifest_entry \<Rightarrow> string list" where
  "entry_segs e = [''{'', ''recordingId'', '':'', me_id e, '','', ''filename'', '':'', me_filename e, '','', ''startedAt'', '':'',
     me_started e, '','', ''durationMs'', '':'' @ dec_of_nat (me_duration e) @ '','', ''sizeBytes'',
     '':'' @ dec_of_nat (me_size e) @ '','', ''sha256'', '':'', me_sha e, '','', ''sampleRate'',
     '':'' @ dec_of_nat RECORDER_SAMPLE_RATE_HZ @ '','', ''bitDepth'', '':'' @ dec_of_nat RECORDER_BITS_PER_SAMPLE @ '','',
     ''channels'', '':'' @ dec_of_nat RECORDER_CHANNELS @ '','', ''state'', '':'', me_state e, '','', ''firmwareVersion'', '':'', me_fw e]"

fun unsegs :: "string list \<Rightarrow> string" where
  "unsegs [] = []"
| "unsegs [x] = x"
| "unsegs (x # y # l) = x @ CHR 0x22 # unsegs (y # l)"

lemma segs_unsegs:
  assumes "list_all (list_all json_clean) l" "list_all json_clean x" "segs rest = h # t"
  shows "segs (unsegs (l @ [x]) @ rest) = l @ (x @ h) # t"
  using assms(1)
proof (induction l)
  case Nil
  then show ?case using assms(2,3) by (simp add: segs_clean_append)
next
  case (Cons y l)
  have "unsegs ((y # l) @ [x]) = y @ CHR 0x22 # unsegs (l @ [x])" by (cases l) auto
  then show ?case using Cons by (simp add: segs_append_quote)
qed

lemma entry_segs_clean:
  assumes "entry_fields_ok e" shows "list_all (list_all json_clean) (entry_segs e)"
proof -
  have "list_all json_clean (me_state e)" using assms by (auto simp: entry_fields_ok_def json_clean_def)
  then show ?thesis using assms by (simp add: entry_fields_ok_def entry_segs_def json_clean_def dec_clean)
qed

lemma segs_entry:
  assumes "entry_fields_ok e" "segs rest = h # t"
  shows "segs (entry_text e @ rest) = entry_segs e @ (CHR ''}'' # h) # t"
proof -
  have "entry_text e = unsegs (entry_segs e @ [''}''])" by (simp add: entry_text_def entry_segs_def)
  then show ?thesis using segs_unsegs[OF entry_segs_clean[OF assms(1)] _ assms(2), of "''}''"] by (simp add: json_clean_def)
qed

lemma ids_after_entry:
  assumes "x \<noteq> ''recordingId''" "x \<noteq> '':''"
  shows "ids_after (entry_segs e @ x # t) = me_id e # ids_after (x # t)"
  using assms by (simp add: entry_segs_def ids_after_skip ids_after_value)

lemma segs_body_rest:
  assumes "list_all entry_ok es" "list_all json_clean rest"
  shows "\<exists>h t. segs (body_text es @ rest) = h # t \<and> h = (if es = [] then rest else ''{'') \<and> ids_after (h # t) = map me_id es"
  using assms(1)
proof (induction es rule: body_text.induct)
  case 1
  then show ?case using assms(2) by simp
next
  case (2 e)
  then have e: "entry_fields_ok e" by (simp add: entry_ok_iff)
  have "segs (entry_text e @ rest) = entry_segs e @ [CHR ''}'' # rest]" using segs_entry[OF e segs_clean[OF assms(2)]] by simp
  then show ?case using ids_after_entry[of "CHR ''}'' # rest" e "[]"] by (auto simp: entry_segs_def)
next
  case (3 e e' es)
  then have e: "entry_fields_ok e" by (simp add: entry_ok_iff)
  obtain h t where ht: "segs (body_text (e' # es) @ rest) = h # t" "ids_after (h # t) = map me_id (e' # es)" "h = ''{''"
    using 3 by auto
  have "segs (CHR '','' # body_text (e' # es) @ rest) = (CHR '','' # h) # t" using ht(1) by simp
  from segs_entry[OF e this] have "segs (body_text (e # e' # es) @ rest) = entry_segs e @ (CHR ''}'' # CHR '','' # h) # t" by simp
  moreover have "ids_after (entry_segs e @ (CHR ''}'' # CHR '','' # h) # t) = me_id e # ids_after t"
    using ids_after_entry[of "CHR ''}'' # CHR '','' # h" e t] by (simp add: ids_after_skip)
  moreover have "ids_after t = map me_id (e' # es)" using ht(2,3) ids_after_skip[of h t] by auto
  ultimately show ?case by (auto simp: entry_segs_def)
qed

lemma segs_body:
  assumes "list_all entry_ok es"
  shows "\<exists>h t. segs (body_text es @ '']}'') = h # t \<and> h \<in> {''{'', '']}''} \<and> ids_after (h # t) = map me_id es"
  using segs_body_rest[OF assms, of "'']}''"] by (auto simp: json_clean_def)

lemma needle_absent:
  assumes "u \<notin> set (ids_after (segs q))" "list_all json_clean u"
  shows "memfind (id_needle u) q = None"
proof (rule ccontr)
  assume "memfind (id_needle u) q \<noteq> None"
  then obtain i where "memfind (id_needle u) q = Some i" by auto
  then have "take (length (id_needle u)) (drop i q) = id_needle u" using memfind_some by blast
  then have "q = take i q @ id_needle u @ drop (length (id_needle u)) (drop i q)" by (metis append_take_drop_id)
  then obtain a b where q: "q = a @ CHR 0x22 # ''recordingId'' @ CHR 0x22 # '':'' @ CHR 0x22 # u @ CHR 0x22 # b"
    unfolding id_needle_def by (metis append.assoc append_Cons append_Nil)
  have k: "list_all json_clean ''recordingId''" "list_all json_clean '':''" by (simp_all add: json_clean_def)
  have "segs q = segs a @ ''recordingId'' # '':'' # u # segs b"
    unfolding q by (simp only: segs_append_quote segs_clean[OF k(1)] segs_clean[OF k(2)] segs_clean[OF assms(2)]) simp
  then show False using ids_after_mem[of u "segs a" "segs b"] assms(1) by simp
qed

lemma entry_text_needle: "\<exists>b. entry_text e = CHR ''{'' # id_needle (me_id e) @ b"
  by (simp add: entry_text_def id_needle_def)

lemma body_text_needle: "e \<in> set es \<Longrightarrow> \<exists>a b. body_text es = a @ id_needle (me_id e) @ b"
proof (induction es rule: body_text.induct)
  case (2 e')
  obtain b where "entry_text e' = [CHR ''{''] @ id_needle (me_id e') @ b" using entry_text_needle[of e'] by auto
  then have "body_text [e'] = [CHR ''{''] @ id_needle (me_id e) @ b" using 2 by simp
  then show ?case by blast
next
  case (3 e1 e2 es)
  obtain b where b: "entry_text e1 = [CHR ''{''] @ id_needle (me_id e1) @ b" using entry_text_needle[of e1] by auto
  show ?case
  proof (cases "e = e1")
    case True
    then have "body_text (e1 # e2 # es) = [CHR ''{''] @ id_needle (me_id e) @ b @ CHR '','' # body_text (e2 # es)" using b by simp
    then show ?thesis by blast
  next
    case False
    then obtain a b where "body_text (e2 # es) = a @ id_needle (me_id e) @ b" using 3 by auto
    then have "body_text (e1 # e2 # es) = (entry_text e1 @ CHR '','' # a) @ id_needle (me_id e) @ b" by simp
    then show ?thesis by blast
  qed
qed simp

lemma memfind_present: "memfind ndl (a @ ndl @ b) \<noteq> None" if "ndl \<noteq> []"
  using memfind_none[of ndl "a @ ndl @ b" "length a"] that by auto

text \<open>The entry loop accepts a body and only a body.\<close>

lemma entries_clean_head: "entry_ok e \<Longrightarrow> \<exists>r. body_text (e # es) = CHR ''{'' # r"
  using entry_text_start[of e] by (cases es) auto

lemma manifest_entries_complete:
  "list_all entry_ok es \<Longrightarrow> distinct (map me_id es) \<Longrightarrow> manifest_entries (body_text es @ '']}'') = Some '']}''"
proof (induction es rule: body_text.induct)
  case 1
  then show ?case by (simp add: manifest_entries.simps)
next
  case (2 e)
  have e: "entry_fields_ok e" "device_identity_is_valid_uuid (Some (me_id e))" "valid_filename (Some (me_filename e))"
    "device_manifest_is_valid_sha256_hex (Some (me_sha e))" using 2 by (simp_all add: entry_ok_iff
      del: device_identity_is_valid_uuid.simps valid_filename.simps device_manifest_is_valid_sha256_hex.simps)
  obtain r where r: "entry_text e @ '']}'' = CHR ''{'' # r" using entry_text_start[of e] by auto
  have m: "manifest_entry (CHR ''{'' # r) = Some (e, '']}'')" using manifest_entry_text[OF e(1), of "'']}''"] r by simp
  have n: "memfind (id_needle (me_id e)) '']}'' = None"
    using needle_absent[of "me_id e" "'']}''"] uuid_clean[OF e(2)] by simp
  have "manifest_entries (CHR ''{'' # r) = manifest_entries '']}''"
    using e(2-4) m n by (subst manifest_entries.simps)
      (simp del: device_identity_is_valid_uuid.simps valid_filename.simps device_manifest_is_valid_sha256_hex.simps memfind.simps)
  then show ?case using r by (simp add: manifest_entries.simps)
next
  case (3 e e' es)
  have e: "entry_fields_ok e" "device_identity_is_valid_uuid (Some (me_id e))" "valid_filename (Some (me_filename e))"
    "device_manifest_is_valid_sha256_hex (Some (me_sha e))" using 3 by (simp_all add: entry_ok_iff
      del: device_identity_is_valid_uuid.simps valid_filename.simps device_manifest_is_valid_sha256_hex.simps)
  let ?q = "body_text (e' # es) @ '']}''"
  obtain r where r: "entry_text e @ CHR '','' # ?q = CHR ''{'' # r" using entry_text_start[of e] by auto
  have m: "manifest_entry (CHR ''{'' # r) = Some (e, CHR '','' # ?q)" using manifest_entry_text[OF e(1), of "CHR '','' # ?q"] r by simp
  obtain h t where ht: "segs ?q = h # t" "h \<in> {''{'', '']}''}" "ids_after (h # t) = map me_id (e' # es)"
    using segs_body[of "e' # es"] 3 by auto
  have "segs (CHR '','' # ?q) = (CHR '','' # h) # t" using ht(1) by simp
  then have "ids_after (segs (CHR '','' # ?q)) = map me_id (e' # es)"
    using ht(2,3) ids_after_skip[of h t] ids_after_skip[of "CHR '','' # h" t] by auto
  then have n: "memfind (id_needle (me_id e)) (CHR '','' # ?q) = None"
    using needle_absent[of "me_id e" "CHR '','' # ?q"] uuid_clean[OF e(2)] 3(3) by simp
  obtain r' where r': "?q = CHR ''{'' # r'" using entries_clean_head[of e' es] 3(2) by auto
  have "manifest_entries (CHR ''{'' # r) = manifest_entries ?q"
    using e(2-4) m n r' by (subst manifest_entries.simps)
      (simp add: Let_def del: device_identity_is_valid_uuid.simps valid_filename.simps device_manifest_is_valid_sha256_hex.simps memfind.simps body_text.simps)
  then show ?case using r 3 by simp
qed

lemma manifest_entries_sound:
  "manifest_entries p = Some q \<Longrightarrow>
   \<exists>es. p = body_text es @ q \<and> list_all entry_ok es \<and> distinct (map me_id es) \<and> (q = [] \<or> hd q = CHR '']'')"
proof (induction p rule: manifest_entries.induct)
  case (1 p)
  show ?case
  proof (cases "p = [] \<or> hd p = CHR '']''")
    case True
    then have "q = p" using 1(3) by (simp add: manifest_entries.simps)
    then show ?thesis using True by (intro exI[of _ "[]"]) auto
  next
    case False
    then obtain e p' where m: "manifest_entry p = Some (e, p')"
      using 1(3) by (subst (asm) manifest_entries.simps) (auto split: option.splits)
    define ok where "ok \<longleftrightarrow> device_identity_is_valid_uuid (Some (me_id e)) \<and> valid_filename (Some (me_filename e)) \<and>
        device_manifest_is_valid_sha256_hex (Some (me_sha e))"
    have "manifest_entries p =
        (if \<not> device_identity_is_valid_uuid (Some (me_id e)) \<or> \<not> valid_filename (Some (me_filename e)) \<or>
            \<not> device_manifest_is_valid_sha256_hex (Some (me_sha e)) then None
         else if memfind (id_needle (me_id e)) p' \<noteq> None then None
         else if p' \<noteq> [] \<and> hd p' = CHR '','' then (if tl p' = [] \<or> hd (tl p') \<noteq> CHR ''{'' then None else manifest_entries (tl p'))
         else if p' \<noteq> [] \<and> hd p' \<noteq> CHR '']'' then None else manifest_entries p')"
      by (subst manifest_entries.simps) (simp only: False m if_False option.case prod.case Let_def)
    then have step: "(if \<not> ok then None else if memfind (id_needle (me_id e)) p' \<noteq> None then None
         else if p' \<noteq> [] \<and> hd p' = CHR '','' then (if tl p' = [] \<or> hd (tl p') \<noteq> CHR ''{'' then None else manifest_entries (tl p'))
         else if p' \<noteq> [] \<and> hd p' \<noteq> CHR '']'' then None else manifest_entries p') = Some q"
      using 1(3) by (simp only: ok_def de_Morgan_conj)
    have o: ok and nd: "memfind (id_needle (me_id e)) p' = None" using step by (auto split: if_splits)
    have p: "p = entry_text e @ p'" "entry_fields_ok e" using manifest_entry_some[OF m] by auto
    have e: "entry_ok e" using p(2) o by (simp only: entry_ok_iff ok_def)
    note fs = o[unfolded ok_def]
    show ?thesis
    proof (cases "p' \<noteq> [] \<and> hd p' = CHR '',''")
      case True
      then obtain r where p': "p' = CHR '','' # r" by (cases p') auto
      have r: "r \<noteq> []" "hd r = CHR ''{''" "manifest_entries r = Some q" using step True p' by (auto split: if_splits)
      obtain es where es: "r = body_text es @ q" "list_all entry_ok es" "distinct (map me_id es)" "q = [] \<or> hd q = CHR '']''"
        using 1(1)[OF False m refl _ _ True refl] fs nd r p' by auto
      obtain e' es' where "es = e' # es'" using es(1,4) r(1,2) by (cases es) auto
      then have "body_text (e # es) = entry_text e @ CHR '','' # body_text es" by simp
      then have "p = body_text (e # es) @ q" using p(1) p' es(1) by simp
      moreover have "me_id e \<notin> set (map me_id es)"
      proof
        assume "me_id e \<in> set (map me_id es)"
        then obtain e1 where e1: "e1 \<in> set es" "me_id e1 = me_id e" by auto
        obtain a b where "body_text es = a @ id_needle (me_id e) @ b" using body_text_needle[OF e1(1)] unfolding e1(2) by blast
        then have "p' = (CHR '','' # a) @ id_needle (me_id e) @ (b @ q)" using p' es(1) by simp
        then show False using memfind_present[of "id_needle (me_id e)" "CHR '','' # a" "b @ q"] nd by (simp add: id_needle_def del: memfind.simps)
      qed
      ultimately show ?thesis using e es by (intro exI[of _ "e # es"]) simp
    next
      case no_comma: False
      then have r: "p' = [] \<or> hd p' = CHR '']''" "manifest_entries p' = Some q" using step by (auto split: if_splits)
      then have "q = p'" by (simp add: manifest_entries.simps)
      then show ?thesis using p e r(1) by (intro exI[of _ "[e]"]) simp
    qed
  qed
qed

lemma clean_no_nul: "list_all json_clean s \<Longrightarrow> NUL \<notin> set s"
proof
  assume "list_all json_clean s" "NUL \<in> set s"
  then have "json_clean NUL" by (simp add: list_all_iff)
  then show False by (simp add: json_clean_def)
qed

lemma unsegs_no_nul: "list_all (list_all json_clean) l \<Longrightarrow> NUL \<notin> set (unsegs l)"
proof (induction l rule: unsegs.induct)
  case (2 x)
  then show ?case using clean_no_nul[of x] by simp
next
  case (3 x y l)
  then show ?case using clean_no_nul[of x] by simp
qed simp

lemma entry_text_unsegs: "entry_text e = unsegs (entry_segs e @ [''}''])"
  by (simp add: entry_text_def entry_segs_def)

lemma entry_no_nul:
  assumes "entry_ok e" shows "NUL \<notin> set (entry_text e)"
proof -
  have "entry_fields_ok e" using assms by (simp add: entry_ok_iff)
  then show ?thesis unfolding entry_text_unsegs
    using unsegs_no_nul[of "entry_segs e @ [''}'']"] entry_segs_clean[of e] by (simp add: json_clean_def)
qed

lemma body_no_nul: "list_all entry_ok es \<Longrightarrow> NUL \<notin> set (body_text es)"
  by (induction es rule: body_text.induct) (auto dest: entry_no_nul)

lemma snapshot_valid_iff:
  "manifest_snapshot_valid (Some doc) (Some device_id) \<longleftrightarrow>
    (\<exists>updated es. doc = document_text device_id updated (body_text es) \<and> list_all json_clean device_id \<and>
       device_manifest_is_valid_iso8601_offset (Some updated) \<and> entries_ok es)"
proof
  assume a: "manifest_snapshot_valid (Some doc) (Some device_id)"
  have "(do { p \<leftarrow> manifest_expect ''{\"schemaVersion\":'' doc;
        (ver, p) \<leftarrow> manifest_uint32 p;
        check (ver = RECORDER_METADATA_SCHEMA_VERSION);
        p \<leftarrow> manifest_expect '',\"deviceId\":'' p;
        (v, p) \<leftarrow> manifest_string p;
        check (v = device_id);
        p \<leftarrow> manifest_expect '',\"updatedAt\":'' p;
        (v, p) \<leftarrow> manifest_string p;
        check (manifest_iso8601 v);
        p \<leftarrow> manifest_expect '',\"recordings\":['' p;
        p \<leftarrow> manifest_entries p;
        manifest_expect '']}'' p }) = Some []"
    using a unfolding manifest_snapshot_valid.simps by (simp only: split: if_splits)
  then obtain v b where d: "doc = ''{\"schemaVersion\":'' @ dec_of_nat RECORDER_METADATA_SCHEMA_VERSION @ '',\"deviceId\":'' @
      CHR 0x22 # device_id @ CHR 0x22 # '',\"updatedAt\":'' @ CHR 0x22 # v @ CHR 0x22 # '',\"recordings\":['' @ b"
    "list_all json_clean device_id" "manifest_iso8601 v" "manifest_entries b = Some '']}''"
    by (auto simp: bind_eq_Some_conv manifest_expect_iff manifest_string_iff manifest_uint32_iff
        simp del: manifest_string.simps manifest_uint32.simps)
  obtain es where "b = body_text es @ '']}''" "entries_ok es"
    using manifest_entries_sound[OF d(4)] by (auto simp: entries_ok_def)
  then show "\<exists>updated es. doc = document_text device_id updated (body_text es) \<and> list_all json_clean device_id \<and>
       device_manifest_is_valid_iso8601_offset (Some updated) \<and> entries_ok es"
    using d(1,2,3) unfolding manifest_iso8601_def document_text_def
    by (intro exI[of _ v] exI[of _ es]) (simp del: device_manifest_is_valid_iso8601_offset.simps)
next
  assume "\<exists>updated es. doc = document_text device_id updated (body_text es) \<and> list_all json_clean device_id \<and>
       device_manifest_is_valid_iso8601_offset (Some updated) \<and> entries_ok es"
  then obtain u es where d: "doc = document_text device_id u (body_text es)" "list_all json_clean device_id"
    "device_manifest_is_valid_iso8601_offset (Some u)" "list_all entry_ok es" "distinct (map me_id es)"
    by (auto simp: entries_ok_def simp del: device_manifest_is_valid_iso8601_offset.simps)
  have iso: "manifest_iso8601 u" "list_all json_clean u" using d(3) iso_clean[OF d(3)] by (simp_all only: manifest_iso8601_def)
  have nul: "NUL \<notin> set doc"
    using clean_no_nul[OF d(2)] clean_no_nul[OF iso(2)] body_no_nul[OF d(4)] clean_no_nul[OF dec_clean]
    unfolding d(1) document_text_def by simp
  have v: "RECORDER_METADATA_SCHEMA_VERSION < 2 ^ 32" by (simp add: config_simps)
  have en: "manifest_entries (body_text es @ '']}'') = Some '']}''" by (rule manifest_entries_complete[OF d(4,5)])
  have ne: "doc \<noteq> []" by (simp add: d(1) document_text_def)
  show "manifest_snapshot_valid (Some doc) (Some device_id)"
    unfolding manifest_snapshot_valid.simps using ne nul v iso d(2) en
    by (simp add: d(1) document_text_def manifest_expect_def del: manifest_string.simps manifest_uint32.simps)
qed

text \<open>
  C7: The snapshot parser accepts exactly the canonical manifests. A byte string is a valid snapshot for a
  device if and only if it is the printed form of a list of complete entries with pairwise distinct
  recording identifiers, under a valid timestamp: nothing torn, reordered or extended passes, and
  every document that the specification allows does.
\<close>

theorem snapshot_canonical:
  "manifest_snapshot_valid (Some doc) (Some device_id) \<longleftrightarrow>
    (\<exists>updated es. doc = document_text device_id updated (body_text es) \<and> list_all json_clean device_id \<and>
       device_manifest_is_valid_iso8601_offset (Some updated) \<and> entries_ok es)"
  by (rule snapshot_valid_iff)

section \<open>A manifest has one reading\<close>

lemma body_text_Cons: "body_text (e # es) = entry_text e @ (if es = [] then [] else CHR '','' # body_text es)"
  by (cases es) auto

lemma body_text_unique:
  assumes "list_all entry_ok es" "list_all entry_ok es'" "body_text es @ '']}'' @ r = body_text es' @ '']}'' @ r'"
  shows "es = es' \<and> r = r'"
  using assms
proof (induction es arbitrary: es')
  case Nil
  then show ?case using entries_clean_head[of "hd es'" "tl es'"] by (cases es') auto
next
  case (Cons e es)
  obtain e' es1 where es': "es' = e' # es1" using Cons.prems entries_clean_head[of e es] by (cases es') auto
  let ?t = "\<lambda>es r. (if es = [] then [] else CHR '','' # body_text es) @ '']}'' @ r"
  have f: "entry_fields_ok e" "entry_fields_ok e'" using Cons.prems es' by (simp_all add: entry_ok_iff)
  have "entry_text e @ ?t es r = entry_text e' @ ?t es1 r'" using Cons.prems(3) es' by (simp add: body_text_Cons)
  then have e: "e = e'" "?t es r = ?t es1 r'"
    using manifest_entry_text[OF f(1), of "?t es r"] manifest_entry_text[OF f(2), of "?t es1 r'"] by simp_all
  then have "body_text es @ '']}'' @ r = body_text es1 @ '']}'' @ r'" by (auto split: if_splits)
  then show ?case using Cons.IH[of es1] Cons.prems(1,2) es' e(1) by simp
qed

lemma clean_quote_split:
  assumes "list_all json_clean a" "list_all json_clean b" "a @ CHR 0x22 # x = b @ CHR 0x22 # y"
  shows "a = b \<and> x = y"
proof -
  have "string_body (a @ CHR 0x22 # x) = Some (a, x)" "string_body (b @ CHR 0x22 # y) = Some (b, y)"
    unfolding string_body_iff using assms(1,2) by blast+
  then have "Some (a, x) = Some (b, y)" unfolding assms(3) by metis
  then show ?thesis by blast
qed

text \<open>The parts of a document are determined by its text, also when something follows it.\<close>

lemma document_text_split:
  "document_text d u b @ r =
     (''{\"schemaVersion\":'' @ dec_of_nat RECORDER_METADATA_SCHEMA_VERSION @ '',\"deviceId\":\"'') @
     d @ CHR 0x22 # ('',\"updatedAt\":\"'' @ u @ CHR 0x22 # ('',\"recordings\":['' @ b @ '']}'' @ r))"
  by (simp add: document_text_def)

lemma document_text_unique:
  assumes "document_text d u (body_text es) @ r = document_text d' u' (body_text es')"
    "list_all json_clean d" "list_all json_clean d'" "list_all json_clean u" "list_all json_clean u'"
    "list_all entry_ok es" "list_all entry_ok es'"
  shows "d = d' \<and> u = u' \<and> es = es' \<and> r = []"
proof -
  let ?b = "\<lambda>es r. '',\"recordings\":['' @ body_text es @ '']}'' @ r"
  let ?w = "\<lambda>u es r. '',\"updatedAt\":\"'' @ u @ CHR 0x22 # ?b es r"
  have "d @ CHR 0x22 # ?w u es r = d' @ CHR 0x22 # ?w u' es' []"
    using assms(1) document_text_split[of d' u' "body_text es'" "[]"]
    by (simp only: document_text_split[of d u "body_text es" r] append_Nil2 same_append_eq)
  then have 1: "d = d'" "?w u es r = ?w u' es' []" using clean_quote_split[OF assms(2,3)] by blast+
  from 1(2) have "u @ CHR 0x22 # ?b es r = u' @ CHR 0x22 # ?b es' []" by (simp only: same_append_eq)
  then have 2: "u = u'" "?b es r = ?b es' []" using clean_quote_split[OF assms(4,5)] by blast+
  from 2(2) have "body_text es @ '']}'' @ r = body_text es' @ '']}'' @ []" by (simp only: same_append_eq)
  then have "es = es' \<and> r = []" by (rule body_text_unique[OF assms(6,7)])
  then show ?thesis using 1(1) 2(1) by blast
qed

text \<open>
  C38: A torn manifest never looks healthy. No proper prefix of a valid snapshot is a valid snapshot, for
  this device or any other, so a file that was cut short by a failed or interrupted write is always
  recognized.
\<close>

theorem torn_snapshot_rejected:
  assumes "manifest_snapshot_valid (Some doc) (Some device_id)" "k < length doc"
  shows "\<not> manifest_snapshot_valid (Some (take k doc)) (Some other_id)"
proof
  assume "manifest_snapshot_valid (Some (take k doc)) (Some other_id)"
  then obtain u' es' where t: "take k doc = document_text other_id u' (body_text es')" "list_all json_clean other_id"
    "device_manifest_is_valid_iso8601_offset (Some u')" "list_all entry_ok es'"
    unfolding snapshot_valid_iff entries_ok_def by blast
  obtain u es where d: "doc = document_text device_id u (body_text es)" "list_all json_clean device_id"
    "device_manifest_is_valid_iso8601_offset (Some u)" "list_all entry_ok es"
    using assms(1) unfolding snapshot_valid_iff entries_ok_def by blast
  have "document_text other_id u' (body_text es') @ drop k doc = document_text device_id u (body_text es)"
    using t(1) d(1) by (metis append_take_drop_id)
  then have "drop k doc = []"
    using document_text_unique t(2,4) d(2,4) iso_clean(2)[OF t(3)] iso_clean(2)[OF d(3)] by blast
  then show False using assms(2) by simp
qed

definition sample_stamp :: string where "sample_stamp = ''2026-02-28T23:59:59+00:00''"

lemma sample_stamp_valid: "device_manifest_is_valid_iso8601_offset (Some sample_stamp)"
  by code_simp

lemma empty_snapshot_valid: "manifest_snapshot_valid (Some (document_text sample_uuid sample_stamp [])) (Some sample_uuid)"
  unfolding snapshot_valid_iff
  using sample_stamp_valid uuid_clean[OF sample_uuid_valid]
  by (intro exI[of _ sample_stamp] exI[of _ "[]"]) (simp add: entries_ok_def del: device_manifest_is_valid_iso8601_offset.simps)

theorem torn_snapshot_rejected_witness:
  "\<not> manifest_snapshot_valid (Some (take 50 (document_text sample_uuid sample_stamp []))) (Some sample_uuid)"
  by (rule torn_snapshot_rejected[OF empty_snapshot_valid])
    (simp add: document_text_def sample_uuid_def sample_stamp_def)

end
