(* ===== verification/Manifest_Calendar.thy ===== *)
theory Manifest_Calendar
  imports Manifest_Format
begin

text \<open>
  The calendar arithmetic of \<open>device_manifest.c\<close> against the Gregorian calendar, given as a successor
  function on dates.
\<close>

section \<open>The calendar\<close>

text \<open>The Gregorian calendar as a successor function on dates.\<close>

definition leap :: "int \<Rightarrow> bool" where
  "leap y \<longleftrightarrow> y mod 4 = 0 \<and> (y mod 100 \<noteq> 0 \<or> y mod 400 = 0)"

definition month_days :: "int \<Rightarrow> int \<Rightarrow> int" where
  "month_days y m = (if m = 2 then (if leap y then 29 else 28) else if m \<in> {4, 6, 9, 11} then 30 else 31)"

definition next_date :: "int \<times> int \<times> int \<Rightarrow> int \<times> int \<times> int" where
  "next_date date = (case date of (y, m, d) \<Rightarrow>
     if d < month_days y m then (y, m, d + 1) else if m < 12 then (y, m + 1, 1) else (y + 1, 1, 1))"

definition is_date :: "int \<Rightarrow> int \<Rightarrow> int \<Rightarrow> bool" where
  "is_date y m d \<longleftrightarrow> 1 \<le> y \<and> 1 \<le> m \<and> m \<le> 12 \<and> 1 \<le> d \<and> d \<le> month_days y m"

text \<open>The eras cancel: the days before a March-based year.\<close>

lemma era_days:
  fixes a :: int assumes "0 \<le> a"
  shows "a div 400 * 146097 + (a - a div 400 * 400) * 365 + (a - a div 400 * 400) div 4 - (a - a div 400 * 400) div 100 =
    a * 365 + a div 4 - a div 100 + a div 400"
proof -
  define q r where "q = a div 400" and "r = a mod 400"
  have a: "a = 400 * q + r" "0 \<le> r" "r < 400" unfolding q_def r_def by simp_all
  have "a div 4 = 100 * q + r div 4" "a div 100 = 4 * q + r div 100" unfolding a(1) by simp_all
  moreover have "a - q * 400 = r" using a(1) by simp
  ultimately show ?thesis unfolding q_def[symmetric] by (simp add: a(1) algebra_simps)
qed

lemma civil_days_eq:
  assumes "1 \<le> y" "1 \<le> m" "m \<le> 12"
  shows "civil_days y m d = (let a = y - (if m \<le> 2 then 1 else 0) in
    a * 365 + a div 4 - a div 100 + a div 400 + (153 * (m + (if m > 2 then -3 else 9)) + 2) div 5 + d - 719469)"
proof -
  define a where "a = y - (if m \<le> 2 then 1 else 0)"
  have "0 \<le> a" using assms by (simp add: a_def)
  then have "civil_days y m d = a div 400 * 146097 + ((a - a div 400 * 400) * 365 + (a - a div 400 * 400) div 4 -
      (a - a div 400 * 400) div 100 + ((153 * (m + (if m > 2 then -3 else 9)) + 2) div 5 + d - 1)) - 719468"
    unfolding civil_days_def Let_def a_def[symmetric] by (simp only: if_True)
  then show ?thesis unfolding Let_def a_def[symmetric] using era_days[OF \<open>0 \<le> a\<close>] by linarith
qed

lemma div_step:
  fixes y :: int assumes "0 < k"
  shows "y div k = (y - 1) div k + (if y mod k = 0 then 1 else 0)"
proof -
  have y: "y = k * (y div k) + y mod k" "0 \<le> y mod k" "y mod k < k" using assms by simp_all
  show ?thesis
  proof (cases "y mod k = 0")
    case True
    then have "y - 1 = k * (y div k - 1) + (k - 1)" using y(1) by (simp add: algebra_simps)
    then have "(y - 1) div k = y div k - 1" using assms by (intro int_div_pos_eq[of _ _ _ "k - 1"]) simp_all
    then show ?thesis using True by simp
  next
    case False
    then have "y - 1 = k * (y div k) + (y mod k - 1)" using y(1) by simp
    then have "(y - 1) div k = y div k" using False y by (intro int_div_pos_eq[of _ _ _ "y mod k - 1"]) simp_all
    then show ?thesis using False by simp
  qed
qed

lemma leap_count:
  fixes a b c a' b' c' :: int
  assumes "a = a' + (if P then 1 else 0)" "b = b' + (if Q then 1 else 0)" "c = c' + (if R then 1 else 0)"
    "R \<Longrightarrow> Q" "Q \<Longrightarrow> P"
  shows "a - b + c = a' - b' + c' + (if P \<and> (\<not> Q \<or> R) then 1 else 0)"
  using assms by (cases P; cases Q; cases R) simp_all

lemma year_step:
  fixes y :: int
  shows "y div 4 - y div 100 + y div 400 = (y - 1) div 4 - (y - 1) div 100 + (y - 1) div 400 + (if leap y then 1 else 0)"
proof -
  have "y mod 400 mod 100 = y mod 100" "y mod 100 mod 4 = y mod 4" by (simp_all add: mod_mod_cancel)
  then have m: "y mod 400 = 0 \<Longrightarrow> y mod 100 = 0" "y mod 100 = 0 \<Longrightarrow> y mod 4 = 0" by (metis mod_0)+
  have k: "(0::int) < 4" "(0::int) < 100" "(0::int) < 400" by simp_all
  show ?thesis unfolding leap_def by (rule leap_count[OF k[THEN div_step] m])
qed

lemma valid_date_iff:
  "valid_calendar_date y m d \<longleftrightarrow> is_date (int y) (int m) (int d)"
proof (cases "y = 0 \<or> m < 1 \<or> m > 12 \<or> d < 1")
  case True
  then show ?thesis by (auto simp: valid_calendar_date_def is_date_def)
next
  case False
  have lp: "leap (int y) \<longleftrightarrow> y mod 4 = 0 \<and> (y mod 100 \<noteq> 0 \<or> y mod 400 = 0)"
    unfolding leap_def by (metis of_nat_eq_0_iff of_nat_numeral zmod_int)
  have "m = 1 \<or> m = 2 \<or> m = 3 \<or> m = 4 \<or> m = 5 \<or> m = 6 \<or> m = 7 \<or> m = 8 \<or> m = 9 \<or> m = 10 \<or> m = 11 \<or> m = 12"
    using False by presburger
  then show ?thesis using False unfolding valid_calendar_date_def is_date_def month_days_def lp
    by (elim disjE) (simp_all add: days_in_month_def Let_def del: One_nat_def)
qed

lemma next_date_step:
  assumes v: "is_date y m d"
  shows "case next_date (y, m, d) of (y', m', d') \<Rightarrow> is_date y' m' d' \<and> civil_days y' m' d' = civil_days y m d + 1"
proof -
  have m: "m = 1 \<or> m = 2 \<or> m = 3 \<or> m = 4 \<or> m = 5 \<or> m = 6 \<or> m = 7 \<or> m = 8 \<or> m = 9 \<or> m = 10 \<or> m = 11 \<or> m = 12"
    using v unfolding is_date_def by presburger
  have y: "1 \<le> y" using v by (simp add: is_date_def)
  show "case next_date (y, m, d) of (y', m', d') \<Rightarrow> is_date y' m' d' \<and> civil_days y' m' d' = civil_days y m d + 1"
  proof (cases "d < month_days y m")
    case True
    then show ?thesis using v by (simp add: next_date_def is_date_def civil_days_eq Let_def)
  next
    case False
    then have d: "d = month_days y m" using v by (simp add: is_date_def)
    have step: "civil_days (y + 1) 1 1 = civil_days y 12 31 + 1" using y by (simp add: civil_days_eq Let_def)
    have feb: "civil_days y 3 1 = civil_days y 2 (month_days y 2) + 1"
      using y year_step[of y] by (cases "leap y") (simp_all add: civil_days_eq Let_def month_days_def)
    have rest: "civil_days y (m + 1) 1 = civil_days y m (month_days y m) + 1" if "m < 12" "m \<noteq> 2"
      using m that y by (elim disjE) (simp_all add: civil_days_eq Let_def month_days_def)
    show ?thesis
    proof (cases "m = 12")
      case True
      then show ?thesis using y step d by (simp add: next_date_def is_date_def month_days_def)
    next
      case False
      then have "m < 12" using v by (simp add: is_date_def)
      moreover have "civil_days y (m + 1) 1 = civil_days y m d + 1" using feb rest d \<open>m < 12\<close> by (cases "m = 2") simp_all
      ultimately show ?thesis using v d by (simp add: next_date_def is_date_def month_days_def)
    qed
  qed
qed

text \<open>
  C39: The calendar arithmetic agrees with the Gregorian calendar. The day number of 1970-01-01 is 0, and
  of every valid date from year 1 on the next calendar date has the next day number; the dates that
  \<open>valid_calendar_date\<close> accepts are exactly the dates of the calendar.
\<close>

theorem civil_days_calendar:
  "civil_days 1970 1 1 = 0 \<and>
   (\<forall>y m d. valid_calendar_date y m d \<longleftrightarrow> is_date (int y) (int m) (int d)) \<and>
   (\<forall>y m d. is_date y m d \<longrightarrow>
      (case next_date (y, m, d) of (y', m', d') \<Rightarrow> is_date y' m' d' \<and> civil_days y' m' d' = civil_days y m d + 1))"
proof (intro conjI allI impI)
  show "civil_days 1970 1 1 = 0" by (simp add: civil_days_def)
  show "valid_calendar_date y m d \<longleftrightarrow> is_date (int y) (int m) (int d)" for y m d by (rule valid_date_iff)
  show "case next_date (y, m, d) of (y', m', d') \<Rightarrow> is_date y' m' d' \<and> civil_days y' m' d' = civil_days y m d + 1"
    if "is_date y m d" for y m d by (rule next_date_step[OF that])
qed

theorem civil_days_calendar_witness: "civil_days 2000 3 1 = civil_days 2000 2 29 + 1"
proof -
  have "is_date 2000 2 29" by (simp add: is_date_def month_days_def leap_def)
  then have "case next_date (2000, 2, 29) of (y', m', d') \<Rightarrow> is_date y' m' d' \<and> civil_days y' m' d' = civil_days 2000 2 29 + 1"
    by (rule civil_days_calendar[THEN conjunct2, THEN conjunct2, rule_format])
  then show ?thesis by (simp add: next_date_def month_days_def leap_def)
qed

end
