(* ===== verification/Manifest_Fields.thy ===== *)
theory Manifest_Fields
  imports Manifest_Format
begin

text \<open>
  The text operations inside \<open>device_manifest_upsert_file\<close> and \<open>manifest_file_extends\<close> of
  \<open>firmware/components/recorder/device_manifest.c\<close>: the fields of an entry, the lookup of a committed
  entry, the splice of a new one and the comparison of two snapshots. They scan the text for quoted keys;
  on canonical manifests they are shown to compute on the list of entries.
\<close>

section \<open>Operations\<close>

definition DEVICE_MANIFEST_ADMISSION_CEILING_BYTES :: nat where
  [config_simps]: "DEVICE_MANIFEST_ADMISSION_CEILING_BYTES = 32768"

text \<open>The fields that \<open>upsert_file\<close> copies out of an entry.\<close>

record entry_key =
  ek_id :: string
  ek_sha :: string
  ek_fn :: string
  ek_started :: string
  ek_size :: nat
  ek_duration :: nat

definition entry_key_of_json :: "string \<Rightarrow> entry_key option" where
  "entry_key_of_json entry_json = do {
     i \<leftarrow> json_string_field entry_json ''\"recordingId\"'';
     check (length i \<noteq> 0 \<and> length i \<le> 64);
     sha \<leftarrow> json_string_field entry_json ''\"sha256\"'';
     check (length sha = 64);
     fname \<leftarrow> json_string_field entry_json ''\"filename\"'';
     check (length fname \<noteq> 0 \<and> length fname \<le> 180);
     check (length i < 65 \<and> length sha < 65 \<and> length fname < 192);
     started \<leftarrow> json_string_field entry_json ''\"startedAt\"'';
     check (length started = 25);
     check (device_identity_is_valid_uuid (Some i));
     check (device_manifest_is_valid_sha256_hex (Some sha));
     check (device_manifest_is_valid_iso8601_offset (Some started));
     check (valid_filename (Some fname));
     sz \<leftarrow> manifest_entry_size entry_json;
     duration \<leftarrow> manifest_entry_duration entry_json;
     check (RECORDER_WAV_HEADER_SIZE \<le> sz \<and> (sz - RECORDER_WAV_HEADER_SIZE) mod RECORDER_BLOCK_ALIGN = 0 \<and>
            duration = expected_duration sz);
     Some \<lparr>ek_id = i, ek_sha = sha, ek_fn = fname, ek_started = started, ek_size = sz, ek_duration = duration\<rparr> }"

text \<open>
  The part of the document that belongs to a hit: from the hit to the next \<open>recordingId\<close> or the end.
\<close>

definition hit_scope :: "string \<Rightarrow> nat \<Rightarrow> string" where
  "hit_scope doc hit =
     (case memfind ''\"recordingId\"'' (drop (hit + 1) doc) of
        None \<Rightarrow> drop hit doc
      | Some n \<Rightarrow> take (n + 1) (drop hit doc))"

text \<open>Whether the committed entry in \<open>scope\<close> is the given one; \<open>None\<close>: a field cannot be read.\<close>

definition committed_same :: "string \<Rightarrow> entry_key \<Rightarrow> bool option" where
  "committed_same scope k = do {
     old_sha \<leftarrow> json_string_field scope ''\"sha256\"'';
     check (length old_sha = 64);
     old_fn \<leftarrow> json_string_field scope ''\"filename\"'';
     check (length old_fn \<noteq> 0 \<and> length old_fn < 192);
     old_started \<leftarrow> json_string_field scope ''\"startedAt\"'';
     check (length old_started = 25);
     old_size \<leftarrow> manifest_entry_size scope;
     old_duration \<leftarrow> manifest_entry_duration scope;
     Some (old_sha = ek_sha k \<and> old_fn = ek_fn k \<and> old_size = ek_size k \<and> old_duration = ek_duration k \<and>
           manifest_start_times_compatible old_started (ek_started k)) }"

definition is_space :: "char \<Rightarrow> bool" where
  "is_space c \<longleftrightarrow> c = CHR '' '' \<or> c = CHR 0x09 \<or> c = CHR 0x0A \<or> c = CHR 0x0D"

text \<open>
  The append: where the timestamp and the closing bracket are, and the new document. \<open>None\<close> is an error
  return.
\<close>

definition splice_points :: "string \<Rightarrow> (nat \<times> nat \<times> nat \<times> nat) option" where
  "splice_points doc = do {
     upd_key \<leftarrow> memfind ''\"updatedAt\"'' doc;
     arr_key \<leftarrow> memfind ''\"recordings\"'' doc;
     c \<leftarrow> c_strchr CHR '':'' (drop upd_key doc);
     q \<leftarrow> c_strchr CHR 0x22 (drop (upd_key + c) doc);
     let ts_q0 = upd_key + c + q + 1;
     l \<leftarrow> c_strchr CHR 0x22 (drop ts_q0 doc);
     let ts_q1 = ts_q0 + l;
     check (ts_q1 > ts_q0);
     o1 \<leftarrow> c_strchr CHR ''['' (drop arr_key doc);
     let arr_open = arr_key + o1;
     check (ts_q1 < arr_open);
     let doc_end = length (dropWhile is_space (rev doc));
     check (\<not> (doc_end < 2 \<or> doc ! (doc_end - 1) \<noteq> CHR ''}'' \<or> doc ! (doc_end - 2) \<noteq> CHR '']''));
     let arr_close = doc_end - 2;
     check (arr_open < arr_close);
     Some (ts_q0, ts_q1, arr_open, arr_close) }"

definition splice_len :: "string \<Rightarrow> string \<Rightarrow> string \<Rightarrow> nat \<Rightarrow> nat \<Rightarrow> bool \<Rightarrow> nat" where
  "splice_len doc updated_at entry_json ts_q0 ts_q1 arr_empty =
     length doc - (ts_q1 - ts_q0) + length updated_at + (length entry_json + (if arr_empty then 0 else 1))"

text \<open>The checked length of the new document and its text.\<close>

definition splice_document :: "string \<Rightarrow> string \<Rightarrow> string \<Rightarrow> string option" where
  "splice_document doc updated_at entry_json = do {
     (ts_q0, ts_q1, arr_open, arr_close) \<leftarrow> splice_points doc;
     let arr_empty = list_all is_space (take (arr_close - (arr_open + 1)) (drop (arr_open + 1) doc));
     check (length updated_at = 25);
     let fresh_len = splice_len doc updated_at entry_json ts_q0 ts_q1 arr_empty;
     check (fresh_len \<le> DEVICE_MANIFEST_ADMISSION_CEILING_BYTES);
     let fresh = take ts_q0 doc @ updated_at @ take (arr_close - ts_q1) (drop ts_q1 doc) @
                 (if arr_empty then [] else '','') @ entry_json @ drop arr_close doc;
     check (length fresh = fresh_len);
     Some fresh }"

text \<open>The comparison in \<open>manifest_file_extends\<close>: the old entries are a prefix of the new ones.\<close>

definition snapshot_extends :: "string \<Rightarrow> string \<Rightarrow> bool" where
  "snapshot_extends new_doc old_doc =
     (case (memfind ''\"recordings\":['' old_doc, memfind ''\"recordings\":['' new_doc) of
        (Some a, Some b) \<Rightarrow>
          (case (c_strchr CHR ''['' (drop a old_doc), c_strchr CHR ''['' (drop b new_doc)) of
             (Some i, Some j) \<Rightarrow>
               (let a = a + i + 1; b = b + j + 1; a_end = length old_doc - 2; b_end = length new_doc - 2 in
                a \<le> a_end \<and> b \<le> b_end \<and> a_end - a \<le> b_end - b \<and>
                take (a_end - a) (drop a old_doc) = take (a_end - a) (drop b new_doc) \<and>
                (a_end = a \<or> b + (a_end - a) = b_end \<or> new_doc ! (b + (a_end - a)) = CHR '',''))
           | _ \<Rightarrow> False)
      | _ \<Rightarrow> False)"

section \<open>Finding a key\<close>

lemma memfind_first:
  assumes "ndl \<noteq> []" "memfind ndl a = None" "a = [] \<or> last a \<notin> set ndl"
  shows "memfind ndl (a @ ndl @ b) = Some (length a)"
proof -
  obtain i where i: "memfind ndl (a @ ndl @ b) = Some i" using memfind_present[OF assms(1), of a b] by auto
  have "\<not> length a < i" using memfind_least[OF i, of "length a"] by auto
  moreover have "\<not> i < length a"
  proof
    assume l: "i < length a"
    have t: "take (length ndl) (drop i (a @ ndl @ b)) = ndl" using memfind_some[OF i] by blast
    show False
    proof (cases "i + length ndl \<le> length a")
      case True
      then have "take (length ndl) (drop i a) = ndl" using t by simp
      then show False using memfind_none[OF assms(2,1), of i] by simp
    next
      case False
      have "last a = (take (length ndl) (drop i (a @ ndl @ b))) ! (length a - 1 - i)"
        using l False by (cases a rule: rev_cases) (simp_all add: nth_append)
      moreover have "length a - 1 - i < length ndl" using l False by simp
      ultimately have "last a \<in> set ndl" using t by simp
      then show False using assms(3) l by auto
    qed
  qed
  ultimately show ?thesis using i by simp
qed

lemma quoted_absent:
  assumes "k \<notin> set (tl (segs a))" "list_all json_clean k"
  shows "memfind (CHR 0x22 # k @ CHR 0x22 # x) a = None"
proof (rule ccontr)
  let ?n = "CHR 0x22 # k @ CHR 0x22 # x"
  assume "memfind ?n a \<noteq> None"
  then obtain i where "memfind ?n a = Some i" by auto
  then have "take (length ?n) (drop i a) = ?n" using memfind_some by blast
  then have "a = take i a @ ?n @ drop (length ?n) (drop i a)" by (metis append_take_drop_id)
  then have "segs a = segs (take i a) @ k # segs (x @ drop (length ?n) (drop i a))"
    using segs_quoted[OF assms(2), of "take i a" "x @ drop (length ?n) (drop i a)"] by simp
  then show False using assms(1) by (cases "segs (take i a)") simp_all
qed

lemma quoted_first:
  assumes "k \<notin> set (tl (segs a))" "list_all json_clean k" "a = [] \<or> last a \<notin> set (CHR 0x22 # k @ CHR 0x22 # x)"
  shows "memfind (CHR 0x22 # k @ CHR 0x22 # x) (a @ CHR 0x22 # k @ CHR 0x22 # x @ b) = Some (length a)"
  using memfind_first[OF _ quoted_absent[OF assms(1,2)] assms(3), of b] by simp

lemma clean_no_quote: "list_all json_clean s \<Longrightarrow> CHR 0x22 \<notin> set s"
  by (auto simp: list_all_iff json_clean_def)

text \<open>The value of a quoted key and of a numeric key, wherever they first stand.\<close>

lemma json_string_field_first:
  assumes "k \<notin> set (tl (segs a))" "list_all json_clean k" "CHR '':'' \<notin> set k" "a = [] \<or> last a \<notin> set (CHR 0x22 # k)"
    "list_all json_clean v"
  shows "json_string_field (a @ CHR 0x22 # k @ CHR 0x22 # CHR '':'' # CHR 0x22 # v @ CHR 0x22 # b) (CHR 0x22 # k @ [CHR 0x22]) = Some v"
proof -
  let ?r = "CHR '':'' # CHR 0x22 # v @ CHR 0x22 # b"
  have m: "memfind (CHR 0x22 # k @ [CHR 0x22]) (a @ CHR 0x22 # k @ CHR 0x22 # ?r) = Some (length a)"
    using quoted_first[OF assms(1,2), of "[]" ?r] assms(4) by auto
  have nk: "NUL \<notin> set k" using assms(2) by (rule clean_no_nul)
  have c: "c_strchr CHR '':'' (CHR 0x22 # k @ CHR 0x22 # ?r) = Some (length k + 2)"
    using c_strchr_append[of "CHR '':''" "CHR 0x22 # k @ [CHR 0x22]" "CHR 0x22 # v @ CHR 0x22 # b"] assms(3) nk by simp
  have t: "takeWhile (\<lambda>c. c \<noteq> CHR 0x22 \<and> c \<noteq> CHR 0x5C) (v @ CHR 0x22 # b) = v"
    using assms(5) by (simp add: takeWhile_append list_all_iff json_clean_def)
  have d: "drop (length a + (length k + 2) + 1) (a @ CHR 0x22 # k @ CHR 0x22 # ?r) = CHR 0x22 # v @ CHR 0x22 # b"
    by (simp add: eval_nat_numeral)
  have da: "drop (length a) (a @ CHR 0x22 # k @ CHR 0x22 # ?r) = CHR 0x22 # k @ CHR 0x22 # ?r" by simp
  show ?thesis unfolding json_string_field_def m option.case da c d Let_def by (simp add: is_blank_def t)
qed

lemma uint_field_first:
  assumes "k \<notin> set (tl (segs a))" "list_all json_clean k" "a = [] \<or> last a \<notin> set (CHR 0x22 # k @ [CHR 0x22, CHR '':''])"
    "n < 2 ^ 32"
  shows "uint_field (CHR 0x22 # k @ [CHR 0x22, CHR '':'']) (a @ CHR 0x22 # k @ CHR 0x22 # CHR '':'' # dec_of_nat n @ CHR '','' # b) = Some n"
proof -
  let ?n = "CHR 0x22 # k @ [CHR 0x22, CHR '':'']"
  have m: "memfind ?n (a @ CHR 0x22 # k @ CHR 0x22 # CHR '':'' # dec_of_nat n @ CHR '','' # b) = Some (length a)"
    using quoted_first[OF assms(1,2), of "[CHR '':'']" "dec_of_nat n @ CHR '','' # b"] assms(3) by simp
  have d: "drop (length a + length ?n) (a @ CHR 0x22 # k @ CHR 0x22 # CHR '':'' # dec_of_nat n @ CHR '','' # b) = dec_of_nat n @ CHR '','' # b"
    by (simp add: eval_nat_numeral)
  show ?thesis unfolding uint_field_def m option.case d using assms(4) by (simp del: manifest_uint32.simps)
qed

section \<open>The fields of an entry\<close>

text \<open>An entry up to the value of its last field, which may be any text, also the name of a key.\<close>

definition entry_core :: "manifest_entry \<Rightarrow> string" where
  "entry_core e = unsegs (butlast (entry_segs e))"

lemma entry_text_core: "entry_text e = entry_core e @ CHR 0x22 # me_fw e @ CHR 0x22 # ''}''"
  by (simp add: entry_text_def entry_core_def entry_segs_def)

text \<open>
  Where each key that is looked up stands in the text of an entry. The text may begin at its opening brace
  (\<open>h\<close> is that brace) or behind it.
\<close>

lemma entry_key_texts:
  obtains b1 b2 b3 b4 b5 b6 where
    "h @ tl (entry_core e) = h @ CHR 0x22 # ''recordingId'' @ CHR 0x22 # CHR '':'' # CHR 0x22 # me_id e @ CHR 0x22 # b1"
    "h @ tl (entry_core e) = unsegs (h # take 4 (tl (entry_segs e))) @ CHR 0x22 # ''filename'' @ CHR 0x22 # CHR '':'' # CHR 0x22 # me_filename e @ CHR 0x22 # b2"
    "h @ tl (entry_core e) = unsegs (h # take 8 (tl (entry_segs e))) @ CHR 0x22 # ''startedAt'' @ CHR 0x22 # CHR '':'' # CHR 0x22 # me_started e @ CHR 0x22 # b3"
    "h @ tl (entry_core e) = unsegs (h # take 12 (tl (entry_segs e))) @ CHR 0x22 # ''durationMs'' @ CHR 0x22 # CHR '':'' # dec_of_nat (me_duration e) @ CHR '','' # b4"
    "h @ tl (entry_core e) = unsegs (h # take 14 (tl (entry_segs e))) @ CHR 0x22 # ''sizeBytes'' @ CHR 0x22 # CHR '':'' # dec_of_nat (me_size e) @ CHR '','' # b5"
    "h @ tl (entry_core e) = unsegs (h # take 16 (tl (entry_segs e))) @ CHR 0x22 # ''sha256'' @ CHR 0x22 # CHR '':'' # CHR 0x22 # me_sha e @ CHR 0x22 # b6"
proof -
  note d = entry_core_def entry_segs_def
  have "\<exists>b. tl (entry_core e) = CHR 0x22 # ''recordingId'' @ CHR 0x22 # CHR '':'' # CHR 0x22 # me_id e @ CHR 0x22 # b"
    by (simp add: d)
  moreover have "\<exists>b. h @ tl (entry_core e) = unsegs (h # take 4 (tl (entry_segs e))) @ CHR 0x22 # ''filename'' @ CHR 0x22 # CHR '':'' # CHR 0x22 # me_filename e @ CHR 0x22 # b"
    by (simp add: d)
  moreover have "\<exists>b. h @ tl (entry_core e) = unsegs (h # take 8 (tl (entry_segs e))) @ CHR 0x22 # ''startedAt'' @ CHR 0x22 # CHR '':'' # CHR 0x22 # me_started e @ CHR 0x22 # b"
    by (simp add: d)
  moreover have "\<exists>b. h @ tl (entry_core e) = unsegs (h # take 12 (tl (entry_segs e))) @ CHR 0x22 # ''durationMs'' @ CHR 0x22 # CHR '':'' # dec_of_nat (me_duration e) @ CHR '','' # b"
    by (simp add: d)
  moreover have "\<exists>b. h @ tl (entry_core e) = unsegs (h # take 14 (tl (entry_segs e))) @ CHR 0x22 # ''sizeBytes'' @ CHR 0x22 # CHR '':'' # dec_of_nat (me_size e) @ CHR '','' # b"
    by (simp add: d)
  moreover have "\<exists>b. h @ tl (entry_core e) = unsegs (h # take 16 (tl (entry_segs e))) @ CHR 0x22 # ''sha256'' @ CHR 0x22 # CHR '':'' # CHR 0x22 # me_sha e @ CHR 0x22 # b"
    by (simp add: d)
  ultimately show ?thesis using that by (metis append.assoc append_Cons)
qed

lemma segs_unsegs_tl:
  assumes "list_all json_clean h" "list_all (list_all json_clean) l"
  shows "tl (segs (unsegs (h # l))) = l"
proof (cases l rule: rev_cases)
  case Nil
  then show ?thesis using assms by simp
next
  case (snoc l' x)
  then have "segs (unsegs ((h # l') @ [x]) @ []) = (h # l') @ [x]"
    using assms segs_unsegs[of "h # l'" x "[]" "[]" "[]"] by simp
  then show ?thesis using snoc by simp
qed

lemma unsegs_last: "l \<noteq> [] \<Longrightarrow> last l \<noteq> [] \<Longrightarrow> unsegs l \<noteq> [] \<and> last (unsegs l) = last (last l)"
  by (induction l rule: unsegs.induct) auto

lemma entry_lengths:
  assumes "entry_ok e"
  shows "length (me_id e) = 36" "11 \<le> length (me_filename e)" "length (me_filename e) \<le> 180" "length (me_started e) = 25"
    "length (me_sha e) = 64" "list_all json_clean (me_id e)" "list_all json_clean (me_filename e)"
    "list_all json_clean (me_started e)" "list_all json_clean (me_sha e)" "me_size e < 2 ^ 32" "me_duration e < 2 ^ 32"
proof -
  have f12: "entry_fields_ok e" "valid_filename (Some (me_filename e))" using assms unfolding entry_ok_iff by blast+
  then have "device_manifest_is_valid_iso8601_offset (Some (me_started e))"
    unfolding entry_fields_ok_def manifest_iso8601_def by blast
  note f = f12 this
  show "length (me_id e) = 36" "length (me_sha e) = 64" "list_all json_clean (me_id e)" "list_all json_clean (me_filename e)"
    "list_all json_clean (me_started e)" "list_all json_clean (me_sha e)" "me_size e < 2 ^ 32" "me_duration e < 2 ^ 32"
    using f(1) by (simp_all add: entry_fields_ok_def)
  show "length (me_started e) = 25" using f(3) by (rule iso_clean)
  show "length (me_filename e) \<le> 180" using f(2) by (simp add: Let_def split: if_splits)
  have "take 11 (me_filename e) = ''recordings/''" using f(2) by (simp add: Let_def split: if_splits)
  then have "length (take 11 (me_filename e)) = 11" by simp
  then show "11 \<le> length (me_filename e)" by simp
qed

lemma string_field_at:
  assumes "t = a @ CHR 0x22 # k @ CHR 0x22 # CHR '':'' # CHR 0x22 # v @ CHR 0x22 # b" "k \<notin> set (tl (segs a))"
    "list_all json_clean k" "CHR '':'' \<notin> set k" "a = [] \<or> last a \<notin> set (CHR 0x22 # k)" "list_all json_clean v"
  shows "json_string_field (t @ x) (CHR 0x22 # k @ [CHR 0x22]) = Some v"
  unfolding assms(1) using json_string_field_first[OF assms(2-6), of "b @ x"] by (simp only: append.assoc append_Cons)

lemma uint_field_at:
  assumes "t = a @ CHR 0x22 # k @ CHR 0x22 # CHR '':'' # dec_of_nat n @ CHR '','' # b" "k \<notin> set (tl (segs a))"
    "list_all json_clean k" "a = [] \<or> last a \<notin> set (CHR 0x22 # k @ [CHR 0x22, CHR '':''])" "n < 2 ^ 32"
  shows "uint_field (CHR 0x22 # k @ [CHR 0x22, CHR '':'']) (t @ x) = Some n"
  unfolding assms(1) using uint_field_first[OF assms(2-5), of "b @ x"] by (simp only: append.assoc append_Cons append_Nil)

lemma entry_field_lookup:
  assumes "entry_ok e" "h = [] \<or> h = ''{''"
  shows "json_string_field (h @ tl (entry_core e) @ x) ''\"recordingId\"'' = Some (me_id e)"
    "json_string_field (h @ tl (entry_core e) @ x) ''\"filename\"'' = Some (me_filename e)"
    "json_string_field (h @ tl (entry_core e) @ x) ''\"startedAt\"'' = Some (me_started e)"
    "json_string_field (h @ tl (entry_core e) @ x) ''\"sha256\"'' = Some (me_sha e)"
    "manifest_entry_duration (h @ tl (entry_core e) @ x) = Some (me_duration e)"
    "manifest_entry_size (h @ tl (entry_core e) @ x) = Some (me_size e)"
proof -
  note len = entry_lengths[OF assms(1)]
  have f: "entry_fields_ok e" using assms(1) by (simp add: entry_ok_iff)
  have h: "list_all json_clean h" using assms(2) by (auto simp: json_clean_def)
  have cl: "list_all (list_all json_clean) (take n (tl (entry_segs e)))" for n
  proof -
    have "set (take n (tl (entry_segs e))) \<subseteq> set (entry_segs e)"
      by (metis list.set_sel(2) set_take_subset subset_eq tl_Nil)
    then show ?thesis using entry_segs_clean[OF f] unfolding list_all_iff by blast
  qed
  have ne: "k \<noteq> me_id e" "k \<noteq> me_filename e" if "length k < 11" for k using len(1,2) that by auto
  have ns: "k \<noteq> me_started e" if "length k < 25" for k using len(4) that by auto
  define a where "a n = unsegs (h # take n (tl (entry_segs e)))" for n
  have sg: "tl (segs (a n)) = take n (tl (entry_segs e))" for n unfolding a_def by (rule segs_unsegs_tl[OF h cl])
  have S: "take 4 (tl (entry_segs e)) = [''recordingId'', '':'', me_id e, '','']"
    "take 8 (tl (entry_segs e)) = [''recordingId'', '':'', me_id e, '','', ''filename'', '':'', me_filename e, '','']"
    "take 12 (tl (entry_segs e)) = [''recordingId'', '':'', me_id e, '','', ''filename'', '':'', me_filename e, '','',
       ''startedAt'', '':'', me_started e, '','']"
    "take 14 (tl (entry_segs e)) = [''recordingId'', '':'', me_id e, '','', ''filename'', '':'', me_filename e, '','',
       ''startedAt'', '':'', me_started e, '','', ''durationMs'', '':'' @ dec_of_nat (me_duration e) @ '','']"
    "take 16 (tl (entry_segs e)) = [''recordingId'', '':'', me_id e, '','', ''filename'', '':'', me_filename e, '','',
       ''startedAt'', '':'', me_started e, '','', ''durationMs'', '':'' @ dec_of_nat (me_duration e) @ '','', ''sizeBytes'',
       '':'' @ dec_of_nat (me_size e) @ '','']"
    by (simp_all add: entry_segs_def)
  have sa: "''filename'' \<notin> set (tl (segs (a 4)))" "''startedAt'' \<notin> set (tl (segs (a 8)))" "''durationMs'' \<notin> set (tl (segs (a 12)))"
    "''sizeBytes'' \<notin> set (tl (segs (a 14)))" "''sha256'' \<notin> set (tl (segs (a 16)))"
    unfolding sg S using ne ns by simp_all
  have lst: "last (a 4) = CHR '',''" "last (a 8) = CHR '',''" "last (a 12) = CHR '',''" "last (a 14) = CHR '',''" "last (a 16) = CHR '',''"
    unfolding a_def S by (subst unsegs_last[THEN conjunct2]; simp)+
  obtain b1 b2 b3 b4 b5 b6 where t:
    "h @ tl (entry_core e) = h @ CHR 0x22 # ''recordingId'' @ CHR 0x22 # CHR '':'' # CHR 0x22 # me_id e @ CHR 0x22 # b1"
    "h @ tl (entry_core e) = a 4 @ CHR 0x22 # ''filename'' @ CHR 0x22 # CHR '':'' # CHR 0x22 # me_filename e @ CHR 0x22 # b2"
    "h @ tl (entry_core e) = a 8 @ CHR 0x22 # ''startedAt'' @ CHR 0x22 # CHR '':'' # CHR 0x22 # me_started e @ CHR 0x22 # b3"
    "h @ tl (entry_core e) = a 12 @ CHR 0x22 # ''durationMs'' @ CHR 0x22 # CHR '':'' # dec_of_nat (me_duration e) @ CHR '','' # b4"
    "h @ tl (entry_core e) = a 14 @ CHR 0x22 # ''sizeBytes'' @ CHR 0x22 # CHR '':'' # dec_of_nat (me_size e) @ CHR '','' # b5"
    "h @ tl (entry_core e) = a 16 @ CHR 0x22 # ''sha256'' @ CHR 0x22 # CHR '':'' # CHR 0x22 # me_sha e @ CHR 0x22 # b6"
    unfolding a_def by (rule entry_key_texts)
  show "json_string_field (h @ tl (entry_core e) @ x) ''\"recordingId\"'' = Some (me_id e)"
    by (rule string_field_at[OF t(1), of x, simplified]) (use assms(2) len(6) in \<open>auto simp: json_clean_def\<close>)
  show "json_string_field (h @ tl (entry_core e) @ x) ''\"filename\"'' = Some (me_filename e)"
    by (rule string_field_at[OF t(2) sa(1) _ _ _ len(7), of x, simplified]) (simp_all add: json_clean_def lst)
  show "json_string_field (h @ tl (entry_core e) @ x) ''\"startedAt\"'' = Some (me_started e)"
    by (rule string_field_at[OF t(3) sa(2) _ _ _ len(8), of x, simplified]) (simp_all add: json_clean_def lst)
  show "json_string_field (h @ tl (entry_core e) @ x) ''\"sha256\"'' = Some (me_sha e)"
    by (rule string_field_at[OF t(6) sa(5) _ _ _ len(9), of x, simplified]) (simp_all add: json_clean_def lst)
  show "manifest_entry_duration (h @ tl (entry_core e) @ x) = Some (me_duration e)"
    unfolding manifest_entry_duration_def
    by (rule uint_field_at[OF t(4) sa(3) _ _ len(11), of x, simplified]) (simp_all add: json_clean_def lst)
  show "manifest_entry_size (h @ tl (entry_core e) @ x) = Some (me_size e)"
    unfolding manifest_entry_size_def
    by (rule uint_field_at[OF t(5) sa(4) _ _ len(10), of x, simplified]) (simp_all add: json_clean_def lst)
qed

definition key_of :: "manifest_entry \<Rightarrow> entry_key" where
  "key_of e = \<lparr>ek_id = me_id e, ek_sha = me_sha e, ek_fn = me_filename e, ek_started = me_started e, ek_size = me_size e,
     ek_duration = me_duration e\<rparr>"

lemma entry_core_start: "entry_core e = CHR ''{'' # tl (entry_core e)"
  by (simp add: entry_core_def entry_segs_def)

text \<open>The fields that \<open>upsert_file\<close> reads from an entry as \<open>build_entry\<close> prints it.\<close>

lemma entry_key_of_entry:
  assumes "entry_ok e" shows "entry_key_of_json (entry_text e) = Some (key_of e)"
proof -
  note len = entry_lengths[OF assms]
  let ?x = "CHR 0x22 # me_fw e @ CHR 0x22 # ''}''"
  have t: "entry_text e = ''{'' @ tl (entry_core e) @ ?x"
    using entry_text_core[of e] entry_core_start[of e] by simp
  note lk = entry_field_lookup[OF assms, of "''{''" ?x, folded t]
  have ok: "device_identity_is_valid_uuid (Some (me_id e))" "valid_filename (Some (me_filename e))"
    "device_manifest_is_valid_iso8601_offset (Some (me_started e))" "device_manifest_is_valid_sha256_hex (Some (me_sha e))"
    "RECORDER_WAV_HEADER_SIZE \<le> me_size e" "(me_size e - RECORDER_WAV_HEADER_SIZE) mod RECORDER_BLOCK_ALIGN = 0"
    "me_duration e = expected_duration (me_size e)"
    using assms unfolding entry_ok_def by blast+
  have n: "length (me_filename e) \<noteq> 0" "length (me_filename e) < 192" using len(2,3) by linarith+
  have "me_id e \<noteq> []" using len(1) by auto
  with lk len ok n show ?thesis unfolding entry_key_of_json_def key_of_def by (simp del: device_identity_is_valid_uuid.simps valid_filename.simps
        device_manifest_is_valid_iso8601_offset.simps device_manifest_is_valid_sha256_hex.simps)
qed

lemma committed_same_entry:
  assumes "entry_ok e"
  shows "committed_same (tl (entry_core e) @ x) k =
    Some (me_sha e = ek_sha k \<and> me_filename e = ek_fn k \<and> me_size e = ek_size k \<and> me_duration e = ek_duration k \<and>
          manifest_start_times_compatible (me_started e) (ek_started k))"
proof -
  note len = entry_lengths[OF assms]
  have n: "length (me_filename e) \<noteq> 0" "length (me_filename e) < 192" using len(2,3) by linarith+
  note lk = entry_field_lookup[OF assms, of "[]" x, simplified]
  show ?thesis unfolding committed_same_def using lk len n by simp
qed

section \<open>Finding a committed entry\<close>

lemma memfind_beyond:
  assumes "memfind ndl (a @ b) = Some n" "memfind ndl a = None" "a = [] \<or> last a \<notin> set ndl"
  shows "length a \<le> n"
proof (rule ccontr)
  assume "\<not> length a \<le> n"
  then have l: "n < length a" by simp
  have t: "take (length ndl) (drop n (a @ b)) = ndl" "ndl \<noteq> []" using memfind_some[OF assms(1)] by blast+
  show False
  proof (cases "n + length ndl \<le> length a")
    case True
    then show False using t memfind_none[OF assms(2), of n] by simp
  next
    case False
    have "last a = (take (length ndl) (drop n (a @ b))) ! (length a - 1 - n)"
      using l False by (cases a rule: rev_cases) (simp_all add: nth_append)
    moreover have "length a - 1 - n < length ndl" using l False by simp
    ultimately have "last a \<in> set ndl" using t(1) by simp
    then show False using assms(3) l by auto
  qed
qed

definition core_segs :: "manifest_entry \<Rightarrow> string list" where
  "core_segs e = drop 2 (butlast (entry_segs e))"

lemma entry_core_segs: "entry_core e = CHR ''{'' # CHR 0x22 # unsegs (''recordingId'' # core_segs e)"
  by (simp add: entry_core_def entry_segs_def core_segs_def)

lemma core_segs_clean: "entry_fields_ok e \<Longrightarrow> list_all (list_all json_clean) (core_segs e)"
  using entry_segs_clean[of e] unfolding core_segs_def list_all_iff by (meson in_set_butlastD in_set_dropD)

lemma core_segs_last: "core_segs e \<noteq> []" "last (core_segs e) = '':''"
  by (simp_all add: core_segs_def entry_segs_def)

lemma core_segs_no_id:
  assumes "entry_ok e" shows "''recordingId'' \<notin> set (core_segs e)"
proof -
  have f: "entry_fields_ok e" using assms by (simp add: entry_ok_iff)
  have st: "''recordingId'' \<noteq> me_state e" using f by (auto simp: entry_fields_ok_def)
  have "valid_filename (Some (me_filename e))" using assms unfolding entry_ok_def by blast
  then have "take 11 (me_filename e) = ''recordings/''" by (simp add: Let_def split: if_splits)
  moreover have "take 11 ''recordingId'' \<noteq> ''recordings/''" by simp
  ultimately have fn: "''recordingId'' \<noteq> me_filename e" by metis
  have nk: "''recordingId'' \<noteq> x" if "length x \<noteq> 11" for x using that by auto
  have "''recordingId'' \<noteq> me_id e" "''recordingId'' \<noteq> me_started e" "''recordingId'' \<noteq> me_sha e"
    using entry_lengths(1,4,5)[OF assms] by (simp_all add: nk)
  then show ?thesis using st fn by (simp add: core_segs_def entry_segs_def)
qed

lemma hit_scope_entry:
  assumes "entry_ok e"
  shows "\<exists>x. hit_scope (a @ tl (entry_text e) @ b) (length a) = tl (entry_core e) @ x"
proof -
  have f: "entry_fields_ok e" using assms by (simp add: entry_ok_iff)
  define c x where "c = unsegs (''recordingId'' # core_segs e)" and "x = CHR 0x22 # me_fw e @ CHR 0x22 # ''}'' @ b"
  have "tl (segs c) = core_segs e" unfolding c_def
    by (rule segs_unsegs_tl[OF _ core_segs_clean[OF f]]) (simp add: json_clean_def)
  then have none: "memfind (CHR 0x22 # ''recordingId'' @ CHR 0x22 # []) c = None"
    using core_segs_no_id[OF assms] by (intro quoted_absent) (simp_all add: json_clean_def)
  have lst: "last c = CHR '':''" unfolding c_def
    using unsegs_last[of "''recordingId'' # core_segs e"] core_segs_last[of e] by simp
  have core: "tl (entry_core e) = CHR 0x22 # c" unfolding c_def entry_core_segs by simp
  have te: "a @ tl (entry_text e) @ b = a @ CHR 0x22 # c @ x"
    unfolding entry_text_core entry_core_segs c_def x_def by simp
  have d: "drop (length a) (a @ CHR 0x22 # c @ x) = CHR 0x22 # c @ x" "drop (length a + 1) (a @ CHR 0x22 # c @ x) = c @ x" by simp_all
  show ?thesis
  proof (cases "memfind ''\"recordingId\"'' (c @ x)")
    case None
    then show ?thesis unfolding hit_scope_def te core d None option.case by (intro exI[of _ x]) simp
  next
    case (Some n)
    then have "length c \<le> n" using memfind_beyond[of _ c x n] none lst by simp
    then show ?thesis unfolding hit_scope_def te core d Some option.case
      by (intro exI[of _ "take (n - length c) x"]) simp
  qed
qed

text \<open>The text before the entries and its segments.\<close>

definition doc_head :: "string \<Rightarrow> string \<Rightarrow> string" where
  "doc_head device_id updated_at = ''{\"schemaVersion\":'' @ dec_of_nat RECORDER_METADATA_SCHEMA_VERSION @
     '',\"deviceId\":\"'' @ device_id @ ''\",\"updatedAt\":\"'' @ updated_at @ ''\",\"recordings\":[''"

definition head_segs :: "string \<Rightarrow> string \<Rightarrow> string list" where
  "head_segs device_id updated_at = [''{'', ''schemaVersion'', '':'' @ dec_of_nat RECORDER_METADATA_SCHEMA_VERSION @ '','',
     ''deviceId'', '':'', device_id, '','', ''updatedAt'', '':'', updated_at, '','', ''recordings'']"

lemma document_head: "document_text d u b = doc_head d u @ b @ '']}''"
  by (simp add: document_text_def doc_head_def)

lemma head_unsegs: "doc_head d u = unsegs (head_segs d u @ ['':['' ])"
  by (simp add: doc_head_def head_segs_def)

lemma head_segs_clean: "list_all json_clean d \<Longrightarrow> list_all json_clean u \<Longrightarrow> list_all (list_all json_clean) (head_segs d u)"
  by (simp add: head_segs_def json_clean_def dec_clean)

lemma segs_head:
  assumes "list_all json_clean d" "list_all json_clean u" "segs rest = h # t"
  shows "segs (doc_head d u @ rest) = head_segs d u @ ('':['' @ h) # t"
  unfolding head_unsegs using segs_unsegs[OF head_segs_clean[OF assms(1,2)] _ assms(3), of "'':[''"] by (simp add: json_clean_def)

lemma ids_after_head:
  assumes "length d = 36" "length u = 25"
  shows "ids_after (head_segs d u @ ('':['' @ h) # t) = ids_after t"
proof -
  have "d \<noteq> ''recordingId''" "u \<noteq> ''recordingId''" using assms by auto
  then show ?thesis by (simp add: head_segs_def ids_after_skip)
qed

text \<open>An identifier that is not among the entries is not found, one that is leads to its entry.\<close>

lemma find_absent:
  assumes "length d = 36" "list_all json_clean d" "length u = 25" "list_all json_clean u" "list_all entry_ok es"
    "list_all json_clean i" "i \<notin> set (map me_id es)"
  shows "memfind (id_needle i) (document_text d u (body_text es)) = None"
proof -
  obtain h t where ht: "segs (body_text es @ '']}'') = h # t" "h \<in> {''{'', '']}''}" "ids_after (h # t) = map me_id es"
    using segs_body[OF assms(5)] by auto
  have "ids_after (segs (document_text d u (body_text es))) = ids_after t"
    unfolding document_head using segs_head[OF assms(2,4) ht(1)] ids_after_head[OF assms(1,3), of h t] by simp
  moreover have "ids_after t = map me_id es" using ht(2,3) ids_after_skip[of h t] by auto
  ultimately show ?thesis using needle_absent[of i] assms(6,7) by simp
qed

text \<open>The text of the entries before a given one.\<close>

definition before_text :: "manifest_entry list \<Rightarrow> string" where
  "before_text es = (if es = [] then [] else body_text es @ '','')"

definition after_text :: "manifest_entry list \<Rightarrow> string" where
  "after_text es = (if es = [] then [] else CHR '','' # body_text es)"

lemma body_text_append: "body_text (es @ fs) = (if fs = [] then body_text es else before_text es @ body_text fs)"
proof (induction es rule: body_text.induct)
  case 1
  then show ?case by (simp add: before_text_def)
next
  case (2 e)
  then show ?case by (simp add: before_text_def body_text_Cons)
next
  case (3 e e' es)
  then show ?case by (cases fs) (simp_all add: before_text_def)
qed

lemma body_text_at: "body_text (es @ e # fs) = before_text es @ entry_text e @ after_text fs"
  by (simp add: body_text_append body_text_Cons after_text_def)

lemma uuid_no_brace:
  assumes "device_identity_is_valid_uuid (Some u)" shows "CHR ''{'' \<notin> set u"
proof
  assume "CHR ''{'' \<in> set u"
  then obtain i where i: "i < length u" "u ! i = CHR ''{''" by (auto simp: in_set_conv_nth)
  have a: "length u = 36"
    "\<forall>i \<in> set [0..<36]. if i = 8 \<or> i = 13 \<or> i = 18 \<or> i = 23 then u ! i = CHR ''-'' else is_hex (u ! i)"
    using assms unfolding device_identity_is_valid_uuid.simps list_all_iff by blast+
  then have "i \<in> set [0..<36]" using i(1) by simp
  then have "u ! i = CHR ''-'' \<or> is_hex (u ! i)" using a(2) by metis
  then show False unfolding i(2) by (simp add: is_hex_def)
qed

lemma find_present:
  assumes "length d = 36" "list_all json_clean d" "length u = 25" "list_all json_clean u" "entries_ok es" "e \<in> set es"
  shows "\<exists>hit x. memfind (id_needle (me_id e)) (document_text d u (body_text es)) = Some hit \<and>
    hit_scope (document_text d u (body_text es)) hit = tl (entry_core e) @ x"
proof -
  obtain es1 es2 where es: "es = es1 @ e # es2" using assms(6) by (auto dest: split_list)
  have ok: "list_all entry_ok es1" "entry_ok e" "me_id e \<notin> set (map me_id es1)"
    using assms(5) unfolding es entries_ok_def by auto
  have uu: "device_identity_is_valid_uuid (Some (me_id e))" using ok(2) by (simp add: entry_ok_def del: device_identity_is_valid_uuid.simps)
  let ?a = "doc_head d u @ before_text es1 @ ''{''"
  have doc: "document_text d u (body_text es) = ?a @ tl (entry_text e) @ after_text es2 @ '']}''"
    unfolding es document_head body_text_at using entry_text_start[of e] by auto
  have "memfind (id_needle (me_id e)) ?a = None"
  proof (rule needle_absent)
    obtain h t where ht: "segs (before_text es1 @ ''{'') = h # t" "ids_after t = map me_id es1"
    proof (cases "es1 = []")
      case True
      then show ?thesis using that[of "''{''" "[]"] by (simp add: before_text_def)
    next
      case False
      obtain h t where "segs (body_text es1 @ '',{'') = h # t" "h = ''{''" "ids_after (h # t) = map me_id es1"
        using segs_body_rest[OF ok(1), of "'',{''"] False by (auto simp: json_clean_def)
      then show ?thesis using that[of h t] False ids_after_skip[of h t] by (simp add: before_text_def)
    qed
    have "ids_after (segs ?a) = map me_id es1"
      using segs_head[OF assms(2,4) ht(1)] ids_after_head[OF assms(1,3), of h t] ht(2) by simp
    then show "me_id e \<notin> set (ids_after (segs ?a))" using ok(3) by simp
    show "list_all json_clean (me_id e)" by (rule uuid_clean[OF uu])
  qed
  moreover obtain b where b: "tl (entry_text e) = id_needle (me_id e) @ b"
    using entry_text_needle[of e] by auto
  moreover have "last ?a \<notin> set (id_needle (me_id e))" using uuid_no_brace[OF uu] by (simp add: id_needle_def)
  ultimately have "memfind (id_needle (me_id e)) (document_text d u (body_text es)) = Some (length ?a)"
    unfolding doc using memfind_first[of "id_needle (me_id e)" ?a "b @ after_text es2 @ '']}''"] by (simp add: id_needle_def)
  then show ?thesis unfolding doc using hit_scope_entry[OF ok(2), of ?a "after_text es2 @ '']}''"] by blast
qed

section \<open>Inserting an entry\<close>

text \<open>The head in the three parts that the splice cuts: before \<open>updatedAt\<close>, the timestamp, and the rest.\<close>

definition head_pre :: "string \<Rightarrow> string" where
  "head_pre d = ''{\"schemaVersion\":'' @ dec_of_nat RECORDER_METADATA_SCHEMA_VERSION @ '',\"deviceId\":\"'' @ d @ ''\",''"

lemma doc_head_pre:
  "doc_head d u = head_pre d @ ''\"updatedAt\"'' @ '':'' @ CHR 0x22 # u @ ''\",\"recordings\":[''"
  by (simp add: doc_head_def head_pre_def)

lemma find_updated:
  assumes "length d = 36" "list_all json_clean d"
  shows "memfind ''\"updatedAt\"'' (head_pre d @ ''\"updatedAt\"'' @ r) = Some (length (head_pre d))"
proof -
  have p: "unsegs (take 7 (head_segs d [])) = head_pre d" by (simp add: head_pre_def head_segs_def)
  have sg: "tl (segs (head_pre d)) = tl (take 7 (head_segs d []))" unfolding p[symmetric]
    using assms segs_unsegs_tl[of "''{''" "tl (take 7 (head_segs d []))"]
    by (simp add: head_segs_def json_clean_def dec_clean)
  have "d \<noteq> ''updatedAt''" using assms(1) by auto
  then have "''updatedAt'' \<notin> set (tl (segs (head_pre d)))" unfolding sg by (auto simp: head_segs_def)
  moreover have "last (head_pre d) = CHR '',''" by (simp add: head_pre_def)
  ultimately show ?thesis
    using quoted_first[of "''updatedAt''" "head_pre d" "[]" r] by (simp add: json_clean_def)
qed

lemma find_recordings:
  assumes "length d = 36" "list_all json_clean d" "length u = 25" "list_all json_clean u" "x \<in> {[], '':[''}"
  shows "memfind (''\"recordings\"'' @ x) (doc_head d u @ r) = Some (length (doc_head d u) - 14)"
proof -
  let ?p = "unsegs (take 11 (head_segs d u))"
  have sg: "tl (segs ?p) = tl (take 11 (head_segs d u))"
    using assms segs_unsegs_tl[of "''{''" "tl (take 11 (head_segs d u))"]
    by (simp add: head_segs_def json_clean_def dec_clean)
  have "d \<noteq> ''recordings''" "u \<noteq> ''recordings''" using assms(1,3) by auto
  then have "''recordings'' \<notin> set (tl (segs ?p))" unfolding sg by (auto simp: head_segs_def)
  moreover have h: "doc_head d u = ?p @ ''\"recordings\"'' @ '':[''" by (simp add: doc_head_def head_segs_def)
  moreover have "last ?p = CHR '',''" by (simp add: head_segs_def)
  ultimately show ?thesis
    using quoted_first[of "''recordings''" ?p "[]" "'':['' @ r"] quoted_first[of "''recordings''" ?p "'':[''" "r"] assms(5)
    by (auto simp: json_clean_def)
qed

lemma splice_points_doc:
  assumes "length d = 36" "list_all json_clean d" "length u = 25" "list_all json_clean u"
  shows "splice_points (document_text d u b) =
    Some (length (head_pre d) + 13, length (head_pre d) + 38, length (doc_head d u) - 1, length (doc_head d u) + length b)"
proof -
  let ?doc = "document_text d u b" and ?p = "head_pre d" and ?r = "''\",\"recordings\":['' @ b @ '']}''"
  have doc: "?doc = ?p @ ''\"updatedAt\"'' @ '':'' @ CHR 0x22 # u @ ?r" by (simp add: document_head doc_head_pre)
  have hl: "length (doc_head d u) = length ?p + 54" using assms(3) by (simp add: doc_head_pre)
  have upd: "memfind ''\"updatedAt\"'' ?doc = Some (length ?p)" unfolding doc by (rule find_updated[OF assms(1,2)])
  have arr: "memfind ''\"recordings\"'' ?doc = Some (length (doc_head d u) - 14)"
    unfolding document_head using find_recordings[OF assms, of "[]" "b @ '']}''"] by simp
  have c: "c_strchr CHR '':'' (drop (length ?p) ?doc) = Some 11" by (simp add: doc)
  have q: "c_strchr CHR 0x22 (drop (length ?p + 11) ?doc) = Some 1" by (simp add: doc)
  have "drop (length ?p + 11 + 1 + 1) ?doc = u @ ?r" by (simp add: doc)
  then have l: "c_strchr CHR 0x22 (drop (length ?p + 11 + 1 + 1) ?doc) = Some 25"
    using c_strchr_append[of "CHR 0x22" u] clean_no_quote[OF assms(4)] clean_no_nul[OF assms(4)] assms(3) by simp
  have "drop (length (doc_head d u) - 14) ?doc = ''\"recordings\":['' @ b @ '']}''"
    using assms(3) by (simp add: doc hl)
  then have o: "c_strchr CHR ''['' (drop (length (doc_head d u) - 14) ?doc) = Some 13" by simp
  have e: "dropWhile is_space (rev ?doc) = rev ?doc" by (simp add: doc is_space_def)
  have n: "length ?doc = length (doc_head d u) + length b + 2" by (simp add: document_head)
  have last: "?doc ! (length ?doc - 1) = CHR ''}''" "?doc ! (length ?doc - 2) = CHR '']''"
    by (simp_all add: document_head nth_append)
  have k: "check (\<not> (length ?doc < 2 \<or> ?doc ! (length ?doc - 1) \<noteq> CHR ''}'' \<or> ?doc ! (length ?doc - 2) \<noteq> CHR '']'')) = Some ()"
    using last n by simp
  show ?thesis unfolding splice_points_def upd arr bind.bind_lunit c q Let_def l o e length_rev k
    using assms(3) by (simp add: hl n)
qed

lemma body_space:
  assumes "list_all is_space (body_text es)" shows "es = []"
proof (rule ccontr)
  assume "es \<noteq> []"
  then obtain e es' where "es = e # es'" by (cases es) auto
  then have "\<exists>r. body_text es = CHR ''{'' # r" using entry_text_start[of e] by (cases es') auto
  then show False using assms by (auto simp: is_space_def)
qed

text \<open>The splice appends the text of the entry to the entries and replaces the timestamp.\<close>

lemma splice_document_doc:
  assumes "length d = 36" "list_all json_clean d" "length u = 25" "list_all json_clean u" "length u' = 25"
  shows "splice_document (document_text d u (body_text es)) u' ej =
    (let doc = document_text d u' (before_text es @ ej)
     in if length doc \<le> DEVICE_MANIFEST_ADMISSION_CEILING_BYTES then Some doc else None)"
proof -
  let ?b = "body_text es" and ?p = "head_pre d"
  let ?doc = "document_text d u ?b"
  have doc: "?doc = ?p @ ''\"updatedAt\"'' @ '':'' @ CHR 0x22 # u @ ''\",\"recordings\":['' @ ?b @ '']}''" by (simp add: document_head doc_head_pre)
  have hl: "length (doc_head d u) = length ?p + 54" "length (doc_head d u') = length ?p + 54" using assms(3,5) by (simp_all add: doc_head_pre)
  have emp: "list_all is_space (take (length (doc_head d u) + length ?b - (length (doc_head d u) - 1 + 1)) (drop (length (doc_head d u) - 1 + 1) ?doc)) \<longleftrightarrow> es = []"
  proof -
    have "length (doc_head d u) - 1 + 1 = length (doc_head d u)" using hl by simp
    then have "take (length (doc_head d u) + length ?b - (length (doc_head d u) - 1 + 1)) (drop (length (doc_head d u) - 1 + 1) ?doc) = ?b"
      by (simp add: document_head)
    then show ?thesis using body_space[of es] by auto
  qed
  have t1: "take (length ?p + 13) ?doc = ?p @ ''\"updatedAt\":\"''" by (simp add: doc)
  have t2: "take (length (doc_head d u) + length ?b - (length ?p + 38)) (drop (length ?p + 38) ?doc) = ''\",\"recordings\":['' @ ?b"
    using assms(3) by (simp add: doc hl eval_nat_numeral)
  have t3: "drop (length (doc_head d u) + length ?b) ?doc = '']}''" by (simp add: document_head)
  have fresh: "take (length ?p + 13) ?doc @ u' @ take (length (doc_head d u) + length ?b - (length ?p + 38)) (drop (length ?p + 38) ?doc) @
      (if es = [] then [] else '','') @ ej @ drop (length (doc_head d u) + length ?b) ?doc = document_text d u' (before_text es @ ej)"
    unfolding t1 t2 t3 by (simp add: document_head doc_head_pre before_text_def)
  have len: "splice_len ?doc u' ej (length ?p + 13) (length ?p + 38) (es = []) = length (document_text d u' (before_text es @ ej))"
    using assms(3,5) by (simp add: splice_len_def document_head hl before_text_def)
  show ?thesis unfolding splice_document_def splice_points_doc[OF assms(1-4)] bind.bind_lunit prod.case Let_def emp fresh len
    using assms(5) by simp
qed

section \<open>Comparing two manifests\<close>

lemma entry_text_inj:
  assumes "entry_ok e" "entry_ok e'" "entry_text e @ x = entry_text e' @ y" shows "e = e' \<and> x = y"
proof -
  have f: "entry_fields_ok e" "entry_fields_ok e'" using assms(1,2) unfolding entry_ok_iff by blast+
  have "Some (e, x) = manifest_entry (entry_text e @ x)" by (rule manifest_entry_text[OF f(1), symmetric])
  also have "\<dots> = Some (e', y)" unfolding assms(3) by (rule manifest_entry_text[OF f(2)])
  finally show ?thesis by simp
qed

text \<open>A body that another one continues at a comma or at its end lists the first entries of the other.\<close>

lemma body_text_after: "body_text (e # es) = entry_text e @ after_text es"
  by (simp add: body_text_Cons after_text_def)

lemma body_text_prefix:
  assumes "list_all entry_ok es0" "list_all entry_ok es" "es0 \<noteq> []" "body_text es = body_text es0 @ r"
    "r = [] \<or> hd r = CHR '',''"
  shows "prefix es0 es"
  using assms(1-4)
proof (induction es0 arbitrary: es)
  case (Cons e0 es0)
  have "body_text es \<noteq> []" using Cons.prems(4) entry_text_start[of e0] unfolding body_text_after by auto
  then obtain e es' where es: "es = e # es'" by (cases es) auto
  have ok: "entry_ok e" "entry_ok e0" "list_all entry_ok es'" "list_all entry_ok es0" using Cons.prems(1,2) es by simp_all
  have "entry_text e @ after_text es' = entry_text e0 @ after_text es0 @ r"
    using Cons.prems(4) unfolding es body_text_after by simp
  from entry_text_inj[OF ok(1,2) this] have e: "e = e0" "after_text es' = after_text es0 @ r" by blast+
  show ?case
  proof (cases "es0 = []")
    case True
    then show ?thesis using es e(1) by simp
  next
    case False
    have "es' \<noteq> []" using e(2) False by (auto simp: after_text_def)
    then have "body_text es' = body_text es0 @ r" using e(2) False by (simp add: after_text_def)
    then have "prefix es0 es'" by (rule Cons.IH[OF ok(4,3) False])
    then show ?thesis using es e(1) by simp
  qed
qed simp

lemma prefix_body_text:
  assumes "prefix es0 es"
  shows "\<exists>r. body_text es = body_text es0 @ r \<and> (es0 = [] \<or> r = [] \<or> hd r = CHR '','')"
proof -
  obtain fs where fs: "es = es0 @ fs" using assms by (auto elim: prefixE)
  show ?thesis unfolding fs body_text_append by (cases "fs = []") (auto simp: before_text_def)
qed

lemma snapshot_extends_doc:
  assumes "length d = 36" "list_all json_clean d" "length u = 25" "list_all json_clean u" "length u0 = 25" "list_all json_clean u0"
    "list_all entry_ok es" "list_all entry_ok es0"
  shows "snapshot_extends (document_text d u (body_text es)) (document_text d u0 (body_text es0)) \<longleftrightarrow> prefix es0 es"
proof -
  let ?new = "document_text d u (body_text es)" and ?old = "document_text d u0 (body_text es0)"
  let ?b = "body_text es" and ?c = "body_text es0" and ?n = "length (head_pre d) + 54"
  have hl: "length (doc_head d u) = ?n" "length (doc_head d u0) = ?n" using assms(3,5) by (simp_all add: doc_head_pre)
  have m: "memfind ''\"recordings\":['' ?old = Some (?n - 14)" "memfind ''\"recordings\":['' ?new = Some (?n - 14)"
    unfolding document_head using find_recordings[OF assms(1,2,5,6), of "'':[''" "?c @ '']}''"]
      find_recordings[OF assms(1,2,3,4), of "'':[''" "?b @ '']}''"] by (simp_all add: hl)
  have cs: "c_strchr CHR ''['' (drop (?n - 14) ?old) = Some 13" "c_strchr CHR ''['' (drop (?n - 14) ?new) = Some 13"
    using assms(3,5) by (simp_all add: document_head doc_head_pre)
  have i: "?n - 14 + 13 + 1 = ?n" by simp
  have l: "length ?old - 2 = ?n + length ?c" "length ?new - 2 = ?n + length ?b" by (simp_all add: document_head hl)
  have t: "take (length ?c) (drop ?n ?old) = ?c" using hl(2) by (simp add: document_head)
  have t': "take (length ?c) (drop ?n ?new) = take (length ?c) ?b" if "length ?c \<le> length ?b"
    using hl(1) that by (simp add: document_head)
  have nn: "?new ! (?n + length ?c) = ?b ! length ?c" if "length ?c < length ?b"
    using hl(1) that by (simp add: document_head nth_append)
  have "snapshot_extends ?new ?old \<longleftrightarrow> length ?c \<le> length ?b \<and> ?c = take (length ?c) ?b \<and>
      (?c = [] \<or> length ?c = length ?b \<or> ?b ! length ?c = CHR '','')"
  proof (cases "length ?c \<le> length ?b")
    case True
    then show ?thesis unfolding snapshot_extends_def m option.case prod.case cs Let_def i l add_diff_cancel_left' t
      using t'[OF True] nn by (cases "length ?c < length ?b") auto
  next
    case False
    then show ?thesis unfolding snapshot_extends_def m option.case prod.case cs Let_def i l add_diff_cancel_left' by simp
  qed
  also have "\<dots> \<longleftrightarrow> prefix es0 es"
  proof
    assume a: "length ?c \<le> length ?b \<and> ?c = take (length ?c) ?b \<and> (?c = [] \<or> length ?c = length ?b \<or> ?b ! length ?c = CHR '','')"
    show "prefix es0 es"
    proof (cases "es0 = []")
      case False
      then have ne: "?c \<noteq> []" using body_space[of es0] by auto
      have b: "?b = ?c @ drop (length ?c) ?b" using a by (metis append_take_drop_id)
      have "drop (length ?c) ?b = [] \<or> hd (drop (length ?c) ?b) = CHR '',''"
        using a ne by (cases "length ?c = length ?b") (simp_all add: hd_drop_conv_nth)
      then show ?thesis by (rule body_text_prefix[OF assms(8,7) False b])
    qed simp
  next
    assume "prefix es0 es"
    then obtain r where r: "?b = ?c @ r" "es0 = [] \<or> r = [] \<or> hd r = CHR '',''" using prefix_body_text by blast
    then show "length ?c \<le> length ?b \<and> ?c = take (length ?c) ?b \<and> (?c = [] \<or> length ?c = length ?b \<or> ?b ! length ?c = CHR '','')"
      by (cases r) (auto simp: nth_append)
  qed
  finally show ?thesis .
qed

text \<open>
  What a valid manifest of a device says: \<open>lists d doc es\<close> when \<open>doc\<close> is a valid snapshot with the
  entries \<open>es\<close>.
\<close>

definition lists :: "string \<Rightarrow> string \<Rightarrow> manifest_entry list \<Rightarrow> bool" where
  "lists d doc es \<longleftrightarrow> (\<exists>u. doc = document_text d u (body_text es) \<and> device_manifest_is_valid_iso8601_offset (Some u)) \<and>
     device_identity_is_valid_uuid (Some d) \<and> entries_ok es"

lemma lists_valid: "lists d doc es \<Longrightarrow> manifest_snapshot_valid (Some doc) (Some d)"
  unfolding lists_def snapshot_valid_iff using uuid_clean by blast

lemma valid_lists:
  assumes "manifest_snapshot_valid (Some doc) (Some d)" "device_identity_is_valid_uuid (Some d)"
  shows "\<exists>es. lists d doc es"
  using assms unfolding lists_def snapshot_valid_iff by blast

lemma listsE:
  assumes "lists d doc es"
  obtains u where "doc = document_text d u (body_text es)" "device_manifest_is_valid_iso8601_offset (Some u)" "length u = 25"
    "list_all json_clean u" "length d = 36" "list_all json_clean d" "list_all entry_ok es" "distinct (map me_id es)"
proof -
  obtain u where u: "doc = document_text d u (body_text es)" "device_manifest_is_valid_iso8601_offset (Some u)"
    using assms unfolding lists_def by blast
  have d: "device_identity_is_valid_uuid (Some d)" using assms unfolding lists_def by blast
  then have "length d = 36" by simp
  moreover have "list_all entry_ok es" "distinct (map me_id es)" using assms unfolding lists_def entries_ok_def by blast+
  ultimately show ?thesis using that[OF u iso_clean[OF u(2)]] uuid_clean[OF d] by blast
qed

lemma lists_unique:
  assumes "lists d doc es" "lists d' doc es'" shows "d = d' \<and> es = es'"
proof -
  obtain u where a: "doc = document_text d u (body_text es)" "list_all json_clean u" "list_all json_clean d" "list_all entry_ok es"
    using assms(1) by (rule listsE)
  obtain u' where b: "doc = document_text d' u' (body_text es')" "list_all json_clean u'" "list_all json_clean d'" "list_all entry_ok es'"
    using assms(2) by (rule listsE)
  have "document_text d u (body_text es) @ [] = document_text d' u' (body_text es')" using a(1) b(1) by simp
  then show ?thesis using document_text_unique[OF _ a(3) b(3) a(2) b(2) a(4) b(4)] by blast
qed

text \<open>The comparison of two snapshots is the prefix relation on their entries.\<close>

lemma snapshot_extends_lists:
  assumes "lists d new_doc es" "lists d old_doc es0"
  shows "snapshot_extends new_doc old_doc \<longleftrightarrow> prefix es0 es"
proof -
  obtain u where a: "new_doc = document_text d u (body_text es)" "length u = 25" "list_all json_clean u" "length d = 36"
    "list_all json_clean d" "list_all entry_ok es" using assms(1) by (rule listsE)
  obtain u0 where b: "old_doc = document_text d u0 (body_text es0)" "length u0 = 25" "list_all json_clean u0" "list_all entry_ok es0"
    using assms(2) by (rule listsE)
  show ?thesis unfolding a(1) b(1) by (rule snapshot_extends_doc[OF a(4,5,2,3) b(2,3) a(6) b(4)])
qed

text \<open>The appended document, when the parser accepts it, has the old entries as a prefix.\<close>

lemma splice_lists:
  assumes "lists d doc es" "splice_document doc u' ej = Some doc'" "lists d doc' es'" "length u' = 25"
  shows "prefix es es' \<and> length doc' \<le> DEVICE_MANIFEST_ADMISSION_CEILING_BYTES"
proof -
  obtain u where a: "doc = document_text d u (body_text es)" "length u = 25" "list_all json_clean u" "length d = 36"
    "list_all json_clean d" "list_all entry_ok es" using assms(1) by (rule listsE)
  have s: "doc' = document_text d u' (before_text es @ ej)" "length doc' \<le> DEVICE_MANIFEST_ADMISSION_CEILING_BYTES"
    using assms(2) splice_document_doc[OF a(4,5,2,3) assms(4), of es ej] unfolding a(1) by (auto simp: Let_def split: if_splits)
  obtain u2 where b: "doc' = document_text d u2 (body_text es')" "list_all entry_ok es'" "length u2 = 25"
    using assms(3) by (rule listsE)
  have "doc_head d u' @ before_text es @ ej @ '']}'' = doc_head d u2 @ body_text es' @ '']}''"
    using s(1) b(1) by (simp add: document_head)
  moreover have "length (doc_head d u') = length (doc_head d u2)" using assms(4) b(3) by (simp add: doc_head_pre)
  ultimately have eq: "body_text es' = before_text es @ ej" by simp
  have "prefix es es'"
  proof (cases "es = []")
    case False
    then have "body_text es' = body_text es @ (CHR '','' # ej)" using eq by (simp add: before_text_def)
    then show ?thesis by (rule body_text_prefix[OF a(6) b(2) False]) simp
  qed simp
  then show ?thesis using s(2) by blast
qed

end
