(* ===== verification/Manifest_Store.thy ===== *)
theory Manifest_Store
  imports Manifest_Fields
begin

text \<open>
  The manifest on the card: \<open>read_file_bounded\<close>, \<open>write_tmp_and_rename\<close>,
  \<open>device_manifest_upsert_file\<close>, \<open>device_manifest_recover_tmp\<close> and
  \<open>device_manifest_has_append_room\<close> of \<open>firmware/components/recorder/device_manifest.c\<close>.

  Three files take part: the manifest, a temporary file with the next document, and a backup of the
  last committed document while the two are exchanged on a file system that cannot rename over an
  existing file. The theory shows that no committed entry is lost, whatever calls fail and wherever
  the power goes.
\<close>

section \<open>Operations\<close>

text \<open>An allocation that may fail.\<close>

definition c_malloc :: "io_world \<Rightarrow> bool \<times> io_world" where
  "c_malloc w = io_try w"

definition st_size :: "stat_t \<Rightarrow> nat" where
  "st_size st = (case st of StatFile n \<Rightarrow> n | StatDir \<Rightarrow> 0)"

fun read_file_bounded :: "string ptr \<Rightarrow> nat \<Rightarrow> io_world \<Rightarrow> string option \<times> io_world" where
  "read_file_bounded None max_bytes w = (None, w)"
| "read_file_bounded (Some path) max_bytes w =
     (if path = [] \<or> max_bytes = 0 then (None, w)
      else case c_stat path w of
        (None, w) \<Rightarrow> (None, w)
      | (Some st, w) \<Rightarrow>
          if st_size st > max_bytes then (None, w)
          else case c_malloc w of (ok, w) \<Rightarrow>
          if \<not> ok then (None, w)
          else case fopen RB path w of
            (None, w) \<Rightarrow> (None, w)
          | (Some fp, w) \<Rightarrow>
              case fread fp (st_size st) w of (buf, fp, w) \<Rightarrow>
              case fclose fp w of (closed, w) \<Rightarrow>
              if \<not> closed \<or> length buf \<noteq> st_size st then (None, w) else (Some (string_of_bytes buf), w))"

definition manifest_file_valid :: "string \<Rightarrow> string ptr \<Rightarrow> io_world \<Rightarrow> bool \<times> io_world" where
  "manifest_file_valid path device_id w =
     (case read_file_bounded (Some path) RECORDER_MANIFEST_MAX_BYTES w of
        (None, w) \<Rightarrow> (False, w)
      | (Some buf, w) \<Rightarrow> (manifest_snapshot_valid (Some buf) device_id, w))"

definition manifest_file_extends :: "string \<Rightarrow> string \<Rightarrow> string ptr \<Rightarrow> io_world \<Rightarrow> bool \<times> io_world" where
  "manifest_file_extends candidate_path old_path device_id w =
     (case read_file_bounded (Some candidate_path) RECORDER_MANIFEST_MAX_BYTES w of
        (None, w) \<Rightarrow> (False, w)
      | (Some new_doc, w) \<Rightarrow>
          (case read_file_bounded (Some old_path) RECORDER_MANIFEST_MAX_BYTES w of
             (None, w) \<Rightarrow> (False, w)
           | (Some old_doc, w) \<Rightarrow>
               if \<not> manifest_snapshot_valid (Some new_doc) device_id \<or> \<not> manifest_snapshot_valid (Some old_doc) device_id
               then (False, w)
               else (snapshot_extends new_doc old_doc, w)))"

fun manifest_backup_path :: "string ptr \<Rightarrow> string option" where
  "manifest_backup_path None = None"
| "manifest_backup_path (Some manifest_path) = snprintf_fits RECORDER_MAX_PATH_LEN (manifest_path @ ''.bak'')"

text \<open>A backup left by the preceding append is retired once the manifest is known to contain it.\<close>

definition retire_backup :: "string \<Rightarrow> string \<Rightarrow> string \<Rightarrow> io_world \<Rightarrow> bool \<times> io_world" where
  "retire_backup manifest_path backup doc_device_id w =
     (case c_stat backup w of
        (Some st, w) \<Rightarrow>
          (case manifest_file_extends manifest_path backup (Some doc_device_id) w of (ok, w) \<Rightarrow>
           if \<not> ok then (False, w)
           else case c_remove backup w of (removed, w) \<Rightarrow> (removed, w))
      | (None, w) \<Rightarrow> if errno_of w \<noteq> ENOENT then (False, w) else (True, w))"

text \<open>The temporary file, complete and forced to the card.\<close>

definition write_tmp :: "string \<Rightarrow> string \<Rightarrow> io_world \<Rightarrow> bool \<times> io_world" where
  "write_tmp tmp_path doc w =
     (case fopen WB tmp_path w of
        (None, w) \<Rightarrow> (False, w)
      | (Some fp, w) \<Rightarrow>
          (case fwrite fp (bytes_of_string doc) w of (wrote, fp, w) \<Rightarrow>
           case (if wrote \<noteq> length doc then (False, w) else fflush fp w) of (flushed, w) \<Rightarrow>
           if \<not> flushed then (case fclose fp w of (_, w) \<Rightarrow> case c_remove tmp_path w of (_, w) \<Rightarrow> (False, w))
           else case fileno fp w of (fd, w) \<Rightarrow>
           case (if \<not> fd then (False, w) else fsync fp w) of (synced, w) \<Rightarrow>
           if \<not> synced then (case fclose fp w of (_, w) \<Rightarrow> case c_remove tmp_path w of (_, w) \<Rightarrow> (False, w))
           else case fclose fp w of (closed, w) \<Rightarrow>
           if \<not> closed then (case c_remove tmp_path w of (_, w) \<Rightarrow> (False, w))
           else (True, w)))"

text \<open>The exchange of the temporary file and the manifest, through the backup where it is needed.\<close>

definition publish_tmp :: "string \<Rightarrow> string \<Rightarrow> string \<Rightarrow> string \<Rightarrow> bool \<Rightarrow> io_world \<Rightarrow> bool \<times> io_world" where
  "publish_tmp tmp_path manifest_path backup doc_device_id had_final w =
     (case c_rename tmp_path manifest_path w of (renamed, w) \<Rightarrow>
      if renamed then manifest_file_valid manifest_path (Some doc_device_id) w
      else if \<not> had_final \<or> errno_of w \<noteq> EEXIST then (False, w)
      else case c_rename manifest_path backup w of (saved, w) \<Rightarrow>
      if \<not> saved then (False, w)
      else case c_rename tmp_path manifest_path w of (renamed, w) \<Rightarrow>
      if \<not> renamed
      then (case c_stat manifest_path w of
              (Some _, w) \<Rightarrow> (False, w)
            | (None, w) \<Rightarrow>
                if errno_of w = ENOENT then (case c_rename backup manifest_path w of (_, w) \<Rightarrow> (False, w)) else (False, w))
      else manifest_file_extends manifest_path backup (Some doc_device_id) w)"

definition write_tmp_and_rename :: "string \<Rightarrow> string \<Rightarrow> string \<Rightarrow> io_world \<Rightarrow> bool \<times> io_world" where
  "write_tmp_and_rename tmp_path manifest_path doc w =
     (case device_identity_parse_device_id (Some doc) (length doc) of
        None \<Rightarrow> (False, w)
      | Some doc_device_id \<Rightarrow>
          if \<not> manifest_snapshot_valid (Some doc) (Some doc_device_id) then (False, w)
          else (case manifest_backup_path (Some manifest_path) of
            None \<Rightarrow> (False, w)
          | Some backup \<Rightarrow>
              (case retire_backup manifest_path backup doc_device_id w of (ok, w) \<Rightarrow>
               if \<not> ok then (False, w)
               else case c_stat manifest_path w of (st, w) \<Rightarrow>
               if st = None \<and> errno_of w \<noteq> ENOENT then (False, w)
               else case write_tmp tmp_path doc w of (written, w) \<Rightarrow>
               if \<not> written then (False, w)
               else publish_tmp tmp_path manifest_path backup doc_device_id (st \<noteq> None) w)))"

datatype device_manifest_result_t = DEVICE_MANIFEST_OK | DEVICE_MANIFEST_CONFLICT | DEVICE_MANIFEST_ERROR

definition result_of :: "bool \<Rightarrow> device_manifest_result_t" where
  "result_of ok = (if ok then DEVICE_MANIFEST_OK else DEVICE_MANIFEST_ERROR)"

text \<open>There is no manifest: create it with this single entry. Only \<open>ENOENT\<close> proves that it is missing.\<close>

definition create_manifest :: "string \<Rightarrow> string \<Rightarrow> string \<Rightarrow> string \<Rightarrow> string \<Rightarrow> io_world \<Rightarrow> device_manifest_result_t \<times> io_world" where
  "create_manifest manifest_path tmp_path device_id updated_at entry_json w =
     (case c_stat manifest_path w of
        (Some st, w) \<Rightarrow> (DEVICE_MANIFEST_ERROR, w)
      | (None, w) \<Rightarrow>
          if errno_of w \<noteq> ENOENT then (DEVICE_MANIFEST_ERROR, w)
          else let fresh = document_text device_id updated_at entry_json in
          if length fresh \<ge> RECORDER_MANIFEST_MAX_BYTES then (DEVICE_MANIFEST_ERROR, w)
          else (case c_malloc w of (ok, w) \<Rightarrow>
            if \<not> ok then (DEVICE_MANIFEST_ERROR, w)
            else case write_tmp_and_rename tmp_path manifest_path fresh w of (ok, w) \<Rightarrow> (result_of ok, w)))"

text \<open>The same identifier is in the document: idempotent success, a conflict, or an unreadable entry.\<close>

definition compare_committed :: "string \<Rightarrow> nat \<Rightarrow> entry_key \<Rightarrow> io_world \<Rightarrow> device_manifest_result_t \<times> io_world" where
  "compare_committed doc hit k w =
     (case c_malloc w of (ok, w) \<Rightarrow>
      if \<not> ok then (DEVICE_MANIFEST_ERROR, w)
      else case committed_same (hit_scope doc hit) k of
        None \<Rightarrow> (DEVICE_MANIFEST_ERROR, w)
      | Some same \<Rightarrow> (if same then DEVICE_MANIFEST_OK else DEVICE_MANIFEST_CONFLICT, w))"

definition append_entry :: "string \<Rightarrow> string \<Rightarrow> string \<Rightarrow> string \<Rightarrow> string \<Rightarrow> io_world \<Rightarrow> device_manifest_result_t \<times> io_world" where
  "append_entry manifest_path tmp_path doc updated_at entry_json w =
     (case splice_document doc updated_at entry_json of
        None \<Rightarrow> (DEVICE_MANIFEST_ERROR, w)
      | Some fresh \<Rightarrow>
          (case c_malloc w of (ok, w) \<Rightarrow>
           if \<not> ok then (DEVICE_MANIFEST_ERROR, w)
           else case write_tmp_and_rename tmp_path manifest_path fresh w of (ok, w) \<Rightarrow> (result_of ok, w)))"

definition update_manifest :: "string \<Rightarrow> string \<Rightarrow> string \<Rightarrow> string \<Rightarrow> string \<Rightarrow> string \<Rightarrow> entry_key \<Rightarrow> io_world \<Rightarrow>
    device_manifest_result_t \<times> io_world" where
  "update_manifest manifest_path tmp_path device_id updated_at entry_json doc k w =
     (if \<not> manifest_snapshot_valid (Some doc) (Some device_id) then (DEVICE_MANIFEST_ERROR, w)
      else if device_identity_parse_schema_version (Some doc) (length doc) \<noteq> Some RECORDER_METADATA_SCHEMA_VERSION
      then (DEVICE_MANIFEST_ERROR, w)
      else if device_identity_parse_device_id (Some doc) (length doc) \<noteq> Some device_id then (DEVICE_MANIFEST_ERROR, w)
      else case snprintf_fits 96 (id_needle (ek_id k)) of
        None \<Rightarrow> (DEVICE_MANIFEST_ERROR, w)
      | Some needle \<Rightarrow>
          (case memfind needle doc of
             Some hit \<Rightarrow> compare_committed doc hit k w
           | None \<Rightarrow> append_entry manifest_path tmp_path doc updated_at entry_json w))"

fun device_manifest_upsert_file ::
    "string ptr \<Rightarrow> string ptr \<Rightarrow> string ptr \<Rightarrow> string ptr \<Rightarrow> string ptr \<Rightarrow> io_world \<Rightarrow> device_manifest_result_t \<times> io_world" where
  "device_manifest_upsert_file (Some manifest_path) (Some tmp_path) device_id updated_at entry_json w =
     (if manifest_path = [] \<or> tmp_path = [] then (DEVICE_MANIFEST_ERROR, w)
      else if \<not> device_identity_is_valid_uuid device_id then (DEVICE_MANIFEST_ERROR, w)
      else if \<not> device_manifest_is_valid_iso8601_offset updated_at then (DEVICE_MANIFEST_ERROR, w)
      else case entry_json of
        None \<Rightarrow> (DEVICE_MANIFEST_ERROR, w)
      | Some entry_json \<Rightarrow>
          if entry_json = [] \<or> length entry_json > RECORDER_MANIFEST_ENTRY_MAX then (DEVICE_MANIFEST_ERROR, w)
          else (case entry_key_of_json entry_json of
            None \<Rightarrow> (DEVICE_MANIFEST_ERROR, w)
          | Some k \<Rightarrow>
              (case read_file_bounded (Some manifest_path) RECORDER_MANIFEST_MAX_BYTES w of
                 (None, w) \<Rightarrow> create_manifest manifest_path tmp_path (the device_id) (the updated_at) entry_json w
               | (Some doc, w) \<Rightarrow> update_manifest manifest_path tmp_path (the device_id) (the updated_at) entry_json doc k w)))"
| "device_manifest_upsert_file _ _ _ _ _ w = (DEVICE_MANIFEST_ERROR, w)"

text \<open>\<open>Some b\<close>: the probe is certain that the file exists or that it does not.\<close>

definition manifest_artifact_exists :: "string \<Rightarrow> io_world \<Rightarrow> bool option \<times> io_world" where
  "manifest_artifact_exists path w =
     (case c_stat path w of
        (Some _, w) \<Rightarrow> (Some True, w)
      | (None, w) \<Rightarrow> (if errno_of w = ENOENT then Some False else None, w))"

text \<open>The backup at boot: restore it, or retire it; the result says whether the manifest exists then.\<close>

definition recover_backup :: "string \<Rightarrow> string \<Rightarrow> string ptr \<Rightarrow> bool \<Rightarrow> io_world \<Rightarrow> bool option \<times> io_world" where
  "recover_backup manifest_path backup device_id final_exists w =
     (case manifest_file_valid backup device_id w of (ok, w) \<Rightarrow>
      if \<not> ok then (None, w)
      else if \<not> final_exists
      then (case c_rename backup manifest_path w of (renamed, w) \<Rightarrow> if \<not> renamed then (None, w) else (Some True, w))
      else case manifest_file_extends manifest_path backup device_id w of (ok, w) \<Rightarrow>
      if \<not> ok then (None, w)
      else case c_remove backup w of (removed, w) \<Rightarrow> if \<not> removed then (None, w) else (Some True, w))"

definition recover_final :: "string \<Rightarrow> string \<Rightarrow> string ptr \<Rightarrow> bool \<Rightarrow> bool \<Rightarrow> io_world \<Rightarrow> bool \<times> io_world" where
  "recover_final manifest_path tmp_path device_id final_exists tmp_exists w =
     (if final_exists
      then (case manifest_file_valid manifest_path device_id w of (ok, w) \<Rightarrow>
            if \<not> ok then (False, w)
            else if tmp_exists then (case c_remove tmp_path w of (removed, w) \<Rightarrow> (removed, w))
            else (True, w))
      else if \<not> tmp_exists then (False, w)
      else case manifest_file_valid tmp_path device_id w of (ok, w) \<Rightarrow>
      if \<not> ok then (False, w)
      else case c_rename tmp_path manifest_path w of (renamed, w) \<Rightarrow>
      if \<not> renamed then (False, w) else manifest_file_valid manifest_path device_id w)"

fun device_manifest_recover_tmp :: "string ptr \<Rightarrow> string ptr \<Rightarrow> string ptr \<Rightarrow> io_world \<Rightarrow> bool \<times> io_world" where
  "device_manifest_recover_tmp (Some manifest_path) (Some tmp_path) device_id w =
     (if \<not> device_identity_is_valid_uuid device_id then (False, w)
      else case manifest_backup_path (Some manifest_path) of
        None \<Rightarrow> (False, w)
      | Some backup \<Rightarrow>
          (case manifest_artifact_exists manifest_path w of
             (None, w) \<Rightarrow> (False, w)
           | (Some final_exists, w) \<Rightarrow>
               (case manifest_artifact_exists tmp_path w of
                  (None, w) \<Rightarrow> (False, w)
                | (Some tmp_exists, w) \<Rightarrow>
                    (case manifest_artifact_exists backup w of
                       (None, w) \<Rightarrow> (False, w)
                     | (Some backup_exists, w) \<Rightarrow>
                         (case (if backup_exists then recover_backup manifest_path backup device_id final_exists w
                                else (Some final_exists, w)) of
                            (None, w) \<Rightarrow> (False, w)
                          | (Some final_exists, w) \<Rightarrow>
                              recover_final manifest_path tmp_path device_id final_exists tmp_exists w)))))"
| "device_manifest_recover_tmp _ _ device_id w = (False, w)"

fun device_manifest_has_append_room :: "string ptr \<Rightarrow> string ptr \<Rightarrow> io_world \<Rightarrow> bool \<times> io_world" where
  "device_manifest_has_append_room manifest_path device_id w =
     (let reserve = 2 * RECORDER_MANIFEST_ENTRY_MAX + 64 in
      if manifest_path = None \<or> device_id = None then (False, w)
      else case read_file_bounded manifest_path RECORDER_MANIFEST_MAX_BYTES w of
        (None, w) \<Rightarrow> (False, w)
      | (Some doc, w) \<Rightarrow>
          (manifest_snapshot_valid (Some doc) device_id \<and> length doc \<le> DEVICE_MANIFEST_ADMISSION_CEILING_BYTES \<and>
           reserve \<le> DEVICE_MANIFEST_ADMISSION_CEILING_BYTES - length doc, w))"

section \<open>What reading tells\<close>

text \<open>\<open>same_card w w'\<close>: nothing on the card changed.\<close>

definition same_card :: "io_world \<Rightarrow> io_world \<Rightarrow> bool" where
  "same_card w w' \<longleftrightarrow> files w' = files w \<and> unsynced w' = unsynced w \<and> rename_replaces w' = rename_replaces w \<and>
     (honest w \<longrightarrow> honest w') \<and> (quiet w \<longrightarrow> quiet w') \<and> dirs w' = dirs w \<and> listing w' = listing w"

lemma same_card_refl [simp, intro]: "same_card w w"
  by (simp add: same_card_def)

lemma same_card_trans [trans]: "same_card w w' \<Longrightarrow> same_card w' w'' \<Longrightarrow> same_card w w''"
  by (simp add: same_card_def)

lemma same_cardI: "touches {} w w' \<Longrightarrow> steady w w' \<Longrightarrow> same_card w w'"
  using touches_quiet[of "{}" w w'] by (auto simp: same_card_def touches_def steady_def)

lemma c_stat_same: "c_stat p w = (st, w') \<Longrightarrow> same_card w w'"
  by (rule same_cardI[OF c_stat_touches c_stat_steady])

lemma c_malloc_same: "c_malloc w = (ok, w') \<Longrightarrow> same_card w w'"
  unfolding c_malloc_def by (rule same_cardI[OF io_try_touches io_try_steady])

lemma fopen_rb_same: "fopen RB p w = (fp, w') \<Longrightarrow> same_card w w'"
  by (rule same_cardI[OF fopen_rb_touches fopen_steady])

lemma fread_same: "fread h n w = (bs, h', w') \<Longrightarrow> same_card w w'"
  by (rule same_cardI[OF fread_touches fread_steady])

lemma fclose_same: "fclose h w = (ok, w') \<Longrightarrow> same_card w w'"
  by (rule same_cardI[OF fclose_touches fclose_steady])

lemma fopen_rb_opened:
  assumes "fopen RB p w = (Some fp, w')" shows "fpath fp = p \<and> fpos fp = 0 \<and> files w p \<noteq> None"
proof -
  obtain ok w1 where t: "io_try w = (ok, w1)" by fastforce
  show ?thesis using assms io_try_same(1)[OF t] by (auto simp: fopen_def t split: bool.splits option.splits)
qed

lemma c_stat_size:
  assumes "c_stat p w = (Some st, w')" "files w p = Some c" shows "st_size st = length c"
proof -
  obtain ok w1 where t: "io_try w = (ok, w1)" by fastforce
  show ?thesis using assms io_try_same(1)[OF t] by (auto simp: c_stat_def t st_size_def split: bool.splits)
qed

lemma read_file_bounded_same:
  assumes "read_file_bounded p n w = (r, w')" shows "same_card w w'"
proof (cases p)
  case (Some path)
  obtain st w1 where 1: "c_stat path w = (st, w1)" by fastforce
  note s1 = c_stat_same[OF 1]
  show ?thesis
  proof (cases "path = [] \<or> n = 0 \<or> st = None \<or> n < st_size (the st)")
    case True
    then show ?thesis using assms Some 1 s1 by (auto split: if_splits option.splits)
  next
    case False
    then obtain s where st: "st = Some s" by auto
    obtain m w2 where 2: "c_malloc w1 = (m, w2)" by fastforce
    obtain fp w3 where 3: "fopen RB path w2 = (fp, w3)" by fastforce
    note s2 = same_card_trans[OF s1 c_malloc_same[OF 2]]
    note s3 = same_card_trans[OF s2 fopen_rb_same[OF 3]]
    show ?thesis
    proof (cases "m \<and> fp \<noteq> None")
      case True
      then obtain h where h: "fp = Some h" by auto
      obtain bs h' w4 where 4: "fread h (st_size s) w3 = (bs, h', w4)" using prod_cases3 by blast
      obtain c w5 where 5: "fclose h' w4 = (c, w5)" by fastforce
      note s5 = same_card_trans[OF same_card_trans[OF s3 fread_same[OF 4]] fclose_same[OF 5]]
      have "w' = w5" using assms Some False True 1 2 3 4 5 st h by (auto split: if_splits)
      then show ?thesis using s5 by simp
    next
      case no: False
      then have "w' = w2 \<or> w' = w3" using assms Some False 1 2 3 st by (auto split: if_splits option.splits)
      then show ?thesis using s2 s3 by auto
    qed
  qed
qed (use assms in simp)

lemma read_file_bounded_some:
  assumes "read_file_bounded (Some path) n w = (Some buf, w')"
  shows "files w path = Some (bytes_of_string buf) \<and> length buf \<le> n"
proof -
  obtain st w1 where 1: "c_stat path w = (st, w1)" by fastforce
  obtain s where st: "st = Some s" "path \<noteq> []" "n \<noteq> 0" "st_size s \<le> n" using assms 1 by (cases st) (auto split: if_splits)
  obtain m w2 where 2: "c_malloc w1 = (m, w2)" by fastforce
  obtain fp w3 where 3: "fopen RB path w2 = (fp, w3)" by fastforce
  have m: "m" using assms 1 2 st by (auto split: if_splits)
  obtain h where h: "fp = Some h" using assms 1 2 3 st m by (cases fp) (auto split: if_splits)
  obtain bs h' w4 where 4: "fread h (st_size s) w3 = (bs, h', w4)" using prod_cases3 by blast
  obtain c w5 where 5: "fclose h' w4 = (c, w5)" by fastforce
  have r: "buf = string_of_bytes bs" "length bs = st_size s" using assms 1 2 3 4 5 st m h by (auto split: if_splits)
  have f: "files w3 = files w" "files w2 = files w"
    using c_stat_same[OF 1] c_malloc_same[OF 2] fopen_rb_same[OF 3] by (simp_all add: same_card_def)
  have hp: "fpath h = path" "fpos h = 0" "files w path \<noteq> None" using fopen_rb_opened[of path w2 h w3] 3 h f by auto
  then obtain bytes where b: "files w path = Some bytes" by auto
  have sz: "st_size s = length bytes" using c_stat_size[of path w s w1 bytes] 1 st b by simp
  obtain k where "bs = take k bytes" using fread_prefix(1)[OF 4] hp b f by auto
  then have "bs = bytes" using r(2) sz by simp
  then show ?thesis using b r st(4) sz by simp
qed

lemma manifest_file_valid_same: "manifest_file_valid p d w = (ok, w') \<Longrightarrow> same_card w w'"
  using read_file_bounded_same[of "Some p" RECORDER_MANIFEST_MAX_BYTES w]
  by (auto simp: manifest_file_valid_def split: prod.splits option.splits)

lemma manifest_file_extends_same:
  assumes "manifest_file_extends a b d w = (ok, w')" shows "same_card w w'"
proof -
  obtain r w1 where 1: "read_file_bounded (Some a) RECORDER_MANIFEST_MAX_BYTES w = (r, w1)" by fastforce
  obtain r2 w2 where 2: "read_file_bounded (Some b) RECORDER_MANIFEST_MAX_BYTES w1 = (r2, w2)" by fastforce
  note s = read_file_bounded_same[OF 1] read_file_bounded_same[OF 2]
  have "w' = w1 \<or> w' = w2" using assms 1 2 by (auto simp: manifest_file_extends_def split: option.splits if_splits)
  then show ?thesis using s same_card_trans by blast
qed

text \<open>\<open>holds d p w es\<close>: the file holds a valid manifest with these entries, within the bound of the reader.\<close>

definition holds :: "string \<Rightarrow> string \<Rightarrow> io_world \<Rightarrow> manifest_entry list \<Rightarrow> bool" where
  "holds d p w es \<longleftrightarrow> (\<exists>doc. files w p = Some (bytes_of_string doc) \<and> lists d doc es \<and> length doc \<le> RECORDER_MANIFEST_MAX_BYTES)"

lemma bytes_of_string_inj [simp]: "bytes_of_string a = bytes_of_string b \<longleftrightarrow> a = b"
  by (metis string_of_bytes_of_string)

lemma holds_unique: "holds d p w es \<Longrightarrow> holds d p w es' \<Longrightarrow> es = es'"
  unfolding holds_def using lists_unique by fastforce

lemma manifest_file_valid_holds:
  assumes "manifest_file_valid p (Some d) w = (True, w')" "device_identity_is_valid_uuid (Some d)"
  shows "\<exists>es. holds d p w es"
proof -
  obtain r w1 where 1: "read_file_bounded (Some p) RECORDER_MANIFEST_MAX_BYTES w = (r, w1)" by fastforce
  then obtain buf where b: "r = Some buf" "manifest_snapshot_valid (Some buf) (Some d)"
    using assms(1) by (auto simp: manifest_file_valid_def split: option.splits)
  obtain es where "lists d buf es" using valid_lists[OF b(2) assms(2)] by blast
  then show ?thesis using read_file_bounded_some[of p _ w buf w1] 1 b(1) unfolding holds_def by blast
qed

lemma manifest_file_extends_holds:
  assumes "manifest_file_extends a b (Some d) w = (True, w')" "device_identity_is_valid_uuid (Some d)"
  shows "\<exists>es es0. holds d a w es \<and> holds d b w es0 \<and> prefix es0 es"
proof -
  obtain r w1 where 1: "read_file_bounded (Some a) RECORDER_MANIFEST_MAX_BYTES w = (r, w1)" by fastforce
  obtain r2 w2 where 2: "read_file_bounded (Some b) RECORDER_MANIFEST_MAX_BYTES w1 = (r2, w2)" by fastforce
  obtain x y where r: "r = Some x" "r2 = Some y" "manifest_snapshot_valid (Some x) (Some d)" "manifest_snapshot_valid (Some y) (Some d)"
    "snapshot_extends x y"
    using assms(1) 1 2 by (auto simp: manifest_file_extends_def simp del: read_file_bounded.simps manifest_snapshot_valid.simps
        split: option.splits if_splits)
  obtain es es0 where l: "lists d x es" "lists d y es0" using valid_lists[OF _ assms(2)] r(3,4) by blast
  have "files w1 = files w" using read_file_bounded_same[OF 1] by (simp add: same_card_def)
  then have "holds d a w es" "holds d b w es0"
    using read_file_bounded_some[of a _ w x w1] read_file_bounded_some[of b _ w1 y w2] 1 2 r l unfolding holds_def by auto
  then show ?thesis using snapshot_extends_lists[OF l] r(5) by blast
qed

section \<open>The invariant of the three files\<close>

definition store_paths :: "string \<Rightarrow> string \<Rightarrow> string \<Rightarrow> bool" where
  "store_paths M T B \<longleftrightarrow> M \<noteq> [] \<and> T \<noteq> [] \<and> manifest_backup_path (Some M) = Some B \<and> distinct [M, T, B]"

text \<open>
  The card says that \<open>es\<close> was committed: the manifest holds it and a backup, if there is one, holds the
  first entries of it; or there is only the backup, and it holds \<open>es\<close>; or there is neither file and
  nothing was committed. None of the two files has bytes that are not on the card yet.
\<close>

definition committed :: "string \<Rightarrow> string \<Rightarrow> string \<Rightarrow> io_world \<Rightarrow> manifest_entry list \<Rightarrow> bool" where
  "committed d M B w es \<longleftrightarrow> \<not> unsynced w M \<and> \<not> unsynced w B \<and> \<not> rename_replaces w \<and>
     (holds d M w es \<and> (files w B = None \<or> (\<exists>es0. holds d B w es0 \<and> prefix es0 es)) \<or>
      files w M = None \<and> holds d B w es \<or>
      files w M = None \<and> files w B = None \<and> es = [])"

text \<open>How an operation leaves the card: changed at most at the three paths, with the errors still honest.\<close>

definition store_step :: "string set \<Rightarrow> io_world \<Rightarrow> io_world \<Rightarrow> bool" where
  "store_step A w w' \<longleftrightarrow> (\<forall>p. p \<notin> A \<longrightarrow> files w' p = files w p \<and> unsynced w' p = unsynced w p) \<and>
     rename_replaces w' = rename_replaces w \<and> (honest w \<longrightarrow> honest w') \<and> (quiet w \<longrightarrow> quiet w') \<and> dirs w' = dirs w \<and> listing w' = listing w"

lemma store_stepI: "touches A w w' \<Longrightarrow> steady w w' \<Longrightarrow> store_step A w w'"
  using touches_quiet[of A w w'] by (auto simp: store_step_def touches_def steady_def)

lemma same_card_step: "same_card w w' \<Longrightarrow> store_step A w w'"
  by (simp add: same_card_def store_step_def)

lemma store_step_trans: "store_step A w w' \<Longrightarrow> store_step A w' w'' \<Longrightarrow> store_step A w w''"
  by (simp add: store_step_def)

lemma store_step_mono: "store_step A w w' \<Longrightarrow> A \<subseteq> A' \<Longrightarrow> store_step A' w w'"
  by (auto simp: store_step_def)

lemma holds_same: "files w' p = files w p \<Longrightarrow> holds d p w' es = holds d p w es"
  by (simp add: holds_def)

lemma holds_some: "holds d p w es \<Longrightarrow> files w p \<noteq> None"
  by (auto simp: holds_def)

lemma committed_cong: "same_card w w' \<Longrightarrow> committed d M B w' es = committed d M B w es"
  by (simp add: committed_def same_card_def holds_def)

lemma committed_away:
  assumes "store_step A w w'" "M \<notin> A" "B \<notin> A"
  shows "committed d M B w' es = committed d M B w es"
  using assms by (simp add: committed_def store_step_def holds_def)

lemma committed_manifest:
  assumes "committed d M B w es" "files w M \<noteq> None" shows "holds d M w es"
  using assms by (auto simp: committed_def)

lemma retire_backup_committed:
  assumes "retire_backup M B d w = (ok, w')" "committed d M B w es" "honest w" "M \<noteq> B" "device_identity_is_valid_uuid (Some d)"
  shows "committed d M B w' es" "store_step {B} w w'" "ok \<Longrightarrow> files w' B = None"
proof -
  obtain st w1 where 1: "c_stat B w = (st, w1)" by fastforce
  note s1 = c_stat_same[OF 1]
  have c1: "committed d M B w1 es" using assms(2) committed_cong[OF s1] by simp
  have all: "committed d M B w' es \<and> store_step {B} w w' \<and> (ok \<longrightarrow> files w' B = None)"
  proof (cases st)
    case None
    then have "w' = w1" "ok \<longrightarrow> errno_of w1 = ENOENT" using assms(1) 1 by (auto simp: retire_backup_def split: if_splits)
    then show ?thesis using c1 same_card_step[OF s1] c_stat_enoent[of B w w1] 1 None assms(3) s1
      by (auto simp: same_card_def)
  next
    case (Some s)
    obtain e w2 where 2: "manifest_file_extends M B (Some d) w1 = (e, w2)" by fastforce
    note s2 = same_card_trans[OF s1 manifest_file_extends_same[OF 2]]
    have c2: "committed d M B w2 es" using assms(2) committed_cong[OF s2] by simp
    show ?thesis
    proof (cases e)
      case False
      then show ?thesis using assms(1) 1 2 Some c2 same_card_step[OF s2] by (simp add: retire_backup_def)
    next
      case True
      have "manifest_file_extends M B (Some d) w1 = (True, w2)" using 2 True by simp
      then obtain es1 where "holds d M w1 es1" using manifest_file_extends_holds assms(5) by blast
      then have "files w2 M \<noteq> None" using holds_some manifest_file_extends_same[OF 2] by (auto simp: same_card_def)
      then have h: "holds d M w2 es" using committed_manifest[OF c2] by blast
      obtain r w3 where 3: "c_remove B w2 = (r, w3)" by fastforce
      have w': "ok = r" "w' = w3" using assms(1) 1 2 3 Some True by (simp_all add: retire_backup_def)
      have st: "store_step {B} w w3"
        using store_step_trans[OF same_card_step[OF s2] store_stepI[OF c_remove_touches[OF 3] c_remove_steady[OF 3]]] .
      have rr: "rename_replaces w3 = rename_replaces w2" using c_remove_touches[OF 3] by (simp add: touches_def)
      show ?thesis
      proof (cases rule: c_remove_cases[OF 3])
        case 1
        then show ?thesis using w' c2 st rr by (simp add: committed_def holds_def)
      next
        case 2
        then show ?thesis using w' c2 st rr h assms(4) by (simp add: committed_def holds_def)
      qed
    qed
  qed
  show "committed d M B w' es" "store_step {B} w w'" "ok \<Longrightarrow> files w' B = None" using all by auto
qed

text \<open>A temporary file that was written successfully is complete and on the card.\<close>

lemma write_tmp_result:
  assumes "write_tmp T doc w = (ok, w')"
  shows "store_step {T} w w'" "ok \<Longrightarrow> files w' T = Some (bytes_of_string doc) \<and> \<not> unsynced w' T"
proof -
  have all: "store_step {T} w w' \<and> (ok \<longrightarrow> files w' T = Some (bytes_of_string doc) \<and> \<not> unsynced w' T)"
  proof -
    obtain fp w1 where 1: "fopen WB T w = (fp, w1)" by fastforce
    have s1: "store_step {T} w w1" by (rule store_stepI[OF fopen_touches[OF 1] fopen_steady[OF 1]])
    show ?thesis
    proof (cases fp)
      case None
      then show ?thesis using assms 1 s1 by (simp add: write_tmp_def)
    next
      case (Some h)
      have h: "fpath h = T" "fpos h = 0" "files w1 T = Some []"
        using 1 Some by (auto simp: fopen_def split: prod.splits bool.splits)
      obtain n h1 w2 where 2: "fwrite h (bytes_of_string doc) w1 = (n, h1, w2)" using prod_cases3 by blast
      have h1: "fpath h1 = T" using fwrite_files(2)[OF 2] h by simp
      have s2: "store_step {T} w w2"
        using store_step_trans[OF s1 store_stepI[OF fwrite_touches[OF 2, unfolded h(1)] fwrite_steady[OF 2]]] .
      have d2: "files w2 T = Some (bytes_of_string doc)" if "n = length doc"
      proof -
        obtain k where "k \<le> length doc" "n = length doc \<longrightarrow> k = length doc"
          "files w2 T = Some (write_at 0 (take k (bytes_of_string doc)) [])"
          using fwrite_files(1)[OF 2] h by auto
        then show ?thesis using that by simp
      qed
      obtain fl w3 where 3: "(if n \<noteq> length doc then (False, w2) else fflush h1 w2) = (fl, w3)" by fastforce
      have c3: "same_card w2 w3" "fl \<Longrightarrow> n = length doc"
        using 3 same_cardI[OF fflush_touches fflush_steady, of h1 w2 fl w3] by (auto split: if_splits)
      have s3: "store_step {T} w w3" by (rule store_step_trans[OF s2 same_card_step[OF c3(1)]])
      have fin: "store_step {T} v w'" if "fclose hh v = (c, v1)" "c_remove T v1 = (r, w')" for hh v c v1 r
        using store_step_trans[OF same_card_step[OF fclose_same[OF that(1)]] store_stepI[OF c_remove_touches[OF that(2)] c_remove_steady[OF that(2)]]] .
      show ?thesis
      proof (cases fl)
        case False
        obtain c v1 where a: "fclose h1 w3 = (c, v1)" by fastforce
        obtain r v2 where b: "c_remove T v1 = (r, v2)" by fastforce
        have "w' = v2" "\<not> ok" using assms 1 2 3 a b Some False by (simp_all add: write_tmp_def)
        then show ?thesis using store_step_trans[OF s3 fin[of h1 w3 c v1 r]] a b by simp
      next
        case True
        then have d3: "files w3 T = Some (bytes_of_string doc)" using d2 c3 by (simp add: same_card_def)
        obtain fd w4 where 4: "fileno h1 w3 = (fd, w4)" by fastforce
        have s34: "same_card w3 w4" by (rule same_cardI[OF fileno_touches[OF 4] fileno_steady[OF 4]])
        have s4: "store_step {T} w w4" by (rule store_step_trans[OF s3 same_card_step[OF s34]])
        obtain sy w5 where 5: "(if \<not> fd then (False, w4) else fsync h1 w4) = (sy, w5)" by fastforce
        have s45: "store_step {T} w4 w5"
        proof (cases fd)
          case True
          then have "fsync h1 w4 = (sy, w5)" using 5 by simp
          then show ?thesis using store_stepI[OF fsync_touches fsync_steady, of h1 w4 sy w5] h1 by simp
        next
          case False
          then show ?thesis using 5 same_card_step by auto
        qed
        have s5: "store_step {T} w w5" by (rule store_step_trans[OF s4 s45])
        have d5: "files w5 T = Some (bytes_of_string doc) \<and> \<not> unsynced w5 T" if sy
        proof -
          have f: "fsync h1 w4 = (True, w5)" using 5 that by (auto split: if_splits)
          then show ?thesis using fsync_files[OF f] fsync_synced[OF f] d3 s34 h1 by (simp add: same_card_def)
        qed
        obtain c w6 where 6: "fclose h1 w5 = (c, w6)" by fastforce
        note s56 = fclose_same[OF 6]
        have s6: "store_step {T} w w6" by (rule store_step_trans[OF s5 same_card_step[OF s56]])
        obtain r w7 where 7: "c_remove T w6 = (r, w7)" by fastforce
        have s7: "store_step {T} w w7" by (rule store_step_trans[OF s6 store_stepI[OF c_remove_touches[OF 7] c_remove_steady[OF 7]]])
        have "w' = (if sy \<and> c then w6 else w7) \<and> ok = (sy \<and> c)"
          using assms 1 2 3 4 5 6 7 Some True by (auto simp: write_tmp_def split: if_splits)
        then show ?thesis using s6 s7 d5 s56 by (auto simp: same_card_def)
      qed
    qed
  qed
  show "store_step {T} w w'" "ok \<Longrightarrow> files w' T = Some (bytes_of_string doc) \<and> \<not> unsynced w' T" using all by auto
qed

lemma c_rename_step: "c_rename a b w = (ok, w') \<Longrightarrow> a \<in> A \<Longrightarrow> b \<in> A \<Longrightarrow> store_step A w w'"
  using store_step_mono[OF store_stepI[OF c_rename_touches[of a b w ok w'] c_rename_steady[of a b w ok w']], of A] by auto

lemma c_rename_replaces: "c_rename a b w = (ok, w') \<Longrightarrow> rename_replaces w' = rename_replaces w"
  using c_rename_touches[of a b w ok w'] by (simp add: touches_def)

lemma holds_moved: "holds d a w es \<Longrightarrow> files w' b = files w a \<Longrightarrow> holds d b w' es"
  by (simp add: holds_def)

text \<open>
  The exchange. Before it the temporary file is a complete manifest that continues the committed one, and
  there is no backup. Whatever happens, afterwards the old or the new entries are committed; success means
  the new ones are.
\<close>

lemma publish_tmp_committed:
  assumes "publish_tmp T M B d hf w = (ok, w')" "committed d M B w es" "distinct [M, T, B]" "files w B = None"
    "holds d T w es'" "\<not> unsynced w T" "prefix es es'"
  shows "store_step {M, T, B} w w'" "committed d M B w' es \<or> committed d M B w' es'"
    "ok \<Longrightarrow> committed d M B w' es' \<and> holds d M w' es'"
proof -
  let ?A = "{M, T, B}"
  have all: "store_step ?A w w' \<and> (committed d M B w' es \<or> committed d M B w' es') \<and>
    (ok \<longrightarrow> committed d M B w' es' \<and> holds d M w' es')"
  proof -
    have rr: "\<not> rename_replaces w" "\<not> unsynced w M" "\<not> unsynced w B" using assms(2) by (simp_all add: committed_def)
    have MB: "M \<noteq> B" "T \<noteq> M" "T \<noteq> B" using assms(3) by auto
    obtain r1 w1 where 1: "c_rename T M w = (r1, w1)" by fastforce
    have s1: "store_step ?A w w1" by (rule c_rename_step[OF 1]) simp_all
    have rr1: "\<not> rename_replaces w1" using c_rename_replaces[OF 1] rr by simp
    show ?thesis
    proof (cases rule: c_rename_cases[OF 1])
      case moved: (2 c)
      have "files w1 M = files w T" "files w1 B = None" "\<not> unsynced w1 M" "\<not> unsynced w1 B"
        using moved MB assms(4,6) rr by simp_all
      then have c1: "committed d M B w1 es' \<and> holds d M w1 es'"
        using rr1 holds_moved[OF assms(5), of w1 M] by (simp add: committed_def)
      obtain v w2 where 2: "manifest_file_valid M (Some d) w1 = (v, w2)" by fastforce
      note s2 = manifest_file_valid_same[OF 2]
      have "w' = w2" using assms(1) 1 2 moved(1) by (simp add: publish_tmp_def)
      then show ?thesis using store_step_trans[OF s1 same_card_step[OF s2]] c1 committed_cong[OF s2] s2
        by (simp add: same_card_def holds_def)
    next
      case failed: 1
      have c1: "committed d M B w1 es" "files w1 B = None" "files w1 T = files w T" "\<not> unsynced w1 T"
        using assms(2,4,6) failed c_rename_replaces[OF 1] by (simp_all add: committed_def holds_def)
      show ?thesis
      proof (cases "hf \<and> errno_of w1 = EEXIST")
        case False
        then have "w' = w1" "\<not> ok" using assms(1) 1 failed(1) by (auto simp: publish_tmp_def)
        then show ?thesis using s1 c1(1) by simp
      next
        case True
        obtain r2 w2 where 2: "c_rename M B w1 = (r2, w2)" by fastforce
        have s2: "store_step ?A w w2" by (rule store_step_trans[OF s1 c_rename_step[OF 2]]) simp_all
        have rr2: "\<not> rename_replaces w2" using c_rename_replaces[OF 2] rr1 by simp
        show ?thesis
        proof (cases rule: c_rename_cases[OF 2])
          case failed2: 1
          have "w' = w2" "\<not> ok" using assms(1) 1 2 failed(1) failed2(1) True by (simp_all add: publish_tmp_def)
          moreover have "committed d M B w2 es" using c1(1) failed2 c_rename_replaces[OF 2] by (simp add: committed_def holds_def)
          ultimately show ?thesis using s2 by simp
        next
          case moved2: (2 c)
          have hM: "holds d M w1 es" using committed_manifest[OF c1(1)] moved2(2) by simp
          have ns: "\<not> unsynced w1 M" "\<not> unsynced w1 B" using c1(1) by (simp_all add: committed_def)
          have f2: "files w2 M = None" "files w2 B = files w1 M" "files w2 T = files w T" "\<not> unsynced w2 T" "\<not> unsynced w2 M" "\<not> unsynced w2 B"
            using moved2 MB c1(3,4) ns by simp_all
          have hB: "holds d B w2 es" using holds_moved[OF hM f2(2)] .
          have c2: "committed d M B w2 es" using f2 hB rr2 by (simp add: committed_def)
          obtain r3 w3 where 3: "c_rename T M w2 = (r3, w3)" by fastforce
          have s3: "store_step ?A w w3" by (rule store_step_trans[OF s2 c_rename_step[OF 3]]) simp_all
          have rr3: "\<not> rename_replaces w3" using c_rename_replaces[OF 3] rr2 by simp
          show ?thesis
          proof (cases rule: c_rename_cases[OF 3])
            case moved3: (2 c')
            have f3: "files w3 M = files w2 T" "files w3 B = files w2 B" "\<not> unsynced w3 M" "\<not> unsynced w3 B"
              using moved3 MB f2 by simp_all
            have h3: "holds d M w3 es'" using assms(5) f3(1) f2(3) by (simp add: holds_def)
            have "holds d B w3 es" using hB f3(2) by (simp add: holds_def)
            then have c3: "committed d M B w3 es'" using h3 f3 rr3 assms(7) by (auto simp: committed_def)
            obtain e w4 where 4: "manifest_file_extends M B (Some d) w3 = (e, w4)" by fastforce
            note s4 = manifest_file_extends_same[OF 4]
            have "w' = w4" using assms(1) 1 2 3 4 failed(1) moved2(1) moved3(1) True by (simp add: publish_tmp_def)
            then show ?thesis using store_step_trans[OF s3 same_card_step[OF s4]] c3 h3 committed_cong[OF s4] s4
              by (simp add: same_card_def holds_def)
          next
            case failed3: 1
            have c3: "committed d M B w3 es" "files w3 M = None" "holds d B w3 es"
              using c2 f2 hB failed3 c_rename_replaces[OF 3] by (simp_all add: committed_def holds_def)
            obtain st w4 where 4: "c_stat M w3 = (st, w4)" by fastforce
            note s4 = c_stat_same[OF 4]
            have c4: "committed d M B w4 es" "files w4 M = None" "holds d B w4 es" "\<not> unsynced w4 B" "\<not> unsynced w4 M"
              using c3 committed_cong[OF s4] s4 by (simp_all add: same_card_def holds_def committed_def)
            have s14: "store_step ?A w w4" by (rule store_step_trans[OF s3 same_card_step[OF s4]])
            obtain r5 w5 where 5: "c_rename B M w4 = (r5, w5)" by fastforce
            have s5: "store_step ?A w w5" by (rule store_step_trans[OF s14 c_rename_step[OF 5]]) simp_all
            have c5: "committed d M B w5 es"
            proof (cases rule: c_rename_cases[OF 5])
              case 1
              then show ?thesis using c4 c_rename_replaces[OF 5] by (simp add: committed_def holds_def)
            next
              case (2 c5)
              then have "files w5 M = files w4 B" "files w5 B = None" "\<not> unsynced w5 M" "\<not> unsynced w5 B" using MB c4 by simp_all
              then show ?thesis using holds_moved[OF c4(3)] c_rename_replaces[OF 5] c4(1) by (simp add: committed_def)
            qed
            have "(w' = w4 \<or> w' = w5) \<and> \<not> ok"
              using assms(1) 1 2 3 4 5 failed(1) moved2(1) failed3(1) True
              by (auto simp: publish_tmp_def split: option.splits if_splits)
            then show ?thesis using s14 s5 c4(1) c5 by auto
          qed
        qed
      qed
    qed
  qed
  show "store_step {M, T, B} w w'" "committed d M B w' es \<or> committed d M B w' es'"
    "ok \<Longrightarrow> committed d M B w' es' \<and> holds d M w' es'" using all by auto
qed

lemma parse_device_id_uuid:
  assumes "device_identity_parse_device_id (Some doc) n = Some d" shows "device_identity_is_valid_uuid (Some d)"
  using assms by (auto simp: Let_def simp del: device_identity_is_valid_uuid.simps split: if_splits option.splits)

lemma write_tmp_and_rename_committed:
  assumes "write_tmp_and_rename T M doc w = (ok, w')" "committed d M B w es" "store_paths M T B" "honest w"
    "length doc \<le> RECORDER_MANIFEST_MAX_BYTES" "device_identity_parse_device_id (Some doc) (length doc) = Some d"
    "\<And>es'. lists d doc es' \<Longrightarrow> files w M \<noteq> None \<Longrightarrow> prefix es es'"
  shows "store_step {M, T, B} w w'"
    "committed d M B w' es \<or> (\<exists>es'. lists d doc es' \<and> prefix es es' \<and> committed d M B w' es')"
    "ok \<Longrightarrow> (files w M = None \<longrightarrow> es = []) \<and> (\<exists>es'. lists d doc es' \<and> prefix es es' \<and> committed d M B w' es' \<and> holds d M w' es')"
proof -
  let ?A = "{M, T, B}"
  let ?new = "\<lambda>v. \<exists>es'. lists d doc es' \<and> prefix es es' \<and> committed d M B v es'"
  have uuid: "device_identity_is_valid_uuid (Some d)" by (rule parse_device_id_uuid[OF assms(6)])
  have P: "manifest_backup_path (Some M) = Some B" "distinct [M, T, B]" "M \<noteq> B" using assms(3) by (auto simp: store_paths_def)
  have all: "store_step ?A w w' \<and> (committed d M B w' es \<or> ?new w') \<and>
    (ok \<longrightarrow> (files w M = None \<longrightarrow> es = []) \<and> (\<exists>es'. lists d doc es' \<and> prefix es es' \<and> committed d M B w' es' \<and> holds d M w' es'))"
  proof (cases "manifest_snapshot_valid (Some doc) (Some d)")
    case False
    then have "w' = w" "\<not> ok" using assms(1,6) by (simp_all add: write_tmp_and_rename_def
        del: manifest_snapshot_valid.simps device_identity_parse_device_id.simps)
    then show ?thesis using assms(2) same_card_step[OF same_card_refl] by simp
  next
    case True
    then obtain es' where l: "lists d doc es'" using valid_lists[OF _ uuid] by blast
    obtain r w1 where 1: "retire_backup M B d w = (r, w1)" by fastforce
    note c1 = retire_backup_committed[OF 1 assms(2,4) P(3) uuid]
    have s1: "store_step ?A w w1" by (rule store_step_mono[OF c1(2)]) simp
    obtain st w2 where 2: "c_stat M w1 = (st, w2)" by fastforce
    note s12 = c_stat_same[OF 2]
    have s2: "store_step ?A w w2" by (rule store_step_trans[OF s1 same_card_step[OF s12]])
    have c2: "committed d M B w2 es" using committed_cong[OF s12] c1(1) by simp
    obtain wr w3 where 3: "write_tmp T doc w2 = (wr, w3)" by fastforce
    note t3 = write_tmp_result[OF 3]
    have s3: "store_step ?A w w3" by (rule store_step_trans[OF s2 store_step_mono[OF t3(1)]]) simp
    have c3: "committed d M B w3 es" using committed_away[OF t3(1)] P(2) c2 by auto
    obtain r4 w4 where 4: "publish_tmp T M B d (st \<noteq> None) w3 = (r4, w4)" by fastforce
    have run: "(ok, w') = (if \<not> r then (False, w1) else if st = None \<and> errno_of w2 \<noteq> ENOENT then (False, w2)
        else if \<not> wr then (False, w3) else (r4, w4))"
      using assms(1,6) True P(1) 1 2 3 4 by (cases st) (simp_all add: write_tmp_and_rename_def
        del: manifest_snapshot_valid.simps device_identity_parse_device_id.simps manifest_backup_path.simps split: if_splits)
    show ?thesis
    proof (cases "r \<and> \<not> (st = None \<and> errno_of w2 \<noteq> ENOENT) \<and> wr")
      case False
      then have "(w' = w1 \<or> w' = w2 \<or> w' = w3) \<and> \<not> ok" using run by (auto split: if_splits)
      then show ?thesis using s1 s2 s3 c1(1) c2 c3 by auto
    next
      case ok: True
      then have w': "ok = r4" "w' = w4" using run by auto
      have f1: "files w1 B = None" "files w1 M = files w M" using c1(2,3) ok P(3) by (auto simp: store_step_def)
      have f3: "files w3 B = None" using f1(1) s12 t3(1) P(2) by (auto simp: same_card_def store_step_def)
      have h: "holds d T w3 es'" using t3(2) ok l assms(5) unfolding holds_def by blast
      have emp: "es = []" if "files w M = None" using c1(1) f1 that by (auto simp: committed_def holds_def)
      have pre: "prefix es es'" using emp assms(7)[OF l] by (cases "files w M = None") auto
      note p = publish_tmp_committed[OF 4 c3 P(2) f3 h _ pre]
      have "\<not> unsynced w3 T" using t3(2) ok by blast
      note p = p[OF this]
      have "store_step ?A w w4" by (rule store_step_trans[OF s3 p(1)])
      then show ?thesis using p(2,3) w' l pre emp by blast
    qed
  qed
  show "store_step {M, T, B} w w'" "committed d M B w' es \<or> ?new w'"
    "ok \<Longrightarrow> (files w M = None \<longrightarrow> es = []) \<and> (\<exists>es'. lists d doc es' \<and> prefix es es' \<and> committed d M B w' es' \<and> holds d M w' es')" using all by auto
qed

section \<open>An append keeps what was committed\<close>

lemma parse_device_document:
  assumes "device_identity_is_valid_uuid (Some d)"
  shows "device_identity_parse_device_id (Some (document_text d u b)) (length (document_text d u b)) = Some d"
    "device_identity_parse_schema_version (Some (document_text d u b)) (length (document_text d u b)) = Some RECORDER_METADATA_SCHEMA_VERSION"
proof -
  let ?r = "'',\"updatedAt\":\"'' @ u @ ''\",\"recordings\":['' @ b @ '']}''"
  have v: "dec_of_nat RECORDER_METADATA_SCHEMA_VERSION = ''1''" "RECORDER_METADATA_SCHEMA_VERSION = 1"
    by (simp_all add: RECORDER_METADATA_SCHEMA_VERSION_def dec_of_nat_1[simplified])
  have doc: "document_text d u b = ''{\"schemaVersion\":1,\"deviceId\":\"'' @ (d @ CHR 0x22 # ?r) @ []"
    by (simp add: document_text_def v(1))
  have len: "length (document_text d u b) = 31 + length (d @ CHR 0x22 # ?r)" by (simp add: doc)
  show "device_identity_parse_device_id (Some (document_text d u b)) (length (document_text d u b)) = Some d"
    unfolding len unfolding doc by (rule parse_canonical_device[OF assms])
  show "device_identity_parse_schema_version (Some (document_text d u b)) (length (document_text d u b)) = Some RECORDER_METADATA_SCHEMA_VERSION"
    unfolding len v(2) unfolding doc by (rule parse_canonical_schema)
qed

text \<open>Two records of the same recording, up to two seconds of reading skew in the time it started.\<close>

definition same_recording :: "manifest_entry \<Rightarrow> entry_key \<Rightarrow> bool" where
  "same_recording e k \<longleftrightarrow> me_id e = ek_id k \<and> me_sha e = ek_sha k \<and> me_filename e = ek_fn k \<and> me_size e = ek_size k \<and>
     me_duration e = ek_duration k \<and>
     (me_started e = ek_started k \<or> manifest_start_times_compatible (me_started e) (ek_started k))"

lemma same_recording_self: "same_recording e (key_of e)"
  by (simp add: same_recording_def key_of_def)

text \<open>What an append does to the committed entries, for any text that passes for an entry.\<close>

definition upsert_keeps :: "string \<Rightarrow> string \<Rightarrow> string \<Rightarrow> string \<Rightarrow> manifest_entry list \<Rightarrow> io_world \<Rightarrow> io_world \<Rightarrow> bool" where
  "upsert_keeps d M T B es w w' \<longleftrightarrow> store_step {M, T, B} w w' \<and> (\<exists>es'. prefix es es' \<and> committed d M B w' es')"

lemma upsert_keeps_same: "same_card w w' \<Longrightarrow> committed d M B w es \<Longrightarrow> upsert_keeps d M T B es w w'"
  unfolding upsert_keeps_def using same_card_step committed_cong by blast

lemma upsert_keeps_trans: "same_card w w1 \<Longrightarrow> upsert_keeps d M T B es w1 w' \<Longrightarrow> upsert_keeps d M T B es w w'"
  unfolding upsert_keeps_def using store_step_trans same_card_step by blast

lemma write_upsert_keeps:
  assumes "write_tmp_and_rename T M doc w = (ok, w')" "committed d M B w es" "store_paths M T B" "honest w"
    "length doc \<le> RECORDER_MANIFEST_MAX_BYTES" "device_identity_parse_device_id (Some doc) (length doc) = Some d"
    "\<And>es'. lists d doc es' \<Longrightarrow> files w M \<noteq> None \<Longrightarrow> prefix es es'"
  shows "upsert_keeps d M T B es w w'"
  using write_tmp_and_rename_committed[OF assms] assms(2) unfolding upsert_keeps_def by blast

lemma create_manifest_keeps:
  assumes "create_manifest M T d u ej w = (r, w')" "committed d M B w es" "store_paths M T B" "honest w"
    "device_identity_is_valid_uuid (Some d)"
  shows "upsert_keeps d M T B es w w' \<and>
    (r = DEVICE_MANIFEST_OK \<longrightarrow> (\<exists>es'. lists d (document_text d u ej) es' \<and> committed d M B w' es' \<and> holds d M w' es') \<and> es = []) \<and>
    r \<noteq> DEVICE_MANIFEST_CONFLICT"
proof -
  let ?doc = "document_text d u ej"
  obtain st w1 where 1: "c_stat M w = (st, w1)" by fastforce
  note s1 = c_stat_same[OF 1]
  have h1: "honest w1" using s1 assms(4) by (simp add: same_card_def)
  have c1: "committed d M B w1 es" using committed_cong[OF s1] assms(2) by simp
  show ?thesis
  proof (cases "st = None \<and> errno_of w1 = ENOENT \<and> length ?doc < RECORDER_MANIFEST_MAX_BYTES")
    case False
    then have "w' = w1" "r = DEVICE_MANIFEST_ERROR" using assms(1) 1 by (auto simp: create_manifest_def split: option.splits if_splits)
    then show ?thesis using upsert_keeps_same[OF s1 assms(2)] by simp
  next
    case True
    have none: "files w M = None" using c_stat_enoent[of M w w1] 1 True assms(4) by simp
    obtain m w2 where 2: "c_malloc w1 = (m, w2)" by fastforce
    note s2 = same_card_trans[OF s1 c_malloc_same[OF 2]]
    have c2: "committed d M B w2 es" "honest w2" using committed_cong[OF s2] assms(2,4) s2 by (simp_all add: same_card_def)
    obtain ok w3 where 3: "write_tmp_and_rename T M ?doc w2 = (ok, w3)" by fastforce
    have pre: "files w2 M \<noteq> None \<Longrightarrow> prefix es es'" for es' using none s2 by (simp add: same_card_def)
    have len: "length ?doc \<le> RECORDER_MANIFEST_MAX_BYTES" using True by simp
    note wr = write_tmp_and_rename_committed(3)[OF 3 c2(1) assms(3) c2(2) len parse_device_document(1)[OF assms(5)] pre]
    note k = write_upsert_keeps[OF 3 c2(1) assms(3) c2(2) len parse_device_document(1)[OF assms(5)] pre]
    show ?thesis
    proof (cases m)
      case False
      then have "w' = w2" "r = DEVICE_MANIFEST_ERROR" using assms(1) 1 2 True by (auto simp: create_manifest_def Let_def)
      then show ?thesis using upsert_keeps_same[OF s2 assms(2)] by simp
    next
      case m: True
      then have "w' = w3" "r = result_of ok" using assms(1) 1 2 3 True by (auto simp: create_manifest_def Let_def)
      then show ?thesis using upsert_keeps_trans[OF s2 k] wr none s2 by (auto simp: result_of_def same_card_def)
    qed
  qed
qed

lemma compare_committed_result:
  assumes "compare_committed doc hit k w = (r, w')" "hit_scope doc hit = tl (entry_core e) @ x" "entry_ok e" "me_id e = ek_id k"
  shows "same_card w w'" "r = DEVICE_MANIFEST_OK \<Longrightarrow> same_recording e k" "r = DEVICE_MANIFEST_CONFLICT \<Longrightarrow>
    \<not> (me_sha e = ek_sha k \<and> me_filename e = ek_fn k \<and> me_size e = ek_size k \<and> me_duration e = ek_duration k \<and>
       manifest_start_times_compatible (me_started e) (ek_started k))"
proof -
  obtain m w1 where 1: "c_malloc w = (m, w1)" by fastforce
  have w': "w' = w1" using assms(1) 1 by (auto simp: compare_committed_def split: option.splits if_splits)
  then show "same_card w w'" using c_malloc_same[OF 1] by simp
  show "r = DEVICE_MANIFEST_OK \<Longrightarrow> same_recording e k" "r = DEVICE_MANIFEST_CONFLICT \<Longrightarrow>
    \<not> (me_sha e = ek_sha k \<and> me_filename e = ek_fn k \<and> me_size e = ek_size k \<and> me_duration e = ek_duration k \<and>
       manifest_start_times_compatible (me_started e) (ek_started k))"
    using assms(1,4) 1 unfolding compare_committed_def assms(2) committed_same_entry[OF assms(3)]
    by (auto simp: same_recording_def split: if_splits)
qed

lemma admission_within: "n \<le> DEVICE_MANIFEST_ADMISSION_CEILING_BYTES \<Longrightarrow> n \<le> RECORDER_MANIFEST_MAX_BYTES"
  by (simp add: config_simps)

lemma append_entry_keeps:
  assumes "append_entry M T doc u ej w = (r, w')" "committed d M B w es" "store_paths M T B" "honest w"
    "lists d doc es" "length u = 25"
  shows "upsert_keeps d M T B es w w'" "r \<noteq> DEVICE_MANIFEST_CONFLICT"
    "r = DEVICE_MANIFEST_OK \<Longrightarrow> \<exists>es'. lists d (document_text d u (before_text es @ ej)) es' \<and> committed d M B w' es' \<and>
       holds d M w' es' \<and> prefix es es'"
proof -
  obtain u0 where a: "doc = document_text d u0 (body_text es)" "length u0 = 25" "list_all json_clean u0" "length d = 36" "list_all json_clean d"
    using assms(5) by (rule listsE)
  have uuid: "device_identity_is_valid_uuid (Some d)" using assms(5) unfolding lists_def by blast
  let ?new = "document_text d u (before_text es @ ej)"
  have sp: "splice_document doc u ej = (if length ?new \<le> DEVICE_MANIFEST_ADMISSION_CEILING_BYTES then Some ?new else None)"
    unfolding a(1) splice_document_doc[OF a(4,5,2,3) assms(6)] by (simp add: Let_def)
  have all: "upsert_keeps d M T B es w w' \<and> r \<noteq> DEVICE_MANIFEST_CONFLICT \<and> (r = DEVICE_MANIFEST_OK \<longrightarrow>
    (\<exists>es'. lists d ?new es' \<and> committed d M B w' es' \<and> holds d M w' es' \<and> prefix es es'))"
  proof (cases "length ?new \<le> DEVICE_MANIFEST_ADMISSION_CEILING_BYTES")
    case False
    then have "w' = w" "r = DEVICE_MANIFEST_ERROR" using assms(1) sp by (simp_all add: append_entry_def)
    then show ?thesis using upsert_keeps_same[OF same_card_refl assms(2)] by simp
  next
    case True
    then have sp': "splice_document doc u ej = Some ?new" using sp by simp
    obtain m w1 where 1: "c_malloc w = (m, w1)" by fastforce
    note s1 = c_malloc_same[OF 1]
    have c1: "committed d M B w1 es" "honest w1" using committed_cong[OF s1] assms(2,4) s1 by (simp_all add: same_card_def)
    obtain ok w2 where 2: "write_tmp_and_rename T M ?new w1 = (ok, w2)" by fastforce
    have pre: "prefix es es'" if "lists d ?new es'" for es' using splice_lists[OF assms(5) sp' that assms(6)] by blast
    note pd = parse_device_document(1)[OF uuid, of u "before_text es @ ej"]
    note wr = write_tmp_and_rename_committed(3)[OF 2 c1(1) assms(3) c1(2) admission_within[OF True] pd pre]
    note k = write_upsert_keeps[OF 2 c1(1) assms(3) c1(2) admission_within[OF True] pd pre]
    show ?thesis
    proof (cases m)
      case False
      then have "w' = w1" "r = DEVICE_MANIFEST_ERROR" using assms(1) sp' 1 by (simp_all add: append_entry_def)
      then show ?thesis using upsert_keeps_same[OF s1 assms(2)] by simp
    next
      case m: True
      then have "w' = w2" "r = result_of ok" using assms(1) sp' 1 2 by (simp_all add: append_entry_def)
      then show ?thesis using upsert_keeps_trans[OF s1 k] wr by (auto simp: result_of_def)
    qed
  qed
  show "upsert_keeps d M T B es w w'" "r \<noteq> DEVICE_MANIFEST_CONFLICT"
    "r = DEVICE_MANIFEST_OK \<Longrightarrow> \<exists>es'. lists d ?new es' \<and> committed d M B w' es' \<and> holds d M w' es' \<and> prefix es es'" using all by auto
qed

text \<open>The outcome of an append for a text with the key fields \<open>k\<close>.\<close>

definition upsert_outcome :: "string \<Rightarrow> string \<Rightarrow> string \<Rightarrow> string \<Rightarrow> string \<Rightarrow> entry_key \<Rightarrow> manifest_entry list \<Rightarrow> io_world \<Rightarrow>
    device_manifest_result_t \<Rightarrow> io_world \<Rightarrow> bool" where
  "upsert_outcome d M B u ej k es w r w' \<longleftrightarrow>
     (r = DEVICE_MANIFEST_OK \<longrightarrow>
        (\<exists>es'. committed d M B w' es' \<and> holds d M w' es' \<and>
          (es' = es \<and> same_card w w' \<and> (\<exists>e \<in> set es. same_recording e k) \<or>
           prefix es es' \<and> lists d (document_text d u (before_text es @ ej)) es'))) \<and>
     (r = DEVICE_MANIFEST_CONFLICT \<longrightarrow>
        same_card w w' \<and> (\<exists>e \<in> set es. me_id e = ek_id k \<and>
          \<not> (me_sha e = ek_sha k \<and> me_filename e = ek_fn k \<and> me_size e = ek_size k \<and> me_duration e = ek_duration k \<and>
             manifest_start_times_compatible (me_started e) (ek_started k))))"

lemma update_manifest_keeps:
  assumes "update_manifest M T d u ej doc k w = (r, w')" "committed d M B w es" "store_paths M T B" "honest w"
    "files w M = Some (bytes_of_string doc)" "length doc \<le> RECORDER_MANIFEST_MAX_BYTES" "length u = 25"
    "device_identity_is_valid_uuid (Some d)" "device_identity_is_valid_uuid (Some (ek_id k))"
  shows "upsert_keeps d M T B es w w' \<and> upsert_outcome d M B u ej k es w r w'"
proof (cases "manifest_snapshot_valid (Some doc) (Some d)")
  case False
  then have "w' = w" "r = DEVICE_MANIFEST_ERROR" using assms(1) by (simp_all add: update_manifest_def del: manifest_snapshot_valid.simps)
  then show ?thesis using upsert_keeps_same[OF same_card_refl assms(2)] by (simp add: upsert_outcome_def)
next
  case True
  obtain es1 where l1: "lists d doc es1" using valid_lists[OF True assms(8)] by blast
  have h: "holds d M w es" by (rule committed_manifest[OF assms(2)]) (simp add: assms(5))
  then have l: "lists d doc es" using assms(5) by (auto simp: holds_def)
  obtain u0 where a: "doc = document_text d u0 (body_text es)" "length u0 = 25" "list_all json_clean u0" "length d = 36" "list_all json_clean d"
    "list_all entry_ok es" "distinct (map me_id es)" using l by (rule listsE)
  have ok: "entries_ok es" using a(6,7) by (simp add: entries_ok_def)
  have cl: "list_all json_clean (ek_id k)" "length (ek_id k) = 36" using uuid_clean[OF assms(9)] assms(9) by simp_all
  have nd: "snprintf_fits 96 (id_needle (ek_id k)) = Some (id_needle (ek_id k))" using cl(2) by (simp add: snprintf_fits_def id_needle_def)
  have run: "update_manifest M T d u ej doc k w = (case memfind (id_needle (ek_id k)) doc of
      Some hit \<Rightarrow> compare_committed doc hit k w | None \<Rightarrow> append_entry M T doc u ej w)"
    unfolding update_manifest_def using True parse_device_document[OF assms(8), of u0 "body_text es"] nd
    by (simp add: a(1)[symmetric] del: manifest_snapshot_valid.simps device_identity_parse_device_id.simps device_identity_parse_schema_version.simps)
  show ?thesis
  proof (cases "ek_id k \<in> set (map me_id es)")
    case False
    then have "memfind (id_needle (ek_id k)) doc = None" unfolding a(1) by (rule find_absent[OF a(4,5,2,3,6) cl(1)])
    then have ap: "append_entry M T doc u ej w = (r, w')" using assms(1) run by simp
    note k = append_entry_keeps[OF ap assms(2-4) l assms(7)]
    show ?thesis unfolding upsert_outcome_def using k by blast
  next
    case True
    then obtain e where e: "e \<in> set es" "me_id e = ek_id k" by auto
    obtain hit x where hx: "memfind (id_needle (ek_id k)) doc = Some hit" "hit_scope doc hit = tl (entry_core e) @ x"
      using find_present[OF a(4,5,2,3) ok e(1)] unfolding a(1) e(2) by blast
    have cc: "compare_committed doc hit k w = (r, w')" using assms(1) run hx(1) by simp
    have eo: "entry_ok e" using a(6) e(1) by (simp add: list_all_iff)
    note c = compare_committed_result[OF cc hx(2) eo e(2)]
    have "committed d M B w' es" "holds d M w' es" using committed_cong[OF c(1)] assms(2) h c(1) by (simp_all add: same_card_def holds_def)
    then show ?thesis unfolding upsert_outcome_def using upsert_keeps_same[OF c(1) assms(2)] c e by blast
  qed
qed

lemma entry_key_of_json_uuid: "entry_key_of_json ej = Some k \<Longrightarrow> device_identity_is_valid_uuid (Some (ek_id k))"
  by (auto simp: entry_key_of_json_def bind_eq_Some_conv simp del: device_identity_is_valid_uuid.simps)

lemma upsert_file_keeps:
  assumes "device_manifest_upsert_file (Some M) (Some T) (Some d) (Some u) (Some ej) w = (r, w')"
    "committed d M B w es" "store_paths M T B" "honest w"
  shows "upsert_keeps d M T B es w w'"
    "entry_key_of_json ej = Some k \<Longrightarrow> upsert_outcome d M B u ej k es w r w'"
    "r \<noteq> DEVICE_MANIFEST_ERROR \<Longrightarrow> device_identity_is_valid_uuid (Some d) \<and> device_manifest_is_valid_iso8601_offset (Some u)"
proof -
  have all: "upsert_keeps d M T B es w w' \<and> (entry_key_of_json ej = Some k \<longrightarrow> upsert_outcome d M B u ej k es w r w') \<and>
    (r \<noteq> DEVICE_MANIFEST_ERROR \<longrightarrow> device_identity_is_valid_uuid (Some d) \<and> device_manifest_is_valid_iso8601_offset (Some u))"
  proof (cases "M = [] \<or> T = [] \<or> \<not> device_identity_is_valid_uuid (Some d) \<or> \<not> device_manifest_is_valid_iso8601_offset (Some u) \<or>
      ej = [] \<or> length ej > RECORDER_MANIFEST_ENTRY_MAX \<or> entry_key_of_json ej = None")
    case True
    then have "w' = w" "r = DEVICE_MANIFEST_ERROR" using assms(1)
      by (auto simp del: device_identity_is_valid_uuid.simps device_manifest_is_valid_iso8601_offset.simps read_file_bounded.simps split: if_splits)
    then show ?thesis using upsert_keeps_same[OF same_card_refl assms(2)] by (simp add: upsert_outcome_def)
  next
    case False
    then have c: "M \<noteq> []" "T \<noteq> []" "device_identity_is_valid_uuid (Some d)" "device_manifest_is_valid_iso8601_offset (Some u)"
      "ej \<noteq> []" "\<not> length ej > RECORDER_MANIFEST_ENTRY_MAX" by blast+
    obtain k' where k': "entry_key_of_json ej = Some k'" using False by blast
    obtain rd w1 where 1: "read_file_bounded (Some M) RECORDER_MANIFEST_MAX_BYTES w = (rd, w1)" by fastforce
    note s1 = read_file_bounded_same[OF 1]
    have c1: "committed d M B w1 es" "honest w1" using committed_cong[OF s1] assms(2,4) s1 by (simp_all add: same_card_def)
    have len: "length u = 25" by (rule iso_clean[OF c(4)])
    have run: "device_manifest_upsert_file (Some M) (Some T) (Some d) (Some u) (Some ej) w =
        (case rd of None \<Rightarrow> create_manifest M T d u ej w1 | Some doc \<Rightarrow> update_manifest M T d u ej doc k' w1)"
      using c k' 1 by (cases rd) (simp_all del: device_identity_is_valid_uuid.simps device_manifest_is_valid_iso8601_offset.simps read_file_bounded.simps)
    show ?thesis
    proof (cases rd)
      case None
      then have cm: "create_manifest M T d u ej w1 = (r, w')" using assms(1) run by simp
      note k = create_manifest_keeps[OF cm c1(1) assms(3) c1(2) c(3)]
      have "upsert_outcome d M B u ej k es w r w'"
      proof (cases "r = DEVICE_MANIFEST_OK")
        case True
        then obtain es' where e: "lists d (document_text d u ej) es'" "committed d M B w' es'" "holds d M w' es'" "es = []"
          using k by blast
        then show ?thesis using e True unfolding upsert_outcome_def by (auto simp: before_text_def)
      next
        case False
        then show ?thesis using k by (simp add: upsert_outcome_def)
      qed
      then show ?thesis using upsert_keeps_trans[OF s1] k c by blast
    next
      case (Some doc)
      then have um: "update_manifest M T d u ej doc k' w1 = (r, w')" using assms(1) run by simp
      have f: "files w1 M = Some (bytes_of_string doc)" "length doc \<le> RECORDER_MANIFEST_MAX_BYTES"
        using read_file_bounded_some[of M _ w doc w1] 1 Some s1 by (simp_all add: same_card_def)
      note k = update_manifest_keeps[OF um c1(1) assms(3) c1(2) f len c(3) entry_key_of_json_uuid[OF k']]
      have "upsert_outcome d M B u ej k' es w r w'" using k same_card_trans[OF s1] unfolding upsert_outcome_def by blast
      then show ?thesis using upsert_keeps_trans[OF s1] k c k'
        by (auto simp del: device_identity_is_valid_uuid.simps device_manifest_is_valid_iso8601_offset.simps)
    qed
  qed
  then show "upsert_keeps d M T B es w w'" "entry_key_of_json ej = Some k \<Longrightarrow> upsert_outcome d M B u ej k es w r w'"
    "r \<noteq> DEVICE_MANIFEST_ERROR \<Longrightarrow> device_identity_is_valid_uuid (Some d) \<and> device_manifest_is_valid_iso8601_offset (Some u)" by blast+
qed

section \<open>Recovery at boot\<close>

lemma manifest_artifact_exists_result:
  assumes "manifest_artifact_exists p w = (r, w')" "honest w"
  shows "same_card w w'" "r = Some False \<Longrightarrow> files w p = None"
proof -
  obtain st w1 where 1: "c_stat p w = (st, w1)" by fastforce
  have w': "w' = w1" using assms(1) 1 by (auto simp: manifest_artifact_exists_def split: option.splits)
  show "same_card w w'" using c_stat_same[OF 1] w' by simp
  show "r = Some False \<Longrightarrow> files w p = None"
    using assms 1 c_stat_enoent[of p w w1] by (auto simp: manifest_artifact_exists_def split: option.splits if_splits)
qed

lemma recover_backup_committed:
  assumes "recover_backup M B (Some d) fe w = (r, w')" "committed d M B w es" "distinct [M, T, B]" "honest w"
    "device_identity_is_valid_uuid (Some d)" "fe \<or> files w M = None"
  shows "committed d M B w' es" "store_step {M, B} w w'" "r = Some b \<Longrightarrow> b \<and> holds d M w' es \<and> files w' B = None"
proof -
  have MB: "M \<noteq> B" using assms(3) by auto
  have all: "committed d M B w' es \<and> store_step {M, B} w w' \<and> (r = Some b \<longrightarrow> b \<and> holds d M w' es \<and> files w' B = None)"
  proof -
    obtain v w1 where 1: "manifest_file_valid B (Some d) w = (v, w1)" by fastforce
    note s1 = manifest_file_valid_same[OF 1]
    have c1: "committed d M B w1 es" using committed_cong[OF s1] assms(2) by simp
    have ns: "\<not> unsynced w1 M" "\<not> unsynced w1 B" using c1 by (simp_all add: committed_def)
    show ?thesis
    proof (cases v)
      case False
      then show ?thesis using assms(1) 1 c1 same_card_step[OF s1] by (simp add: recover_backup_def)
    next
      case True
      then obtain es0 where "holds d B w es0" using manifest_file_valid_holds[of B d w w1] 1 assms(5) by auto
      then have hB: "holds d B w1 es0" using s1 by (simp add: same_card_def holds_def)
      show ?thesis
      proof (cases fe)
        case False
        then have none: "files w1 M = None" using assms(6) s1 by (simp add: same_card_def)
        have hB': "holds d B w1 es" using c1 none hB by (auto simp: committed_def holds_def)
        obtain r2 w2 where 2: "c_rename B M w1 = (r2, w2)" by fastforce
        have st: "store_step {M, B} w w2" by (rule store_step_trans[OF same_card_step[OF s1] c_rename_step[OF 2]]) simp_all
        have w': "w' = w2" "r = (if r2 then Some True else None)" using assms(1) 1 2 True False by (auto simp: recover_backup_def split: if_splits)
        show ?thesis
        proof (cases rule: c_rename_cases[OF 2])
          case 1
          then show ?thesis using w' c1 st c_rename_replaces[OF 2] by (simp add: committed_def holds_def)
        next
          case (2 c)
          then have "files w2 M = files w1 B" "files w2 B = None" "\<not> unsynced w2 M" "\<not> unsynced w2 B" using MB ns by simp_all
          then show ?thesis using w' st holds_moved[OF hB'] c_rename_replaces[OF \<open>c_rename B M w1 = (r2, w2)\<close>] c1 2(1)
            by (auto simp: committed_def)
        qed
      next
        case fe: True
        obtain e w2 where 2: "manifest_file_extends M B (Some d) w1 = (e, w2)" by fastforce
        note s2 = same_card_trans[OF s1 manifest_file_extends_same[OF 2]]
        have c2: "committed d M B w2 es" using committed_cong[OF s2] assms(2) by simp
        show ?thesis
        proof (cases e)
          case False
          then show ?thesis using assms(1) 1 2 True fe c2 same_card_step[OF s2] by (simp add: recover_backup_def)
        next
          case e: True
          have "manifest_file_extends M B (Some d) w1 = (True, w2)" using 2 e by simp
          then obtain es1 where "holds d M w1 es1" using manifest_file_extends_holds assms(5) by blast
          then have "files w2 M \<noteq> None" using holds_some manifest_file_extends_same[OF 2] by (auto simp: same_card_def)
          then have h: "holds d M w2 es" using committed_manifest[OF c2] by blast
          obtain r3 w3 where 3: "c_remove B w2 = (r3, w3)" by fastforce
          have w': "w' = w3" "r = (if r3 then Some True else None)" using assms(1) 1 2 3 True fe e by (auto simp: recover_backup_def split: if_splits)
          have s23: "store_step {B} w2 w3" by (rule store_stepI[OF c_remove_touches[OF 3] c_remove_steady[OF 3]])
          have "store_step {M, B} w2 w3" by (rule store_step_mono[OF s23]) simp
          then have st: "store_step {M, B} w w3" by (rule store_step_trans[OF same_card_step[OF s2]])
          have rr: "rename_replaces w3 = rename_replaces w2" using s23 by (simp add: store_step_def)
          show ?thesis
          proof (cases rule: c_remove_cases[OF 3])
            case 1
            then show ?thesis using w' c2 st rr by (simp add: committed_def holds_def)
          next
            case 2
            then show ?thesis using w' c2 st rr h MB by (auto simp: committed_def holds_def)
          qed
        qed
      qed
    qed
  qed
  show "committed d M B w' es" "store_step {M, B} w w'" "r = Some b \<Longrightarrow> b \<and> holds d M w' es \<and> files w' B = None" using all by auto
qed

text \<open>After the backup is settled: with a manifest, and nothing but the temporary file is removed; without one, a complete temporary file becomes the first manifest.\<close>

lemma recover_final_committed:
  assumes "recover_final M T (Some d) fe te w = (r, w')" "committed d M B w es" "distinct [M, T, B]" "\<not> unsynced w T"
    "device_identity_is_valid_uuid (Some d)" "files w B = None" "fe \<or> files w M = None"
  shows "store_step {M, T} w w'" "\<exists>es'. prefix es es' \<and> committed d M B w' es' \<and> (r \<longrightarrow> holds d M w' es')"
proof -
  have D: "T \<noteq> M" "T \<noteq> B" "M \<noteq> B" using assms(3) by auto
  have all: "store_step {M, T} w w' \<and> (\<exists>es'. prefix es es' \<and> committed d M B w' es' \<and> (r \<longrightarrow> holds d M w' es'))"
  proof (cases fe)
    case True
    obtain v w1 where 1: "manifest_file_valid M (Some d) w = (v, w1)" by fastforce
    note s1 = manifest_file_valid_same[OF 1]
    have c1: "committed d M B w1 es" using committed_cong[OF s1] assms(2) by simp
    have h1: "holds d M w1 es" if v
    proof -
      have "manifest_file_valid M (Some d) w = (True, w1)" using 1 that by simp
      then obtain es1 where "holds d M w es1" using manifest_file_valid_holds assms(5) by blast
      then have "files w1 M \<noteq> None" using holds_some s1 by (auto simp: same_card_def)
      then show ?thesis using committed_manifest[OF c1] by blast
    qed
    obtain r2 w2 where 2: "c_remove T w1 = (r2, w2)" by fastforce
    have s12: "store_step {T} w1 w2" by (rule store_stepI[OF c_remove_touches[OF 2] c_remove_steady[OF 2]])
    have s2: "store_step {M, T} w w2"
      using store_step_trans[OF same_card_step[OF s1] store_step_mono[OF s12]] by simp
    have c2: "committed d M B w2 es" using committed_away[OF s12] D c1 by simp
    have h2: "holds d M w2 es" if v using h1[OF that] s12 D by (simp add: store_step_def holds_def)
    have "w' = (if v \<and> te then w2 else w1) \<and> r = (v \<and> (te \<longrightarrow> r2))" using assms(1) True 1 2 by (auto simp: recover_final_def split: if_splits)
    then show ?thesis using same_card_step[OF s1] s2 c1 c2 h1 h2 by (auto split: if_splits)
  next
    case False
    then have none: "files w M = None" using assms(7) by simp
    then have es: "es = []" using assms(2,6) by (auto simp: committed_def holds_def)
    show ?thesis
    proof (cases te)
      case False
      then show ?thesis using assms(1,2) \<open>\<not> fe\<close> same_card_step[OF same_card_refl] by (auto simp: recover_final_def)
    next
      case te: True
      obtain v w1 where 1: "manifest_file_valid T (Some d) w = (v, w1)" by fastforce
      note s1 = manifest_file_valid_same[OF 1]
      have c1: "committed d M B w1 es" using committed_cong[OF s1] assms(2) by simp
      show ?thesis
      proof (cases v)
        case False
        then show ?thesis using assms(1) 1 \<open>\<not> fe\<close> te same_card_step[OF s1] c1 by (auto simp: recover_final_def)
      next
        case v: True
        then have "manifest_file_valid T (Some d) w = (True, w1)" using 1 by simp
        then obtain es' where "holds d T w es'" using manifest_file_valid_holds assms(5) by blast
        then have h1: "holds d T w1 es'" "\<not> unsynced w1 T" "files w1 B = None" "files w1 M = None"
          using s1 assms(4,6) none by (simp_all add: same_card_def holds_def)
        have ns: "\<not> unsynced w1 M" "\<not> unsynced w1 B" "\<not> rename_replaces w1" using c1 by (simp_all add: committed_def)
        obtain r2 w2 where 2: "c_rename T M w1 = (r2, w2)" by fastforce
        have s2: "store_step {M, T} w w2" by (rule store_step_trans[OF same_card_step[OF s1] c_rename_step[OF 2]]) simp_all
        obtain v3 w3 where 3: "manifest_file_valid M (Some d) w2 = (v3, w3)" by fastforce
        note s3 = manifest_file_valid_same[OF 3]
        have run: "w' = (if r2 then w3 else w2) \<and> r = (r2 \<and> v3)" using assms(1) 1 2 3 \<open>\<not> fe\<close> te v by (auto simp: recover_final_def split: if_splits)
        show ?thesis
        proof (cases rule: c_rename_cases[OF 2])
          case 1
          then show ?thesis using run c1 s2 c_rename_replaces[OF 2] by (auto simp: committed_def holds_def)
        next
          case moved: (2 c)
          have "files w2 M = files w1 T" "files w2 B = None" "\<not> unsynced w2 M" "\<not> unsynced w2 B" using moved D h1 ns by simp_all
          then have c2: "committed d M B w2 es'" "holds d M w2 es'"
            using holds_moved[OF h1(1)] c_rename_replaces[OF 2] ns(3) by (simp_all add: committed_def)
          have "committed d M B w3 es'" "holds d M w3 es'" using committed_cong[OF s3] s3 c2 by (simp_all add: same_card_def holds_def)
          moreover have "store_step {M, T} w w3" by (rule store_step_trans[OF s2 same_card_step[OF s3]])
          ultimately show ?thesis using run moved(1) es by auto
        qed
      qed
    qed
  qed
  show "store_step {M, T} w w'" "\<exists>es'. prefix es es' \<and> committed d M B w' es' \<and> (r \<longrightarrow> holds d M w' es')" using all by auto
qed

lemma recover_tmp_committed:
  assumes "device_manifest_recover_tmp (Some M) (Some T) (Some d) w = (r, w')" "committed d M B w es" "store_paths M T B"
    "honest w" "\<not> unsynced w T"
  shows "store_step {M, T, B} w w'" "\<exists>es'. prefix es es' \<and> committed d M B w' es' \<and> (r \<longrightarrow> holds d M w' es')"
proof -
  let ?A = "{M, T, B}"
  have P: "manifest_backup_path (Some M) = Some B" "distinct [M, T, B]" "M \<noteq> B" "T \<noteq> M" "T \<noteq> B" using assms(3) by (auto simp: store_paths_def)
  obtain fe w1 where 1: "manifest_artifact_exists M w = (fe, w1)" by fastforce
  note a1 = manifest_artifact_exists_result[OF 1 assms(4)]
  have h1: "honest w1" using a1(1) assms(4) by (simp add: same_card_def)
  obtain te w2 where 2: "manifest_artifact_exists T w1 = (te, w2)" by fastforce
  note a2 = manifest_artifact_exists_result[OF 2 h1]
  note s2 = same_card_trans[OF a1(1) a2(1)]
  have h2: "honest w2" using s2 assms(4) by (simp add: same_card_def)
  obtain be w3 where 3: "manifest_artifact_exists B w2 = (be, w3)" by fastforce
  note a3 = manifest_artifact_exists_result[OF 3 h2]
  note s3 = same_card_trans[OF s2 a3(1)]
  have c: "committed d M B w1 es" "committed d M B w2 es" "committed d M B w3 es"
    using committed_cong[OF a1(1)] committed_cong[OF s2] committed_cong[OF s3] assms(2) by simp_all
  have h3: "honest w3" "\<not> unsynced w3 T" using s3 assms(4,5) by (simp_all add: same_card_def)
  have all: "store_step ?A w w' \<and> (\<exists>es'. prefix es es' \<and> committed d M B w' es' \<and> (r \<longrightarrow> holds d M w' es'))"
  proof (cases "device_identity_is_valid_uuid (Some d) \<and> fe \<noteq> None \<and> te \<noteq> None \<and> be \<noteq> None")
    case False
    then have "(w' = w \<or> w' = w1 \<or> w' = w2 \<or> w' = w3) \<and> \<not> r" using assms(1) P(1) 1 2 3
      by (auto simp del: device_identity_is_valid_uuid.simps manifest_backup_path.simps split: if_splits option.splits)
    then show ?thesis using same_card_step[OF same_card_refl] same_card_step[OF a1(1)] same_card_step[OF s2] same_card_step[OF s3] c assms(2)
      by (auto intro!: exI[of _ es])
  next
    case True
    then obtain f t b where s: "fe = Some f" "te = Some t" "be = Some b" "device_identity_is_valid_uuid (Some d)" by auto
    have fn: "f \<or> files w3 M = None" using a1(2) s(1) s3 by (cases f) (simp_all add: same_card_def)
    have bn: "b \<or> files w3 B = None" using a3(2) s(3) a3(1) by (cases b) (simp_all add: same_card_def)
    obtain f' w4 where 4: "(if b then recover_backup M B (Some d) f w3 else (Some f, w3)) = (f', w4)" by fastforce
    have run: "device_manifest_recover_tmp (Some M) (Some T) (Some d) w =
        (case f' of None \<Rightarrow> (False, w4) | Some f' \<Rightarrow> recover_final M T (Some d) f' t w4)"
      using P(1) 1 2 3 4 s by (simp del: device_identity_is_valid_uuid.simps manifest_backup_path.simps)
    have r4: "committed d M B w4 es \<and> store_step {M, B} w3 w4 \<and> (\<forall>x. f' = Some x \<longrightarrow> files w4 B = None \<and> (x \<or> files w4 M = None))"
    proof (cases b)
      case True
      then have rb: "recover_backup M B (Some d) f w3 = (f', w4)" using 4 by simp
      note k = recover_backup_committed[OF rb c(3) P(2) h3(1) s(4) fn]
      show ?thesis using k by blast
    next
      case False
      then show ?thesis using 4 c(3) bn fn same_card_step[OF same_card_refl] by auto
    qed
    have s4: "store_step ?A w w4" using store_step_trans[OF same_card_step[OF s3] store_step_mono[of "{M, B}" w3 w4 ?A]] r4 by auto
    show ?thesis
    proof (cases f')
      case None
      then show ?thesis using assms(1) run r4 s4 by (auto intro!: exI[of _ es])
    next
      case (Some x)
      then have rf: "recover_final M T (Some d) x t w4 = (r, w')" using assms(1) run by simp
      have nu: "\<not> unsynced w4 T" using r4 h3(2) P by (auto simp: store_step_def)
      have x: "files w4 B = None" "x \<or> files w4 M = None" using r4 Some by auto
      note k = recover_final_committed[OF rf conjunct1[OF r4] P(2) nu s(4) x]
      have "store_step ?A w w'" using store_step_trans[OF s4 store_step_mono[OF k(1)]] by simp
      then show ?thesis using k(2) by blast
    qed
  qed
  show "store_step ?A w w'" "\<exists>es'. prefix es es' \<and> committed d M B w' es' \<and> (r \<longrightarrow> holds d M w' es')" using all by auto
qed

text \<open>Without faults recovery succeeds on every card that the invariant allows and that holds a manifest.\<close>

lemma read_file_bounded_quiet:
  assumes "quiet w" "files w p = Some (bytes_of_string doc)" "length doc \<le> n" "p \<noteq> []" "n \<noteq> 0"
  shows "read_file_bounded (Some p) n w = (Some doc, w)"
  using assms by (simp add: c_stat_quiet st_size_def c_malloc_def fopen_def fread_def fclose_def)

lemma manifest_max_pos [simp]: "RECORDER_MANIFEST_MAX_BYTES \<noteq> 0"
  by (simp add: config_simps)

lemma manifest_file_valid_quiet:
  assumes "quiet w" "holds d p w es" "p \<noteq> []"
  shows "manifest_file_valid p (Some d) w = (True, w)"
proof -
  obtain doc where doc: "files w p = Some (bytes_of_string doc)" "lists d doc es" "length doc \<le> RECORDER_MANIFEST_MAX_BYTES"
    using assms(2) by (auto simp: holds_def)
  show ?thesis unfolding manifest_file_valid_def read_file_bounded_quiet[OF assms(1) doc(1,3) assms(3) manifest_max_pos]
    using lists_valid[OF doc(2)] by (simp del: manifest_snapshot_valid.simps)
qed

lemma manifest_file_extends_quiet:
  assumes "quiet w" "holds d a w es" "holds d b w es0" "a \<noteq> []" "b \<noteq> []"
  shows "manifest_file_extends a b (Some d) w = (prefix es0 es, w)"
proof -
  obtain x where x: "files w a = Some (bytes_of_string x)" "lists d x es" "length x \<le> RECORDER_MANIFEST_MAX_BYTES"
    using assms(2) by (auto simp: holds_def)
  obtain y where y: "files w b = Some (bytes_of_string y)" "lists d y es0" "length y \<le> RECORDER_MANIFEST_MAX_BYTES"
    using assms(3) by (auto simp: holds_def)
  show ?thesis unfolding manifest_file_extends_def
    using read_file_bounded_quiet[OF assms(1) x(1,3) assms(4) manifest_max_pos]
      read_file_bounded_quiet[OF assms(1) y(1,3) assms(5) manifest_max_pos]
      lists_valid[OF x(2)] lists_valid[OF y(2)] snapshot_extends_lists[OF x(2) y(2)]
    by (simp del: manifest_snapshot_valid.simps read_file_bounded.simps)
qed

lemma artifact_quiet:
  assumes "quiet w" "\<not> dirs w p"
  shows "\<exists>e. manifest_artifact_exists p w = (Some (files w p \<noteq> None), w\<lparr>errno_of := e\<rparr>)"
proof (cases "files w p")
  case None
  then show ?thesis using assms by (intro exI[of _ ENOENT]) (simp add: manifest_artifact_exists_def c_stat_quiet)
next
  case (Some c)
  then show ?thesis using assms by (intro exI[of _ "errno_of w"]) (simp add: manifest_artifact_exists_def c_stat_quiet)
qed

lemma holds_errno [simp]: "holds d p (w\<lparr>errno_of := e\<rparr>) es = holds d p w es"
  by (simp add: holds_def)

lemma c_remove_quiet: "quiet w \<Longrightarrow> files w p \<noteq> None \<Longrightarrow> c_remove p w = (True, set_file p None False w)"
  by (auto simp: c_remove_def)

lemma recover_backup_quiet:
  assumes "quiet w" "holds d B w es0" "M \<noteq> []" "B \<noteq> []" "\<not> dirs w M" "M \<noteq> B"
    "files w M = None \<or> (holds d M w es \<and> prefix es0 es)"
  shows "\<exists>w' es'. recover_backup M B (Some d) (files w M \<noteq> None) w = (Some True, w') \<and> quiet w' \<and> holds d M w' es' \<and>
    (\<forall>p. p \<noteq> M \<and> p \<noteq> B \<longrightarrow> files w' p = files w p)"
proof (cases "files w M")
  case None
  obtain c where c: "files w B = Some c" using holds_some[OF assms(2)] by auto
  let ?w = "set_file B None False (set_file M (Some c) (unsynced w B) w)"
  have r: "c_rename B M w = (True, ?w)" by (rule c_rename_quiet[OF assms(1) c None assms(5)])
  have "holds d M ?w es0" using holds_moved[OF assms(2), of ?w M] c assms(6) by simp
  then show ?thesis using None r manifest_file_valid_quiet[OF assms(1,2,4)] assms(1)
    by (intro exI[of _ ?w] exI[of _ es0]) (simp add: recover_backup_def)
next
  case (Some c)
  then have h: "holds d M w es" "prefix es0 es" using assms(7) by auto
  let ?w = "set_file B None False w"
  have r: "c_remove B w = (True, ?w)" by (rule c_remove_quiet[OF assms(1) holds_some[OF assms(2)]])
  have "holds d M ?w es" using h(1) assms(6) by (simp add: holds_def)
  then show ?thesis using Some r manifest_file_valid_quiet[OF assms(1,2,4)] manifest_file_extends_quiet[OF assms(1) h(1) assms(2,3,4)] h(2) assms(1)
    by (intro exI[of _ ?w] exI[of _ es]) (simp add: recover_backup_def)
qed

lemma recover_final_quiet:
  assumes "quiet w" "holds d M w es" "M \<noteq> []" "te \<longrightarrow> files w T \<noteq> None"
  shows "fst (recover_final M T (Some d) True te w)"
  using assms by (simp add: recover_final_def manifest_file_valid_quiet c_remove_quiet)

lemma recover_tmp_quiet:
  assumes "quiet w" "committed d M B w es" "es \<noteq> []" "store_paths M T B" "device_identity_is_valid_uuid (Some d)"
    "\<not> dirs w M" "\<not> dirs w T" "\<not> dirs w B"
  shows "fst (device_manifest_recover_tmp (Some M) (Some T) (Some d) w)"
proof -
  have P: "manifest_backup_path (Some M) = Some B" "M \<noteq> []" "M \<noteq> B" "T \<noteq> M" "T \<noteq> B"
    using assms(4) by (auto simp: store_paths_def)
  have Bne: "B \<noteq> []" using P(1) by (auto simp: snprintf_fits_def split: if_splits)
  obtain e1 where 1: "manifest_artifact_exists M w = (Some (files w M \<noteq> None), w\<lparr>errno_of := e1\<rparr>)"
    using artifact_quiet[OF assms(1,6)] by blast
  obtain e2 where 2: "manifest_artifact_exists T (w\<lparr>errno_of := e1\<rparr>) = (Some (files w T \<noteq> None), w\<lparr>errno_of := e2\<rparr>)"
    using artifact_quiet[of "w\<lparr>errno_of := e1\<rparr>" T] assms(1,7) by auto
  obtain e3 where 3: "manifest_artifact_exists B (w\<lparr>errno_of := e2\<rparr>) = (Some (files w B \<noteq> None), w\<lparr>errno_of := e3\<rparr>)"
    using artifact_quiet[of "w\<lparr>errno_of := e2\<rparr>" B] assms(1,8) by auto
  let ?w = "w\<lparr>errno_of := e3\<rparr>"
  have "\<exists>w' es'. (if files w B \<noteq> None then recover_backup M B (Some d) (files w M \<noteq> None) ?w else (Some (files w M \<noteq> None), ?w)) =
      (Some True, w') \<and> quiet w' \<and> holds d M w' es' \<and> (\<forall>p. p \<noteq> M \<and> p \<noteq> B \<longrightarrow> files w' p = files w p)"
  proof (cases "files w B = None")
    case True
    then have "holds d M w es" using assms(2,3) by (auto simp: committed_def holds_def)
    then show ?thesis using True holds_some[of d M w es] assms(1) by (intro exI[of _ ?w] exI[of _ es]) simp
  next
    case False
    have "\<exists>es0. holds d B ?w es0 \<and> (files ?w M = None \<or> holds d M ?w es \<and> prefix es0 es)"
      using assms(2) False by (auto simp: committed_def)
    then obtain es0 where "holds d B ?w es0" "files ?w M = None \<or> holds d M ?w es \<and> prefix es0 es" by blast
    then show ?thesis using recover_backup_quiet[of ?w d B es0 M es] assms(1,6) P Bne False by auto
  qed
  then obtain w' es' where w': "(if files w B \<noteq> None then recover_backup M B (Some d) (files w M \<noteq> None) ?w else (Some (files w M \<noteq> None), ?w)) =
      (Some True, w')" "quiet w'" "holds d M w' es'" "\<forall>p. p \<noteq> M \<and> p \<noteq> B \<longrightarrow> files w' p = files w p" by blast
  have "device_manifest_recover_tmp (Some M) (Some T) (Some d) w = recover_final M T (Some d) True (files w T \<noteq> None) w'"
    using P(1) 1 2 3 w'(1) assms(5) by (simp del: device_identity_is_valid_uuid.simps manifest_backup_path.simps not_None_eq)
  then show ?thesis using recover_final_quiet[OF w'(2,3) P(2), of "files w T \<noteq> None" T] w'(4) P by auto
qed

section \<open>Without faults every step succeeds\<close>

lemma same_card_quiet: "same_card w w' \<Longrightarrow> quiet w \<Longrightarrow> quiet w'"
  by (simp add: same_card_def)

lemma retire_backup_quiet:
  assumes "quiet w" "M \<noteq> []" "B \<noteq> []" "\<not> dirs w B" "M \<noteq> B"
    "files w B = None \<or> (\<exists>es es0. holds d M w es \<and> holds d B w es0 \<and> prefix es0 es)"
  shows "fst (retire_backup M B d w)"
proof (cases "files w B")
  case None
  then show ?thesis using assms(1,4) by (simp add: retire_backup_def c_stat_quiet)
next
  case (Some c)
  then obtain es es0 where h: "holds d M w es" "holds d B w es0" "prefix es0 es" using assms(6) by auto
  show ?thesis using Some assms(1) manifest_file_extends_quiet[OF assms(1) h(1,2) assms(2,3)] h(3)
    by (simp add: retire_backup_def c_stat_quiet c_remove_quiet)
qed

lemma quiet_put_bytes [simp]: "quiet (put_bytes h bs w) = quiet w"
  by (simp add: quiet_def)

lemma write_tmp_quiet: "quiet w \<Longrightarrow> fst (write_tmp T doc w)"
  by (simp add: write_tmp_def fopen_def fflush_def fileno_def fsync_def fclose_def)

lemma publish_tmp_quiet:
  assumes "quiet w" "committed d M B w es" "distinct [M, T, B]" "M \<noteq> []" "B \<noteq> []" "files w B = None"
    "holds d T w es'" "prefix es es'" "\<not> dirs w M" "\<not> dirs w B"
  shows "fst (publish_tmp T M B d (files w M \<noteq> None) w)"
proof -
  have D: "T \<noteq> M" "T \<noteq> B" "M \<noteq> B" using assms(3) by auto
  obtain c where c: "files w T = Some c" using holds_some[OF assms(7)] by auto
  show ?thesis
  proof (cases "files w M")
    case None
    let ?w = "set_file T None False (set_file M (Some c) (unsynced w T) w)"
    have r: "c_rename T M w = (True, ?w)" by (rule c_rename_quiet[OF assms(1) c None assms(9)])
    have "holds d M ?w es'" using holds_moved[OF assms(7), of ?w M] c D by simp
    then show ?thesis using r manifest_file_valid_quiet[of ?w d M es'] assms(1,4) by (simp add: publish_tmp_def)
  next
    case (Some m)
    have h: "holds d M w es" using committed_manifest[OF assms(2)] Some by simp
    have nr: "\<not> rename_replaces w" using assms(2) by (simp add: committed_def)
    let ?w1 = "w\<lparr>errno_of := EEXIST\<rparr>"
    have r1: "c_rename T M w = (False, ?w1)" using assms(1) c Some nr by (simp add: c_rename_def)
    let ?w2 = "set_file M None False (set_file B (Some m) (unsynced w M) ?w1)"
    have r2: "c_rename M B ?w1 = (True, ?w2)" using c_rename_quiet[of ?w1 M m B] assms(1,6,10) Some by simp
    let ?w3 = "set_file T None False (set_file M (Some c) (unsynced ?w2 T) ?w2)"
    have r3: "c_rename T M ?w2 = (True, ?w3)" using c_rename_quiet[of ?w2 T c M] assms(1,9) c D by simp
    have "holds d M ?w3 es'" using holds_moved[OF assms(7), of ?w3 M] c D by simp
    moreover have "holds d B ?w3 es" using holds_moved[OF h, of ?w3 B] Some D by simp
    ultimately have "manifest_file_extends M B (Some d) ?w3 = (True, ?w3)"
      using manifest_file_extends_quiet[of ?w3 d M es' B es] assms(1,4,5,8) by simp
    then show ?thesis using r1 r2 r3 Some by (simp add: publish_tmp_def)
  qed
qed

lemma write_tmp_and_rename_quiet:
  assumes "quiet w" "committed d M B w es" "store_paths M T B" "files w M \<noteq> None \<or> files w B = None"
    "\<not> dirs w M" "\<not> dirs w B" "lists d doc es'" "prefix es es'" "length doc \<le> RECORDER_MANIFEST_MAX_BYTES"
  shows "fst (write_tmp_and_rename T M doc w)"
proof -
  have P: "manifest_backup_path (Some M) = Some B" "distinct [M, T, B]" "M \<noteq> B" "M \<noteq> []" using assms(3) by (auto simp: store_paths_def)
  have Bne: "B \<noteq> []" using P(1) by (auto simp: snprintf_fits_def split: if_splits)
  have uuid: "device_identity_is_valid_uuid (Some d)" using assms(7) unfolding lists_def by blast
  obtain u where "doc = document_text d u (body_text es')" using assms(7) by (rule listsE)
  then have pd: "device_identity_parse_device_id (Some doc) (length doc) = Some d" using parse_device_document(1)[OF uuid] by simp
  have val: "manifest_snapshot_valid (Some doc) (Some d)" by (rule lists_valid[OF assms(7)])
  have hB: "files w B = None \<or> (\<exists>es es0. holds d M w es \<and> holds d B w es0 \<and> prefix es0 es)"
    using assms(2,4) by (auto simp: committed_def)
  obtain r1 w1 where 1: "retire_backup M B d w = (r1, w1)" by fastforce
  have r1: "r1" using retire_backup_quiet[OF assms(1) P(4) Bne assms(6) P(3) hB] 1 by simp
  note c1 = retire_backup_committed[OF 1 assms(2) quiet_honest[OF assms(1)] P(3) uuid]
  have q1: "quiet w1" "\<not> dirs w1 M" "\<not> dirs w1 B" using c1(2) assms(1,5,6) by (simp_all add: store_step_def)
  obtain st w2 where 2: "c_stat M w1 = (st, w2)" by fastforce
  have st: "st \<noteq> None \<longleftrightarrow> files w1 M \<noteq> None" "st = None \<Longrightarrow> errno_of w2 = ENOENT"
    using 2 q1 by (auto simp: c_stat_quiet split: option.splits)
  note s2 = c_stat_same[OF 2]
  have c2: "committed d M B w2 es" "files w2 M = files w1 M" "files w2 B = None" "quiet w2" "\<not> dirs w2 M" "\<not> dirs w2 B"
    using committed_cong[OF s2] c1 r1 q1 s2 by (simp_all add: same_card_def)
  obtain r3 w3 where 3: "write_tmp T doc w2 = (r3, w3)" by fastforce
  have r3: "r3" using write_tmp_quiet[OF c2(4), of T doc] 3 by simp
  note t3 = write_tmp_result[OF 3]
  have c3: "committed d M B w3 es" "files w3 M = files w2 M" "files w3 B = None" "quiet w3" "\<not> dirs w3 M" "\<not> dirs w3 B"
    using committed_away[OF t3(1)] t3(1) c2 P(2) by (auto simp: store_step_def)
  have h3: "holds d T w3 es'" using t3(2)[OF r3] assms(7,9) unfolding holds_def by blast
  have "fst (publish_tmp T M B d (files w3 M \<noteq> None) w3)"
    by (rule publish_tmp_quiet[OF c3(4,1) P(2) P(4) Bne c3(3) h3 assms(8) c3(5,6)])
  then have "fst (publish_tmp T M B d (st \<noteq> None) w3)" using st(1) c2(2) c3(2) by simp
  then show ?thesis unfolding write_tmp_and_rename_def pd using val P(1) 1 r1 2 st(2) 3 r3
    by (cases st) (simp_all del: manifest_snapshot_valid.simps manifest_backup_path.simps)
qed

section \<open>The specification of an append\<close>

text \<open>
  On the list of committed entries: a known identifier changes nothing and is accepted or refused; an unknown
  one is added at the end if the new document is within the bound.
\<close>

definition upsert_spec :: "bool \<Rightarrow> manifest_entry list \<Rightarrow> manifest_entry \<Rightarrow> device_manifest_result_t \<times> manifest_entry list" where
  "upsert_spec fits es e =
     (case find (\<lambda>e'. me_id e' = me_id e) es of
        Some e' \<Rightarrow>
          (if me_sha e' = me_sha e \<and> me_filename e' = me_filename e \<and> me_size e' = me_size e \<and> me_duration e' = me_duration e \<and>
              manifest_start_times_compatible (me_started e') (me_started e)
           then DEVICE_MANIFEST_OK else DEVICE_MANIFEST_CONFLICT, es)
      | None \<Rightarrow> if fits then (DEVICE_MANIFEST_OK, es @ [e]) else (DEVICE_MANIFEST_ERROR, es))"

lemma document_appended:
  assumes "lists d (document_text d u (before_text es @ entry_text e)) es'" "list_all entry_ok es" "entry_ok e" "length u = 25" "list_all json_clean u"
  shows "es' = es @ [e]"
proof -
  obtain u2 where b: "document_text d u (before_text es @ entry_text e) = document_text d u2 (body_text es')" "list_all json_clean u2"
    "list_all json_clean d" "list_all entry_ok es'" using assms(1) by (rule listsE)
  have "document_text d u (body_text (es @ [e])) @ [] = document_text d u2 (body_text es')"
    using b(1) by (simp add: body_text_append)
  from document_text_unique[OF this b(3,3) assms(5) b(2) _ b(4)] show ?thesis using assms(2,3) by simp
qed

lemma prefix_entries: "prefix es es' \<Longrightarrow> list_all entry_ok es' \<Longrightarrow> list_all entry_ok es"
  by (auto elim: prefixE)

lemma entry_text_nonempty [simp]: "entry_text e \<noteq> []"
  by (simp add: entry_text_def)

lemma append_entry_quiet:
  assumes "quiet w" "committed d M B w es" "store_paths M T B" "files w M \<noteq> None" "\<not> dirs w M" "\<not> dirs w B"
    "lists d doc es" "device_manifest_is_valid_iso8601_offset (Some u)" "entry_ok e" "me_id e \<notin> set (map me_id es)"
    "append_entry M T doc u (entry_text e) w = (r, w')"
  shows "r = (if length (document_text d u (body_text (es @ [e]))) \<le> DEVICE_MANIFEST_ADMISSION_CEILING_BYTES
    then DEVICE_MANIFEST_OK else DEVICE_MANIFEST_ERROR)" "r = DEVICE_MANIFEST_ERROR \<Longrightarrow> w' = w"
proof -
  obtain u0 where a: "doc = document_text d u0 (body_text es)" "length u0 = 25" "list_all json_clean u0" "length d = 36" "list_all json_clean d"
    "list_all entry_ok es" "distinct (map me_id es)" using assms(7) by (rule listsE)
  have uuid: "device_identity_is_valid_uuid (Some d)" using assms(7) unfolding lists_def by blast
  have u: "length u = 25" "list_all json_clean u" using iso_clean[OF assms(8)] by blast+
  let ?new = "document_text d u (body_text (es @ [e]))"
  have eq: "before_text es @ entry_text e = body_text (es @ [e])" by (simp add: body_text_append)
  have sp: "splice_document doc u (entry_text e) = (if length ?new \<le> DEVICE_MANIFEST_ADMISSION_CEILING_BYTES then Some ?new else None)"
    unfolding a(1) splice_document_doc[OF a(4,5,2,3) u(1)] eq by (simp add: Let_def)
  have l: "lists d ?new (es @ [e])" unfolding lists_def entries_ok_def
    using assms(8,9,10) a(6,7) uuid by (intro conjI exI[of _ u]) simp_all
  have "r = (if length ?new \<le> DEVICE_MANIFEST_ADMISSION_CEILING_BYTES then DEVICE_MANIFEST_OK else DEVICE_MANIFEST_ERROR) \<and>
    (r = DEVICE_MANIFEST_ERROR \<longrightarrow> w' = w)"
  proof (cases "length ?new \<le> DEVICE_MANIFEST_ADMISSION_CEILING_BYTES")
    case False
    then show ?thesis using assms(11) sp by (simp add: append_entry_def)
  next
    case True
    obtain ok w1 where 1: "write_tmp_and_rename T M ?new w = (ok, w1)" by fastforce
    have "fst (write_tmp_and_rename T M ?new w)"
      by (rule write_tmp_and_rename_quiet[OF assms(1,2,3) _ assms(5,6) l _ admission_within[OF True]]) (simp_all add: assms(4))
    then show ?thesis using assms(1,11) sp True 1 by (simp add: append_entry_def c_malloc_def result_of_def)
  qed
  then show "r = (if length ?new \<le> DEVICE_MANIFEST_ADMISSION_CEILING_BYTES then DEVICE_MANIFEST_OK else DEVICE_MANIFEST_ERROR)"
    "r = DEVICE_MANIFEST_ERROR \<Longrightarrow> w' = w" by blast+
qed

lemma find_entry:
  assumes "find (\<lambda>e'. me_id e' = i) es = Some e'" shows "e' \<in> set es" "me_id e' = i"
  using assms by (auto simp: find_Some_iff)

lemma update_manifest_refines:
  assumes "quiet w" "committed d M B w es" "store_paths M T B" "files w M = Some (bytes_of_string doc)"
    "length doc \<le> RECORDER_MANIFEST_MAX_BYTES" "\<not> dirs w M" "\<not> dirs w B"
    "device_manifest_is_valid_iso8601_offset (Some u)" "entry_ok e" "device_identity_is_valid_uuid (Some d)"
    "update_manifest M T d u (entry_text e) doc (key_of e) w = (r, w')"
  shows "\<exists>es'. (r, es') = upsert_spec (length (document_text d u (body_text (es @ [e]))) \<le> DEVICE_MANIFEST_ADMISSION_CEILING_BYTES) es e \<and>
    committed d M B w' es' \<and> holds d M w' es'"
proof -
  have h: "holds d M w es" by (rule committed_manifest[OF assms(2)]) (simp add: assms(4))
  then have l: "lists d doc es" using assms(4) by (auto simp: holds_def)
  obtain u0 where a: "doc = document_text d u0 (body_text es)" "length u0 = 25" "list_all json_clean u0" "length d = 36" "list_all json_clean d"
    "list_all entry_ok es" "distinct (map me_id es)" using l by (rule listsE)
  have ok: "entries_ok es" using a(6,7) by (simp add: entries_ok_def)
  have u: "length u = 25" "list_all json_clean u" using iso_clean[OF assms(8)] by blast+
  have ei: "device_identity_is_valid_uuid (Some (me_id e))" using assms(9) unfolding entry_ok_def by blast
  have cl: "list_all json_clean (me_id e)" "length (me_id e) = 36" using uuid_clean[OF ei] ei by simp_all
  have nd: "snprintf_fits 96 (id_needle (me_id e)) = Some (id_needle (me_id e))" using cl(2) by (simp add: snprintf_fits_def id_needle_def)
  have k: "ek_id (key_of e) = me_id e" by (simp add: key_of_def)
  have run: "update_manifest M T d u (entry_text e) doc (key_of e) w = (case memfind (id_needle (me_id e)) doc of
      Some hit \<Rightarrow> compare_committed doc hit (key_of e) w | None \<Rightarrow> append_entry M T doc u (entry_text e) w)"
    unfolding update_manifest_def k using lists_valid[OF l] parse_device_document[OF assms(10), of u0 "body_text es"] nd
    by (simp add: a(1)[symmetric] del: manifest_snapshot_valid.simps device_identity_parse_device_id.simps device_identity_parse_schema_version.simps)
  show ?thesis
  proof (cases "find (\<lambda>e'. me_id e' = me_id e) es")
    case None
    then have new: "me_id e \<notin> set (map me_id es)" by (auto simp: find_None_iff)
    then have "memfind (id_needle (me_id e)) doc = None" unfolding a(1) by (rule find_absent[OF a(4,5,2,3,6) cl(1)])
    then have ap: "append_entry M T doc u (entry_text e) w = (r, w')" using assms(11) run by simp
    have f: "files w M \<noteq> None" using assms(4) by simp
    note q = append_entry_quiet[OF assms(1,2,3) f assms(6,7) l assms(8,9) new ap]
    note kp = append_entry_keeps[OF ap assms(2,3) quiet_honest[OF assms(1)] l u(1)]
    show ?thesis
    proof (cases "r = DEVICE_MANIFEST_OK")
      case True
      then obtain es' where e: "lists d (document_text d u (before_text es @ entry_text e)) es'" "committed d M B w' es'" "holds d M w' es'"
        using kp(3) by blast
      have "es' = es @ [e]" by (rule document_appended[OF e(1) a(6) assms(9) u])
      then show ?thesis using e True q(1) None by (auto simp: upsert_spec_def split: if_splits)
    next
      case False
      then have "r = DEVICE_MANIFEST_ERROR" "w' = w" using kp(2) q by (auto split: if_splits)
      then show ?thesis using q(1) None assms(2) h by (auto simp: upsert_spec_def split: if_splits)
    qed
  next
    case (Some e')
    note e' = find_entry[OF Some]
    obtain hit x where hx: "memfind (id_needle (me_id e)) doc = Some hit" "hit_scope doc hit = tl (entry_core e') @ x"
      using find_present[OF a(4,5,2,3) ok e'(1)] unfolding a(1) e'(2) by blast
    have cc: "compare_committed doc hit (key_of e) w = (r, w')" using assms(11) run hx(1) by simp
    have eo: "entry_ok e'" using a(6) e'(1) by (simp add: list_all_iff)
    have r: "r = (if me_sha e' = me_sha e \<and> me_filename e' = me_filename e \<and> me_size e' = me_size e \<and> me_duration e' = me_duration e \<and>
        manifest_start_times_compatible (me_started e') (me_started e) then DEVICE_MANIFEST_OK else DEVICE_MANIFEST_CONFLICT)" "w' = w"
      using cc assms(1) unfolding compare_committed_def hx(2) committed_same_entry[OF eo] by (auto simp: c_malloc_def key_of_def)
    then show ?thesis using Some assms(2) h by (auto simp: upsert_spec_def)
  qed
qed

end
