(* ===== verification/Manifest_Safety.thy ===== *)
theory Manifest_Safety
  imports Manifest_Store
begin

text \<open>
  What \<open>device_manifest.c\<close> promises about the manifest of a card: an append refines the specification on
  lists of entries, the admission check leaves room for two appends, and no acknowledged recording is lost
  over any sequence of appends, I/O errors, power losses and boots.
\<close>

declare read_file_bounded.simps [simp del]

section \<open>Refinement\<close>

lemma first_document_small:
  assumes "length d = 36" "length u = 25" "length b \<le> RECORDER_MANIFEST_ENTRY_MAX"
  shows "length (document_text d u b) \<le> DEVICE_MANIFEST_ADMISSION_CEILING_BYTES"
    "length (document_text d u b) < RECORDER_MANIFEST_MAX_BYTES"
proof -
  have "dec_of_nat RECORDER_METADATA_SCHEMA_VERSION = ''1''"
    by (simp add: RECORDER_METADATA_SCHEMA_VERSION_def dec_of_nat_1[simplified])
  then show "length (document_text d u b) \<le> DEVICE_MANIFEST_ADMISSION_CEILING_BYTES"
    "length (document_text d u b) < RECORDER_MANIFEST_MAX_BYTES"
    using assms by (simp_all add: document_text_def DEVICE_MANIFEST_ADMISSION_CEILING_BYTES_def
        RECORDER_MANIFEST_MAX_BYTES_def RECORDER_MANIFEST_ENTRY_MAX_def)
qed

lemma create_manifest_refines:
  assumes "quiet w" "committed d M B w es" "store_paths M T B" "files w M = None" "files w B = None" "\<not> dirs w M" "\<not> dirs w B"
    "device_identity_is_valid_uuid (Some d)" "device_manifest_is_valid_iso8601_offset (Some u)" "entry_ok e"
    "length (entry_text e) \<le> RECORDER_MANIFEST_ENTRY_MAX" "create_manifest M T d u (entry_text e) w = (r, w')"
  shows "r = DEVICE_MANIFEST_OK \<and> es = [] \<and> committed d M B w' [e] \<and> holds d M w' [e]"
proof -
  let ?doc = "document_text d u (entry_text e)"
  have u: "length u = 25" "list_all json_clean u" using iso_clean[OF assms(9)] by blast+
  have len: "length ?doc < RECORDER_MANIFEST_MAX_BYTES" using first_document_small(2)[OF _ u(1) assms(11)] assms(8) by simp
  have l: "lists d ?doc [e]" unfolding lists_def entries_ok_def using assms(8,9,10) by (intro conjI exI[of _ u]) simp_all
  let ?w = "w\<lparr>errno_of := ENOENT\<rparr>"
  have st: "c_stat M w = (None, ?w)" using assms(1,4,6) by (simp add: c_stat_quiet)
  have c: "committed d M B ?w es" using assms(2) by (simp add: committed_def)
  have es: "es = []" using assms(2,4,5) by (auto simp: committed_def holds_def)
  have "fst (write_tmp_and_rename T M ?doc ?w)"
    by (rule write_tmp_and_rename_quiet[OF _ c assms(3) _ _ _ l]) (use assms(1,5,6,7) es len in simp_all)
  then obtain w1 where wr: "write_tmp_and_rename T M ?doc ?w = (True, w1)" by (cases "write_tmp_and_rename T M ?doc ?w") simp
  have "create_manifest M T d u (entry_text e) w = (DEVICE_MANIFEST_OK, w1)"
    using st len wr assms(1) by (simp add: create_manifest_def Let_def c_malloc_def result_of_def)
  then have r: "r = DEVICE_MANIFEST_OK" using assms(12) by simp
  obtain es' where e: "lists d ?doc es'" "committed d M B w' es'" "holds d M w' es'"
    using create_manifest_keeps[OF assms(12,2,3) quiet_honest[OF assms(1)] assms(8)] r by blast
  have "es' = [e]" using document_appended[of d u "[]" e es'] e(1) assms(10) u by (simp add: before_text_def)
  then show ?thesis using r es e by simp
qed

lemma upsert_refines:
  assumes "quiet w" "store_paths M T B" "committed d M B w es" "files w M \<noteq> None \<or> files w B = None" "\<not> dirs w M" "\<not> dirs w B"
    "device_identity_is_valid_uuid (Some d)" "device_manifest_is_valid_iso8601_offset (Some u)" "entry_ok e"
    "length (entry_text e) \<le> RECORDER_MANIFEST_ENTRY_MAX"
    "device_manifest_upsert_file (Some M) (Some T) (Some d) (Some u) (Some (entry_text e)) w = (r, w')"
  shows "\<exists>es'. (r, es') = upsert_spec (length (document_text d u (body_text (es @ [e]))) \<le> DEVICE_MANIFEST_ADMISSION_CEILING_BYTES) es e \<and>
    committed d M B w' es' \<and> holds d M w' es'"
proof -
  have P: "M \<noteq> []" "T \<noteq> []" using assms(2) by (auto simp: store_paths_def)
  obtain rd w1 where 1: "read_file_bounded (Some M) RECORDER_MANIFEST_MAX_BYTES w = (rd, w1)" by fastforce
  have run: "(r, w') = (case rd of None \<Rightarrow> create_manifest M T d u (entry_text e) w1
      | Some doc \<Rightarrow> update_manifest M T d u (entry_text e) doc (key_of e) w1)"
    using assms(7,8,10,11) P 1 entry_key_of_entry[OF assms(9)]
    by (cases rd) (simp_all del: device_identity_is_valid_uuid.simps device_manifest_is_valid_iso8601_offset.simps read_file_bounded.simps)
  show ?thesis
  proof (cases "files w M")
    case None
    let ?w = "w\<lparr>errno_of := ENOENT\<rparr>"
    have rd: "rd = None" "w1 = ?w" using 1 None P assms(1,5) by (simp_all add: c_stat_quiet read_file_bounded.simps)
    have c: "committed d M B ?w es" using assms(3) by (simp add: committed_def)
    have k: "r = DEVICE_MANIFEST_OK \<and> es = [] \<and> committed d M B w' [e] \<and> holds d M w' [e]"
      by (rule create_manifest_refines[OF _ c assms(2) _ _ _ _ assms(7,8,9,10)]) (use assms None run rd in simp_all)
    have "length (document_text d u (body_text [e])) \<le> DEVICE_MANIFEST_ADMISSION_CEILING_BYTES"
      using first_document_small(1)[of d u "entry_text e"] assms(7,10) iso_clean(1)[OF assms(8)] by simp
    then show ?thesis using k by (intro exI[of _ "[e]"]) (simp add: upsert_spec_def)
  next
    case (Some c)
    have h: "holds d M w es" by (rule committed_manifest[OF assms(3)]) (simp add: Some)
    then obtain doc where doc: "files w M = Some (bytes_of_string doc)" "length doc \<le> RECORDER_MANIFEST_MAX_BYTES" by (auto simp: holds_def)
    have "read_file_bounded (Some M) RECORDER_MANIFEST_MAX_BYTES w = (Some doc, w)"
      by (rule read_file_bounded_quiet[OF assms(1) doc P(1) manifest_max_pos])
    then have "rd = Some doc" "w1 = w" using 1 by (simp_all only: prod.inject)
    then have "update_manifest M T d u (entry_text e) doc (key_of e) w = (r, w')" using run by simp
    then show ?thesis by (rule update_manifest_refines[OF assms(1,3,2) doc assms(5,6,8,9,7)])
  qed
qed

text \<open>
  C10: An append refines its specification. On a card without faults, whose manifest is in place or was never
  written, \<open>device_manifest_upsert_file\<close> with an entry as \<open>build_entry\<close> prints it returns what the
  specification on the list of entries returns, and the manifest then holds the list that the
  specification gives: an unknown recording is added at the end, a known one changes nothing and is
  accepted when it is the same recording and refused when it differs.
\<close>

theorem append_refines_spec:
  assumes "quiet w" "store_paths M T B" "committed d M B w es" "files w M \<noteq> None \<or> files w B = None" "\<not> dirs w M" "\<not> dirs w B"
    "device_identity_is_valid_uuid (Some d)" "device_manifest_is_valid_iso8601_offset (Some u)" "entry_ok e"
    "length (entry_text e) \<le> RECORDER_MANIFEST_ENTRY_MAX"
    "device_manifest_upsert_file (Some M) (Some T) (Some d) (Some u) (Some (entry_text e)) w = (r, w')"
  shows "\<exists>es'. (r, es') = upsert_spec (length (document_text d u (body_text (es @ [e]))) \<le> DEVICE_MANIFEST_ADMISSION_CEILING_BYTES) es e \<and>
    committed d M B w' es' \<and> holds d M w' es'"
  by (rule upsert_refines[OF assms])

text \<open>A concrete recording on the paths of the firmware.\<close>

definition sample_entry :: manifest_entry where
  "sample_entry = \<lparr>me_id = sample_uuid, me_filename = ''recordings/2026-02-28/235959_'' @ sample_uuid @ ''.wav'', me_started = sample_stamp,
     me_duration = 1000, me_size = 32044, me_sha = replicate 64 CHR ''a'', me_state = ''finalized'', me_fw = ''1.0.0''\<rparr>"

definition MANIFEST_PATH :: string where "MANIFEST_PATH = ''/sdcard/M5DAYLOG/manifest.json''"
definition MANIFEST_TMP_PATH :: string where "MANIFEST_TMP_PATH = ''/sdcard/M5DAYLOG/manifest.tmp''"
definition MANIFEST_BAK_PATH :: string where "MANIFEST_BAK_PATH = ''/sdcard/M5DAYLOG/manifest.json.bak''"

lemma sample_paths: "store_paths MANIFEST_PATH MANIFEST_TMP_PATH MANIFEST_BAK_PATH"
  by (simp add: store_paths_def MANIFEST_PATH_def MANIFEST_TMP_PATH_def MANIFEST_BAK_PATH_def snprintf_fits_def config_simps)

lemma sample_filename: "valid_filename (Some (''recordings/2026-02-28/235959_'' @ sample_uuid @ ''.wav''))"
proof -
  have "list_all json_clean sample_uuid" "length sample_uuid = 36" using uuid_clean[OF sample_uuid_valid] sample_uuid_valid by simp_all
  then show ?thesis by (simp add: json_clean_def)
qed

lemma sample_sha: "device_manifest_is_valid_sha256_hex (Some (replicate 64 CHR ''a''))"
  by (simp add: list_all_iff)

lemma sample_entry_ok: "entry_ok sample_entry"
proof -
  have "expected_duration 32044 = 1000" by (simp add: expected_duration_eq)
  moreover have "safe_free_text (Some ''1.0.0'') 32" by (simp add: json_clean_def)
  ultimately show ?thesis unfolding entry_ok_def
    using sample_uuid_valid sample_stamp_valid sample_filename sample_sha
    by (simp add: sample_entry_def config_simps DEVICE_MANIFEST_STATE_FINALIZED_def
        del: device_identity_is_valid_uuid.simps valid_filename.simps device_manifest_is_valid_iso8601_offset.simps
          device_manifest_is_valid_sha256_hex.simps safe_free_text.simps)
qed

lemma sample_entry_length: "length (entry_text sample_entry) \<le> RECORDER_MANIFEST_ENTRY_MAX"
proof -
  have "length sample_uuid = 36" using sample_uuid_valid by simp
  moreover have "length sample_stamp = 25" by (simp add: sample_stamp_def)
  ultimately show ?thesis by (simp add: entry_text_def sample_entry_def config_simps dec_of_nat.simps)
qed

lemma empty_committed: "committed d M B empty_card []"
  by (simp add: committed_def empty_card_def)

lemma empty_card_simps: "files empty_card p = None" "\<not> dirs empty_card p"
  by (simp_all add: empty_card_def)

text \<open>The outcome of the first append on an empty card.\<close>

definition first_append :: "device_manifest_result_t \<times> io_world" where
  "first_append = device_manifest_upsert_file (Some MANIFEST_PATH) (Some MANIFEST_TMP_PATH) (Some sample_uuid) (Some sample_stamp)
     (Some (entry_text sample_entry)) empty_card"

lemma upsert_new_first: "fst first_append = DEVICE_MANIFEST_OK"
proof -
  obtain r w' where r: "first_append = (r, w')" by fastforce
  have "length (document_text sample_uuid sample_stamp (entry_text sample_entry)) \<le> DEVICE_MANIFEST_ADMISSION_CEILING_BYTES"
    using first_document_small(1)[of sample_uuid sample_stamp, OF _ _ sample_entry_length]
    by (simp add: sample_uuid_def sample_stamp_def)
  then have "r = DEVICE_MANIFEST_OK"
    using upsert_refines[OF quiet_empty_card sample_paths empty_committed disjI2[OF empty_card_simps(1)]
        empty_card_simps(2) empty_card_simps(2) sample_uuid_valid sample_stamp_valid sample_entry_ok sample_entry_length
        r[unfolded first_append_def]] by (auto simp: upsert_spec_def)
  then show ?thesis unfolding r fst_conv .
qed

lemma append_refines_spec_witness:
  "fst first_append = DEVICE_MANIFEST_OK \<and> holds sample_uuid MANIFEST_PATH (snd first_append) [sample_entry]"
proof -
  obtain r w' where r: "first_append = (r, w')" by fastforce
  obtain es' where e: "(r, es') = upsert_spec (length (document_text sample_uuid sample_stamp (body_text ([] @ [sample_entry]))) \<le>
      DEVICE_MANIFEST_ADMISSION_CEILING_BYTES) [] sample_entry" "holds sample_uuid MANIFEST_PATH w' es'"
    using append_refines_spec[OF quiet_empty_card sample_paths empty_committed disjI2[OF empty_card_simps(1)]
        empty_card_simps(2) empty_card_simps(2) sample_uuid_valid sample_stamp_valid sample_entry_ok sample_entry_length
        r[unfolded first_append_def]] by blast
  have "length (document_text sample_uuid sample_stamp (entry_text sample_entry)) \<le> DEVICE_MANIFEST_ADMISSION_CEILING_BYTES"
    using first_document_small(1)[of sample_uuid sample_stamp, OF _ _ sample_entry_length]
    by (simp add: sample_uuid_def sample_stamp_def)
  then have "r = DEVICE_MANIFEST_OK \<and> es' = [sample_entry]" using e(1) by (simp add: upsert_spec_def)
  then show ?thesis unfolding r fst_conv snd_conv using e(2) by simp
qed

section \<open>Admission\<close>

lemma append_length:
  assumes "length u = 25" "length u0 = 25"
  shows "length (document_text d u (body_text (es @ [e]))) \<le> length (document_text d u0 (body_text es)) + length (entry_text e) + 1"
  using assms by (simp add: document_text_def body_text_append before_text_def)

lemma upsert_new_ok:
  assumes "quiet w" "store_paths M T B" "committed d M B w es" "holds d M w es" "\<not> dirs w M" "\<not> dirs w B"
    "device_manifest_is_valid_iso8601_offset (Some u)" "entry_ok e" "length (entry_text e) \<le> RECORDER_MANIFEST_ENTRY_MAX"
    "me_id e \<notin> set (map me_id es)"
    "length (document_text d u (body_text (es @ [e]))) \<le> DEVICE_MANIFEST_ADMISSION_CEILING_BYTES"
    "device_manifest_upsert_file (Some M) (Some T) (Some d) (Some u) (Some (entry_text e)) w = (r, w')"
  shows "r = DEVICE_MANIFEST_OK \<and> committed d M B w' (es @ [e]) \<and> holds d M w' (es @ [e])"
proof -
  have f: "files w M \<noteq> None \<or> files w B = None" using holds_some[OF assms(4)] by blast
  have d: "device_identity_is_valid_uuid (Some d)" using assms(4) unfolding holds_def lists_def by blast
  obtain es' where e: "(r, es') = upsert_spec (length (document_text d u (body_text (es @ [e]))) \<le> DEVICE_MANIFEST_ADMISSION_CEILING_BYTES) es e"
    "committed d M B w' es'" "holds d M w' es'"
    using upsert_refines[OF assms(1,2,3) f assms(5,6) d assms(7,8,9,12)] by blast
  have "find (\<lambda>e'. me_id e' = me_id e) es = None" using assms(10) unfolding find_None_iff by (metis imageI list.set_map)
  then show ?thesis using e assms(11) by (simp add: upsert_spec_def)
qed

text \<open>
  C15: The admission check keeps its promise. When \<open>device_manifest_has_append_room\<close> says yes on a card whose
  manifest is committed, then the next two new recordings are both accepted, with whatever timestamps: the
  segment that is admitted and one more from a rotation or a recovery.
\<close>

theorem append_room_suffices:
  assumes "quiet w" "store_paths M T B" "committed d M B w es" "\<not> dirs w M" "\<not> dirs w B" "device_identity_is_valid_uuid (Some d)"
    "device_manifest_has_append_room (Some M) (Some d) w = (True, w1)"
    "device_manifest_upsert_file (Some M) (Some T) (Some d) (Some u1) (Some (entry_text e1)) w1 = (r1, w2)"
    "device_manifest_upsert_file (Some M) (Some T) (Some d) (Some u2) (Some (entry_text e2)) w2 = (r2, w3)"
    "device_manifest_is_valid_iso8601_offset (Some u1)" "device_manifest_is_valid_iso8601_offset (Some u2)" "entry_ok e1" "entry_ok e2"
    "length (entry_text e1) \<le> RECORDER_MANIFEST_ENTRY_MAX" "length (entry_text e2) \<le> RECORDER_MANIFEST_ENTRY_MAX"
    "me_id e1 \<notin> set (map me_id es)" "me_id e2 \<notin> insert (me_id e1) (set (map me_id es))"
  shows "r1 = DEVICE_MANIFEST_OK \<and> r2 = DEVICE_MANIFEST_OK \<and> holds d M w3 (es @ [e1, e2])"
proof -
  obtain rd v where 1: "read_file_bounded (Some M) RECORDER_MANIFEST_MAX_BYTES w = (rd, v)" by fastforce
  obtain doc where doc: "rd = Some doc" "manifest_snapshot_valid (Some doc) (Some d)"
    "length doc + 2112 \<le> DEVICE_MANIFEST_ADMISSION_CEILING_BYTES" and v: "w1 = v"
    using assms(7) 1 by (cases rd) (auto simp: Let_def RECORDER_MANIFEST_ENTRY_MAX_def simp del: read_file_bounded.simps manifest_snapshot_valid.simps)
  note s = read_file_bounded_same[OF 1]
  have f: "files w M = Some (bytes_of_string doc)" using read_file_bounded_some[of M _ w doc v] 1 doc(1) by simp
  have w1: "quiet w1" "committed d M B w1 es" "\<not> dirs w1 M" "\<not> dirs w1 B"
    using s v committed_cong[OF s] assms(1,3,4,5) by (simp_all add: same_card_def)
  have h: "holds d M w es" by (rule committed_manifest[OF assms(3)]) (simp add: f)
  then have h1: "holds d M w1 es" using s v by (simp add: same_card_def holds_def)
  have l: "lists d doc es" using h f by (auto simp: holds_def)
  obtain u0 where a: "doc = document_text d u0 (body_text es)" "length u0 = 25" using l by (rule listsE)
  have u: "length u1 = 25" "length u2 = 25" using iso_clean(1) assms(10,11) by blast+
  have n1: "length (document_text d u1 (body_text (es @ [e1]))) \<le> length doc + 1025"
    using append_length[OF u(1) a(2), of d es e1] assms(14) unfolding a(1) by (simp add: RECORDER_MANIFEST_ENTRY_MAX_def)
  then have l1: "length (document_text d u1 (body_text (es @ [e1]))) \<le> DEVICE_MANIFEST_ADMISSION_CEILING_BYTES" using doc(3) by simp
  note k1 = upsert_new_ok[OF w1(1) assms(2) w1(2) h1 w1(3,4) assms(10,12,14,16) l1 assms(8)]
  have "store_step {M, T, B} w1 w2" using upsert_file_keeps(1)[OF assms(8) w1(2) assms(2) quiet_honest[OF w1(1)]]
    by (simp add: upsert_keeps_def)
  then have w2: "quiet w2" "\<not> dirs w2 M" "\<not> dirs w2 B" using w1 by (simp_all add: store_step_def)
  have "length (document_text d u2 (body_text ((es @ [e1]) @ [e2]))) \<le> length (document_text d u1 (body_text (es @ [e1]))) + 1025"
    using append_length[OF u(2,1), of d "es @ [e1]" e2] assms(15) by (simp add: RECORDER_MANIFEST_ENTRY_MAX_def)
  then have l2: "length (document_text d u2 (body_text ((es @ [e1]) @ [e2]))) \<le> DEVICE_MANIFEST_ADMISSION_CEILING_BYTES"
    using n1 doc(3) by linarith
  have "me_id e2 \<notin> set (map me_id (es @ [e1]))" using assms(17) by simp
  from upsert_new_ok[OF w2(1) assms(2) _ _ w2(2,3) assms(11,13,15) this l2 assms(9)] k1 show ?thesis by simp
qed

definition other_uuid :: string where "other_uuid = ''01234567-89ab-4cde-8f01-23456789abcd''"

definition other_entry :: manifest_entry where "other_entry = sample_entry\<lparr>me_id := other_uuid\<rparr>"

lemma other_uuid_valid: "device_identity_is_valid_uuid (Some other_uuid)"
  by code_simp

lemma other_entry_ok: "entry_ok other_entry" "length (entry_text other_entry) \<le> RECORDER_MANIFEST_ENTRY_MAX"
  "me_id other_entry \<noteq> me_id sample_entry"
proof -
  show "entry_ok other_entry" using sample_entry_ok other_uuid_valid unfolding entry_ok_def other_entry_def
    by (simp del: device_identity_is_valid_uuid.simps valid_filename.simps device_manifest_is_valid_iso8601_offset.simps
        device_manifest_is_valid_sha256_hex.simps safe_free_text.simps)
  have "length other_uuid = length sample_uuid" by (simp add: other_uuid_def sample_uuid_def)
  then have "length (entry_text other_entry) = length (entry_text sample_entry)"
    by (simp add: entry_text_def other_entry_def sample_entry_def)
  then show "length (entry_text other_entry) \<le> RECORDER_MANIFEST_ENTRY_MAX" using sample_entry_length by simp
  show "me_id other_entry \<noteq> me_id sample_entry" by (simp add: other_entry_def sample_entry_def other_uuid_def sample_uuid_def)
qed

text \<open>A card with a manifest that lists nothing yet.\<close>

definition listed_card :: io_world where
  "listed_card = set_file MANIFEST_PATH (Some (bytes_of_string (document_text sample_uuid sample_stamp []))) False empty_card"

lemma empty_document: "lists sample_uuid (document_text sample_uuid sample_stamp []) []"
  "length (document_text sample_uuid sample_stamp []) + 2112 \<le> DEVICE_MANIFEST_ADMISSION_CEILING_BYTES"
proof -
  show "lists sample_uuid (document_text sample_uuid sample_stamp []) []" unfolding lists_def entries_ok_def
    using sample_uuid_valid sample_stamp_valid by (intro conjI exI[of _ sample_stamp]) simp_all
  have "dec_of_nat RECORDER_METADATA_SCHEMA_VERSION = ''1''"
    by (simp add: RECORDER_METADATA_SCHEMA_VERSION_def dec_of_nat_1[simplified])
  then show "length (document_text sample_uuid sample_stamp []) + 2112 \<le> DEVICE_MANIFEST_ADMISSION_CEILING_BYTES"
    by (simp add: document_text_def sample_uuid_def sample_stamp_def DEVICE_MANIFEST_ADMISSION_CEILING_BYTES_def)
qed

lemma listed_card_state:
  "quiet listed_card" "holds sample_uuid MANIFEST_PATH listed_card []"
  "committed sample_uuid MANIFEST_PATH MANIFEST_BAK_PATH listed_card []" "\<not> dirs listed_card p"
  "device_manifest_has_append_room (Some MANIFEST_PATH) (Some sample_uuid) listed_card = (True, listed_card)"
proof -
  let ?doc = "document_text sample_uuid sample_stamp []"
  show q: "quiet listed_card" by (simp add: listed_card_def)
  have f: "files listed_card MANIFEST_PATH = Some (bytes_of_string ?doc)" by (simp add: listed_card_def)
  have len: "length ?doc \<le> RECORDER_MANIFEST_MAX_BYTES" using admission_within empty_document(2) by simp
  show h: "holds sample_uuid MANIFEST_PATH listed_card []" unfolding holds_def using f len empty_document(1) by blast
  have "MANIFEST_PATH \<noteq> MANIFEST_BAK_PATH" by (simp add: MANIFEST_PATH_def MANIFEST_BAK_PATH_def)
  then show "committed sample_uuid MANIFEST_PATH MANIFEST_BAK_PATH listed_card []" using h
    by (simp add: committed_def listed_card_def empty_card_def)
  show "\<not> dirs listed_card p" by (simp add: listed_card_def empty_card_simps)
  have "MANIFEST_PATH \<noteq> []" by (simp add: MANIFEST_PATH_def)
  then show "device_manifest_has_append_room (Some MANIFEST_PATH) (Some sample_uuid) listed_card = (True, listed_card)"
    using read_file_bounded_quiet[OF q f len _ manifest_max_pos] lists_valid[OF empty_document(1)] empty_document(2)
    by (simp add: Let_def RECORDER_MANIFEST_ENTRY_MAX_def del: manifest_snapshot_valid.simps)
qed

definition second_append :: "io_world \<Rightarrow> manifest_entry \<Rightarrow> device_manifest_result_t \<times> io_world" where
  "second_append w e = device_manifest_upsert_file (Some MANIFEST_PATH) (Some MANIFEST_TMP_PATH) (Some sample_uuid) (Some sample_stamp)
     (Some (entry_text e)) w"

lemma append_room_suffices_witness:
  "fst (second_append listed_card sample_entry) = DEVICE_MANIFEST_OK \<and>
   fst (second_append (snd (second_append listed_card sample_entry)) other_entry) = DEVICE_MANIFEST_OK"
proof -
  obtain r1 w2 where 1: "second_append listed_card sample_entry = (r1, w2)" by fastforce
  obtain r2 w3 where 2: "second_append w2 other_entry = (r2, w3)" by fastforce
  have "r1 = DEVICE_MANIFEST_OK \<and> r2 = DEVICE_MANIFEST_OK \<and> holds sample_uuid MANIFEST_PATH w3 ([] @ [sample_entry, other_entry])"
    by (rule append_room_suffices[OF listed_card_state(1) sample_paths listed_card_state(3,4,4) sample_uuid_valid listed_card_state(5)
          1[unfolded second_append_def] 2[unfolded second_append_def] sample_stamp_valid sample_stamp_valid sample_entry_ok
          other_entry_ok(1) sample_entry_length other_entry_ok(2)]) (simp_all add: other_entry_ok(3))
  then show ?thesis unfolding 1 fst_conv snd_conv 2 by blast
qed

section \<open>No acknowledged recording is lost\<close>

text \<open>
  A run of the store: it starts on a card that has no manifest and no backup; entries are appended, with any
  outcomes of the calls; other parts of the firmware change other files; and the device boots again after a
  power loss or a reset, with any content in the files that were not yet forced to the card, and runs the
  recovery. The list collects the entries whose append was acknowledged.
\<close>

definition boots :: "io_world \<Rightarrow> io_world \<Rightarrow> bool" where
  "boots w w1 \<longleftrightarrow> card_after_power_loss w (files w1) \<and> (\<forall>p. \<not> unsynced w1 p) \<and> \<not> halted w1 \<and> honest w1 \<and> \<not> rename_replaces w1"

definition elsewhere :: "string \<Rightarrow> string \<Rightarrow> string \<Rightarrow> io_world \<Rightarrow> io_world \<Rightarrow> bool" where
  "elsewhere M T B w w' \<longleftrightarrow> (\<forall>p \<in> {M, T, B}. files w' p = files w p \<and> unsynced w' p = unsynced w p) \<and> honest w' \<and> \<not> rename_replaces w'"

inductive store_run :: "string \<Rightarrow> string \<Rightarrow> string \<Rightarrow> string \<Rightarrow> io_world \<Rightarrow> manifest_entry list \<Rightarrow> bool"
  for d M T B where
  start: "files w M = None \<Longrightarrow> files w B = None \<Longrightarrow> \<not> unsynced w M \<Longrightarrow> \<not> unsynced w B \<Longrightarrow> honest w \<Longrightarrow> \<not> rename_replaces w \<Longrightarrow>
    store_run d M T B w []"
| append_run: "store_run d M T B w acks \<Longrightarrow> entry_ok e \<Longrightarrow>
    device_manifest_upsert_file (Some M) (Some T) (Some d) (Some u) (Some (entry_text e)) w = (r, w') \<Longrightarrow>
    store_run d M T B w' (if r = DEVICE_MANIFEST_OK then acks @ [e] else acks)"
| other_run: "store_run d M T B w acks \<Longrightarrow> elsewhere M T B w w' \<Longrightarrow> store_run d M T B w' acks"
| boot_run: "store_run d M T B w acks \<Longrightarrow> boots w w1 \<Longrightarrow>
    device_manifest_recover_tmp (Some M) (Some T) (Some d) w1 = (r, w') \<Longrightarrow> store_run d M T B w' acks"

text \<open>The invariant: the committed entries contain a record of every acknowledged one.\<close>

definition records :: "manifest_entry list \<Rightarrow> manifest_entry list \<Rightarrow> bool" where
  "records es acks \<longleftrightarrow> (\<forall>e \<in> set acks. \<exists>e' \<in> set es. same_recording e' (key_of e))"

lemma records_grow: "records es acks \<Longrightarrow> prefix es es' \<Longrightarrow> records es' acks"
  unfolding records_def by (meson prefix_def set_mono_prefix subset_iff)

lemma records_snoc: "records es acks \<Longrightarrow> e' \<in> set es \<Longrightarrow> same_recording e' (key_of e) \<Longrightarrow> records es (acks @ [e])"
  by (auto simp: records_def)

lemma committed_boots: "boots w w1 \<Longrightarrow> committed d M B w es \<Longrightarrow> committed d M B w1 es"
  by (simp add: boots_def card_after_power_loss_def committed_def holds_def)

lemma committed_elsewhere: "elsewhere M T B w w' \<Longrightarrow> committed d M B w es \<Longrightarrow> committed d M B w' es"
  by (simp add: elsewhere_def committed_def holds_def)

text \<open>An append that is acknowledged leaves a record of its entry.\<close>

lemma upsert_entry_kept:
  assumes "device_manifest_upsert_file (Some M) (Some T) (Some d) (Some u) (Some (entry_text e)) w = (r, w')"
    "committed d M B w es" "store_paths M T B" "honest w" "entry_ok e"
  shows "\<exists>es'. store_step {M, T, B} w w' \<and> prefix es es' \<and> committed d M B w' es' \<and>
    (r = DEVICE_MANIFEST_OK \<longrightarrow> (\<exists>e' \<in> set es'. same_recording e' (key_of e)))"
proof -
  note k = upsert_file_keeps[OF assms(1-4)]
  show ?thesis
  proof (cases "r = DEVICE_MANIFEST_OK")
    case False
    then show ?thesis using k(1) by (auto simp: upsert_keeps_def)
  next
    case True
    have u: "device_manifest_is_valid_iso8601_offset (Some u)" using k(3) True by blast
    obtain fs where fs: "committed d M B w' fs" "holds d M w' fs"
      "fs = es \<and> same_card w w' \<and> (\<exists>e' \<in> set es. same_recording e' (key_of e)) \<or>
       prefix es fs \<and> lists d (document_text d u (before_text es @ entry_text e)) fs"
      using k(2)[OF entry_key_of_entry[OF assms(5)]] True unfolding upsert_outcome_def by blast
    have "prefix es fs \<and> (\<exists>e' \<in> set fs. same_recording e' (key_of e))"
    proof (cases "fs = es \<and> (\<exists>e' \<in> set es. same_recording e' (key_of e))")
      case False
      then have f: "prefix es fs" "lists d (document_text d u (before_text es @ entry_text e)) fs" using fs(3) by blast+
      have "list_all entry_ok fs" using f(2) by (auto simp: lists_def entries_ok_def)
      then have "list_all entry_ok es" by (rule prefix_entries[OF f(1)])
      then have "fs = es @ [e]" by (rule document_appended[OF f(2) _ assms(5) iso_clean[OF u]])
      then show ?thesis using same_recording_self[of e] by auto
    qed auto
    then show ?thesis using k(1) fs(1) by (auto simp: upsert_keeps_def)
  qed
qed

lemma append_run_invariant:
  assumes "committed d M B w es" "records es acks" "honest w" "store_paths M T B" "entry_ok e"
    "device_manifest_upsert_file (Some M) (Some T) (Some d) (Some u) (Some (entry_text e)) w = (r, w')"
  shows "honest w' \<and> (\<exists>es'. committed d M B w' es' \<and> records es' (if r = DEVICE_MANIFEST_OK then acks @ [e] else acks))"
proof -
  obtain es' where es': "store_step {M, T, B} w w'" "prefix es es'" "committed d M B w' es'"
    "r = DEVICE_MANIFEST_OK \<longrightarrow> (\<exists>e' \<in> set es'. same_recording e' (key_of e))"
    using upsert_entry_kept[OF assms(6,1,4,3,5)] by blast
  have "honest w'" using es'(1) assms(3) by (simp add: store_step_def)
  then show ?thesis using es' records_grow[OF assms(2) es'(2)] records_snoc by (intro conjI exI[of _ es']) auto
qed

lemma store_run_invariant:
  assumes "store_run d M T B w acks" "store_paths M T B"
  shows "honest w \<and> (\<exists>es. committed d M B w es \<and> records es acks)"
  using assms(1)
proof (induction rule: store_run.induct)
  case (start w)
  then have "committed d M B w []" by (simp add: committed_def)
  then show ?case using start by (auto simp: records_def)
next
  case (append_run w acks e u r w')
  then show ?case using append_run_invariant assms(2) by blast
next
  case (other_run w acks w')
  then obtain es where "committed d M B w es" "records es acks" by blast
  moreover have "honest w'" using other_run.hyps(2) by (simp add: elsewhere_def)
  ultimately show ?case using committed_elsewhere[OF other_run.hyps(2)] by blast
next
  case (boot_run w acks w1 r w')
  then obtain es where es: "committed d M B w es" "records es acks" by blast
  have h: "honest w1" "\<not> unsynced w1 T" using boot_run.hyps(2) by (simp_all add: boots_def)
  note k = recover_tmp_committed[OF boot_run.hyps(3) committed_boots[OF boot_run.hyps(2) es(1)] assms(2) h]
  have "honest w'" using k(1) h by (simp add: store_step_def)
  then show ?case using k(2) records_grow[OF es(2)] by blast
qed

text \<open>
  C1: No acknowledged recording is lost. After any run of appends, with any I/O errors, torn writes and
  power losses in any of the calls, on the file system of the device, the next boot without faults
  recovers: \<open>device_manifest_recover_tmp\<close> succeeds, and the manifest is then a valid snapshot for this
  device that lists every entry whose append had returned \<open>DEVICE_MANIFEST_OK\<close>. The errors are any but an
  \<open>ENOENT\<close> for a file that exists, and the three paths are no directories.
\<close>

theorem acknowledged_recordings_survive:
  assumes "store_paths M T B" "device_identity_is_valid_uuid (Some d)" "store_run d M T B w acks" "acks \<noteq> []"
    "boots w w1" "quiet w1" "\<not> dirs w1 M" "\<not> dirs w1 T" "\<not> dirs w1 B"
  shows "\<exists>w2 doc es. device_manifest_recover_tmp (Some M) (Some T) (Some d) w1 = (True, w2) \<and>
    files w2 M = Some (bytes_of_string doc) \<and> manifest_snapshot_valid (Some doc) (Some d) \<and> lists d doc es \<and>
    (\<forall>e \<in> set acks. \<exists>e' \<in> set es. same_recording e' (key_of e))"
proof -
  obtain es where es: "committed d M B w es" "records es acks" using store_run_invariant[OF assms(3,1)] by blast
  have c: "committed d M B w1 es" by (rule committed_boots[OF assms(5) es(1)])
  have ne: "es \<noteq> []" using es(2) assms(4) by (cases acks) (auto simp: records_def)
  obtain r w2 where r: "device_manifest_recover_tmp (Some M) (Some T) (Some d) w1 = (r, w2)" by fastforce
  have "fst (device_manifest_recover_tmp (Some M) (Some T) (Some d) w1)"
    by (rule recover_tmp_quiet[OF assms(6) c ne assms(1,2,7,8,9)])
  then have ok: "r" using r by simp
  have "\<not> unsynced w1 T" using assms(5) by (simp add: boots_def)
  note k = recover_tmp_committed(2)[OF r c assms(1) quiet_honest[OF assms(6)] this]
  obtain es' where e: "prefix es es'" "holds d M w2 es'" using k ok by blast
  obtain doc where doc: "files w2 M = Some (bytes_of_string doc)" "lists d doc es'" using e(2) by (auto simp: holds_def)
  have "records es' acks" by (rule records_grow[OF es(2) e(1)])
  then show ?thesis using r ok doc lists_valid[OF doc(2)] unfolding records_def
    by (intro exI[of _ w2] exI[of _ doc] exI[of _ es']) simp
qed

definition rebooted :: "io_world \<Rightarrow> io_world" where
  "rebooted w = empty_card\<lparr>files := files w\<rparr>"

lemma acknowledged_recordings_survive_witness:
  "\<exists>w2 doc es. device_manifest_recover_tmp (Some MANIFEST_PATH) (Some MANIFEST_TMP_PATH) (Some sample_uuid) (rebooted (snd first_append)) = (True, w2) \<and>
    files w2 MANIFEST_PATH = Some (bytes_of_string doc) \<and> manifest_snapshot_valid (Some doc) (Some sample_uuid) \<and> lists sample_uuid doc es \<and>
    (\<forall>e \<in> set [sample_entry]. \<exists>e' \<in> set es. same_recording e' (key_of e))"
proof -
  obtain r w where 1: "first_append = (r, w)" by fastforce
  have start: "store_run sample_uuid MANIFEST_PATH MANIFEST_TMP_PATH MANIFEST_BAK_PATH empty_card []"
    by (rule store_run.start) (simp_all add: empty_card_def honest_def)
  have "r = DEVICE_MANIFEST_OK" using upsert_new_first unfolding 1 fst_conv .
  then have run: "store_run sample_uuid MANIFEST_PATH MANIFEST_TMP_PATH MANIFEST_BAK_PATH w [sample_entry]"
    using store_run.append_run[OF start sample_entry_ok 1[unfolded first_append_def]] by simp
  have b: "boots w (rebooted w)" by (simp add: boots_def rebooted_def card_after_power_loss_def empty_card_def honest_def)
  have q: "quiet (rebooted w)" "\<not> dirs (rebooted w) p" for p by (simp_all add: rebooted_def empty_card_def quiet_def)
  show ?thesis unfolding 1 snd_conv
    by (rule acknowledged_recordings_survive[OF sample_paths sample_uuid_valid run _ b q(1) q(2) q(2) q(2)]) simp
qed

end
