(* ===== verification/Manifest_Scan.thy ===== *)
theory Manifest_Scan
  imports Manifest_Safety
begin

text \<open>
  The boot scan of \<open>firmware/components/recorder/device_manifest.c\<close>: every finalized WAV below the recordings
  directory is hashed and put into the manifest, and a scan that succeeds proves that the manifest is a
  complete inventory. The operations are \<open>finalized_wav_valid\<close>, \<open>device_manifest_hash_wav_file\<close>,
  \<open>manifest_recording_count\<close>, \<open>ensure_one_wav\<close> and \<open>device_manifest_sync_wav_dir\<close> with their helpers.

  A directory stream is the list of the names it still returns. \<open>readdir\<close> and \<open>closedir\<close> take their outcome
  from the script of the world, like every other call. The two counters of the scan, its two out parameters
  and its two static variables are one record.
\<close>

section \<open>Operations\<close>

text \<open>A failed \<open>readdir\<close> sets \<open>errno\<close>, which the caller had cleared; \<open>Some []\<close> is the end of the directory.\<close>

definition c_readdir :: "string list \<Rightarrow> io_world \<Rightarrow> string list option \<times> io_world" where
  "c_readdir names w = (case io_try w of (ok, w) \<Rightarrow> (if ok then Some names else None, w))"

definition c_closedir :: "io_world \<Rightarrow> bool \<times> io_world" where
  "c_closedir w = io_try w"

fun wav_u16 :: "byte list \<Rightarrow> u16" where
  "wav_u16 (a # b # _) = ucast a OR push_bit 8 (ucast b)"
| "wav_u16 _ = 0"

fun wav_u32 :: "byte list \<Rightarrow> u32" where
  "wav_u32 (a # b # c # d # _) =
     ucast a OR push_bit 8 (ucast b) OR push_bit 16 (ucast c) OR push_bit 24 (ucast d)"
| "wav_u32 _ = 0"

definition wav_header_canonical :: "byte list \<Rightarrow> u32 \<Rightarrow> bool" where
  "wav_header_canonical header total_size \<longleftrightarrow>
     take 4 header = bytes_of_string ''RIFF'' \<and>
     wav_u32 (drop 4 header) = total_size - 8 \<and>
     take 8 (drop 8 header) = bytes_of_string ''WAVEfmt '' \<and>
     wav_u32 (drop 16 header) = 16 \<and>
     wav_u16 (drop 20 header) = 1 \<and>
     wav_u16 (drop 22 header) = of_nat RECORDER_CHANNELS \<and>
     wav_u32 (drop 24 header) = of_nat RECORDER_SAMPLE_RATE_HZ \<and>
     wav_u32 (drop 28 header) = of_nat RECORDER_BYTE_RATE \<and>
     wav_u16 (drop 32 header) = of_nat RECORDER_BLOCK_ALIGN \<and>
     wav_u16 (drop 34 header) = of_nat RECORDER_BITS_PER_SAMPLE \<and>
     take 4 (drop 36 header) = bytes_of_string ''data'' \<and>
     wav_u32 (drop 40 header) = total_size - of_nat RECORDER_WAV_HEADER_SIZE"

definition finalized_wav_valid :: "string \<Rightarrow> u32 \<Rightarrow> io_world \<Rightarrow> bool \<times> io_world" where
  "finalized_wav_valid path total_size w =
     (if total_size < of_nat RECORDER_WAV_HEADER_SIZE \<or>
         (total_size - of_nat RECORDER_WAV_HEADER_SIZE) mod of_nat RECORDER_BLOCK_ALIGN \<noteq> 0 then (False, w)
      else case fopen RB path w of
        (None, w) \<Rightarrow> (False, w)
      | (Some fp, w) \<Rightarrow>
          (case fread fp RECORDER_WAV_HEADER_SIZE w of (header, fp, w) \<Rightarrow>
           case fclose fp w of (closed, w) \<Rightarrow>
           if \<not> closed then (False, w)
           else (length header = RECORDER_WAV_HEADER_SIZE \<and> wav_header_canonical header total_size, w)))"

definition ends_in :: "string \<Rightarrow> string \<Rightarrow> bool" where
  "ends_in name ending \<longleftrightarrow> drop (length name - length ending) name = ending"

text \<open>
  The result is \<open>Some\<close> of \<open>out_hex\<close> and \<open>*out_size_bytes\<close>. The file is measured before and after it is hashed.
\<close>

fun device_manifest_hash_wav_file :: "string ptr \<Rightarrow> io_world \<Rightarrow> (string \<times> u32) option \<times> io_world" where
  "device_manifest_hash_wav_file None w = (None, w)"
| "device_manifest_hash_wav_file (Some wav_path) w =
     (let len = length wav_path in
      if wav_path = [] then (None, w)
      else if len < 5 \<or> \<not> ends_in wav_path ''.wav'' then (None, w)
      else if len \<ge> 9 \<and> ends_in wav_path ''.wav.part'' then (None, w)
      else case c_stat wav_path w of
        (None, w) \<Rightarrow> (None, w)
      | (Some StatDir, w) \<Rightarrow> (None, w)
      | (Some (StatFile n), w) \<Rightarrow>
          if n < RECORDER_WAV_HEADER_SIZE \<or> n > 2 ^ 32 - 1 then (None, w)
          else case finalized_wav_valid wav_path (of_nat n) w of (valid, w) \<Rightarrow>
          if \<not> valid then (None, w)
          else case sha256_file_hex (Some wav_path) w of
            (None, w) \<Rightarrow> (None, w)
          | (Some hex, w) \<Rightarrow>
              (case c_stat wav_path w of (after, w) \<Rightarrow>
               if after = None \<or> st_size (the after) \<noteq> n then (None, w) else (Some (hex, of_nat n), w)))"

datatype device_manifest_scan_error_t =
    DEVICE_MANIFEST_SCAN_OK
  | DEVICE_MANIFEST_SCAN_INVALID_INPUT
  | DEVICE_MANIFEST_SCAN_DIRECTORY_ERROR
  | DEVICE_MANIFEST_SCAN_WAV_UNREADABLE
  | DEVICE_MANIFEST_SCAN_INDEX_CONFLICT
  | DEVICE_MANIFEST_SCAN_INDEX_WRITE_ERROR
  | DEVICE_MANIFEST_SCAN_MISSING_WAV

fun device_manifest_scan_error_name :: "device_manifest_scan_error_t \<Rightarrow> string" where
  "device_manifest_scan_error_name DEVICE_MANIFEST_SCAN_OK = ''OK''"
| "device_manifest_scan_error_name DEVICE_MANIFEST_SCAN_INVALID_INPUT = ''INVALID_INPUT''"
| "device_manifest_scan_error_name DEVICE_MANIFEST_SCAN_DIRECTORY_ERROR = ''DIRECTORY_ERROR''"
| "device_manifest_scan_error_name DEVICE_MANIFEST_SCAN_WAV_UNREADABLE = ''WAV_UNREADABLE''"
| "device_manifest_scan_error_name DEVICE_MANIFEST_SCAN_INDEX_CONFLICT = ''INDEX_CONFLICT''"
| "device_manifest_scan_error_name DEVICE_MANIFEST_SCAN_INDEX_WRITE_ERROR = ''INDEX_WRITE_ERROR''"
| "device_manifest_scan_error_name DEVICE_MANIFEST_SCAN_MISSING_WAV = ''MISSING_WAV''"

text \<open>The loop over the document that counts the entries.\<close>

definition ID_KEY :: string where
  "ID_KEY = ''\"recordingId\":''"

function count_id_keys :: "string \<Rightarrow> nat" where
  "count_id_keys doc =
     (case memfind ID_KEY doc of None \<Rightarrow> 0 | Some i \<Rightarrow> Suc (count_id_keys (drop (i + length ID_KEY) doc)))"
  by auto
termination
proof (relation "measure length", goal_cases)
  case (2 doc i)
  then show ?case using memfind_some[of ID_KEY doc i] by (auto simp: ID_KEY_def)
qed simp

definition manifest_recording_count :: "string \<Rightarrow> string ptr \<Rightarrow> io_world \<Rightarrow> u32 option \<times> io_world" where
  "manifest_recording_count path device_id w =
     (case read_file_bounded (Some path) RECORDER_MANIFEST_MAX_BYTES w of
        (None, w) \<Rightarrow> (None, w)
      | (Some doc, w) \<Rightarrow>
          (if \<not> manifest_snapshot_valid (Some doc) device_id then None else Some (of_nat (count_id_keys doc)), w))"

fun audience_wav_name :: "string ptr \<Rightarrow> bool" where
  "audience_wav_name None = False"
| "audience_wav_name (Some name) =
     (if length name < 5 \<or> \<not> ends_in name ''.wav'' then False
      else if length name \<ge> 9 \<and> ends_in name ''.wav.part'' then False
      else True)"

fun split_wav_name :: "string ptr \<Rightarrow> string option" where
  "split_wav_name None = None"
| "split_wav_name (Some base) =
     (if length base < 11 then None
      else if \<not> list_all ascii_digit (take 6 base) then None
      else if base ! 6 \<noteq> CHR ''_'' then None
      else Some (take 6 base))"

fun date_dir_has_shape :: "string ptr \<Rightarrow> bool" where
  "date_dir_has_shape None = False"
| "date_dir_has_shape (Some name) =
     (if length name \<noteq> 10 \<or> name ! 4 \<noteq> CHR ''-'' \<or> name ! 7 \<noteq> CHR ''-'' then False
      else list_all (\<lambda>i. i = 4 \<or> i = 7 \<or> ascii_digit (name ! i)) [0..<10])"

fun valid_date_dir :: "string ptr \<Rightarrow> bool" where
  "valid_date_dir None = False"
| "valid_date_dir (Some name) =
     (if \<not> date_dir_has_shape (Some name) then False
      else valid_calendar_date (four_digits name) (two_digits name 5) (two_digits name 8))"

text \<open>The static variables, the out parameters and the local counters of a scan.\<close>

record scan_t =
  s_scan_error :: device_manifest_scan_error_t
  s_scan_indexed :: u32
  out_added :: u32
  out_skipped :: u32
  indexed :: u32
  skipped :: u32

definition skip_one :: "scan_t \<Rightarrow> scan_t" where
  "skip_one st = st\<lparr>skipped := skipped st + 1\<rparr>"

definition scan_failed :: "device_manifest_scan_error_t \<Rightarrow> scan_t \<Rightarrow> scan_t" where
  "scan_failed e st = st\<lparr>s_scan_error := e\<rparr>"

definition started_of :: "string \<Rightarrow> string \<Rightarrow> string" where
  "started_of date_part time6 =
     take 4 date_part @ ''-'' @ take 2 (drop 5 date_part) @ ''-'' @ take 2 (drop 8 date_part) @ ''T'' @
     take 2 time6 @ '':'' @ take 2 (drop 2 time6) @ '':'' @ take 2 (drop 4 time6) @ ''+00:00''"

text \<open>The identity of a WAV: the id from its name and the time it started; \<open>None\<close>: it is skipped.\<close>

definition wav_identity :: "string ptr \<Rightarrow> string \<Rightarrow> (string \<times> string) option" where
  "wav_identity date_dir_or_null base =
     (case device_manifest_extract_recording_id (Some base) 65 of
        None \<Rightarrow> None
      | Some rec_id \<Rightarrow>
          if \<not> device_identity_is_valid_uuid (Some rec_id) then None
          else case date_dir_or_null of
            None \<Rightarrow> None
          | Some date_part \<Rightarrow>
              if \<not> valid_date_dir (Some date_part) then None
              else case split_wav_name (Some base) of
                None \<Rightarrow> None
              | Some time6 \<Rightarrow>
                  (case snprintf_fits RECORDER_ISO8601_STR_LEN (started_of date_part time6) of
                     None \<Rightarrow> None
                   | Some started \<Rightarrow>
                       if \<not> device_manifest_is_valid_iso8601_offset (Some started) then None
                       else Some (rec_id, started)))"

definition ensure_one_wav ::
    "string \<Rightarrow> string \<Rightarrow> string ptr \<Rightarrow> string \<Rightarrow> string \<Rightarrow> string \<Rightarrow> string \<Rightarrow> string \<Rightarrow> string \<Rightarrow> scan_t \<Rightarrow> io_world \<Rightarrow>
     bool \<times> scan_t \<times> io_world" where
  "ensure_one_wav wav_path rel_filename date_dir_or_null base manifest_path tmp_path device_id updated_at state st w =
     (case wav_identity date_dir_or_null base of
        None \<Rightarrow> (True, skip_one st, w)
      | Some (rec_id, started) \<Rightarrow>
          (case device_manifest_hash_wav_file (Some wav_path) w of
             (None, w) \<Rightarrow> (False, skip_one (scan_failed DEVICE_MANIFEST_SCAN_WAV_UNREADABLE st), w)
           | (Some (sha, size_bytes), w) \<Rightarrow>
               if size_bytes < of_nat RECORDER_WAV_HEADER_SIZE
               then (False, skip_one (scan_failed DEVICE_MANIFEST_SCAN_WAV_UNREADABLE st), w)
               else let pcm_bytes = size_bytes - of_nat RECORDER_WAV_HEADER_SIZE;
                        pcm_bytes = pcm_bytes - pcm_bytes mod of_nat RECORDER_BYTES_PER_SAMPLE;
                        duration = device_manifest_duration_ms pcm_bytes in
               case c_malloc w of (ok, w) \<Rightarrow>
               if \<not> ok then (False, skip_one (scan_failed DEVICE_MANIFEST_SCAN_INDEX_WRITE_ERROR st), w)
               else case device_manifest_build_entry (Some rec_id) (Some rel_filename) (Some started) duration size_bytes
                      (Some sha) RECORDER_SAMPLE_RATE_HZ RECORDER_BITS_PER_SAMPLE RECORDER_CHANNELS (Some state) None
                      RECORDER_MANIFEST_ENTRY_MAX of
                 None \<Rightarrow> (False, skip_one (scan_failed DEVICE_MANIFEST_SCAN_INDEX_WRITE_ERROR st), w)
               | Some entry \<Rightarrow>
                   (case device_manifest_upsert_file (Some manifest_path) (Some tmp_path) (Some device_id) (Some updated_at)
                           (Some entry) w of
                      (DEVICE_MANIFEST_OK, w) \<Rightarrow> (True, st\<lparr>indexed := indexed st + 1\<rparr>, w)
                    | (DEVICE_MANIFEST_CONFLICT, w) \<Rightarrow> (False, skip_one (scan_failed DEVICE_MANIFEST_SCAN_INDEX_CONFLICT st), w)
                    | (DEVICE_MANIFEST_ERROR, w) \<Rightarrow>
                        (False, skip_one (scan_failed DEVICE_MANIFEST_SCAN_INDEX_WRITE_ERROR st), w))))"

text \<open>
  The loop over one date directory. The result \<open>False\<close> means that the scan returns false with both
  directories closed; then \<open>out_added\<close> and \<open>out_skipped\<close> are set where the code sets them.
\<close>

definition close_both :: "io_world \<Rightarrow> io_world" where
  "close_both w = snd (c_closedir (snd (c_closedir w)))"

fun sync_sub ::
    "string \<Rightarrow> string \<Rightarrow> string \<Rightarrow> string \<Rightarrow> string \<Rightarrow> string \<Rightarrow> string \<Rightarrow> string list \<Rightarrow> scan_t \<Rightarrow> io_world \<Rightarrow>
     bool \<times> scan_t \<times> io_world" where
  "sync_sub child day manifest_path tmp_path device_id updated_at state [] st w =
     (case c_readdir [] w of
        (None, w) \<Rightarrow> (False, scan_failed DEVICE_MANIFEST_SCAN_DIRECTORY_ERROR st, close_both w)
      | (Some _, w) \<Rightarrow>
          (case c_closedir w of (closed, w) \<Rightarrow>
           if \<not> closed then (False, scan_failed DEVICE_MANIFEST_SCAN_DIRECTORY_ERROR st, snd (c_closedir w))
           else (True, st, w)))"
| "sync_sub child day manifest_path tmp_path device_id updated_at state (name # names) st w =
     (case c_readdir (name # names) w of
        (None, w) \<Rightarrow> (False, scan_failed DEVICE_MANIFEST_SCAN_DIRECTORY_ERROR st, close_both w)
      | (Some _, w) \<Rightarrow>
          let next = sync_sub child day manifest_path tmp_path device_id updated_at state names;
              wav = child @ ''/'' @ name;
              rel = ''recordings/'' @ day @ ''/'' @ name in
          if name = ''.'' \<or> name = ''..'' then next st w
          else if \<not> audience_wav_name (Some name) then next st w
          else if length wav \<ge> RECORDER_MAX_PATH_LEN \<or> length rel \<ge> 192
          then (False, scan_failed DEVICE_MANIFEST_SCAN_DIRECTORY_ERROR st, close_both w)
          else case ensure_one_wav wav rel (Some day) name manifest_path tmp_path device_id updated_at state st w of
            (False, st, w) \<Rightarrow> (False, st\<lparr>out_added := 0, out_skipped := skipped st\<rparr>, close_both w)
          | (True, st, w) \<Rightarrow> next st w)"

text \<open>The loop over the recordings directory.\<close>

fun sync_dir ::
    "string \<Rightarrow> string \<Rightarrow> string \<Rightarrow> string \<Rightarrow> string \<Rightarrow> string \<Rightarrow> string list \<Rightarrow> scan_t \<Rightarrow> io_world \<Rightarrow> bool \<times> scan_t \<times> io_world" where
  "sync_dir recordings_dir manifest_path tmp_path device_id updated_at state [] st w =
     (case c_readdir [] w of
        (None, w) \<Rightarrow> (False, scan_failed DEVICE_MANIFEST_SCAN_DIRECTORY_ERROR st, snd (c_closedir w))
      | (Some _, w) \<Rightarrow>
          (case c_closedir w of (closed, w) \<Rightarrow>
           if \<not> closed then (False, scan_failed DEVICE_MANIFEST_SCAN_DIRECTORY_ERROR st, w) else (True, st, w)))"
| "sync_dir recordings_dir manifest_path tmp_path device_id updated_at state (name # names) st w =
     (case c_readdir (name # names) w of
        (None, w) \<Rightarrow> (False, scan_failed DEVICE_MANIFEST_SCAN_DIRECTORY_ERROR st, snd (c_closedir w))
      | (Some _, w) \<Rightarrow>
          let next = sync_dir recordings_dir manifest_path tmp_path device_id updated_at state names;
              child = recordings_dir @ ''/'' @ name in
          if name = ''.'' \<or> name = ''..'' then next st w
          else if length child \<ge> RECORDER_MAX_PATH_LEN
          then (False, scan_failed DEVICE_MANIFEST_SCAN_DIRECTORY_ERROR st, snd (c_closedir w))
          else case c_stat child w of (child_st, w) \<Rightarrow>
          if child_st = None \<or> date_dir_has_shape (Some name) \<and> (\<not> valid_date_dir (Some name) \<or> child_st \<noteq> Some StatDir)
          then (False, scan_failed DEVICE_MANIFEST_SCAN_DIRECTORY_ERROR st, snd (c_closedir w))
          else if child_st = Some StatDir
          then (if \<not> valid_date_dir (Some name) then next st w
                else case c_opendir child w of
                  (None, w) \<Rightarrow> (False, scan_failed DEVICE_MANIFEST_SCAN_DIRECTORY_ERROR st, snd (c_closedir w))
                | (Some subnames, w) \<Rightarrow>
                    (case sync_sub child name manifest_path tmp_path device_id updated_at state subnames st w of
                       (False, st, w) \<Rightarrow> (False, st, w)
                     | (True, st, w) \<Rightarrow> next st w))
          else next (if audience_wav_name (Some name) then skip_one st else st) w)"

definition scan_start :: scan_t where
  "scan_start = \<lparr>s_scan_error = DEVICE_MANIFEST_SCAN_INVALID_INPUT, s_scan_indexed = 0, out_added = 0, out_skipped = 0,
     indexed = 0, skipped = 0\<rparr>"

definition sync_scan ::
    "string \<Rightarrow> string \<Rightarrow> string \<Rightarrow> string \<Rightarrow> string \<Rightarrow> string \<Rightarrow> io_world \<Rightarrow> bool \<times> scan_t \<times> io_world" where
  "sync_scan recordings_dir manifest_path tmp_path device_id updated_at state w =
     (case manifest_recording_count manifest_path (Some device_id) w of
        (None, w) \<Rightarrow> (False, scan_failed DEVICE_MANIFEST_SCAN_INDEX_WRITE_ERROR scan_start, w)
      | (Some before_count, w) \<Rightarrow>
          (case c_opendir recordings_dir w of
             (None, w) \<Rightarrow> (False, scan_failed DEVICE_MANIFEST_SCAN_DIRECTORY_ERROR scan_start, w)
           | (Some names, w) \<Rightarrow>
               (case sync_dir recordings_dir manifest_path tmp_path device_id updated_at state names
                       (scan_failed DEVICE_MANIFEST_SCAN_OK scan_start) w of
                  (False, st, w) \<Rightarrow> (False, st, w)
                | (True, st, w) \<Rightarrow>
                    (case manifest_recording_count manifest_path (Some device_id) w of
                       (None, w) \<Rightarrow> (False, scan_failed DEVICE_MANIFEST_SCAN_INDEX_WRITE_ERROR st, w)
                     | (Some after_count, w) \<Rightarrow>
                         if after_count \<noteq> indexed st \<or> after_count < before_count
                         then (False, (scan_failed DEVICE_MANIFEST_SCAN_MISSING_WAV st)\<lparr>out_skipped := skipped st\<rparr>, w)
                         else (True, st\<lparr>s_scan_indexed := indexed st, out_added := after_count - before_count,
                                        out_skipped := skipped st\<rparr>, w)))))"

fun device_manifest_sync_wav_dir ::
    "string ptr \<Rightarrow> string ptr \<Rightarrow> string ptr \<Rightarrow> string ptr \<Rightarrow> string ptr \<Rightarrow> string ptr \<Rightarrow> io_world \<Rightarrow> bool \<times> scan_t \<times> io_world" where
  "device_manifest_sync_wav_dir (Some recordings_dir) (Some manifest_path) (Some tmp_path) device_id updated_at state w =
     (if recordings_dir = [] \<or> manifest_path = [] \<or> tmp_path = [] then (False, scan_start, w)
      else if \<not> device_identity_is_valid_uuid device_id \<or> \<not> device_manifest_is_valid_iso8601_offset updated_at
      then (False, scan_start, w)
      else if state \<noteq> Some DEVICE_MANIFEST_STATE_FINALIZED \<and> state \<noteq> Some DEVICE_MANIFEST_STATE_RECOVERED
      then (False, scan_start, w)
      else sync_scan recordings_dir manifest_path tmp_path (the device_id) (the updated_at) (the state) w)"
| "device_manifest_sync_wav_dir _ _ _ _ _ _ w = (False, scan_start, w)"

declare count_id_keys.simps [simp del] device_manifest_hash_wav_file.simps [simp del] sha256_file_hex.simps [simp del]

section \<open>Counting the entries\<close>

fun key_pair :: "string list \<Rightarrow> bool" where
  "key_pair (x # y # r) = (x = ''recordingId'' \<and> take 1 y = '':'' \<or> key_pair (y # r))"
| "key_pair _ = False"

lemma key_pair_mem: "key_pair (l @ ''recordingId'' # (CHR '':'' # y) # r)"
proof (induction l)
  case (Cons z l)
  then show ?case by (cases l) auto
qed simp

lemma id_key_absent:
  assumes "\<not> key_pair (segs q)" shows "memfind ID_KEY q = None"
proof (rule ccontr)
  assume "memfind ID_KEY q \<noteq> None"
  then obtain i where "memfind ID_KEY q = Some i" by auto
  then have "take (length ID_KEY) (drop i q) = ID_KEY" using memfind_some by blast
  then have "q = take i q @ ID_KEY @ drop (length ID_KEY) (drop i q)" by (metis append_take_drop_id)
  then obtain a b where q: "q = a @ CHR 0x22 # ''recordingId'' @ CHR 0x22 # CHR '':'' # b"
    unfolding ID_KEY_def by (metis append.assoc append_Cons append_Nil)
  have k: "list_all json_clean ''recordingId''" by (simp add: json_clean_def)
  obtain h t where ht: "segs b = h # t" using segs_nonempty[of b] by (cases "segs b") auto
  have "segs (CHR '':'' # b) = (CHR '':'' # h) # t" using ht by simp
  then have "segs q = segs a @ ''recordingId'' # (CHR '':'' # h) # t" unfolding q segs_quoted[OF k] by simp
  then show False using key_pair_mem[of "segs a" h t] assms by simp
qed

lemma count_id_keys_step:
  assumes "memfind ID_KEY a = None" "a = [] \<or> last a \<notin> set ID_KEY"
  shows "count_id_keys (a @ ID_KEY @ b) = Suc (count_id_keys b)"
proof -
  have "memfind ID_KEY (a @ ID_KEY @ b) = Some (length a)"
    by (rule memfind_first[OF _ assms]) (simp add: ID_KEY_def)
  then show ?thesis by (subst count_id_keys.simps) simp
qed

lemma count_id_keys_absent: "memfind ID_KEY a = None \<Longrightarrow> count_id_keys a = 0"
  by (subst count_id_keys.simps) simp

text \<open>The text of an entry behind its first key has no such key.\<close>

definition entry_rest :: "manifest_entry \<Rightarrow> string" where
  "entry_rest e = drop (Suc (length ID_KEY)) (entry_text e)"

lemma entry_text_rest: "entry_text e = CHR ''{'' # ID_KEY @ entry_rest e"
  by (simp add: entry_rest_def entry_text_def ID_KEY_def)

lemma entry_rest_absent:
  assumes "entry_fields_ok e" "list_all json_clean s"
  shows "memfind ID_KEY (entry_rest e @ s) = None"
proof (rule id_key_absent)
  have k: "list_all json_clean ''recordingId''" by (simp add: json_clean_def)
  obtain h t where ht: "segs (entry_rest e @ s) = h # t" using segs_nonempty[of "entry_rest e @ s"] by (cases "segs (entry_rest e @ s)") auto
  have 1: "segs (entry_text e @ s) = entry_segs e @ [CHR ''}'' # s]" using segs_entry[OF assms(1) segs_clean[OF assms(2)]] by simp
  have eq: "entry_text e @ s = ''{'' @ CHR 0x22 # ''recordingId'' @ CHR 0x22 # CHR '':'' # entry_rest e @ s"
    by (simp add: entry_text_rest ID_KEY_def)
  have c: "segs (CHR '':'' # entry_rest e @ s) = (CHR '':'' # h) # t" using ht by simp
  have "segs (entry_text e @ s) = segs ''{'' @ ''recordingId'' # (CHR '':'' # h) # t" unfolding eq segs_quoted[OF k] c ..
  then have "h # t = [] # drop 3 (entry_segs e) @ [CHR ''}'' # s]" using 1 by (simp add: entry_segs_def)
  then show "\<not> key_pair (segs (entry_rest e @ s))" unfolding ht by (simp add: entry_segs_def)
qed

lemma count_body:
  assumes "memfind ID_KEY (a @ ''{'') = None" "list_all entry_fields_ok (e # es)"
  shows "count_id_keys (a @ body_text (e # es) @ '']}'') = length (e # es)"
  using assms
proof (induction es arbitrary: a e)
  case Nil
  have "memfind ID_KEY (entry_rest e @ '']}'') = None" using Nil(2) by (intro entry_rest_absent) (simp_all add: json_clean_def)
  then show ?case using count_id_keys_step[OF Nil(1), of "entry_rest e @ '']}''"]
    by (simp add: entry_text_rest count_id_keys_absent) (simp add: ID_KEY_def)
next
  case (Cons e' es)
  have "memfind ID_KEY (entry_rest e @ '',{'') = None" using Cons(3) by (intro entry_rest_absent) (simp_all add: json_clean_def)
  then have "count_id_keys ((entry_rest e @ '','') @ body_text (e' # es) @ '']}'') = length (e' # es)"
    using Cons(3) by (intro Cons.IH) simp_all
  then show ?case using count_id_keys_step[OF Cons(2), of "entry_rest e @ '','' @ body_text (e' # es) @ '']}''"]
    by (simp add: entry_text_rest) (simp add: ID_KEY_def)
qed

lemma count_entries:
  assumes "lists d doc es" shows "count_id_keys doc = length es"
proof -
  obtain u where a: "doc = document_text d u (body_text es)" "list_all json_clean u" "list_all json_clean d" "list_all entry_ok es"
    using assms by (rule listsE)
  have h: "memfind ID_KEY (doc_head d u @ s) = None" if "list_all json_clean s" for s
    using segs_head[OF a(3,2) segs_clean[OF that]] by (intro id_key_absent) (simp add: head_segs_def)
  have f: "list_all entry_fields_ok es" using a(4) by (simp add: list_all_iff entry_ok_iff)
  show ?thesis
  proof (cases es)
    case Nil
    then show ?thesis using h[of "'']}''"] unfolding a(1) document_head by (simp add: count_id_keys_absent json_clean_def)
  next
    case (Cons e fs)
    then show ?thesis using count_body[of "doc_head d u" e fs] h[of "''{''"] f unfolding a(1) document_head by (simp add: json_clean_def)
  qed
qed

lemma manifest_recording_count_holds:
  assumes "manifest_recording_count p (Some d) w = (Some n, w')" "device_identity_is_valid_uuid (Some d)"
  shows "same_card w w'" "\<exists>es. holds d p w es \<and> n = of_nat (length es)"
proof -
  obtain rd w1 where 1: "read_file_bounded (Some p) RECORDER_MANIFEST_MAX_BYTES w = (rd, w1)" by fastforce
  obtain doc where doc: "rd = Some doc" "manifest_snapshot_valid (Some doc) (Some d)" "n = of_nat (count_id_keys doc)" "w' = w1"
    using assms(1) 1 by (cases rd) (auto simp: manifest_recording_count_def simp del: manifest_snapshot_valid.simps split: if_splits)
  show "same_card w w'" using read_file_bounded_same[OF 1] doc(4) by simp
  obtain es where l: "lists d doc es" using valid_lists[OF doc(2) assms(2)] by blast
  have "files w p = Some (bytes_of_string doc) \<and> length doc \<le> RECORDER_MANIFEST_MAX_BYTES"
    using read_file_bounded_some[of p _ w doc w1] 1 doc(1) by simp
  then show "\<exists>es. holds d p w es \<and> n = of_nat (length es)" using l count_entries[OF l] doc(3) unfolding holds_def by auto
qed

lemma manifest_recording_count_same:
  assumes "manifest_recording_count p d w = (n, w')" shows "same_card w w'"
proof -
  obtain rd w1 where 1: "read_file_bounded (Some p) RECORDER_MANIFEST_MAX_BYTES w = (rd, w1)" by fastforce
  have "w' = w1" using assms 1 by (auto simp: manifest_recording_count_def split: option.splits)
  then show ?thesis using read_file_bounded_same[OF 1] by simp
qed

lemma holds_short:
  assumes "holds d p w es" shows "length es \<le> RECORDER_MANIFEST_MAX_BYTES"
proof -
  have b: "length es \<le> length (body_text es)"
  proof (induction es rule: body_text.induct)
    case (2 e)
    then show ?case by (simp add: entry_text_rest)
  next
    case (3 e e' es)
    then show ?case by (simp add: entry_text_rest)
  qed simp
  obtain u where "length (document_text d u (body_text es)) \<le> RECORDER_MANIFEST_MAX_BYTES"
    using assms unfolding holds_def lists_def by blast
  then show ?thesis using b by (simp add: document_text_def)
qed

section \<open>What hashing a file tells\<close>

lemma c_readdir_same: "c_readdir l w = (r, w') \<Longrightarrow> same_card w w' \<and> (\<forall>l'. r = Some l' \<longrightarrow> l' = l)"
  using same_cardI[OF io_try_touches io_try_steady] by (auto simp: c_readdir_def split: prod.splits if_splits)

lemma c_closedir_same: "c_closedir w = (ok, w') \<Longrightarrow> same_card w w'"
  unfolding c_closedir_def by (rule same_cardI[OF io_try_touches io_try_steady])

lemma close_both_same: "same_card w (close_both w)"
  unfolding close_both_def by (metis c_closedir_same prod.collapse same_card_trans)

lemma hash_loop_same: "hash_loop ctx fp w = (r, fp', w') \<Longrightarrow> same_card w w'"
proof (induction ctx fp w rule: hash_loop.induct)
  case (1 ctx fp w)
  obtain buf fp1 w1 where r: "fread fp 1024 w = (buf, fp1, w1)" by (metis prod_cases3)
  note s = fread_same[OF r]
  show ?case
    using 1(1)[OF r[symmetric] refl refl] 1(2) r s same_card_trans[OF s]
    by (auto simp: hash_loop.simps[of ctx fp w] Let_def split: if_splits)
qed

lemma sha256_file_hex_same:
  assumes "sha256_file_hex (Some p) w = (r, w')" shows "same_card w w'"
proof (cases "p = []")
  case False
  obtain f w1 where 1: "fopen RB p w = (f, w1)" by fastforce
  show ?thesis
  proof (cases f)
    case None
    then show ?thesis using assms False 1 fopen_rb_same[OF 1] by (simp add: sha256_file_hex.simps)
  next
    case (Some fp)
    let ?ctx = "the (sha256_init (Some \<lparr>sha_state = [], sha_bitlen = 0, sha_data = replicate 64 0, sha_datalen = 0\<rparr>))"
    obtain r2 fp2 w2 where 2: "hash_loop ?ctx fp w1 = (r2, fp2, w2)" by (metis prod_cases3)
    obtain ok w3 where 3: "fclose fp2 w2 = (ok, w3)" by fastforce
    have "w' = w3" using assms False 1 2 3 Some by (auto simp: sha256_file_hex.simps Let_def split: option.splits)
    then show ?thesis using same_card_trans[OF same_card_trans[OF fopen_rb_same[OF 1] hash_loop_same[OF 2]] fclose_same[OF 3]] by simp
  qed
qed (use assms in \<open>simp add: sha256_file_hex.simps\<close>)

lemma finalized_wav_valid_result:
  assumes "finalized_wav_valid p n w = (ok, w')"
  shows "same_card w w'" "ok \<Longrightarrow> files w p = Some c \<Longrightarrow> n \<ge> of_nat RECORDER_WAV_HEADER_SIZE \<and>
    (n - of_nat RECORDER_WAV_HEADER_SIZE) mod of_nat RECORDER_BLOCK_ALIGN = 0 \<and>
    RECORDER_WAV_HEADER_SIZE \<le> length c \<and> wav_header_canonical (take RECORDER_WAV_HEADER_SIZE c) n"
proof -
  obtain f w1 where 1: "fopen RB p w = (f, w1)" by fastforce
  note s1 = fopen_rb_same[OF 1]
  have all: "same_card w w' \<and> (ok \<and> files w p = Some c \<longrightarrow> n \<ge> of_nat RECORDER_WAV_HEADER_SIZE \<and>
    (n - of_nat RECORDER_WAV_HEADER_SIZE) mod of_nat RECORDER_BLOCK_ALIGN = 0 \<and>
    RECORDER_WAV_HEADER_SIZE \<le> length c \<and> wav_header_canonical (take RECORDER_WAV_HEADER_SIZE c) n)"
  proof (cases "n < of_nat RECORDER_WAV_HEADER_SIZE \<or> (n - of_nat RECORDER_WAV_HEADER_SIZE) mod of_nat RECORDER_BLOCK_ALIGN \<noteq> 0")
    case True
    then have "ok = False" "w' = w" using assms unfolding finalized_wav_valid_def by (simp_all only: if_True prod.inject)
    then show ?thesis by simp
  next
    case False
    then have run: "(ok, w') = (case f of None \<Rightarrow> (False, w1) | Some fp \<Rightarrow>
          (case fread fp RECORDER_WAV_HEADER_SIZE w1 of (header, fp, w) \<Rightarrow>
           case fclose fp w of (closed, w) \<Rightarrow>
           if \<not> closed then (False, w)
           else (length header = RECORDER_WAV_HEADER_SIZE \<and> wav_header_canonical header n, w)))"
      using assms 1 unfolding finalized_wav_valid_def by (simp only: if_False prod.case)
    show ?thesis
    proof (cases f)
      case None
      then show ?thesis using run s1 by simp
    next
      case (Some fp)
      obtain h fp2 w2 where 2: "fread fp RECORDER_WAV_HEADER_SIZE w1 = (h, fp2, w2)" by (metis prod_cases3)
      obtain cl w3 where 3: "fclose fp2 w2 = (cl, w3)" by fastforce
      have w': "w' = w3" "ok \<Longrightarrow> length h = RECORDER_WAV_HEADER_SIZE \<and> wav_header_canonical h n"
        using run Some 2 3 by (auto split: if_splits)
      have fp: "fpath fp = p" "fpos fp = 0" using fopen_rb_opened[of p w fp w1] 1 Some by simp_all
      have f1: "files w1 = files w" using s1 by (simp add: same_card_def)
      have "h = take RECORDER_WAV_HEADER_SIZE c \<and> RECORDER_WAV_HEADER_SIZE \<le> length c" if q: "ok" "files w p = Some c"
      proof -
        obtain k where k: "h = take k c" using fread_prefix(1)[OF 2] fp f1 q(2) by auto
        then show ?thesis using w'(2)[OF q(1)] by (auto simp: min_def split: if_splits)
      qed
      then show ?thesis using w' same_card_trans[OF same_card_trans[OF s1 fread_same[OF 2]] fclose_same[OF 3]] False by auto
    qed
  qed
  show "same_card w w'" using all by blast
  show "ok \<Longrightarrow> files w p = Some c \<Longrightarrow> n \<ge> of_nat RECORDER_WAV_HEADER_SIZE \<and>
    (n - of_nat RECORDER_WAV_HEADER_SIZE) mod of_nat RECORDER_BLOCK_ALIGN = 0 \<and>
    RECORDER_WAV_HEADER_SIZE \<le> length c \<and> wav_header_canonical (take RECORDER_WAV_HEADER_SIZE c) n" using all by blast
qed
text \<open>What the scan takes for a finished recording, and an entry that describes a file.\<close>

definition finished_wav :: "byte list \<Rightarrow> bool" where
  "finished_wav c \<longleftrightarrow> RECORDER_WAV_HEADER_SIZE \<le> length c \<and> length c < 2 ^ 32 \<and>
     (length c - RECORDER_WAV_HEADER_SIZE) mod RECORDER_BLOCK_ALIGN = 0 \<and>
     wav_header_canonical (take RECORDER_WAV_HEADER_SIZE c) (of_nat (length c))"

definition describes :: "manifest_entry \<Rightarrow> string \<Rightarrow> byte list \<Rightarrow> bool" where
  "describes e rel c \<longleftrightarrow> me_filename e = rel \<and> me_size e = length c \<and> me_sha e = sha256_to_hex (sha256_spec c)"

lemma stat_regular_file:
  assumes "c_stat p w = (Some (StatFile n), w')" shows "\<exists>c. files w p = Some c \<and> length c = n"
proof -
  obtain ok w1 where t: "io_try w = (ok, w1)" by fastforce
  show ?thesis using assms io_try_same(1)[OF t] by (auto simp: c_stat_def t split: bool.splits option.splits if_splits)
qed

lemma unat_mod_align:
  assumes "n < 2 ^ 32" "44 \<le> n"
  shows "((of_nat n :: u32) - 44) mod 2 = 0 \<longleftrightarrow> (n - 44) mod 2 = 0"
proof -
  have u: "unat (of_nat n :: u32) = n" by (rule unat_of_nat_small) (use assms in simp)
  have "unat ((of_nat n :: u32) - 44) = n - 44" using u assms(2) by (subst unat_sub) (simp_all add: word_le_nat_alt)
  then have "unat (((of_nat n :: u32) - 44) mod 2) = (n - 44) mod 2" by (simp add: unat_mod)
  then show ?thesis by (metis unat_0 unat_eq_zero)
qed

lemma hash_wav_file_result:
  assumes "device_manifest_hash_wav_file (Some p) w = (r, w')"
  shows "same_card w w'" "r = Some (hex, n) \<Longrightarrow> \<exists>c. files w p = Some c \<and> finished_wav c \<and> n = of_nat (length c) \<and>
    hex = sha256_to_hex (sha256_spec c) \<and> sha256_is_valid_hex (Some hex)"
proof -
  have all: "same_card w w' \<and> (r = Some (hex, n) \<longrightarrow> (\<exists>c. files w p = Some c \<and> finished_wav c \<and> n = of_nat (length c) \<and>
    hex = sha256_to_hex (sha256_spec c) \<and> sha256_is_valid_hex (Some hex)))"
  proof (cases "p = [] \<or> length p < 5 \<or> \<not> ends_in p ''.wav'' \<or> length p \<ge> 9 \<and> ends_in p ''.wav.part''")
    case True
    then show ?thesis using assms by (auto simp: device_manifest_hash_wav_file.simps Let_def split: if_splits)
  next
    case False
    obtain st w1 where 1: "c_stat p w = (st, w1)" by fastforce
    note s1 = c_stat_same[OF 1]
    show ?thesis
    proof (cases "\<exists>k. st = Some (StatFile k) \<and> \<not> (k < RECORDER_WAV_HEADER_SIZE \<or> k > 2 ^ 32 - 1)")
      case no: False
      then have "r = None \<and> w' = w1" using assms 1 False
        by (auto simp: device_manifest_hash_wav_file.simps Let_def split: option.splits stat_t.splits if_splits)
      then show ?thesis using s1 by simp
    next
      case True
      then obtain k where k: "st = Some (StatFile k)" "\<not> (k < RECORDER_WAV_HEADER_SIZE \<or> k > 2 ^ 32 - 1)" by blast
      obtain c where c: "files w p = Some c" "length c = k" using stat_regular_file 1 k(1) by blast
      obtain v w2 where 2: "finalized_wav_valid p (of_nat k) w1 = (v, w2)" by fastforce
      note s2 = same_card_trans[OF s1 finalized_wav_valid_result(1)[OF 2]]
      obtain h w3 where 3: "sha256_file_hex (Some p) w2 = (h, w3)" by fastforce
      note s3 = same_card_trans[OF s2 sha256_file_hex_same[OF 3]]
      obtain a w4 where 4: "c_stat p w3 = (a, w4)" by fastforce
      note s4 = same_card_trans[OF s3 c_stat_same[OF 4]]
      have run: "(r, w') = (if \<not> v then (None, w2) else case h of None \<Rightarrow> (None, w3)
          | Some hex \<Rightarrow> if a = None \<or> st_size (the a) \<noteq> k then (None, w4) else (Some (hex, of_nat k), w4))"
        using assms 1 2 3 4 False k by (auto simp: device_manifest_hash_wav_file.simps Let_def split: option.splits if_splits)
      have "\<exists>c. files w p = Some c \<and> finished_wav c \<and> n = of_nat (length c) \<and>
        hex = sha256_to_hex (sha256_spec c) \<and> sha256_is_valid_hex (Some hex)" if r: "r = Some (hex, n)"
      proof -
        have v: "v" "h = Some hex" "n = of_nat k" using run r by (auto split: if_splits option.splits)
        have f: "files w1 p = Some c" "files w2 p = Some c" using s1 s2 c(1) by (simp_all add: same_card_def)
        have "hex = sha256_to_hex (sha256_spec c) \<and> sha256_is_valid_hex (Some hex)"
          using sha256_file_hex_result[OF 3] v(2) f(2) by auto
        moreover have "finished_wav c"
          using finalized_wav_valid_result(2)[OF 2 v(1) f(1)] k(2) c(2) unat_mod_align[of k]
          unfolding finished_wav_def by (simp add: config_simps)
        ultimately show ?thesis using c v(3) by auto
      qed
      moreover have "same_card w w'" using run s2 s3 s4 by (auto split: if_splits option.splits)
      ultimately show ?thesis by blast
    qed
  qed
  show "same_card w w'" using all by blast
  show "r = Some (hex, n) \<Longrightarrow> \<exists>c. files w p = Some c \<and> finished_wav c \<and> n = of_nat (length c) \<and>
    hex = sha256_to_hex (sha256_spec c) \<and> sha256_is_valid_hex (Some hex)" using all by blast
qed

section \<open>Indexing one file\<close>

lemma wav_identityD:
  assumes "wav_identity (Some day) base = Some (i, started)"
  shows "device_identity_is_valid_uuid (Some i)" "device_manifest_is_valid_iso8601_offset (Some started)" "valid_date_dir (Some day)"
  using assms by (auto simp: wav_identity_def snprintf_fits_def
      simp del: device_identity_is_valid_uuid.simps device_manifest_is_valid_iso8601_offset.simps valid_date_dir.simps
        device_manifest_extract_recording_id.simps split_wav_name.simps split: option.splits if_splits)

lemma build_entry_ok:
  assumes "device_manifest_build_entry (Some i) (Some fn) (Some started) duration n (Some hex) RECORDER_SAMPLE_RATE_HZ
      RECORDER_BITS_PER_SAMPLE RECORDER_CHANNELS (Some state) None RECORDER_MANIFEST_ENTRY_MAX = Some txt"
    "n = of_nat sz" "sz < 2 ^ 32" "(sz - RECORDER_WAV_HEADER_SIZE) mod RECORDER_BLOCK_ALIGN = 0" "RECORDER_WAV_HEADER_SIZE \<le> sz"
    "unat duration = expected_duration sz"
  shows "\<exists>e. txt = entry_text e \<and> entry_ok e \<and> me_id e = i \<and> me_filename e = fn \<and> me_started e = started \<and> me_size e = sz \<and>
    me_sha e = hex \<and> length txt \<le> RECORDER_MANIFEST_ENTRY_MAX"
proof -
  let ?e = "\<lparr>me_id = i, me_filename = fn, me_started = started, me_duration = unat duration,
         me_size = unat n, me_sha = hex, me_state = state, me_fw = RECORDER_FIRMWARE_VERSION\<rparr>"
  have sz: "unat n = sz" unfolding assms(2) by (rule unat_of_nat_small) (use assms(3) in simp)
  have c: "device_identity_is_valid_uuid (Some i)" "valid_filename (Some fn)" "device_manifest_is_valid_iso8601_offset (Some started)"
    "device_manifest_is_valid_sha256_hex (Some hex)" "state = DEVICE_MANIFEST_STATE_FINALIZED \<or> state = DEVICE_MANIFEST_STATE_RECOVERED"
    "snprintf_fits RECORDER_MANIFEST_ENTRY_MAX (entry_text ?e) = Some txt" "safe_free_text (Some RECORDER_FIRMWARE_VERSION) 32"
    using assms(1) unfolding device_manifest_build_entry_def Let_def by (simp_all only: option.case option.sel split: if_splits) auto
  have "entry_ok ?e" unfolding entry_ok_def using c assms(3-6) sz
    by (simp del: device_identity_is_valid_uuid.simps device_manifest_is_valid_iso8601_offset.simps
        valid_filename.simps device_manifest_is_valid_sha256_hex.simps safe_free_text.simps)
  then show ?thesis using c(6) sz by (intro exI[of _ ?e]) (auto simp: snprintf_fits_def split: if_splits)
qed

text \<open>
  The scan of one file: a file without the identity of a recording is skipped; any other is a finished WAV and
  the manifest has an entry for it, or the scan fails.
\<close>

definition recordings_apart :: "string \<Rightarrow> string set \<Rightarrow> bool" where
  "recordings_apart dir A \<longleftrightarrow> (\<forall>p \<in> A. \<not> prefix (dir @ ''/'') p)"

definition backed :: "(string \<Rightarrow> byte list option) \<Rightarrow> string \<Rightarrow> string \<Rightarrow> manifest_entry list \<Rightarrow> bool" where
  "backed fs wav rel es \<longleftrightarrow> (\<exists>c. fs wav = Some c \<and> finished_wav c \<and> (\<exists>e \<in> set es. describes e rel c))"

lemma backed_grow: "backed fs wav rel es \<Longrightarrow> prefix es es' \<Longrightarrow> backed fs wav rel es'"
  unfolding backed_def by (meson set_mono_prefix subsetD)

definition scan_keeps :: "string \<Rightarrow> string \<Rightarrow> string \<Rightarrow> string \<Rightarrow> manifest_entry list \<Rightarrow> io_world \<Rightarrow> manifest_entry list \<Rightarrow> io_world \<Rightarrow> bool" where
  "scan_keeps d M T B es w es' w' \<longleftrightarrow> store_step {M, T, B} w w' \<and> prefix es es' \<and> committed d M B w' es'"

lemma scan_keeps_same: "same_card w w' \<Longrightarrow> committed d M B w es \<Longrightarrow> scan_keeps d M T B es w es w'"
  unfolding scan_keeps_def using same_card_step committed_cong by blast

lemma scan_keeps_trans:
  "scan_keeps d M T B es w es1 w1 \<Longrightarrow> scan_keeps d M T B es1 w1 es2 w2 \<Longrightarrow> scan_keeps d M T B es w es2 w2"
  unfolding scan_keeps_def using store_step_trans prefix_order.trans by blast

lemma ensure_one_wav_result:
  assumes "ensure_one_wav wav rel (Some day) base M T d u state st w = (ok, st', w')"
    "committed d M B w es" "store_paths M T B" "honest w"
  shows "\<exists>es'. scan_keeps d M T B es w es' w' \<and>
    (ok \<longrightarrow> (if wav_identity (Some day) base = None then indexed st' = indexed st
            else indexed st' = indexed st + 1 \<and> backed (files w) wav rel es')) \<and>
    s_scan_indexed st' = s_scan_indexed st \<and> out_added st' = out_added st \<and> out_skipped st' = out_skipped st"
proof (cases "wav_identity (Some day) base")
  case None
  then have "w' = w" "st' = skip_one st" using assms(1) by (simp_all add: ensure_one_wav_def)
  then show ?thesis using scan_keeps_same[OF same_card_refl assms(2)] None by (auto simp: skip_one_def)
next
  case (Some x)
  then obtain i started where i: "wav_identity (Some day) base = Some (i, started)" by (cases x) simp
  obtain h w1 where 1: "device_manifest_hash_wav_file (Some wav) w = (h, w1)" by fastforce
  note s1 = hash_wav_file_result(1)[OF 1]
  show ?thesis
  proof (cases h)
    case None
    then have "w' = w1" "\<not> ok" "st' = skip_one (scan_failed DEVICE_MANIFEST_SCAN_WAV_UNREADABLE st)"
      using assms(1) i 1 by (simp_all add: ensure_one_wav_def)
    then show ?thesis using scan_keeps_same[OF s1 assms(2)] by (auto simp: skip_one_def scan_failed_def)
  next
    case (Some y)
    then obtain hex n where h: "h = Some (hex, n)" by (cases y) simp
    obtain c where c: "files w wav = Some c" "finished_wav c" "n = of_nat (length c)" "hex = sha256_to_hex (sha256_spec c)"
      using hash_wav_file_result(2)[OF 1 h] by blast
    have len: "44 \<le> length c" "length c < 2 ^ 32" "(length c - 44) mod 2 = 0" using c(2) by (simp_all add: finished_wav_def config_simps)
    have un: "unat n = length c" unfolding c(3) by (rule unat_of_nat_small) (use len in simp)
    have ge: "\<not> n < of_nat RECORDER_WAV_HEADER_SIZE" using un len(1) by (simp add: word_less_nat_alt config_simps)
    define pcm where "pcm = n - of_nat RECORDER_WAV_HEADER_SIZE"
    have up: "pcm = of_nat (length c - RECORDER_WAV_HEADER_SIZE)" using len(1) c(3) by (simp add: pcm_def config_simps)
    have "pcm mod of_nat RECORDER_BYTES_PER_SAMPLE = 0"
      using unat_mod_align[OF len(2,1)] len(3) c(3) by (simp add: pcm_def config_simps)
    then have pm: "pcm - pcm mod of_nat RECORDER_BYTES_PER_SAMPLE = pcm" by simp
    obtain m w2 where 2: "c_malloc w1 = (m, w2)" by fastforce
    note s2 = same_card_trans[OF s1 c_malloc_same[OF 2]]
    have c2: "committed d M B w2 es" "honest w2" using committed_cong[OF s2] assms(2,4) s2 by (simp_all add: same_card_def)
    define be where "be = device_manifest_build_entry (Some i) (Some rel) (Some started) (device_manifest_duration_ms pcm) n
                      (Some hex) RECORDER_SAMPLE_RATE_HZ RECORDER_BITS_PER_SAMPLE RECORDER_CHANNELS (Some state) None
                      RECORDER_MANIFEST_ENTRY_MAX"
    have run: "(ok, st', w') = (if \<not> m then (False, skip_one (scan_failed DEVICE_MANIFEST_SCAN_INDEX_WRITE_ERROR st), w2)
        else case be of None \<Rightarrow> (False, skip_one (scan_failed DEVICE_MANIFEST_SCAN_INDEX_WRITE_ERROR st), w2)
        | Some entry \<Rightarrow> (case device_manifest_upsert_file (Some M) (Some T) (Some d) (Some u) (Some entry) w2 of
                      (DEVICE_MANIFEST_OK, w) \<Rightarrow> (True, st\<lparr>indexed := indexed st + 1\<rparr>, w)
                    | (DEVICE_MANIFEST_CONFLICT, w) \<Rightarrow> (False, skip_one (scan_failed DEVICE_MANIFEST_SCAN_INDEX_CONFLICT st), w)
                    | (DEVICE_MANIFEST_ERROR, w) \<Rightarrow>
                        (False, skip_one (scan_failed DEVICE_MANIFEST_SCAN_INDEX_WRITE_ERROR st), w)))"
      using assms(1) i 1 h 2 ge unfolding ensure_one_wav_def be_def Let_def pcm_def
      by (simp add: pm[unfolded pcm_def] del: device_manifest_upsert_file.simps cong: if_cong)
    show ?thesis
    proof (cases "m \<and> be \<noteq> None")
      case False
      then have "w' = w2" "\<not> ok" "st' = skip_one (scan_failed DEVICE_MANIFEST_SCAN_INDEX_WRITE_ERROR st)"
        using run by (auto split: if_splits option.splits)
      then show ?thesis using scan_keeps_same[OF s2 assms(2)] by (auto simp: skip_one_def scan_failed_def)
    next
      case True
      then obtain ej where be: "be = Some ej" "m" by auto
      obtain e where e: "ej = entry_text e" "entry_ok e" "me_filename e = rel" "me_size e = length c" "me_sha e = hex"
        using build_entry_ok[OF be(1)[unfolded be_def] c(3) len(2)] len up
        by (auto simp: expected_duration_def config_simps)
      obtain r w3 where 3: "device_manifest_upsert_file (Some M) (Some T) (Some d) (Some u) (Some ej) w2 = (r, w3)" by fastforce
      have w3: "w' = w3" "ok = (r = DEVICE_MANIFEST_OK)" "ok \<Longrightarrow> st' = st\<lparr>indexed := indexed st + 1\<rparr>"
        "s_scan_indexed st' = s_scan_indexed st \<and> out_added st' = out_added st \<and> out_skipped st' = out_skipped st"
        using run be 3 by (auto simp: skip_one_def scan_failed_def split: device_manifest_result_t.splits)
      obtain es' where k: "store_step {M, T, B} w2 w3" "prefix es es'" "committed d M B w3 es'"
        "r = DEVICE_MANIFEST_OK \<Longrightarrow> \<exists>e' \<in> set es'. same_recording e' (key_of e)"
        using upsert_entry_kept[OF 3[unfolded e(1)] c2(1) assms(3) c2(2) e(2)] by blast
      have keep: "scan_keeps d M T B es w es' w'"
        using scan_keeps_trans[OF scan_keeps_same[OF s2 assms(2)]] k(1-3) w3(1) by (simp add: scan_keeps_def)
      have "backed (files w) wav rel es'" if q: "ok"
      proof -
        obtain e' where "e' \<in> set es'" "same_recording e' (key_of e)" using k(4) w3(2) q by blast
        then have "describes e' rel c" using e c(4) by (simp add: same_recording_def key_of_def describes_def)
        then show ?thesis unfolding backed_def using c(1,2) \<open>e' \<in> set es'\<close> by blast
      qed
      then show ?thesis using keep w3 i by auto
    qed
  qed
qed

section \<open>The two loops\<close>

definition rel_path :: "string \<Rightarrow> string \<Rightarrow> string" where
  "rel_path day name = ''recordings/'' @ day @ ''/'' @ name"

text \<open>A name in a date directory that the scan has to index, and the entries it must find for a directory.\<close>

definition scannable :: "string \<Rightarrow> string \<Rightarrow> bool" where
  "scannable day name \<longleftrightarrow> name \<noteq> ''.'' \<and> name \<noteq> ''..'' \<and> audience_wav_name (Some name) \<and> wav_identity (Some day) name \<noteq> None"

definition day_rels :: "string \<Rightarrow> string list \<Rightarrow> string list" where
  "day_rels day names = map (rel_path day) (filter (scannable day) names)"

definition dir_rels :: "(string \<Rightarrow> string list option) \<Rightarrow> string \<Rightarrow> string list \<Rightarrow> string list" where
  "dir_rels listed dir days = concat (map (\<lambda>day. day_rels day (case listed (dir @ ''/'' @ day) of None \<Rightarrow> [] | Some names \<Rightarrow> names))
     (filter (\<lambda>day. valid_date_dir (Some day)) days))"

lemma c_opendir_result: "c_opendir p w = (l, w') \<Longrightarrow> same_card w w' \<and> (l \<noteq> None \<longrightarrow> listing w p = l)"
  using same_cardI[OF io_try_touches io_try_steady] io_try_same(4)
  by (fastforce simp: c_opendir_def split: prod.splits bool.splits)

lemma store_step_files: "store_step A w w' \<Longrightarrow> p \<notin> A \<Longrightarrow> files w' p = files w p"
  by (simp add: store_step_def)

lemma sync_sub_result:
  assumes "sync_sub child day M T d u state names st w = (ok, st', w')"
    "committed d M B w es" "store_paths M T B" "honest w" "\<forall>name. child @ ''/'' @ name \<notin> {M, T, B}"
  shows "\<exists>es'. scan_keeps d M T B es w es' w' \<and>
    (ok \<longrightarrow> indexed st' = indexed st + of_nat (length (day_rels day names)) \<and>
      (\<forall>name \<in> set names. scannable day name \<longrightarrow> backed (files w) (child @ ''/'' @ name) (rel_path day name) es'))"
  using assms(1,2,4)
proof (induction names arbitrary: st w es)
  case Nil
  obtain r w1 where 1: "c_readdir [] w = (r, w1)" by fastforce
  obtain cl w2 where 2: "c_closedir w1 = (cl, w2)" by fastforce
  obtain cl' w3 where 3: "c_closedir w2 = (cl', w3)" by fastforce
  have s: "same_card w w1" "same_card w1 w2" "same_card w2 w3" using c_readdir_same[OF 1] c_closedir_same[OF 2] c_closedir_same[OF 3] by blast+
  have "same_card w w'" using Nil(1) 1 2 3 s same_card_trans[OF same_card_trans[OF s(1,2)] s(3)] same_card_trans[OF s(1,2)]
      same_card_trans[OF s(1) close_both_same] by (auto split: option.splits if_splits)
  moreover have "ok \<Longrightarrow> st' = st" using Nil(1) 1 2 by (auto split: option.splits if_splits)
  ultimately show ?case using scan_keeps_same[OF _ Nil(2)] by (auto simp: day_rels_def)
next
  case (Cons name names)
  obtain r w1 where 1: "c_readdir (name # names) w = (r, w1)" by fastforce
  have s1: "same_card w w1" using c_readdir_same[OF 1] by blast
  have c1: "committed d M B w1 es" "honest w1" using committed_cong[OF s1] Cons(3,4) s1 by (simp_all add: same_card_def)
  have f1: "files w1 = files w" using s1 by (simp add: same_card_def)
  let ?wav = "child @ ''/'' @ name"
  consider (bad) "r = None \<or> \<not> (name = ''.'' \<or> name = ''..'' \<or> \<not> audience_wav_name (Some name)) \<and>
      (length ?wav \<ge> RECORDER_MAX_PATH_LEN \<or> length (rel_path day name) \<ge> 192)"
    | (other) "r \<noteq> None" "name = ''.'' \<or> name = ''..'' \<or> \<not> audience_wav_name (Some name)"
    | (wav) "r \<noteq> None" "\<not> (name = ''.'' \<or> name = ''..'' \<or> \<not> audience_wav_name (Some name))"
      "\<not> (length ?wav \<ge> RECORDER_MAX_PATH_LEN \<or> length (rel_path day name) \<ge> 192)" by blast
  then show ?case
  proof cases
    case bad
    then have "\<not> ok" "w' = close_both w1" using Cons(2) 1
      by (auto simp: rel_path_def Let_def simp del: audience_wav_name.simps split: option.splits if_splits)
    then show ?thesis using scan_keeps_same[OF same_card_trans[OF s1 close_both_same] Cons(3)] by auto
  next
    case other
    then have n: "sync_sub child day M T d u state names st w1 = (ok, st', w')" using Cons(2) 1
      by (auto simp: Let_def simp del: audience_wav_name.simps split: option.splits if_splits)
    have ns: "\<not> scannable day name" using other(2) by (auto simp: scannable_def simp del: audience_wav_name.simps)
    obtain es' where "scan_keeps d M T B es w1 es' w'" "ok \<Longrightarrow> indexed st' = indexed st + of_nat (length (day_rels day names))"
      "ok \<Longrightarrow> \<forall>name \<in> set names. scannable day name \<longrightarrow> backed (files w) (child @ ''/'' @ name) (rel_path day name) es'"
      using Cons.IH[OF n c1] unfolding f1 by blast
    then show ?thesis using scan_keeps_trans[OF scan_keeps_same[OF s1 Cons(3)]] ns by (intro exI[of _ es']) (auto simp: day_rels_def)
  next
    case wav
    obtain o1 st1 w2 where 2: "ensure_one_wav ?wav (rel_path day name) (Some day) name M T d u state st w1 = (o1, st1, w2)" by (metis prod_cases3)
    obtain es1 where e1: "scan_keeps d M T B es w1 es1 w2"
      "o1 \<Longrightarrow> (if wav_identity (Some day) name = None then indexed st1 = indexed st
            else indexed st1 = indexed st + 1 \<and> backed (files w) ?wav (rel_path day name) es1)"
      using ensure_one_wav_result[OF 2 c1(1) assms(3) c1(2)] unfolding f1 by blast
    note k1 = scan_keeps_trans[OF scan_keeps_same[OF s1 Cons(3)] e1(1)]
    have run: "(ok, st', w') = (if o1 then sync_sub child day M T d u state names st1 w2
        else (False, st1\<lparr>out_added := 0, out_skipped := skipped st1\<rparr>, close_both w2))"
      using Cons(2) 1 2 wav by (auto simp: rel_path_def Let_def simp del: audience_wav_name.simps split: option.splits)
    have sc: "scannable day name = (wav_identity (Some day) name \<noteq> None)" using wav(2) by (auto simp: scannable_def simp del: audience_wav_name.simps)
    show ?thesis
    proof (cases o1)
      case False
      then have "\<not> ok" "w' = close_both w2" using run by simp_all
      moreover have "committed d M B w2 es1" using k1 by (simp add: scan_keeps_def)
      ultimately show ?thesis using scan_keeps_trans[OF k1 scan_keeps_same[OF close_both_same]] by blast
    next
      case True
      then have n: "sync_sub child day M T d u state names st1 w2 = (ok, st', w')" using run by simp
      have c2: "committed d M B w2 es1" "honest w2" using k1 Cons(4) by (simp_all add: scan_keeps_def store_step_def)
      have f2: "files w2 (child @ ''/'' @ x) = files w (child @ ''/'' @ x)" for x
        using store_step_files[of "{M, T, B}" w w2 "child @ ''/'' @ x"] k1 assms(5) by (auto simp: scan_keeps_def)
      have bk: "backed (files w2) (child @ ''/'' @ x) = backed (files w) (child @ ''/'' @ x)" for x by (intro ext) (simp only: backed_def f2)
      obtain es' where e: "scan_keeps d M T B es1 w2 es' w'" "ok \<Longrightarrow> indexed st' = indexed st1 + of_nat (length (day_rels day names))"
        "ok \<Longrightarrow> \<forall>name \<in> set names. scannable day name \<longrightarrow> backed (files w) (child @ ''/'' @ name) (rel_path day name) es'"
        using Cons.IH[OF n c2] unfolding bk by blast
      have "prefix es1 es'" using e(1) by (simp add: scan_keeps_def)
      then have "scannable day name \<Longrightarrow> backed (files w) ?wav (rel_path day name) es'" using e1(2) True sc backed_grow by auto
      moreover have "indexed st1 = indexed st + of_nat (length (day_rels day [name]))"
        using e1(2) True sc by (cases "wav_identity (Some day) name") (simp_all add: day_rels_def)
      ultimately show ?thesis using scan_keeps_trans[OF k1 e(1)] e(2,3) by (intro exI[of _ es']) (auto simp: day_rels_def)
    qed
  qed
qed

lemma apart_path: "recordings_apart dir A \<Longrightarrow> dir @ ''/'' @ x \<notin> A"
  unfolding recordings_apart_def by (metis append.assoc prefixI)

lemma sync_dir_result:
  assumes "sync_dir dir M T d u state days st w = (ok, st', w')"
    "committed d M B w es" "store_paths M T B" "honest w" "recordings_apart dir {M, T, B}"
  shows "\<exists>es'. scan_keeps d M T B es w es' w' \<and>
    (ok \<longrightarrow> indexed st' = indexed st + of_nat (length (dir_rels (listing w) dir days)) \<and>
      (\<forall>day \<in> set days. valid_date_dir (Some day) \<longrightarrow> (\<exists>names. listing w (dir @ ''/'' @ day) = Some names \<and>
        (\<forall>name \<in> set names. scannable day name \<longrightarrow>
           backed (files w) (dir @ ''/'' @ day @ ''/'' @ name) (rel_path day name) es'))))"
  using assms(1,2,4)
proof (induction days arbitrary: st w es)
  case Nil
  obtain r w1 where 1: "c_readdir [] w = (r, w1)" by fastforce
  obtain cl w2 where 2: "c_closedir w1 = (cl, w2)" by fastforce
  have s: "same_card w w1" "same_card w1 w2" using c_readdir_same[OF 1] c_closedir_same[OF 2] by blast+
  have "same_card w w'" using Nil(1) 1 2 same_card_trans[OF s] by (auto split: option.splits if_splits)
  moreover have "ok \<Longrightarrow> st' = st" using Nil(1) 1 2 by (auto split: option.splits if_splits)
  ultimately show ?case using scan_keeps_same[OF _ Nil(2)] by (auto simp: dir_rels_def)
next
  case (Cons day days)
  note del = valid_date_dir.simps date_dir_has_shape.simps audience_wav_name.simps sync_sub.simps
  obtain r w1 where 1: "c_readdir (day # days) w = (r, w1)" by fastforce
  let ?child = "dir @ ''/'' @ day"
  obtain cs w2 where 2: "c_stat ?child w1 = (cs, w2)" by fastforce
  obtain l w3 where 3: "c_opendir ?child w2 = (l, w3)" by fastforce
  obtain q1 v1 where 4: "c_closedir w1 = (q1, v1)" by fastforce
  obtain q2 v2 where 5: "c_closedir w2 = (q2, v2)" by fastforce
  obtain q3 v3 where 6: "c_closedir w3 = (q3, v3)" by fastforce
  have s1: "same_card w w1" using c_readdir_same[OF 1] by blast
  note s2 = same_card_trans[OF s1 c_stat_same[OF 2]]
  have s3: "same_card w w3" using same_card_trans[OF s2] c_opendir_result[OF 3] by blast
  note t = same_card_trans[OF s1 c_closedir_same[OF 4]] same_card_trans[OF s2 c_closedir_same[OF 5]] same_card_trans[OF s3 c_closedir_same[OF 6]]
  have shape: "valid_date_dir (Some day) \<Longrightarrow> date_dir_has_shape (Some day) \<and> day \<noteq> ''.'' \<and> day \<noteq> ''..''"
    by (auto split: if_splits)
  let ?P = "\<lambda>es'. scan_keeps d M T B es w es' w' \<and>
    (ok \<longrightarrow> indexed st' = indexed st + of_nat (length (dir_rels (listing w) dir (day # days))) \<and>
      (\<forall>day \<in> set (day # days). valid_date_dir (Some day) \<longrightarrow> (\<exists>names. listing w (dir @ ''/'' @ day) = Some names \<and>
        (\<forall>name \<in> set names. scannable day name \<longrightarrow>
           backed (files w) (dir @ ''/'' @ day @ ''/'' @ name) (rel_path day name) es'))))"
  have go_on: "\<exists>es'. ?P es'"
    if n: "sync_dir dir M T d u state days st1 v = (ok, st', w')" and k: "scan_keeps d M T B es w es1 v" and lv: "listing v = listing w"
      and h: "if valid_date_dir (Some day) then \<exists>names. listing w ?child = Some names \<and>
        indexed st1 = indexed st + of_nat (length (day_rels day names)) \<and>
        (\<forall>name \<in> set names. scannable day name \<longrightarrow> backed (files w) (dir @ ''/'' @ day @ ''/'' @ name) (rel_path day name) es1)
      else indexed st1 = indexed st" for st1 v es1
  proof -
    have c: "committed d M B v es1" "honest v" using k Cons(4) by (simp_all add: scan_keeps_def store_step_def)
    have f: "files v (dir @ ''/'' @ x) = files w (dir @ ''/'' @ x)" for x
      using store_step_files[OF _ apart_path[OF assms(5)]] k unfolding scan_keeps_def by blast
    have bk: "backed (files v) (dir @ ''/'' @ x) = backed (files w) (dir @ ''/'' @ x)" for x by (intro ext) (simp only: backed_def f)
    obtain es' where e: "scan_keeps d M T B es1 v es' w'" "ok \<Longrightarrow> indexed st' = indexed st1 + of_nat (length (dir_rels (listing w) dir days))"
      "ok \<Longrightarrow> \<forall>day \<in> set days. valid_date_dir (Some day) \<longrightarrow> (\<exists>names. listing w (dir @ ''/'' @ day) = Some names \<and>
        (\<forall>name \<in> set names. scannable day name \<longrightarrow>
           backed (files w) (dir @ ''/'' @ day @ ''/'' @ name) (rel_path day name) es'))"
      using Cons.IH[OF n c] unfolding bk lv by blast
    have pre: "prefix es1 es'" using e(1) by (simp add: scan_keeps_def)
    have "indexed st' = indexed st + of_nat (length (dir_rels (listing w) dir (day # days)))" if ok
      using e(2)[OF that] h by (auto simp: dir_rels_def simp del: valid_date_dir.simps split: if_splits)
    moreover have "\<exists>names. listing w ?child = Some names \<and> (\<forall>name \<in> set names. scannable day name \<longrightarrow>
           backed (files w) (dir @ ''/'' @ day @ ''/'' @ name) (rel_path day name) es')" if "valid_date_dir (Some day)"
      using h that backed_grow[OF _ pre] by (auto simp del: valid_date_dir.simps)
    ultimately show ?thesis using scan_keeps_trans[OF k e(1)] e(3) by (intro exI[of _ es']) (auto simp del: valid_date_dir.simps)
  qed
  have stop: "\<exists>es'. ?P es'" if "\<not> ok" "same_card w w'" using scan_keeps_same[OF that(2) Cons(3)] that(1) by blast
  have lst: "listing w1 = listing w" "listing w2 = listing w" "listing w3 = listing w" using s1 s2 s3 by (simp_all add: same_card_def)
  show ?case
  proof (cases "r = None")
    case True
    then have "\<not> ok" "w' = v1" using Cons(2) 1 4 by simp_all
    then show ?thesis using stop t(1) by blast
  next
    case r: False
    then obtain r' where r': "r = Some r'" by blast
    show ?thesis
    proof (cases "day = ''.'' \<or> day = ''..''")
      case True
      then have n: "sync_dir dir M T d u state days st w1 = (ok, st', w')" using Cons(2) 1 r' by (auto simp: Let_def simp del: del)
      show ?thesis by (rule go_on[OF n scan_keeps_same[OF s1 Cons(3)] lst(1)]) (use True shape in auto)
    next
      case dot: False
      show ?thesis
      proof (cases "length ?child \<ge> RECORDER_MAX_PATH_LEN \<or> cs = None \<or>
          date_dir_has_shape (Some day) \<and> (\<not> valid_date_dir (Some day) \<or> cs \<noteq> Some StatDir)")
        case True
        then have "\<not> ok \<and> (w' = v1 \<or> w' = v2)" using Cons(2) 1 2 4 5 r' dot by (auto simp: Let_def simp del: del split: if_splits)
        then show ?thesis using stop t(1,2) by blast
      next
        case False
        then have run: "(ok, st', w') = (if cs = Some StatDir
          then (if \<not> valid_date_dir (Some day) then sync_dir dir M T d u state days st w2
                else case l of None \<Rightarrow> (False, scan_failed DEVICE_MANIFEST_SCAN_DIRECTORY_ERROR st, v3)
                | Some names \<Rightarrow> (case sync_sub ?child day M T d u state names st w3 of
                       (False, st, w) \<Rightarrow> (False, st, w)
                     | (True, st, w) \<Rightarrow> sync_dir dir M T d u state days st w))
          else sync_dir dir M T d u state days (if audience_wav_name (Some day) then skip_one st else st) w2)"
        proof (cases "valid_date_dir (Some day)")
          case True
          then have "cs = Some StatDir" using False shape by blast
          then show ?thesis using Cons(2) 1 2 3 6 r' dot True False by (cases l) (simp_all add: Let_def del: del)
        next
          case nd: False
          then have "\<not> date_dir_has_shape (Some day)" using False by blast
          then show ?thesis using Cons(2) 1 2 3 6 r' dot nd False by (cases cs) (auto simp: Let_def simp del: del split: if_splits)
        qed
        show ?thesis
        proof (cases "valid_date_dir (Some day)")
          case nd: False
          then obtain st1 where n: "sync_dir dir M T d u state days st1 w2 = (ok, st', w')" "indexed st1 = indexed st"
            using run by (auto simp: skip_one_def simp del: del split: if_splits)
          show ?thesis by (rule go_on[OF n(1) scan_keeps_same[OF s2 Cons(3)] lst(2)]) (use nd n(2) in \<open>simp del: del\<close>)
        next
          case vd: True
          then have dir: "cs = Some StatDir" using False shape by blast
          show ?thesis
          proof (cases l)
            case None
            then have "\<not> ok" "w' = v3" using run dir vd by (simp_all del: del)
            then show ?thesis using stop t(3) by blast
          next
            case (Some names)
            have ls: "listing w ?child = Some names" using c_opendir_result[OF 3] Some lst(2) by simp
            have c3: "committed d M B w3 es" "honest w3" "files w3 = files w"
              using committed_cong[OF s3] Cons(3,4) s3 by (simp_all add: same_card_def)
            have ap: "\<forall>name. ?child @ ''/'' @ name \<notin> {M, T, B}" using apart_path[OF assms(5)] by (simp only: append.assoc) blast
            obtain o1 st1 w4 where 7: "sync_sub ?child day M T d u state names st w3 = (o1, st1, w4)" by (metis prod_cases3)
            obtain es1 where e1: "scan_keeps d M T B es w3 es1 w4" "o1 \<Longrightarrow> indexed st1 = indexed st + of_nat (length (day_rels day names)) \<and>
              (\<forall>name \<in> set names. scannable day name \<longrightarrow> backed (files w) (dir @ ''/'' @ day @ ''/'' @ name) (rel_path day name) es1)"
              using sync_sub_result[OF 7 c3(1) assms(3) c3(2) ap] unfolding c3(3) by auto
            note k1 = scan_keeps_trans[OF scan_keeps_same[OF s3 Cons(3)] e1(1)]
            have run2: "(ok, st', w') = (if o1 then sync_dir dir M T d u state days st1 w4 else (False, st1, w4))"
              using run dir vd Some 7 by (simp del: del)
            show ?thesis
            proof (cases o1)
              case False
              then show ?thesis using run2 k1 by auto
            next
              case True
              then have n: "sync_dir dir M T d u state days st1 w4 = (ok, st', w')" using run2 by simp
              have "listing w4 = listing w" using k1 by (simp add: scan_keeps_def store_step_def)
              then show ?thesis by (rule go_on[OF n k1]) (use vd ls e1(2) True in \<open>simp del: del\<close>)
            qed
          qed
        qed
      qed
    qed
  qed
qed

section \<open>The inventory\<close>

definition on_card :: "(string \<Rightarrow> string list option) \<Rightarrow> string \<Rightarrow> string \<Rightarrow> string \<Rightarrow> bool" where
  "on_card listed dir day name \<longleftrightarrow> (\<exists>days names. listed dir = Some days \<and> day \<in> set days \<and> valid_date_dir (Some day) \<and>
     listed (dir @ ''/'' @ day) = Some names \<and> name \<in> set names)"

text \<open>A directory does not list a name twice.\<close>

definition tidy_listing :: "(string \<Rightarrow> string list option) \<Rightarrow> string \<Rightarrow> bool" where
  "tidy_listing listed dir \<longleftrightarrow> (\<forall>days. listed dir = Some days \<longrightarrow> distinct days \<and>
     (\<forall>day \<in> set days. \<forall>names. listed (dir @ ''/'' @ day) = Some names \<longrightarrow> distinct names))"

lemma rel_path_inj:
  assumes "valid_date_dir (Some day)" "valid_date_dir (Some day')" "rel_path day name = rel_path day' name'"
  shows "day = day' \<and> name = name'"
proof -
  have "length day = 10" "length day' = 10" using assms(1,2) by (auto split: if_splits)
  then show ?thesis using assms(3) by (simp add: rel_path_def)
qed

lemma dir_rels_mem:
  "rel \<in> set (dir_rels listed dir days) \<longleftrightarrow> (\<exists>day \<in> set days. valid_date_dir (Some day) \<and>
     (\<exists>names. listed (dir @ ''/'' @ day) = Some names \<and> (\<exists>name \<in> set names. scannable day name \<and> rel = rel_path day name)))"
  by (auto simp: dir_rels_def day_rels_def simp del: valid_date_dir.simps split: option.splits) metis+

lemma dir_rels_distinct:
  assumes "distinct days" "\<forall>day \<in> set days. \<forall>names. listed (dir @ ''/'' @ day) = Some names \<longrightarrow> distinct names"
  shows "distinct (dir_rels listed dir days)"
  using assms
proof (induction days)
  case (Cons day days)
  let ?n = "case listed (dir @ ''/'' @ day) of None \<Rightarrow> [] | Some names \<Rightarrow> names"
  show ?case
  proof (cases "valid_date_dir (Some day)")
    case True
    have "distinct ?n" using Cons(3) by (auto split: option.splits)
    then have 1: "distinct (day_rels day ?n)"
      using rel_path_inj[OF True True] by (auto simp: day_rels_def distinct_map inj_on_def)
    have "set (day_rels day ?n) \<inter> set (dir_rels listed dir days) = {}"
      using Cons(2) by (auto simp: day_rels_def dir_rels_mem simp del: valid_date_dir.simps dest: rel_path_inj[OF True])
    then show ?thesis using 1 Cons True by (simp add: dir_rels_def del: valid_date_dir.simps)
  next
    case False
    then show ?thesis using Cons by (simp add: dir_rels_def del: valid_date_dir.simps)
  qed
qed (simp add: dir_rels_def)

text \<open>As many distinct names as there are entries, each the name of an entry: they are the names of the entries.\<close>

lemma names_exhaust:
  assumes "distinct rels" "\<forall>rel \<in> set rels. \<exists>e \<in> set es. f e = rel" "length rels = length es"
  shows "f ` set es = set rels" "inj_on f (set es)"
proof -
  have sub: "set rels \<subseteq> set (map f es)" using assms(2) by auto
  have c: "card (set rels) = length es" using assms(1,3) by (simp add: distinct_card)
  have le: "card (set (map f es)) \<le> length es" using card_length[of "map f es"] by simp
  show eq: "f ` set es = set rels" using card_subset_eq[OF _ sub] card_mono[OF _ sub] c le by simp
  have "card (f ` set es) = length es" using eq c by simp
  moreover have "card (f ` set es) \<le> card (set es)" by (rule card_image_le) simp
  moreover have "card (set es) \<le> length es" by (rule card_length)
  ultimately show "inj_on f (set es)" by (intro eq_card_imp_inj_on) simp_all
qed

lemma sync_wav_dir_succeeded:
  assumes "device_manifest_sync_wav_dir (Some dir) (Some M) (Some T) (Some d) (Some u) (Some state) w = (True, st, w')"
    "committed d M B w es" "store_paths M T B" "honest w" "recordings_apart dir {M, T, B}"
  shows "\<exists>days es'. listing w dir = Some days \<and> scan_keeps d M T B es w es' w' \<and> holds d M w' es' \<and>
    s_scan_indexed st = of_nat (length es') \<and> out_added st = of_nat (length es') - of_nat (length es) \<and>
    (of_nat (length es') :: u32) = of_nat (length (dir_rels (listing w) dir days)) \<and>
    (\<forall>day \<in> set days. valid_date_dir (Some day) \<longrightarrow> (\<exists>names. listing w (dir @ ''/'' @ day) = Some names \<and>
        (\<forall>name \<in> set names. scannable day name \<longrightarrow>
           backed (files w) (dir @ ''/'' @ day @ ''/'' @ name) (rel_path day name) es')))"
proof -
  have d: "device_identity_is_valid_uuid (Some d)" and run: "sync_scan dir M T d u state w = (True, st, w')"
    using assms(1) by (simp_all del: device_identity_is_valid_uuid.simps device_manifest_is_valid_iso8601_offset.simps split: if_splits)
  obtain n1 w1 where 1: "manifest_recording_count M (Some d) w = (n1, w1)" by fastforce
  obtain before where b: "n1 = Some before" using run 1 by (cases n1) (auto simp: sync_scan_def)
  note r1 = manifest_recording_count_holds[OF 1[unfolded b] d]
  obtain fs where fs: "holds d M w fs" "before = of_nat (length fs)" using r1(2) by blast
  have "fs = es" using fs(1) committed_manifest[OF assms(2)] holds_some[OF fs(1)] holds_unique by blast
  then have bef: "before = of_nat (length es)" using fs(2) by simp
  obtain l w2 where 2: "c_opendir dir w1 = (l, w2)" by fastforce
  obtain days where days: "l = Some days" using run 1 b 2 by (cases l) (auto simp: sync_scan_def)
  note s2 = same_card_trans[OF r1(1) conjunct1[OF c_opendir_result[OF 2]]]
  have c2: "committed d M B w2 es" "honest w2" "listing w2 = listing w" "files w2 = files w" "listing w dir = Some days"
    using committed_cong[OF s2] assms(2,4) s2 c_opendir_result[OF 2] days r1(1) by (simp_all add: same_card_def)
  obtain o3 st3 w3 where 3: "sync_dir dir M T d u state days (scan_failed DEVICE_MANIFEST_SCAN_OK scan_start) w2 = (o3, st3, w3)"
    by (metis prod_cases3)
  have o3: "o3" using run 1 b 2 days 3 by (cases o3) (auto simp: sync_scan_def)
  obtain es' where e: "scan_keeps d M T B es w2 es' w3"
    "indexed st3 = of_nat (length (dir_rels (listing w) dir days))"
    "\<forall>day \<in> set days. valid_date_dir (Some day) \<longrightarrow> (\<exists>names. listing w (dir @ ''/'' @ day) = Some names \<and>
        (\<forall>name \<in> set names. scannable day name \<longrightarrow>
           backed (files w) (dir @ ''/'' @ day @ ''/'' @ name) (rel_path day name) es'))"
    using sync_dir_result[OF 3 c2(1) assms(3) c2(2) assms(5)] o3 unfolding c2(3,4) by (auto simp: scan_failed_def scan_start_def)
  obtain n4 w4 where 4: "manifest_recording_count M (Some d) w3 = (n4, w4)" by fastforce
  obtain after where a: "n4 = Some after" using run 1 b 2 days 3 o3 4 by (cases n4) (auto simp: sync_scan_def)
  note r4 = manifest_recording_count_holds[OF 4[unfolded a] d]
  obtain gs where gs: "holds d M w3 gs" "after = of_nat (length gs)" using r4(2) by blast
  have c3: "committed d M B w3 es'" using e(1) by (simp add: scan_keeps_def)
  have g: "gs = es'" using gs(1) committed_manifest[OF c3] holds_some[OF gs(1)] holds_unique by blast
  have fin: "after = indexed st3" "w' = w4" "s_scan_indexed st = indexed st3" "out_added st = after - before"
    using run 1 b 2 days 3 o3 4 a by (auto simp: sync_scan_def split: if_splits)
  have k: "scan_keeps d M T B es w es' w'"
    using scan_keeps_trans[OF scan_keeps_trans[OF scan_keeps_same[OF s2 assms(2)] e(1)] scan_keeps_same[OF r4(1) c3]] fin(2) by simp
  have "holds d M w' es'" using gs(1) g r4(1) fin(2) by (simp add: same_card_def holds_def)
  then show ?thesis using c2(5) k e(2,3) fin gs(2) g bef by (intro exI[of _ days] exI[of _ es']) simp
qed

text \<open>
  C9: A scan that succeeds proves the inventory. Whatever I/O errors occurred, when \<open>device_manifest_sync_wav_dir\<close>
  returns true then the manifest in place lists exactly the recordings on the card: each entry names a file
  in a date directory which is a complete WAV with the size and the SHA-256 of the entry, every file of a date
  directory that carries the identity of a recording is listed, nothing that was committed is gone, and the
  counters say how many entries there are and how many are new. The manifest files are outside the recordings
  directory and a directory does not list a name twice.
\<close>

theorem scan_proves_inventory:
  assumes "device_manifest_sync_wav_dir (Some dir) (Some M) (Some T) (Some d) (Some u) (Some state) w = (True, st, w')"
    "committed d M B w es" "store_paths M T B" "honest w" "recordings_apart dir {M, T, B}" "tidy_listing (listing w) dir"
  shows "\<exists>es'. holds d M w' es' \<and> prefix es es' \<and> unat (s_scan_indexed st) = length es' \<and>
    unat (out_added st) = length es' - length es \<and>
    (\<forall>e \<in> set es'. \<exists>day name c. on_card (listing w) dir day name \<and> files w' (dir @ ''/'' @ day @ ''/'' @ name) = Some c \<and>
       finished_wav c \<and> describes e (rel_path day name) c) \<and>
    (\<forall>day name. on_card (listing w) dir day name \<and> scannable day name \<longrightarrow> (\<exists>e \<in> set es'. me_filename e = rel_path day name))"
proof -
  obtain days es' where r: "listing w dir = Some days" "scan_keeps d M T B es w es' w'" "holds d M w' es'"
    "s_scan_indexed st = of_nat (length es')" "out_added st = of_nat (length es') - of_nat (length es)"
    "(of_nat (length es') :: u32) = of_nat (length (dir_rels (listing w) dir days))"
    "\<forall>day \<in> set days. valid_date_dir (Some day) \<longrightarrow> (\<exists>names. listing w (dir @ ''/'' @ day) = Some names \<and>
        (\<forall>name \<in> set names. scannable day name \<longrightarrow>
           backed (files w) (dir @ ''/'' @ day @ ''/'' @ name) (rel_path day name) es'))"
    using sync_wav_dir_succeeded[OF assms(1-5)] by blast
  let ?rels = "dir_rels (listing w) dir days"
  have dist: "distinct ?rels" using dir_rels_distinct assms(6) r(1) by (auto simp: tidy_listing_def)
  have bk: "\<exists>e \<in> set es'. me_filename e = rel" if "rel \<in> set ?rels" for rel
    using that r(7) unfolding dir_rels_mem backed_def describes_def by fastforce
  have short: "length es' < 2 ^ 32" using holds_short[OF r(3)] by (simp add: config_simps)
  have "?rels \<noteq> [] \<longrightarrow> length ?rels \<le> length es'"
    using dist bk card_mono[of "me_filename ` set es'" "set ?rels"] card_image_le[of "set es'" me_filename] card_length[of es']
    by (fastforce simp: distinct_card)
  then have "length ?rels \<le> length es'" by auto
  then have "length ?rels < 2 ^ 32" using short by simp
  then have "unat (of_nat (length ?rels) :: u32) = length ?rels" "unat (of_nat (length es') :: u32) = length es'"
    using short by (simp_all add: unat_of_nat_small)
  then have len: "length ?rels = length es'" using r(6) by metis
  note ex = names_exhaust[OF dist _ len, of me_filename]
  have pre: "prefix es es'" using r(2) by (simp add: scan_keeps_def)
  have f: "files w' (dir @ ''/'' @ x) = files w (dir @ ''/'' @ x)" for x
    using store_step_files[OF _ apart_path[OF assms(5)]] r(2) unfolding scan_keeps_def by blast
  have "\<exists>day name c. on_card (listing w) dir day name \<and> files w' (dir @ ''/'' @ day @ ''/'' @ name) = Some c \<and>
       finished_wav c \<and> describes e (rel_path day name) c" if e: "e \<in> set es'" for e
  proof -
    have "me_filename e \<in> set ?rels" using ex(1) bk e by blast
    then obtain day names name where n: "day \<in> set days" "valid_date_dir (Some day)" "listing w (dir @ ''/'' @ day) = Some names"
      "name \<in> set names" "scannable day name" "me_filename e = rel_path day name" unfolding dir_rels_mem by blast
    then obtain c e' where c: "files w (dir @ ''/'' @ day @ ''/'' @ name) = Some c" "finished_wav c" "e' \<in> set es'"
      "describes e' (rel_path day name) c" using r(7) unfolding backed_def by fastforce
    then have "e' = e" using ex(2) bk e n(6) unfolding describes_def inj_on_def by metis
    moreover have "on_card (listing w) dir day name" unfolding on_card_def using r(1) n by blast
    ultimately show ?thesis using c f[of "day @ ''/'' @ name"] by auto
  qed
  moreover have "\<exists>e \<in> set es'. me_filename e = rel_path day name" if "on_card (listing w) dir day name" "scannable day name" for day name
    using that r(1) bk unfolding on_card_def dir_rels_mem by fastforce
  moreover have "unat (s_scan_indexed st) = length es'" unfolding r(4) by (rule unat_of_nat_small) (use short in simp)
  moreover have "unat (out_added st) = length es' - length es"
  proof -
    have le: "length es \<le> length es'" using pre by (rule prefix_length_le)
    then have "out_added st = of_nat (length es' - length es)" unfolding r(5) by simp
    moreover have "length es' - length es < 2 ^ LENGTH(32)" using short by simp
    ultimately show ?thesis using unat_of_nat_small by metis
  qed
  ultimately show ?thesis using r(3) pre by blast
qed

text \<open>A card with a manifest that lists nothing and one finished recording of one sample.\<close>

definition sample_wav :: "byte list" where
  "sample_wav = [82, 73, 70, 70, 38, 0, 0, 0, 87, 65, 86, 69, 102, 109, 116, 32, 16, 0, 0, 0, 1, 0, 1, 0,
      128, 62, 0, 0, 0, 125, 0, 0, 2, 0, 16, 0, 100, 97, 116, 97, 2, 0, 0, 0, 1, 2]"

definition sample_day :: string where "sample_day = ''2026-02-28''"
definition sample_name :: string where "sample_name = ''235959_'' @ sample_uuid @ ''.wav''"

definition sample_scan_card :: io_world where
  "sample_scan_card = set_file (RECORDER_RECORDINGS_DIR @ ''/'' @ sample_day @ ''/'' @ sample_name) (Some sample_wav) False
     (listed_card\<lparr>dirs := (\<lambda>p. p = RECORDER_RECORDINGS_DIR \<or> p = RECORDER_RECORDINGS_DIR @ ''/'' @ sample_day),
        listing := (\<lambda>p. if p = RECORDER_RECORDINGS_DIR then Some [sample_day]
                        else if p = RECORDER_RECORDINGS_DIR @ ''/'' @ sample_day then Some [sample_name] else None)\<rparr>)"

lemma sha256_file_hex_quiet:
  assumes "quiet w" "files w p = Some c" "p \<noteq> []"
  shows "sha256_file_hex (Some p) w = (Some (sha256_to_hex (sha256_spec c)), w)"
proof -
  obtain r w' where r: "sha256_file_hex (Some p) w = (r, w')" by fastforce
  let ?ctx = "the (sha256_init (Some \<lparr>sha_state = [], sha_bitlen = 0, sha_data = replicate 64 0, sha_datalen = 0\<rparr>))"
  obtain ctx' fp' where "hash_loop ?ctx \<lparr>fpath = p, fpos = 0, ferr = False\<rparr> w = (Some ctx', fp', w)"
    using hash_loop_quiet[OF assms(1)] by blast
  then have "w' = w" using r assms by (simp add: sha256_file_hex.simps fopen_def fclose_def Let_def del: sha256_init.simps)
  then show ?thesis using sha256_file_hex_result[OF r] r assms by auto
qed

lemma hash_wav_file_quiet:
  assumes "quiet w" "files w p = Some c" "finished_wav c" "5 \<le> length p" "ends_in p ''.wav''" "\<not> ends_in p ''.wav.part''"
  shows "device_manifest_hash_wav_file (Some p) w = (Some (sha256_to_hex (sha256_spec c), of_nat (length c)), w)"
proof -
  have p: "p \<noteq> []" using assms(4) by auto
  have len: "44 \<le> length c" "length c < 2 ^ 32" "(length c - 44) mod 2 = 0" "wav_header_canonical (take 44 c) (of_nat (length c))"
    using assms(3) by (simp_all add: finished_wav_def config_simps)
  have u: "unat (of_nat (length c) :: u32) = length c" by (rule unat_of_nat_small) (use len in simp)
  have "\<not> (of_nat (length c) :: u32) < 44" using u len(1) by (simp add: word_less_nat_alt)
  then have "finalized_wav_valid p (of_nat (length c)) w = (True, w)"
    using assms(1,2) len unat_mod_align[OF len(2,1)]
    by (simp add: finalized_wav_valid_def fopen_def fread_def fclose_def Let_def config_simps)
  then show ?thesis using assms len p sha256_file_hex_quiet[OF assms(1,2) p]
    by (simp add: device_manifest_hash_wav_file.simps Let_def c_stat_quiet st_size_def config_simps)
qed

lemma sample_scan_names:
  "finished_wav sample_wav" "valid_date_dir (Some sample_day)" "date_dir_has_shape (Some sample_day)" "audience_wav_name (Some sample_name)"
  "wav_identity (Some sample_day) sample_name = Some (sample_uuid, sample_stamp)"
  "rel_path sample_day sample_name = me_filename sample_entry"
proof -
  show "finished_wav sample_wav"
    by (simp add: finished_wav_def sample_wav_def config_simps wav_header_canonical_def bytes_of_string_def)
  have dig: "list_all ascii_digit ''0123456789''" by (simp add: ascii_digit_def)
  then show shape: "date_dir_has_shape (Some sample_day)" by (simp add: sample_day_def upt_rec)
  have val: "digit_val CHR ''0'' = 0" "digit_val CHR ''2'' = 2" "digit_val CHR ''6'' = 6" "digit_val CHR ''8'' = 8"
    by (simp_all add: digit_val_def)
  then show vd: "valid_date_dir (Some sample_day)" using shape
    by (simp add: sample_day_def four_digits_def two_digits_def valid_calendar_date_def days_in_month_def del: date_dir_has_shape.simps)
  show "audience_wav_name (Some sample_name)" "rel_path sample_day sample_name = me_filename sample_entry"
    by (simp_all add: sample_name_def sample_uuid_def ends_in_def rel_path_def sample_day_def sample_entry_def)
  have "split_wav_name (Some sample_name) = Some ''235959''" using dig by (simp add: sample_name_def sample_uuid_def)
  moreover have "device_manifest_extract_recording_id (Some sample_name) 65 = Some sample_uuid"
    using dig by (simp add: sample_name_def sample_uuid_def path_base_def upt_rec extract_id_char_def)
  moreover have "started_of sample_day ''235959'' = sample_stamp" by (simp add: started_of_def sample_day_def sample_stamp_def)
  ultimately show "wav_identity (Some sample_day) sample_name = Some (sample_uuid, sample_stamp)"
    using sample_uuid_valid sample_stamp_valid vd unfolding wav_identity_def
    by (simp add: snprintf_fits_def sample_stamp_def[symmetric] RECORDER_ISO8601_STR_LEN_def del: device_identity_is_valid_uuid.simps
        device_manifest_is_valid_iso8601_offset.simps valid_date_dir.simps split_wav_name.simps device_manifest_extract_recording_id.simps)
      (simp add: sample_stamp_def)
qed

lemma manifest_recording_count_quiet:
  assumes "quiet w" "holds d p w es" "p \<noteq> []"
  shows "manifest_recording_count p (Some d) w = (Some (of_nat (length es)), w)"
proof -
  obtain doc where doc: "files w p = Some (bytes_of_string doc)" "lists d doc es" "length doc \<le> RECORDER_MANIFEST_MAX_BYTES"
    using assms(2) by (auto simp: holds_def)
  show ?thesis using read_file_bounded_quiet[OF assms(1) doc(1,3) assms(3) manifest_max_pos] lists_valid[OF doc(2)] count_entries[OF doc(2)]
    by (simp add: manifest_recording_count_def del: manifest_snapshot_valid.simps)
qed

abbreviation sample_path :: string where
  "sample_path \<equiv> RECORDER_RECORDINGS_DIR @ ''/'' @ sample_day @ ''/'' @ sample_name"

lemma sample_scan_paths:
  "sample_path \<notin> {MANIFEST_PATH, MANIFEST_TMP_PATH, MANIFEST_BAK_PATH}" "5 \<le> length sample_path" "ends_in sample_path ''.wav''"
  "\<not> ends_in sample_path ''.wav.part''" "recordings_apart RECORDER_RECORDINGS_DIR {MANIFEST_PATH, MANIFEST_TMP_PATH, MANIFEST_BAK_PATH}"
  by (simp_all add: RECORDER_RECORDINGS_DIR_def MANIFEST_PATH_def MANIFEST_TMP_PATH_def MANIFEST_BAK_PATH_def sample_name_def
      sample_day_def sample_uuid_def ends_in_def recordings_apart_def)

lemma sample_scan_card_state:
  "quiet sample_scan_card" "committed sample_uuid MANIFEST_PATH MANIFEST_BAK_PATH sample_scan_card []"
  "holds sample_uuid MANIFEST_PATH sample_scan_card []" "files sample_scan_card sample_path = Some sample_wav"
  "\<not> dirs sample_scan_card MANIFEST_PATH" "\<not> dirs sample_scan_card MANIFEST_BAK_PATH" "honest sample_scan_card"
proof -
  show q: "quiet sample_scan_card" "honest sample_scan_card" using listed_card_state(1)
    by (simp_all add: sample_scan_card_def quiet_def honest_def)
  show "files sample_scan_card sample_path = Some sample_wav" by (simp add: sample_scan_card_def)
  have f: "files sample_scan_card p = files listed_card p" "unsynced sample_scan_card p = unsynced listed_card p"
    if "p \<in> {MANIFEST_PATH, MANIFEST_TMP_PATH, MANIFEST_BAK_PATH}" for p
    using that sample_scan_paths(1) by (auto simp: sample_scan_card_def)
  have "elsewhere MANIFEST_PATH MANIFEST_TMP_PATH MANIFEST_BAK_PATH listed_card sample_scan_card"
    using f q by (simp add: elsewhere_def) (simp add: sample_scan_card_def listed_card_def empty_card_def)
  then show "committed sample_uuid MANIFEST_PATH MANIFEST_BAK_PATH sample_scan_card []"
    by (rule committed_elsewhere[OF _ listed_card_state(3)])
  show "holds sample_uuid MANIFEST_PATH sample_scan_card []" using listed_card_state(2) f(1) by (simp add: holds_def)
  show "\<not> dirs sample_scan_card MANIFEST_PATH" "\<not> dirs sample_scan_card MANIFEST_BAK_PATH"
    by (simp_all add: sample_scan_card_def RECORDER_RECORDINGS_DIR_def MANIFEST_PATH_def MANIFEST_BAK_PATH_def)
qed

definition scanned_entry :: manifest_entry where
  "scanned_entry = sample_entry\<lparr>me_duration := 0, me_size := 46, me_sha := sha256_to_hex (sha256_spec sample_wav),
     me_fw := RECORDER_FIRMWARE_VERSION\<rparr>"

lemma scanned_entry_ok: "entry_ok scanned_entry" "length (entry_text scanned_entry) < RECORDER_MANIFEST_ENTRY_MAX"
  "sha256_is_valid_hex (Some (sha256_to_hex (sha256_spec sample_wav)))"
proof -
  show v: "sha256_is_valid_hex (Some (sha256_to_hex (sha256_spec sample_wav)))" by (rule sha256_to_hex_valid) simp
  have d: "expected_duration 46 = 0" by (simp add: expected_duration_eq)
  have fw: "safe_free_text (Some RECORDER_FIRMWARE_VERSION) 32" by code_simp
  show "entry_ok scanned_entry" using sample_entry_ok v d fw unfolding entry_ok_def scanned_entry_def
    by (simp add: config_simps del: device_identity_is_valid_uuid.simps device_manifest_is_valid_iso8601_offset.simps
        valid_filename.simps sha256_is_valid_hex.simps safe_free_text.simps)
  have "length (sha256_to_hex (sha256_spec sample_wav)) = 64" using v by (simp split: if_splits)
  moreover have "length sample_uuid = 36" "length sample_stamp = 25" by (simp_all add: sample_uuid_def sample_stamp_def)
  ultimately show "length (entry_text scanned_entry) < RECORDER_MANIFEST_ENTRY_MAX"
    by (simp add: entry_text_def scanned_entry_def sample_entry_def config_simps dec_of_nat.simps)
qed

lemma sample_ensured:
  "\<exists>w'. ensure_one_wav sample_path (rel_path sample_day sample_name) (Some sample_day) sample_name MANIFEST_PATH MANIFEST_TMP_PATH
      sample_uuid sample_stamp DEVICE_MANIFEST_STATE_FINALIZED st sample_scan_card = (True, st\<lparr>indexed := indexed st + 1\<rparr>, w') \<and>
    quiet w' \<and> holds sample_uuid MANIFEST_PATH w' [scanned_entry]"
proof -
  note c = sample_scan_card_state
  let ?hex = "sha256_to_hex (sha256_spec sample_wav)"
  have h: "device_manifest_hash_wav_file (Some sample_path) sample_scan_card = (Some (?hex, 46), sample_scan_card)"
    using hash_wav_file_quiet[OF c(1,4) sample_scan_names(1) sample_scan_paths(2-4)] by (simp add: sample_wav_def)
  have be: "device_manifest_build_entry (Some sample_uuid) (Some (rel_path sample_day sample_name)) (Some sample_stamp) 0 46
      (Some ?hex) RECORDER_SAMPLE_RATE_HZ RECORDER_BITS_PER_SAMPLE RECORDER_CHANNELS (Some DEVICE_MANIFEST_STATE_FINALIZED) None
      RECORDER_MANIFEST_ENTRY_MAX = Some (entry_text scanned_entry)"
    using scanned_entry_ok sample_uuid_valid sample_stamp_valid unfolding device_manifest_build_entry_def sample_scan_names(6)
    by (simp add: entry_ok_def scanned_entry_def sample_entry_def snprintf_fits_def config_simps DEVICE_MANIFEST_STATE_FINALIZED_def
        del: device_identity_is_valid_uuid.simps device_manifest_is_valid_iso8601_offset.simps
        valid_filename.simps sha256_is_valid_hex.simps safe_free_text.simps)
  obtain r w' where u: "device_manifest_upsert_file (Some MANIFEST_PATH) (Some MANIFEST_TMP_PATH) (Some sample_uuid) (Some sample_stamp)
      (Some (entry_text scanned_entry)) sample_scan_card = (r, w')" by fastforce
  have small: "length (document_text sample_uuid sample_stamp (body_text ([] @ [scanned_entry]))) \<le> DEVICE_MANIFEST_ADMISSION_CEILING_BYTES"
    using first_document_small(1)[of sample_uuid sample_stamp "entry_text scanned_entry"] scanned_entry_ok(2)
    by (simp add: sample_uuid_def sample_stamp_def)
  have ok: "r = DEVICE_MANIFEST_OK \<and> holds sample_uuid MANIFEST_PATH w' ([] @ [scanned_entry])"
    using upsert_new_ok[OF c(1) sample_paths c(2,3,5,6) sample_stamp_valid scanned_entry_ok(1) _ _ small u] scanned_entry_ok(2) by simp
  have "quiet w'" using upsert_file_keeps(1)[OF u c(2) sample_paths c(7)] c(1) by (simp add: upsert_keeps_def store_step_def)
  moreover have "ensure_one_wav sample_path (rel_path sample_day sample_name) (Some sample_day) sample_name MANIFEST_PATH MANIFEST_TMP_PATH
      sample_uuid sample_stamp DEVICE_MANIFEST_STATE_FINALIZED st sample_scan_card = (True, st\<lparr>indexed := indexed st + 1\<rparr>, w')"
    unfolding ensure_one_wav_def sample_scan_names(5) option.case prod.case h
    using be u ok c(1) by (simp add: config_simps Let_def c_malloc_def device_manifest_duration_ms_def del: device_manifest_upsert_file.simps)
  ultimately show ?thesis using ok by auto
qed

definition sample_scan :: "bool \<times> scan_t \<times> io_world" where
  "sample_scan = device_manifest_sync_wav_dir (Some RECORDER_RECORDINGS_DIR) (Some MANIFEST_PATH) (Some MANIFEST_TMP_PATH)
     (Some sample_uuid) (Some sample_stamp) (Some DEVICE_MANIFEST_STATE_FINALIZED) sample_scan_card"

lemma sample_scan_succeeds: "fst sample_scan"
proof -
  note c = sample_scan_card_state
  let ?st = "scan_failed DEVICE_MANIFEST_SCAN_OK scan_start"
  obtain w' where e: "ensure_one_wav sample_path (rel_path sample_day sample_name) (Some sample_day) sample_name MANIFEST_PATH MANIFEST_TMP_PATH
      sample_uuid sample_stamp DEVICE_MANIFEST_STATE_FINALIZED ?st sample_scan_card = (True, ?st\<lparr>indexed := 1\<rparr>, w')"
      "quiet w'" "holds sample_uuid MANIFEST_PATH w' [scanned_entry]"
    using sample_ensured[of ?st] by (auto simp: scan_failed_def scan_start_def)
  let ?child = "RECORDER_RECORDINGS_DIR @ ''/'' @ sample_day"
  have n: "sample_name \<noteq> ''.''" "sample_name \<noteq> ''..''" "length sample_path < RECORDER_MAX_PATH_LEN" "length (rel_path sample_day sample_name) < 192"
    "sample_day \<noteq> ''.''" "sample_day \<noteq> ''..''" "length ?child < RECORDER_MAX_PATH_LEN" "RECORDER_RECORDINGS_DIR \<noteq> []" "MANIFEST_PATH \<noteq> []"
    "MANIFEST_TMP_PATH \<noteq> []"
    by (simp_all add: sample_name_def sample_day_def sample_uuid_def rel_path_def config_simps MANIFEST_PATH_def MANIFEST_TMP_PATH_def)
  have sub: "sync_sub ?child sample_day MANIFEST_PATH MANIFEST_TMP_PATH sample_uuid sample_stamp DEVICE_MANIFEST_STATE_FINALIZED
      [sample_name] ?st sample_scan_card = (True, ?st\<lparr>indexed := 1\<rparr>, w')"
    using e n c(1) sample_scan_names(4) by (simp add: c_readdir_def c_closedir_def Let_def rel_path_def[symmetric, simplified] del: audience_wav_name.simps)
  have fs: "files sample_scan_card ?child = None" "dirs sample_scan_card ?child" "listing sample_scan_card ?child = Some [sample_name]"
    "listing sample_scan_card RECORDER_RECORDINGS_DIR = Some [sample_day]"
    by (simp_all add: sample_scan_card_def listed_card_def empty_card_def RECORDER_RECORDINGS_DIR_def MANIFEST_PATH_def)
  have dir: "sync_dir RECORDER_RECORDINGS_DIR MANIFEST_PATH MANIFEST_TMP_PATH sample_uuid sample_stamp DEVICE_MANIFEST_STATE_FINALIZED
      [sample_day] ?st sample_scan_card = (True, ?st\<lparr>indexed := 1\<rparr>, w')"
    using sub n c(1) fs sample_scan_names(2,3) e(2)
    by (simp add: c_readdir_def c_closedir_def c_opendir_def c_stat_quiet Let_def del: valid_date_dir.simps date_dir_has_shape.simps sync_sub.simps)
  have "sync_scan RECORDER_RECORDINGS_DIR MANIFEST_PATH MANIFEST_TMP_PATH sample_uuid sample_stamp DEVICE_MANIFEST_STATE_FINALIZED
      sample_scan_card = (True, ?st\<lparr>indexed := 1, s_scan_indexed := 1, out_added := 1\<rparr>, w')"
    using manifest_recording_count_quiet[OF c(1,3) n(9)] manifest_recording_count_quiet[OF e(2,3) n(9)] dir fs(4) c(1)
    by (simp add: sync_scan_def c_opendir_def scan_failed_def scan_start_def del: sync_dir.simps)
  then show ?thesis using n sample_uuid_valid sample_stamp_valid
    by (simp add: sample_scan_def del: device_identity_is_valid_uuid.simps device_manifest_is_valid_iso8601_offset.simps)
qed

theorem scan_proves_inventory_witness:
  "\<exists>es'. holds sample_uuid MANIFEST_PATH (snd (snd sample_scan)) es' \<and> unat (out_added (fst (snd sample_scan))) = length es' \<and>
     (\<exists>e \<in> set es'. me_filename e = rel_path sample_day sample_name)"
proof -
  obtain st w' where r: "sample_scan = (True, st, w')" using sample_scan_succeeds by (metis (full_types) fst_conv prod_cases3)
  have t: "tidy_listing (listing sample_scan_card) RECORDER_RECORDINGS_DIR"
    by (simp add: tidy_listing_def sample_scan_card_def RECORDER_RECORDINGS_DIR_def)
  have o: "on_card (listing sample_scan_card) RECORDER_RECORDINGS_DIR sample_day sample_name"
    unfolding on_card_def using sample_scan_names(2) by (simp add: sample_scan_card_def RECORDER_RECORDINGS_DIR_def del: valid_date_dir.simps)
  have s: "scannable sample_day sample_name"
    using sample_scan_names(4,5) by (simp add: scannable_def sample_name_def del: audience_wav_name.simps)
  show ?thesis
    using scan_proves_inventory[OF r[unfolded sample_scan_def] sample_scan_card_state(2) sample_paths sample_scan_card_state(7)
        sample_scan_paths(5) t] o s unfolding r fst_conv snd_conv by (metis diff_zero list.size(3))
qed

end
