(* ===== verification/Rtc_Clock.thy ===== *)
theory Rtc_Clock
  imports Manifest_Calendar
begin

text \<open>
  The clock half of \<open>firmware/components/recorder/rtc_correction.c\<close>: parsing a requested time, the registers of
  the BM8563 clock chip in binary coded decimals, and the transport to the chip.

  The I2C driver and the system clock are a parameter; \<open>bm8563_contract\<close> is what the data sheet says of a write.
  \<open>gmtime_r\<close> of the C library is modelled on the Gregorian calendar as a successor function on dates, with its
  period of 400 years.
\<close>

section \<open>gmtime\_r\<close>

record tm_t =
  tm_year :: int
  tm_mon :: int
  tm_mday :: int
  tm_hour :: int
  tm_min :: int
  tm_sec :: int
  tm_wday :: int

definition utc_date :: "int \<Rightarrow> int \<times> int \<times> int" where
  "utc_date n =
     (case (next_date ^^ nat (n mod 146097)) (1970, 1, 1) of (y, m, d) \<Rightarrow> (y + 400 * (n div 146097), m, d))"

text \<open>It fails when the year does not fit an \<open>int\<close>.\<close>

definition gmtime_r :: "int \<Rightarrow> tm_t option" where
  "gmtime_r epoch =
     (case utc_date (epoch div 86400) of (y, m, d) \<Rightarrow>
      if y - 1900 < - (2 ^ 31) \<or> y - 1900 \<ge> 2 ^ 31 then None
      else Some \<lparr>tm_year = y - 1900, tm_mon = m - 1, tm_mday = d, tm_hour = epoch mod 86400 div 3600,
             tm_min = epoch mod 3600 div 60, tm_sec = epoch mod 60, tm_wday = (epoch div 86400 + 4) mod 7\<rparr>)"

text \<open>The conversions \<open>%04d\<close> and \<open>%02d\<close>.\<close>

definition pad_dec :: "nat \<Rightarrow> nat \<Rightarrow> string" where
  "pad_dec width n = replicate (width - length (dec_of_nat n)) CHR ''0'' @ dec_of_nat n"

definition fmt_d :: "nat \<Rightarrow> int \<Rightarrow> string" where
  "fmt_d width i = (if i < 0 then CHR ''-'' # pad_dec (width - 1) (nat (- i)) else pad_dec width (nat i))"

definition print_tm :: "tm_t \<Rightarrow> string" where
  "print_tm tm = fmt_d 4 (tm_year tm + 1900) @ ''-'' @ fmt_d 2 (tm_mon tm + 1) @ ''-'' @ fmt_d 2 (tm_mday tm) @ ''T'' @
     fmt_d 2 (tm_hour tm) @ '':'' @ fmt_d 2 (tm_min tm) @ '':'' @ fmt_d 2 (tm_sec tm) @ ''+00:00''"

section \<open>Dates\<close>

definition rtc_is_leap :: "int \<Rightarrow> bool" where
  "rtc_is_leap year \<longleftrightarrow> year mod 4 = 0 \<and> (year mod 100 \<noteq> 0 \<or> year mod 400 = 0)"

definition rtc_days_in_month :: "int \<Rightarrow> int \<Rightarrow> int" where
  "rtc_days_in_month year month =
     (if month < 1 \<or> month > 12 then 0
      else if month = 2 \<and> rtc_is_leap year then 29
      else [31, 28, 31, 30, 31, 30, 31, 31, 30, 31, 30, 31] ! nat (month - 1))"

text \<open>The conversion to \<open>unsigned\<close>.\<close>

definition c_unsigned :: "int \<Rightarrow> int" where
  "c_unsigned i = i mod 2 ^ 32"

definition rtc_days_from_civil :: "int \<Rightarrow> int \<Rightarrow> int \<Rightarrow> int" where
  "rtc_days_from_civil year month day =
     (let year = year - (if month \<le> 2 then 1 else 0);
          era = (if year \<ge> 0 then year div 400 else - ((399 - year) div 400));
          yoe = c_unsigned (year - era * 400);
          doy = c_unsigned (c_unsigned (153 * c_unsigned (month + (if month > 2 then c_unsigned (-3) else 9)) + 2) div 5 + day - 1);
          doe = c_unsigned (yoe * 365 + yoe div 4 - yoe div 100 + doy)
      in era * 146097 + doe - 719468)"

section \<open>Parsing a request\<close>

fun rtc_parse_fixed_digits :: "string \<Rightarrow> nat \<Rightarrow> int \<Rightarrow> int option" where
  \<comment> \<open>The last argument is \<open>value\<close>; the end of the list is the terminator.\<close>
  "rtc_parse_fixed_digits p 0 v = Some v"
| "rtc_parse_fixed_digits [] (Suc n) v = None"
| "rtc_parse_fixed_digits (c # p) (Suc n) v =
     (if \<not> ascii_digit c then None else rtc_parse_fixed_digits p n (v * 10 + int (digit_val c)))"

datatype rtc_correction_result_t =
    RTC_CORRECTION_OK
  | RTC_CORRECTION_INVALID_ARGS
  | RTC_CORRECTION_RANGE_ERROR
  | RTC_CORRECTION_BUSY
  | RTC_CORRECTION_INTERNAL_ERROR

text \<open>The text behind the seconds and their fraction; \<open>None\<close>: a point without digits.\<close>

definition rtc_skip_fraction :: "string \<Rightarrow> string option" where
  "rtc_skip_fraction p =
     (if p \<noteq> [] \<and> hd p = CHR ''.''
      then (if takeWhile ascii_digit (tl p) = [] then None else Some (dropWhile ascii_digit (tl p)))
      else Some p)"

text \<open>The offset from UTC in seconds.\<close>

definition rtc_parse_offset :: "string \<Rightarrow> int option" where
  "rtc_parse_offset p =
     (if p = [] then None
      else if hd p = CHR ''Z'' then (if length p \<noteq> 1 then None else Some 0)
      else if hd p = CHR ''+'' \<or> hd p = CHR ''-''
      then (let off_sign = (if hd p = CHR ''+'' then 1 else -1) in
            if length p \<noteq> 6 \<or> p ! 3 \<noteq> CHR '':'' then None
            else case rtc_parse_fixed_digits (drop 1 p) 2 0 of
              None \<Rightarrow> None
            | Some off_hour \<Rightarrow>
                (case rtc_parse_fixed_digits (drop 4 p) 2 0 of
                   None \<Rightarrow> None
                 | Some off_minute \<Rightarrow>
                     if off_hour > 14 \<or> off_minute > 59 \<or> (off_hour = 14 \<and> off_minute \<noteq> 0) then None
                     else Some (off_sign * (off_hour * 3600 + off_minute * 60))))
      else None)"

text \<open>The six numbers of a timestamp.\<close>

definition rtc_parse_fields :: "string \<Rightarrow> (int \<times> int \<times> int \<times> int \<times> int \<times> int) option" where
  "rtc_parse_fields t =
     (case (rtc_parse_fixed_digits t 4 0, rtc_parse_fixed_digits (drop 5 t) 2 0, rtc_parse_fixed_digits (drop 8 t) 2 0,
            rtc_parse_fixed_digits (drop 11 t) 2 0, rtc_parse_fixed_digits (drop 14 t) 2 0, rtc_parse_fixed_digits (drop 17 t) 2 0) of
        (Some year, Some month, Some day, Some hour, Some minute, Some second) \<Rightarrow> Some (year, month, day, hour, minute, second)
      | _ \<Rightarrow> None)"

text \<open>\<open>Inl\<close> is an error; \<open>Inr\<close> carries \<open>*out_epoch\<close> and \<open>normalized\<close>.\<close>

fun rtc_parse_iso8601 :: "string ptr \<Rightarrow> rtc_correction_result_t + (int \<times> string)" where
  "rtc_parse_iso8601 None = Inl RTC_CORRECTION_INVALID_ARGS"
| "rtc_parse_iso8601 (Some t) =
     (let len = length t in
      if len < 20 \<or> len > 40 \<or> t ! 4 \<noteq> CHR ''-'' \<or> t ! 7 \<noteq> CHR ''-'' \<or> t ! 10 \<noteq> CHR ''T'' \<or> t ! 13 \<noteq> CHR '':'' \<or> t ! 16 \<noteq> CHR '':''
      then Inl RTC_CORRECTION_INVALID_ARGS
      else case rtc_parse_fields t of
        None \<Rightarrow> Inl RTC_CORRECTION_INVALID_ARGS
      | Some (year, month, day, hour, minute, second) \<Rightarrow>
          if month < 1 \<or> month > 12 \<or> day < 1 \<or> day > rtc_days_in_month year month \<or> hour < 0 \<or> hour > 23 \<or>
             minute < 0 \<or> minute > 59 \<or> second < 0 \<or> second > 59 then Inl RTC_CORRECTION_RANGE_ERROR
          else case rtc_skip_fraction (drop 19 t) of
            None \<Rightarrow> Inl RTC_CORRECTION_INVALID_ARGS
          | Some rest \<Rightarrow>
              (case rtc_parse_offset rest of
                 None \<Rightarrow> Inl RTC_CORRECTION_INVALID_ARGS
               | Some offset \<Rightarrow>
                   let epoch = rtc_days_from_civil year month day * 86400 + hour * 3600 + minute * 60 + second - offset in
                   if epoch < 946684800 \<or> epoch > 4102444799 then Inl RTC_CORRECTION_RANGE_ERROR
                   else case gmtime_r epoch of
                     None \<Rightarrow> Inl RTC_CORRECTION_RANGE_ERROR
                   | Some tm \<Rightarrow>
                       if length (print_tm tm) \<noteq> 25 then Inl RTC_CORRECTION_INTERNAL_ERROR else Inr (epoch, print_tm tm)))"

definition rtc_format_epoch :: "int \<Rightarrow> string" where
  "rtc_format_epoch epoch =
     (case gmtime_r epoch of
        None \<Rightarrow> ''1970-01-01T00:00:00+00:00''
      | Some tm \<Rightarrow> if length (print_tm tm) \<noteq> 25 then ''1970-01-01T00:00:00+00:00'' else print_tm tm)"

section \<open>The clock chip\<close>

definition rtc_to_bcd :: "u32 \<Rightarrow> u8" where
  "rtc_to_bcd value = ucast (push_bit 4 (value div 10) OR (value mod 10))"

definition rtc_bcd_valid :: "u8 \<Rightarrow> bool" where
  "rtc_bcd_valid value \<longleftrightarrow> value AND 0x0F \<le> 9 \<and> drop_bit 4 value AND 0x0F \<le> 9"

definition rtc_from_bcd :: "u8 \<Rightarrow> u32" where
  "rtc_from_bcd value = ucast (drop_bit 4 value AND 0x0F) * 10 + ucast (value AND 0x0F)"

definition BM8563_REG_CONTROL1 :: byte where "BM8563_REG_CONTROL1 = 0x00"
definition BM8563_REG_SECONDS :: byte where "BM8563_REG_SECONDS = 0x02"
definition BM8563_CONTROL1_STOP :: byte where "BM8563_CONTROL1_STOP = 0x20"
definition BM8563_SECONDS_VL :: byte where "BM8563_SECONDS_VL = 0x80"
definition BM8563_MONTH_CENTURY :: byte where "BM8563_MONTH_CENTURY = 0x80"

text \<open>The I2C master driver and the system clock; a receive fills the buffer, given as a function of the index.\<close>

record 'h rtc_api =
  i2c_new_master_bus :: "'h \<Rightarrow> esp_err_t \<times> 'h"
  i2c_master_bus_add_device :: "'h \<Rightarrow> esp_err_t \<times> 'h"
  i2c_master_bus_rm_device :: "'h \<Rightarrow> esp_err_t \<times> 'h"
  i2c_del_master_bus :: "'h \<Rightarrow> esp_err_t \<times> 'h"
  i2c_master_transmit :: "byte list \<Rightarrow> 'h \<Rightarrow> esp_err_t \<times> 'h"
  i2c_master_transmit_receive :: "byte list \<Rightarrow> nat \<Rightarrow> 'h \<Rightarrow> esp_err_t \<times> (nat \<Rightarrow> byte) \<times> 'h"
  gettimeofday :: "'h \<Rightarrow> int option \<times> 'h"
  settimeofday :: "int \<Rightarrow> 'h \<Rightarrow> bool \<times> 'h"

definition bcd_of :: "int \<Rightarrow> byte" where
  "bcd_of i = rtc_to_bcd (of_int i)"

definition rtc_payload :: "tm_t \<Rightarrow> byte list" where
  "rtc_payload tm =
     [BM8563_REG_SECONDS, bcd_of (tm_sec tm), bcd_of (tm_min tm), bcd_of (tm_hour tm), bcd_of (tm_mday tm), bcd_of (tm_wday tm),
      bcd_of (tm_mon tm + 1), bcd_of ((tm_year tm + 1900) mod 100)]"

definition rtc_hw_write_epoch :: "'h rtc_api \<Rightarrow> int \<Rightarrow> 'h \<Rightarrow> esp_err_t \<times> 'h" where
  "rtc_hw_write_epoch api epoch h =
     (case gmtime_r epoch of
        None \<Rightarrow> (ESP_ERR_INVALID_ARG, h)
      | Some tm \<Rightarrow>
          if tm_year tm + 1900 < 2000 \<or> tm_year tm + 1900 > 2099 then (ESP_ERR_INVALID_ARG, h)
          else case i2c_master_transmit api [BM8563_REG_CONTROL1, BM8563_CONTROL1_STOP] h of (err, h) \<Rightarrow>
          if err \<noteq> ESP_OK then (err, h)
          else case i2c_master_transmit api (rtc_payload tm) h of (err, h) \<Rightarrow>
          if err \<noteq> ESP_OK then (err, snd (i2c_master_transmit api [BM8563_REG_CONTROL1, 0x00] h))
          else i2c_master_transmit api [BM8563_REG_CONTROL1, 0x00] h)"

text \<open>What the seven registers from \<open>BM8563_REG_SECONDS\<close> on say; \<open>None\<close>: they hold no time.\<close>

definition rtc_decode :: "(nat \<Rightarrow> byte) \<Rightarrow> int option" where
  "rtc_decode data =
     (if data 0 AND BM8563_SECONDS_VL \<noteq> 0 \<or> data 5 AND BM8563_MONTH_CENTURY \<noteq> 0 then None
      else let d0 = data 0 AND 0x7F; d1 = data 1 AND 0x7F; d2 = data 2 AND 0x3F; d3 = data 3 AND 0x3F; d5 = data 5 AND 0x1F; d6 = data 6 in
      if \<not> rtc_bcd_valid d0 \<or> \<not> rtc_bcd_valid d1 \<or> \<not> rtc_bcd_valid d2 \<or> \<not> rtc_bcd_valid d3 \<or> \<not> rtc_bcd_valid d5 \<or> \<not> rtc_bcd_valid d6
      then None
      else let second = uint (rtc_from_bcd d0); minute = uint (rtc_from_bcd d1); hour = uint (rtc_from_bcd d2);
               day = uint (rtc_from_bcd d3); month = uint (rtc_from_bcd d5); year = 2000 + uint (rtc_from_bcd d6) in
      if month < 1 \<or> month > 12 \<or> day < 1 \<or> day > rtc_days_in_month year month \<or> hour > 23 \<or> minute > 59 \<or> second > 59 then None
      else Some (rtc_days_from_civil year month day * 86400 + hour * 3600 + minute * 60 + second))"

definition rtc_hw_read_epoch :: "'h rtc_api \<Rightarrow> 'h \<Rightarrow> (esp_err_t + int) \<times> 'h" where
  "rtc_hw_read_epoch api h =
     (case i2c_master_transmit_receive api [BM8563_REG_SECONDS] 7 h of (err, data, h) \<Rightarrow>
      if err \<noteq> ESP_OK then (Inl err, h)
      else case rtc_decode data of None \<Rightarrow> (Inl ESP_ERR_INVALID_STATE, h) | Some epoch \<Rightarrow> (Inr epoch, h))"

text \<open>A write stores its bytes from the addressed register on; \<open>regs\<close> are the registers of the chip.\<close>

definition bm8563_contract :: "'h rtc_api \<Rightarrow> ('h \<Rightarrow> nat \<Rightarrow> byte) \<Rightarrow> bool" where
  "bm8563_contract api regs \<longleftrightarrow>
     (\<forall>r bs h. fst (i2c_master_transmit api (r # bs) h) = ESP_OK \<longrightarrow>
        regs (snd (i2c_master_transmit api (r # bs) h)) =
          (\<lambda>i. if unat r \<le> i \<and> i < unat r + length bs then bs ! (i - unat r) else regs h i))"

section \<open>The calendar\<close>

lemma rtc_days_in_month_eq: "1 \<le> m \<Longrightarrow> m \<le> 12 \<Longrightarrow> rtc_days_in_month y m = month_days y m"
proof -
  assume "1 \<le> m" "m \<le> 12"
  then have "m = 1 \<or> m = 2 \<or> m = 3 \<or> m = 4 \<or> m = 5 \<or> m = 6 \<or> m = 7 \<or> m = 8 \<or> m = 9 \<or> m = 10 \<or> m = 11 \<or> m = 12" by presburger
  then show ?thesis by (elim disjE) (simp_all add: rtc_days_in_month_def month_days_def rtc_is_leap_def leap_def)
qed

lemma c_unsigned_small: "0 \<le> i \<Longrightarrow> i < 2 ^ 32 \<Longrightarrow> c_unsigned i = i"
  by (simp add: c_unsigned_def)

lemma era_range:
  fixes ya :: int
  defines "era \<equiv> (if ya \<ge> 0 then ya div 400 else - ((399 - ya) div 400))"
  shows "0 \<le> ya - era * 400 \<and> ya - era * 400 < 400"
proof (cases "ya \<ge> 0")
  case True
  then have "ya - era * 400 = ya mod 400" by (simp add: era_def minus_div_mult_eq_mod)
  then show ?thesis by simp
next
  case False
  have "(399 - ya) div 400 * 400 + (399 - ya) mod 400 = 399 - ya" by (rule div_mult_mod_eq)
  then have "ya - era * 400 = 399 - (399 - ya) mod 400" using False unfolding era_def if_not_P[OF False] by linarith
  then show ?thesis using pos_mod_bound[of 400 "399 - ya"] pos_mod_sign[of 400 "399 - ya"] by linarith
qed

text \<open>The unsigned arithmetic of the clock agrees with the day numbers of the manifest.\<close>

lemma rtc_days_from_civil_eq:
  assumes "1 \<le> m" "m \<le> 12" "1 \<le> d" "d \<le> 31"
  shows "rtc_days_from_civil y m d = civil_days y m d"
proof -
  define ya where "ya = y - (if m \<le> 2 then 1 else 0)"
  define era where "era = (if ya \<ge> 0 then ya div 400 else - ((399 - ya) div 400))"
  define yoe where "yoe = ya - era * 400"
  have yoe: "0 \<le> yoe" "yoe < 400" using era_range[of ya] by (simp_all add: yoe_def era_def)
  have m12: "m = 1 \<or> m = 2 \<or> m = 3 \<or> m = 4 \<or> m = 5 \<or> m = 6 \<or> m = 7 \<or> m = 8 \<or> m = 9 \<or> m = 10 \<or> m = 11 \<or> m = 12" using assms by presburger
  have mp: "c_unsigned (m + (if m > 2 then c_unsigned (-3) else 9)) = m + (if m > 2 then -3 else 9)"
    using m12 by (elim disjE) (simp_all add: c_unsigned_def)
  define doy where "doy = (153 * (m + (if m > 2 then -3 else 9)) + 2) div 5 + d - 1"
  have doy: "0 \<le> doy" "doy < 400" "c_unsigned (153 * (m + (if m > 2 then -3 else 9)) + 2) = 153 * (m + (if m > 2 then -3 else 9)) + 2"
    using m12 assms(3,4) unfolding doy_def by (elim disjE; simp add: c_unsigned_def)+
  have 1: "c_unsigned yoe = yoe" "c_unsigned doy = doy" using yoe doy by (simp_all add: c_unsigned_small)
  have q: "0 \<le> yoe div 4" "yoe div 4 \<le> 99" "0 \<le> yoe div 100" "yoe div 100 \<le> 3" using yoe by auto
  have 2: "c_unsigned (yoe * 365 + yoe div 4 - yoe div 100 + doy) = yoe * 365 + yoe div 4 - yoe div 100 + doy"
  proof (rule c_unsigned_small)
    show "0 \<le> yoe * 365 + yoe div 4 - yoe div 100 + doy" using yoe doy q by linarith
    have "yoe * 365 + yoe div 4 - yoe div 100 + doy < 1000000" using yoe doy q by linarith
    then show "yoe * 365 + yoe div 4 - yoe div 100 + doy < 2 ^ 32" by simp
  qed
  show ?thesis unfolding rtc_days_from_civil_def civil_days_def Let_def ya_def[symmetric] era_def[symmetric] yoe_def[symmetric]
    mp doy(3) doy_def[symmetric] 1 2 ..
qed

definition leaps :: "int \<Rightarrow> int" where
  "leaps y = y div 4 - y div 100 + y div 400"

lemma leaps_step: "leaps y = leaps (y - 1) + (if leap y then 1 else 0)"
  unfolding leaps_def by (rule year_step)

lemma civil_days_leaps:
  assumes "1 \<le> y" "1 \<le> m" "m \<le> 12"
  shows "civil_days y m d = (if m \<le> 2 then (y - 1) * 365 + leaps (y - 1) else y * 365 + leaps y) +
    (153 * (m + (if m > 2 then -3 else 9)) + 2) div 5 + d - 719469"
  unfolding civil_days_eq[OF assms] Let_def leaps_def by (cases "m \<le> 2") simp_all

lemma year_span:
  assumes "is_date y m d"
  shows "civil_days y 1 1 \<le> civil_days y m d" "civil_days y m d < civil_days (y + 1) 1 1"
proof -
  have m: "1 \<le> m" "m \<le> 12" and y: "1 \<le> y" and d: "1 \<le> d" "d \<le> month_days y m" using assms unfolding is_date_def by simp_all
  have m12: "m = 1 \<or> m = 2 \<or> m = 3 \<or> m = 4 \<or> m = 5 \<or> m = 6 \<or> m = 7 \<or> m = 8 \<or> m = 9 \<or> m = 10 \<or> m = 11 \<or> m = 12" using m by presburger
  define l where "l = (if leap y then (1::int) else 0)"
  have l: "leaps y = leaps (y - 1) + l" "0 \<le> l" "l \<le> 1" unfolding l_def by (simp_all add: leaps_step[of y])
  have d2: "d \<le> (if m = 2 then 28 + l else if m \<in> {4, 6, 9, 11} then 30 else 31)" using d(2) by (auto simp: month_days_def l_def)
  have nx: "civil_days (y + 1) 1 1 = y * 365 + leaps y + 306 + 1 - 719469" using civil_days_leaps[of "y + 1" 1 1] y by simp
  have fs: "civil_days y 1 1 = (y - 1) * 365 + leaps (y - 1) + 306 + 1 - 719469" using civil_days_leaps[of y 1 1] y by simp
  note c = civil_days_leaps[OF y m, of d]
  show "civil_days y 1 1 \<le> civil_days y m d" using m12 unfolding fs c by (elim disjE; simp) (use l d in linarith)+
  show "civil_days y m d < civil_days (y + 1) 1 1" using m12 d2 unfolding nx c by (elim disjE; simp) (use l in linarith)+
qed

lemma new_year_mono:
  assumes "1 \<le> a" "a \<le> b" shows "civil_days a 1 1 \<le> civil_days b 1 1"
  using assms(2)
proof (induction b rule: int_ge_induct)
  case (step b)
  have "is_date b 1 1" using step assms(1) by (simp add: is_date_def month_days_def)
  then show ?case using year_span(2) step.IH by fastforce
qed simp

lemma iterate_date:
  "case (next_date ^^ k) (1970, 1, 1) of (y, m, d) \<Rightarrow> is_date y m d \<and> civil_days y m d = int k"
proof (induction k)
  case 0
  then show ?case by (simp add: is_date_def month_days_def civil_days_def)
next
  case (Suc k)
  obtain y m d where k: "(next_date ^^ k) (1970, 1, 1) = (y, m, d)" by (metis prod_cases3)
  then have "is_date y m d" "civil_days y m d = int k" using Suc by simp_all
  then show ?case using next_date_step[of y m d] k by (auto split: prod.splits)
qed

lemma utc_date_near:
  assumes "0 \<le> n" "n < 146097" "utc_date n = (y, m, d)"
  shows "is_date y m d" "civil_days y m d = n"
  using assms iterate_date[of "nat n"] by (auto simp: utc_date_def split: prod.splits)

lemma date_year:
  assumes "is_date y m d" "civil_days a 1 1 \<le> civil_days y m d" "civil_days y m d < civil_days b 1 1" "1 \<le> a" "1 \<le> b"
  shows "a \<le> y" "y < b"
proof -
  have y: "1 \<le> y" using assms(1) by (simp add: is_date_def)
  show "a \<le> y"
  proof (rule ccontr)
    assume "\<not> a \<le> y"
    then have "civil_days (y + 1) 1 1 \<le> civil_days a 1 1" using y by (intro new_year_mono) simp_all
    then show False using year_span(2)[OF assms(1)] assms(2) by simp
  qed
  show "y < b"
  proof (rule ccontr)
    assume "\<not> y < b"
    then have "civil_days b 1 1 \<le> civil_days y 1 1" using assms(5) by (intro new_year_mono) simp_all
    then show False using year_span(1)[OF assms(1)] assms(3) by simp
  qed
qed

text \<open>The broken-down time of an instant in the window of the clock.\<close>

lemma div_lt: "x < a * b \<Longrightarrow> 0 < b \<Longrightarrow> x div b < (a::int)"
  by (metis linorder_not_less nonzero_mult_div_cancel_right order_less_imp_not_eq2 zdiv_mono1 less_irrefl mult.commute mult_less_cancel_right_pos div_mult_mod_eq
      pos_mod_sign le_add_same_cancel1 order_le_less_trans)

lemma gmtime_window:
  assumes "946684800 \<le> e" "e \<le> 4102444799"
  obtains y m d hh mm ss w where "gmtime_r e = Some \<lparr>tm_year = y - 1900, tm_mon = m - 1, tm_mday = d, tm_hour = hh,
      tm_min = mm, tm_sec = ss, tm_wday = w\<rparr>"
    "is_date y m d" "2000 \<le> y" "y \<le> 2099" "0 \<le> hh" "hh < 24" "0 \<le> mm" "mm < 60" "0 \<le> ss" "ss < 60"
    "civil_days y m d * 86400 + hh * 3600 + mm * 60 + ss = e"
proof -
  obtain y m d where u: "utc_date (e div 86400) = (y, m, d)" by (metis prod_cases3)
  have n: "10957 \<le> e div 86400" "e div 86400 \<le> 47481" using assms by simp_all
  have c: "is_date y m d" "civil_days y m d = e div 86400" using utc_date_near[OF _ _ u] n by simp_all
  have j: "civil_days 2000 1 1 = 10957" "civil_days 2100 1 1 = 47482" by (simp_all add: civil_days_def)
  have y: "2000 \<le> y" "y < 2100" using date_year[OF c(1), of 2000 2100] c(2) n j by simp_all
  have "e mod 86400 mod 3600 = e mod 3600" "e mod 3600 mod 60 = e mod 60" by (simp_all add: mod_mod_cancel)
  then have s: "e div 86400 * 86400 + e mod 86400 div 3600 * 3600 + e mod 3600 div 60 * 60 + e mod 60 = e"
    using div_mult_mod_eq[of e 86400] div_mult_mod_eq[of "e mod 86400" 3600] div_mult_mod_eq[of "e mod 3600" 60] by linarith
  have r: "0 \<le> e mod 86400 div 3600" "0 \<le> e mod 3600 div 60" by (simp_all add: pos_imp_zdiv_nonneg_iff)
  have l: "e mod 86400 div 3600 < 24" "e mod 3600 div 60 < 60" by (rule div_lt; simp)+
  have g: "gmtime_r e = Some \<lparr>tm_year = y - 1900, tm_mon = m - 1, tm_mday = d, tm_hour = e mod 86400 div 3600,
      tm_min = e mod 3600 div 60, tm_sec = e mod 60, tm_wday = (e div 86400 + 4) mod 7\<rparr>" using u y by (simp add: gmtime_r_def)
  have ss: "0 \<le> e mod 60" "e mod 60 < 60" by simp_all
  show ?thesis by (rule that[OF g c(1) y(1) _ r(1) l(1) r(2) l(2) ss]) (use y s c(2) in simp_all)
qed

section \<open>Binary coded decimals\<close>

lemma bcd_table:
  assumes "n < 100"
  shows "let b = rtc_to_bcd (of_nat n) in rtc_bcd_valid b \<and> rtc_from_bcd b = of_nat n \<and>
     (n < 80 \<longrightarrow> b AND 0x80 = 0 \<and> b AND 0x7F = b) \<and> (n < 40 \<longrightarrow> b AND 0x3F = b) \<and> (n < 20 \<longrightarrow> b AND 0x1F = b)"
proof -
  have u: "[0..<100] = 0 # 1 # [2..<100::nat]" by (simp add: upt_conv_Cons numeral_2_eq_2)
  have "list_all (\<lambda>n. let b = rtc_to_bcd (of_nat n) in rtc_bcd_valid b \<and> rtc_from_bcd b = of_nat n \<and>
     (n < 80 \<longrightarrow> b AND 0x80 = 0 \<and> b AND 0x7F = b) \<and> (n < 40 \<longrightarrow> b AND 0x3F = b) \<and> (n < 20 \<longrightarrow> b AND 0x1F = b)) [0..<100]"
    unfolding u by (simp add: upt_rec_numeral Let_def rtc_to_bcd_def rtc_bcd_valid_def rtc_from_bcd_def)
  then show ?thesis unfolding list_all_iff set_upt by (rule bspec) (simp add: assms)
qed

lemma bcd_of_small:
  assumes "0 \<le> i" "i < 100"
  shows "rtc_bcd_valid (bcd_of i)" "uint (rtc_from_bcd (bcd_of i)) = i"
    "i < 80 \<Longrightarrow> bcd_of i AND 0x80 = 0" "i < 80 \<Longrightarrow> bcd_of i AND 0x7F = bcd_of i"
    "i < 40 \<Longrightarrow> bcd_of i AND 0x3F = bcd_of i" "i < 20 \<Longrightarrow> bcd_of i AND 0x1F = bcd_of i"
proof -
  define n where "n = nat i"
  have n: "i = int n" "n < 100" using assms by (simp_all add: n_def)
  have lt: "i < 80 \<Longrightarrow> n < 80" "i < 40 \<Longrightarrow> n < 40" "i < 20 \<Longrightarrow> n < 20" by (simp_all add: n_def)
  have b: "bcd_of i = rtc_to_bcd (of_nat n)" by (simp add: bcd_of_def n(1))
  have t: "rtc_bcd_valid (bcd_of i)" "rtc_from_bcd (bcd_of i) = of_nat n"
    "n < 80 \<Longrightarrow> bcd_of i AND 0x80 = 0 \<and> bcd_of i AND 0x7F = bcd_of i"
    "n < 40 \<Longrightarrow> bcd_of i AND 0x3F = bcd_of i" "n < 20 \<Longrightarrow> bcd_of i AND 0x1F = bcd_of i"
    using bcd_table[OF n(2)] unfolding b Let_def by blast+
  show "rtc_bcd_valid (bcd_of i)" by (rule t)
  have "unat (of_nat n :: u32) = n" by (rule unat_of_nat_small) (use n(2) in simp)
  then show "uint (rtc_from_bcd (bcd_of i)) = i" unfolding t(2) uint_nat by (simp add: n(1))
  show "i < 80 \<Longrightarrow> bcd_of i AND 0x80 = 0" "i < 80 \<Longrightarrow> bcd_of i AND 0x7F = bcd_of i"
    "i < 40 \<Longrightarrow> bcd_of i AND 0x3F = bcd_of i" "i < 20 \<Longrightarrow> bcd_of i AND 0x1F = bcd_of i" using t(3-5) lt by blast+
qed

lemma decode_payload:
  assumes "946684800 \<le> e" "e \<le> 4102444799" "gmtime_r e = Some tm"
  shows "rtc_decode (\<lambda>i. rtc_payload tm ! Suc i) = Some e" "2000 \<le> tm_year tm + 1900" "tm_year tm + 1900 \<le> 2099"
proof -
  obtain y m d hh mm ss w where g: "tm = \<lparr>tm_year = y - 1900, tm_mon = m - 1, tm_mday = d, tm_hour = hh, tm_min = mm, tm_sec = ss, tm_wday = w\<rparr>"
    "is_date y m d" "2000 \<le> y" "y \<le> 2099" and r: "0 \<le> hh" "hh < 24" "0 \<le> mm" "mm < 60" "0 \<le> ss" "ss < 60"
    and e: "civil_days y m d * 86400 + hh * 3600 + mm * 60 + ss = e"
    by (rule gmtime_window[OF assms(1,2)]) (use assms(3) in simp)
  show "2000 \<le> tm_year tm + 1900" "tm_year tm + 1900 \<le> 2099" using g by simp_all
  have md: "1 \<le> m" "m \<le> 12" "1 \<le> d" "d \<le> month_days y m" "month_days y m \<le> 31" using g(2) by (auto simp: is_date_def month_days_def)
  have ym: "0 \<le> y mod 100" "y mod 100 < 100" "2000 + y mod 100 = y"
  proof -
    show "0 \<le> y mod 100" "y mod 100 < 100" by simp_all
    have "y div 100 = 20" using g(3,4) by simp
    then show "2000 + y mod 100 = y" using div_mult_mod_eq[of y 100] by simp
  qed
  have regs: "rtc_payload tm ! Suc 0 = bcd_of ss" "rtc_payload tm ! Suc 1 = bcd_of mm" "rtc_payload tm ! Suc 2 = bcd_of hh"
    "rtc_payload tm ! Suc 3 = bcd_of d" "rtc_payload tm ! Suc 5 = bcd_of m" "rtc_payload tm ! Suc 6 = bcd_of (y mod 100)"
    by (simp_all add: rtc_payload_def g(1))
  have dm: "\<not> d > rtc_days_in_month y m" using md by (simp add: rtc_days_in_month_eq)
  have "rtc_days_from_civil y m d * 86400 + hh * 3600 + mm * 60 + ss = e"
    using e rtc_days_from_civil_eq[of m d y] md by simp
  moreover have "bcd_of ss AND 0x80 = 0" "bcd_of m AND 0x80 = 0" "bcd_of ss AND 0x7F = bcd_of ss" "bcd_of mm AND 0x7F = bcd_of mm"
    "bcd_of hh AND 0x3F = bcd_of hh" "bcd_of d AND 0x3F = bcd_of d" "bcd_of m AND 0x1F = bcd_of m"
    by (rule bcd_of_small; use r md in linarith)+
  moreover have "rtc_bcd_valid (bcd_of ss)" "rtc_bcd_valid (bcd_of mm)" "rtc_bcd_valid (bcd_of hh)" "rtc_bcd_valid (bcd_of d)"
    "rtc_bcd_valid (bcd_of m)" "rtc_bcd_valid (bcd_of (y mod 100))" by (rule bcd_of_small(1); use r md ym in linarith)+
  moreover have "uint (rtc_from_bcd (bcd_of ss)) = ss" "uint (rtc_from_bcd (bcd_of mm)) = mm" "uint (rtc_from_bcd (bcd_of hh)) = hh"
    "uint (rtc_from_bcd (bcd_of d)) = d" "uint (rtc_from_bcd (bcd_of m)) = m" "uint (rtc_from_bcd (bcd_of (y mod 100))) = y mod 100"
    by (rule bcd_of_small(2); use r md ym in linarith)+
  moreover have "\<not> (m < 1 \<or> m > 12 \<or> d < 1 \<or> d > rtc_days_in_month y m \<or> hh > 23 \<or> mm > 59 \<or> ss > 59)" using md dm r by linarith
  ultimately show "rtc_decode (\<lambda>i. rtc_payload tm ! Suc i) = Some e"
    unfolding rtc_decode_def regs BM8563_SECONDS_VL_def BM8563_MONTH_CENTURY_def Let_def ym(3)
    by (simp only: simp_thms if_False if_True ym(3) not_True_eq_False not_False_eq_True)
qed

section \<open>Printing and reading a time\<close>

lemma fmt_d_2:
  assumes "0 \<le> i" "i < 100" shows "fmt_d 2 i = put2 (nat i)"
proof -
  define n where "n = nat i"
  have n: "i = int n" "n < 100" using assms by (simp_all add: n_def)
  have "pad_dec 2 n = put2 n"
  proof (cases "n < 10")
    case True
    then show ?thesis by (simp add: pad_dec_def put2_def dec_of_nat_small digit_char_0)
  next
    case False
    then have "n div 10 < 10" using n(2) by simp
    then show ?thesis using False by (simp add: pad_dec_def put2_def dec_of_nat_small dec_of_nat_large)
  qed
  then show ?thesis by (simp add: fmt_d_def n(1))
qed

lemma digit_split: "(e::nat) < 10 \<Longrightarrow> (q * 10 + e) div 10 = q \<and> (q * 10 + e) mod 10 = e"
  by simp

lemma fmt_d_4:
  assumes "1 \<le> a" "a < 10" "b < 10" "c < 10" "e < 10"
  shows "fmt_d 4 (int (a * 1000 + b * 100 + c * 10 + e)) = [digit_char a, digit_char b, digit_char c, digit_char e]"
proof -
  have q: "(a * 1000 + b * 100 + c * 10 + e) div 10 = a * 100 + b * 10 + c" "(a * 1000 + b * 100 + c * 10 + e) mod 10 = e"
    "(a * 100 + b * 10 + c) div 10 = a * 10 + b" "(a * 100 + b * 10 + c) mod 10 = c" "(a * 10 + b) div 10 = a" "(a * 10 + b) mod 10 = b"
    using digit_split[of e "a * 100 + b * 10 + c"] digit_split[of c "a * 10 + b"] digit_split[of b a] assms by (simp_all add: algebra_simps)
  have "dec_of_nat (a * 10 + b) = [digit_char a, digit_char b]" using dec_of_nat_large[of "a * 10 + b"] dec_of_nat_small[of a] q assms by simp
  then have "dec_of_nat (a * 100 + b * 10 + c) = [digit_char a, digit_char b, digit_char c]"
    using dec_of_nat_large[of "a * 100 + b * 10 + c"] q assms by simp
  then have "dec_of_nat (a * 1000 + b * 100 + c * 10 + e) = [digit_char a, digit_char b, digit_char c, digit_char e]"
    using dec_of_nat_large[of "a * 1000 + b * 100 + c * 10 + e"] q assms by simp
  then show ?thesis unfolding fmt_d_def pad_dec_def nat_int by simp
qed

text \<open>The printed form of a date and a time of day is a timestamp of the manifest that denotes them.\<close>

lemma print_tm_reads:
  assumes "tm_year tm + 1900 = int y" "tm_mon tm + 1 = int m" "tm_mday tm = int d" "tm_hour tm = int hh" "tm_min tm = int mm" "tm_sec tm = int ss"
    "1000 \<le> y" "y < 10000" "valid_calendar_date y m d" "m < 100" "d < 100" "hh < 24" "mm < 60" "ss < 60"
  shows "length (print_tm tm) = 25" "device_manifest_is_valid_iso8601_offset (Some (print_tm tm))"
    "manifest_utc_seconds (Some (print_tm tm)) = Some (civil_days (int y) (int m) (int d) * 86400 + int hh * 3600 + int mm * 60 + int ss)"
proof -
  define a b c e where "a = y div 10 div 10 div 10" and "b = y div 10 div 10 mod 10" and "c = y div 10 mod 10" and "e = y mod 10"
  have eq: "a * 1000 + b * 100 + c * 10 + e = y" unfolding a_def b_def c_def e_def
    using div_mult_mod_eq[of y 10] div_mult_mod_eq[of "y div 10" 10] div_mult_mod_eq[of "y div 10 div 10" 10] by linarith
  have bce: "b < 10" "c < 10" "e < 10" unfolding b_def c_def e_def by simp_all
  then have a: "1 \<le> a" "a < 10" using eq assms(7,8) by linarith+
  note y = eq a(2) bce
  have ps: "fmt_d 4 (tm_year tm + 1900) = [digit_char a, digit_char b, digit_char c, digit_char e]"
    unfolding assms(1) eq[symmetric] by (rule fmt_d_4[OF a bce])
  have p2: "fmt_d 2 (int k) = [digit_char (k div 10), digit_char (k mod 10)]" if "k < 100" for k
    using fmt_d_2[of "int k"] that by (simp add: put2_def)
  have p: "print_tm tm = [digit_char a, digit_char b, digit_char c, digit_char e, CHR ''-'', digit_char (m div 10), digit_char (m mod 10), CHR ''-'',
      digit_char (d div 10), digit_char (d mod 10), CHR ''T'', digit_char (hh div 10), digit_char (hh mod 10), CHR '':'', digit_char (mm div 10),
      digit_char (mm mod 10), CHR '':'', digit_char (ss div 10), digit_char (ss mod 10), CHR ''+'', CHR ''0'', CHR ''0'', CHR '':'', CHR ''0'', CHR ''0'']"
    unfolding print_tm_def ps assms(2-6) using assms(10-14) by (simp add: p2)
  show len: "length (print_tm tm) = 25" by (simp add: p)
  have v2: "two_digits (print_tm tm) i = k" if "print_tm tm ! i = digit_char (k div 10)" "print_tm tm ! (i + 1) = digit_char (k mod 10)" "k < 100" for i k
  proof -
    have "k div 10 < 10" "k mod 10 < 10" using that(3) by simp_all
    then show ?thesis unfolding two_digits_def that(1,2) by (simp add: digit_char_props)
  qed
  have ad: "ascii_digit (digit_char k)" if "k < 10" for k using that by (rule digit_char_props(1))
  have lt: "m div 10 < 10" "d div 10 < 10" "hh div 10 < 10" "mm div 10 < 10" "ss div 10 < 10" using assms(10-14) by simp_all
  have z: "ascii_digit CHR ''0''" "digit_val CHR ''0'' = 0" by (simp_all add: ascii_digit_def digit_val_def)
  have sh: "iso_shape (print_tm tm)" unfolding iso_shape_def p by (simp add: upt_rec_numeral upt_conv_Cons ad lt y(2-5) z)
  have rd: "four_digits (print_tm tm) = y" "two_digits (print_tm tm) 5 = m" "two_digits (print_tm tm) 8 = d" "two_digits (print_tm tm) 11 = hh"
    "two_digits (print_tm tm) 14 = mm" "two_digits (print_tm tm) 17 = ss" "two_digits (print_tm tm) 20 = 0" "two_digits (print_tm tm) 23 = 0"
    "print_tm tm ! 19 = CHR ''+''"
  proof -
    show "print_tm tm ! 19 = CHR ''+''" by (simp add: p)
    have "print_tm tm ! 0 = digit_char a" "print_tm tm ! 1 = digit_char b" "print_tm tm ! 2 = digit_char c" "print_tm tm ! 3 = digit_char e" by (simp_all add: p)
    then show "four_digits (print_tm tm) = y" unfolding four_digits_def by (simp only: digit_char_props y)
    show "two_digits (print_tm tm) 5 = m" "two_digits (print_tm tm) 8 = d" "two_digits (print_tm tm) 11 = hh"
      "two_digits (print_tm tm) 14 = mm" "two_digits (print_tm tm) 17 = ss" by (rule v2; use assms(10-14) in \<open>simp add: p\<close>)+
    show "two_digits (print_tm tm) 20 = 0" "two_digits (print_tm tm) 23 = 0" unfolding two_digits_def by (simp_all add: p z)
  qed
  show v: "device_manifest_is_valid_iso8601_offset (Some (print_tm tm))" using len sh rd assms(9,12-14) by simp
  show "manifest_utc_seconds (Some (print_tm tm)) = Some (civil_days (int y) (int m) (int d) * 86400 + int hh * 3600 + int mm * 60 + int ss)"
    using v rd assms(9) by (simp del: device_manifest_is_valid_iso8601_offset.simps)
qed

lemma window_prints:
  assumes "946684800 \<le> e" "e \<le> 4102444799" "gmtime_r e = Some tm"
  shows "length (print_tm tm) = 25" "device_manifest_is_valid_iso8601_offset (Some (print_tm tm))"
    "manifest_utc_seconds (Some (print_tm tm)) = Some e"
proof -
  obtain y m d hh mm ss w where g: "tm = \<lparr>tm_year = y - 1900, tm_mon = m - 1, tm_mday = d, tm_hour = hh, tm_min = mm, tm_sec = ss, tm_wday = w\<rparr>"
    "is_date y m d" "2000 \<le> y" "y \<le> 2099" and r: "0 \<le> hh" "hh < 24" "0 \<le> mm" "mm < 60" "0 \<le> ss" "ss < 60"
    and e: "civil_days y m d * 86400 + hh * 3600 + mm * 60 + ss = e"
    by (rule gmtime_window[OF assms(1,2)]) (use assms(3) in simp)
  have md: "1 \<le> m" "m \<le> 12" "1 \<le> d" "d \<le> 31" using g(2) by (auto simp: is_date_def month_days_def split: if_splits)
  have n: "int (nat y) = y" "int (nat m) = m" "int (nat d) = d" "int (nat hh) = hh" "int (nat mm) = mm" "int (nat ss) = ss" using g(3) md r by simp_all
  have vd: "valid_calendar_date (nat y) (nat m) (nat d)" unfolding valid_date_iff n by (rule g(2))
  have b: "1000 \<le> nat y" "nat y < 10000" "nat m < 100" "nat d < 100" "nat hh < 24" "nat mm < 60" "nat ss < 60" using g(3,4) md r by simp_all
  have t: "tm_year tm + 1900 = int (nat y)" "tm_mon tm + 1 = int (nat m)" "tm_mday tm = int (nat d)" "tm_hour tm = int (nat hh)"
    "tm_min tm = int (nat mm)" "tm_sec tm = int (nat ss)" unfolding n by (simp_all add: g(1))
  note k = print_tm_reads[OF t b(1,2) vd b(3-7)]
  show "length (print_tm tm) = 25" "device_manifest_is_valid_iso8601_offset (Some (print_tm tm))" by (rule k)+
  show "manifest_utc_seconds (Some (print_tm tm)) = Some e" using k(3) unfolding n e .
qed

lemma parse_two:
  assumes "rtc_parse_fixed_digits (drop i t) 2 0 = Some v" shows "v = int (two_digits t i)" "i + 1 < length t"
proof -
  obtain a b r where d: "drop i t = a # b # r" using assms
    by (cases "drop i t" rule: remdups_adj.cases) (auto simp: numeral_2_eq_2 split: if_splits)
  then have l: "i + 1 < length t" by (metis add.commute drop_eq_Nil leI length_Cons length_drop less_diff_conv list.size(3) not_add_less2 zero_less_Suc One_nat_def Suc_less_eq)
  then show "i + 1 < length t" .
  have "t ! i = a" "t ! (i + 1) = b" using d l by (metis Cons_nth_drop_Suc Suc_eq_plus1 Suc_lessD list.inject)+
  then show "v = int (two_digits t i)" using assms d by (auto simp: two_digits_def numeral_2_eq_2 split: if_splits)
qed

lemma parse_four:
  assumes "rtc_parse_fixed_digits t 4 0 = Some v" shows "v = int (four_digits t)"
proof -
  have "4 \<le> length t" using assms
    by (cases t; cases "tl t"; cases "tl (tl t)"; cases "tl (tl (tl t))") (auto simp: eval_nat_numeral split: if_splits)
  then obtain a b c d r where "t = a # b # c # d # r" by (metis One_nat_def Suc_le_length_iff eval_nat_numeral(2) numeral_2_eq_2 numeral_3_eq_3 semiring_norm(26,27))
  then show ?thesis using assms by (auto simp: four_digits_def eval_nat_numeral split: if_splits)
qed

lemma parse_fields_denote:
  assumes "rtc_parse_fields t = Some (year, month, day, hour, minute, second)"
  shows "year = int (four_digits t)" "month = int (two_digits t 5)" "day = int (two_digits t 8)" "hour = int (two_digits t 11)"
    "minute = int (two_digits t 14)" "second = int (two_digits t 17)"
  using assms unfolding rtc_parse_fields_def
  by (auto split: option.splits dest!: parse_four parse_two(1))

text \<open>What a successful parse has established.\<close>

lemma parse_iso8601_inv:
  assumes "rtc_parse_iso8601 (Some t) = Inr (e, normalized)"
  obtains year month day hour minute second rest offset tm where
    "rtc_parse_fields t = Some (year, month, day, hour, minute, second)" "1 \<le> month" "month \<le> 12" "1 \<le> day" "day \<le> rtc_days_in_month year month"
    "rtc_skip_fraction (drop 19 t) = Some rest" "rtc_parse_offset rest = Some offset"
    "e = rtc_days_from_civil year month day * 86400 + hour * 3600 + minute * 60 + second - offset"
    "946684800 \<le> e" "e \<le> 4102444799" "gmtime_r e = Some tm" "normalized = print_tm tm"
  using assms by (auto simp: Let_def not_less split: if_splits option.splits)

text \<open>The offset of a timestamp of the manifest.\<close>

lemma parse_offset_iso:
  assumes "length t = 25" "t ! 19 = CHR ''+'' \<or> t ! 19 = CHR ''-''" "rtc_skip_fraction (drop 19 t) = Some rest" "rtc_parse_offset rest = Some offset"
  shows "offset = (if t ! 19 = CHR ''+'' then 1 else -1) * (int (two_digits t 20) * 3600 + int (two_digits t 23) * 60)"
proof -
  have h: "drop 19 t \<noteq> []" "hd (drop 19 t) = t ! 19" using assms(1) by (simp_all add: hd_drop_conv_nth)
  have "CHR ''+'' \<noteq> CHR ''.''" "CHR ''-'' \<noteq> CHR ''.''" by simp_all
  then have r: "rest = drop 19 t" using assms(2,3) h unfolding rtc_skip_fraction_def by (auto split: if_splits)
  have d: "drop 1 rest = drop 20 t" "drop 4 rest = drop 23 t" unfolding r drop_drop by simp_all
  have n: "t ! 19 \<noteq> CHR ''Z''" using assms(2) by auto
  from assms(4) obtain oh om where o: "rtc_parse_fixed_digits (drop 20 t) 2 0 = Some oh" "rtc_parse_fixed_digits (drop 23 t) 2 0 = Some om"
    "offset = (if t ! 19 = CHR ''+'' then 1 else -1) * (oh * 3600 + om * 60)"
    unfolding rtc_parse_offset_def d using h n assms(2) r by (auto simp: Let_def split: if_splits option.splits)
  then show ?thesis by (simp add: parse_two(1)[OF o(1)] parse_two(1)[OF o(2)])
qed

lemma manifest_utc_seconds_valid:
  assumes "device_manifest_is_valid_iso8601_offset (Some s)"
  shows "length s = 25" "s ! 19 = CHR ''+'' \<or> s ! 19 = CHR ''-''"
    "manifest_utc_seconds (Some s) = Some (civil_days (int (four_digits s)) (int (two_digits s 5)) (int (two_digits s 8)) * 86400 +
       int (two_digits s 11) * 3600 + int (two_digits s 14) * 60 + int (two_digits s 17) +
       (if s ! 19 = CHR ''+'' then -1 else 1) * (int (two_digits s 20) * 3600 + int (two_digits s 23) * 60))"
  using assms by (auto simp: Let_def iso_shape_def split: if_splits)

text \<open>
  C0: a request to set the time that is accepted lies between the years 2000 and 2099. The normalized text is a
  timestamp of the manifest for the same instant, the audit record prints that instant in the same way, and a request
  that already is a timestamp of the manifest keeps its meaning.
\<close>

theorem set_time_denotes:
  assumes "rtc_parse_iso8601 (Some t) = Inr (e, normalized)"
  shows "946684800 \<le> e \<and> e \<le> 4102444799 \<and> device_manifest_is_valid_iso8601_offset (Some normalized) \<and>
    manifest_utc_seconds (Some normalized) = Some e \<and> rtc_format_epoch e = normalized \<and>
    (device_manifest_is_valid_iso8601_offset (Some t) \<longrightarrow> manifest_utc_seconds (Some t) = Some e)"
proof -
  obtain year month day hour minute second rest offset tm where i:
    "rtc_parse_fields t = Some (year, month, day, hour, minute, second)" "1 \<le> month" "month \<le> 12" "1 \<le> day" "day \<le> rtc_days_in_month year month"
    "rtc_skip_fraction (drop 19 t) = Some rest" "rtc_parse_offset rest = Some offset"
    "e = rtc_days_from_civil year month day * 86400 + hour * 3600 + minute * 60 + second - offset"
    and w: "946684800 \<le> e" "e \<le> 4102444799" and tm: "gmtime_r e = Some tm" "normalized = print_tm tm"
    by (rule parse_iso8601_inv[OF assms])
  note p = window_prints[OF w tm(1)]
  have f: "rtc_format_epoch e = normalized" unfolding rtc_format_epoch_def tm using p(1) by simp
  have "manifest_utc_seconds (Some t) = Some e" if v: "device_manifest_is_valid_iso8601_offset (Some t)"
  proof -
    note m = manifest_utc_seconds_valid[OF v]
    have "month_days year month \<le> 31" by (simp add: month_days_def)
    then have c: "rtc_days_from_civil year month day = civil_days year month day"
      using i(2-5) by (intro rtc_days_from_civil_eq) (simp_all add: rtc_days_in_month_eq)
    show ?thesis unfolding m(3) i(8) c parse_offset_iso[OF m(1,2) i(6,7)] unfolding parse_fields_denote[OF i(1)] by simp
  qed
  then show ?thesis using w p f unfolding tm(2) by blast
qed

definition sample_request :: string where
  "sample_request = ''2024-02-29T23:30:00-01:00''"

lemma sample_parse: "\<exists>tm. gmtime_r 1709253000 = Some tm \<and> rtc_parse_iso8601 (Some sample_request) = Inr (1709253000, print_tm tm)"
proof -
  have w: "946684800 \<le> (1709253000::int)" "(1709253000::int) \<le> 4102444799" by simp_all
  obtain tm where tm: "gmtime_r 1709253000 = Some tm" by (rule gmtime_window[OF w])
  have f: "rtc_parse_fields ''2024-02-29T23:30:00-01:00'' = Some (2024, 2, 29, 23, 30, 0)"
    by (simp add: rtc_parse_fields_def eval_nat_numeral ascii_digit_def digit_val_def)
  have o: "rtc_skip_fraction ''-01:00'' = Some ''-01:00''" "rtc_parse_offset ''-01:00'' = Some (-3600)"
    by (simp_all add: rtc_skip_fraction_def rtc_parse_offset_def eval_nat_numeral ascii_digit_def digit_val_def)
  have c: "rtc_days_from_civil 2024 2 29 = 19782" by (simp add: rtc_days_from_civil_def c_unsigned_def)
  have "rtc_parse_iso8601 (Some sample_request) = Inr (1709253000, print_tm tm)"
    using window_prints(1)[OF w tm] by (simp add: sample_request_def f o c tm rtc_days_in_month_def rtc_is_leap_def)
  then show ?thesis using tm by blast
qed

theorem set_time_denotes_witness:
  "\<exists>normalized. rtc_parse_iso8601 (Some ''2024-02-29T23:30:00-01:00'') = Inr (1709253000, normalized) \<and>
     manifest_utc_seconds (Some normalized) = Some 1709253000 \<and> manifest_utc_seconds (Some ''2024-02-29T23:30:00-01:00'') = Some 1709253000"
proof -
  obtain tm where p: "rtc_parse_iso8601 (Some ''2024-02-29T23:30:00-01:00'') = Inr (1709253000, print_tm tm)"
    using sample_parse unfolding sample_request_def by blast
  have "device_manifest_is_valid_iso8601_offset (Some ''2024-02-29T23:30:00-01:00'')"
    by (simp add: iso_shape_def two_digits_def four_digits_def ascii_digit_def digit_val_def valid_calendar_date_def days_in_month_def upt_rec_numeral upt_conv_Cons)
  then show ?thesis using set_time_denotes[OF p] p by blast
qed

section \<open>Setting the clock\<close>

lemma rtc_decode_cong:
  assumes "\<And>i. i < 7 \<Longrightarrow> a i = b i" shows "rtc_decode a = rtc_decode b"
proof -
  have "a 0 = b 0" "a 1 = b 1" "a 2 = b 2" "a 3 = b 3" "a 5 = b 5" "a 6 = b 6" by (rule assms; simp)+
  then show ?thesis by (simp only: rtc_decode_def)
qed

lemma transmit_regs:
  assumes "bm8563_contract api regs" "i2c_master_transmit api (r # bs) h = (ESP_OK, h')"
  shows "regs h' = (\<lambda>i. if unat r \<le> i \<and> i < unat r + length bs then bs ! (i - unat r) else regs h i)"
  using assms(1)[unfolded bm8563_contract_def, rule_format, of r bs h] assms(2) by simp

lemma written_clock:
  assumes "bm8563_contract api regs" "946684800 \<le> e" "e \<le> 4102444799" "rtc_hw_write_epoch api e h = (ESP_OK, h')"
  shows "rtc_decode (\<lambda>i. regs h' (2 + i)) = Some e \<and> regs h' 0 = 0"
proof -
  obtain tm where tm: "gmtime_r e = Some tm" by (rule gmtime_window[OF assms(2,3)])
  note d = decode_payload[OF assms(2,3) tm]
  obtain h1 h2 where x: "i2c_master_transmit api [BM8563_REG_CONTROL1, BM8563_CONTROL1_STOP] h = (ESP_OK, h1)"
    "i2c_master_transmit api (rtc_payload tm) h1 = (ESP_OK, h2)" "i2c_master_transmit api [BM8563_REG_CONTROL1, 0x00] h2 = (ESP_OK, h')"
    using assms(4) d(2,3) by (auto simp: rtc_hw_write_epoch_def tm split: prod.splits if_splits)
  have p: "rtc_payload tm = BM8563_REG_SECONDS # tl (rtc_payload tm)" "length (tl (rtc_payload tm)) = 7" by (simp_all add: rtc_payload_def)
  have x2: "i2c_master_transmit api (BM8563_REG_SECONDS # tl (rtc_payload tm)) h1 = (ESP_OK, h2)" unfolding p(1)[symmetric] by (rule x(2))
  have r2: "regs h2 = (\<lambda>i. if 2 \<le> i \<and> i < 9 then tl (rtc_payload tm) ! (i - 2) else regs h1 i)"
    using transmit_regs[OF assms(1) x2] p(2) by (simp add: BM8563_REG_SECONDS_def cong: if_cong)
  have r3: "regs h' = (\<lambda>i. if i < 1 then 0 else regs h2 i)"
    using transmit_regs[OF assms(1) x(3)] by (auto simp: BM8563_REG_CONTROL1_def)
  have "rtc_decode (\<lambda>i. regs h' (2 + i)) = rtc_decode (\<lambda>i. rtc_payload tm ! Suc i)"
  proof (rule rtc_decode_cong)
    fix i :: nat assume "i < 7"
    then have "regs h' (2 + i) = tl (rtc_payload tm) ! i" unfolding r3 r2 by simp
    also have "\<dots> = rtc_payload tm ! Suc i" by (rule nth_tl) (use p(2) \<open>i < 7\<close> in simp)
    finally show "regs h' (2 + i) = rtc_payload tm ! Suc i" .
  qed
  then show ?thesis using d(1) r3 by simp
qed

text \<open>
  C0: when writing an instant of the accepted window to the clock chip succeeds, the chip holds that instant and runs:
  its registers decode, with all the checks of a read, to the same second, and the stop bit is cleared.
\<close>

theorem rtc_write_sets_clock:
  assumes "bm8563_contract api regs" "946684800 \<le> e" "e \<le> 4102444799" "rtc_hw_write_epoch api e h = (ESP_OK, h')"
  shows "rtc_decode (\<lambda>i. regs h' (2 + i)) = Some e \<and> regs h' 0 = 0"
  by (rule written_clock[OF assms])

text \<open>A chip that takes every write, for the witness.\<close>

definition mem_chip :: "(nat \<Rightarrow> byte) rtc_api" where
  "mem_chip = \<lparr>i2c_new_master_bus = Pair ESP_OK, i2c_master_bus_add_device = Pair ESP_OK, i2c_master_bus_rm_device = Pair ESP_OK,
     i2c_del_master_bus = Pair ESP_OK,
     i2c_master_transmit = (\<lambda>bs g. (ESP_OK, \<lambda>i. if unat (hd bs) \<le> i \<and> i < unat (hd bs) + length (tl bs) then tl bs ! (i - unat (hd bs)) else g i)),
     i2c_master_transmit_receive = (\<lambda>bs n g. (ESP_OK, \<lambda>i. g (unat (hd bs) + i), g)),
     gettimeofday = Pair None, settimeofday = (\<lambda>_. Pair True)\<rparr>"

lemma mem_chip_contract: "bm8563_contract mem_chip (\<lambda>g. g)"
  by (auto simp: bm8563_contract_def mem_chip_def fun_eq_iff)

lemma sample_write: "\<exists>h'. rtc_hw_write_epoch mem_chip 1709253000 h = (ESP_OK, h')"
proof -
  have w: "946684800 \<le> (1709253000::int)" "(1709253000::int) \<le> 4102444799" by simp_all
  obtain tm where tm: "gmtime_r 1709253000 = Some tm" by (rule gmtime_window[OF w])
  show ?thesis using decode_payload(2,3)[OF w tm] by (simp add: rtc_hw_write_epoch_def tm mem_chip_def)
qed

theorem rtc_write_sets_clock_witness:
  "\<exists>h'. rtc_hw_write_epoch mem_chip 1709253000 (\<lambda>_. 0) = (ESP_OK, h') \<and> rtc_decode (\<lambda>i. h' (2 + i)) = Some 1709253000 \<and> h' 0 = 0"
proof -
  obtain h' where h: "rtc_hw_write_epoch mem_chip 1709253000 (\<lambda>_. 0) = (ESP_OK, h')" using sample_write by blast
  have w: "946684800 \<le> (1709253000::int)" "(1709253000::int) \<le> 4102444799" by simp_all
  show ?thesis using rtc_write_sets_clock[OF mem_chip_contract w h] h by blast
qed

end
