(* ===== verification/Rtc_Event.thy ===== *)
theory Rtc_Event
  imports Device_Identity "HOL-Library.Sublist"
begin

text \<open>
  \<open>firmware/components/recorder/rtc_correction_event.c\<close>: writing the event of a clock correction to the log of events,
  once, and clearing the pending record only then.

  The log is a file of JSON lines. The JSON library is a parameter, \<open>cjson_reads_event\<close> is what the theorems need of
  it: the line that the recorder prints is an object with the printed strings.
\<close>

section \<open>Further calls of the C library\<close>

text \<open>
  A read error makes \<open>fgets\<close> return NULL. The flag of the result is the end-of-file indicator: \<open>fgets\<close> sets it when it
  meets the end of the file before a newline and before the buffer is full.
\<close>

definition newline :: byte where "newline = 10"

definition fgets_line :: "byte list \<Rightarrow> byte list" where
  "fgets_line avail = takeWhile (\<lambda>b. b \<noteq> newline) avail @ take 1 (dropWhile (\<lambda>b. b \<noteq> newline) avail)"

definition fgets :: "FILE \<Rightarrow> nat \<Rightarrow> io_world \<Rightarrow> byte list option \<times> bool \<times> FILE \<times> io_world" where
  "fgets h n w =
     (case io_next w of
        (Some _, w) \<Rightarrow> (None, False, h\<lparr>ferr := True\<rparr>, w)
      | (None, w) \<Rightarrow>
          (let line = fgets_line (take (n - 1) (case files w (fpath h) of None \<Rightarrow> [] | Some c \<Rightarrow> drop (fpos h) c));
               eof = (length line < n - 1 \<and> newline \<notin> set line)
           in if line = [] then (None, eof, h, w) else (Some line, eof, h\<lparr>fpos := fpos h + length line\<rparr>, w)))"

definition ftruncate :: "FILE \<Rightarrow> nat \<Rightarrow> io_world \<Rightarrow> bool \<times> io_world" where
  "ftruncate h n w =
     (case io_try w of
        (False, w) \<Rightarrow> (False, w)
      | (True, w) \<Rightarrow>
          (case files w (fpath h) of
             None \<Rightarrow> (False, w\<lparr>errno_of := EOTHER\<rparr>)
           | Some c \<Rightarrow> (True, set_file (fpath h) (Some (take n (c @ replicate (n - length c) 0))) True w)))"

definition c_strlen :: "byte list \<Rightarrow> nat" where
  "c_strlen buf = length (takeWhile (\<lambda>b. b \<noteq> 0) buf)"

section \<open>Classifying a line\<close>

text \<open>The calls into cJSON; \<open>'j\<close> are its trees, \<open>None\<close> is NULL.\<close>

record 'j cjson_api =
  cJSON_ParseWithOpts :: "string \<Rightarrow> 'j option"
  cJSON_IsObject :: "'j \<Rightarrow> bool"
  cJSON_GetObjectItemCaseSensitive :: "'j \<Rightarrow> string \<Rightarrow> 'j option"
  cJSON_IsString :: "'j \<Rightarrow> bool"
  valuestring :: "'j \<Rightarrow> string option"

record rtc_correction_event_t =
  correction_id :: "string ptr"
  event_before :: "string ptr"
  event_after :: "string ptr"
  event_source :: "string ptr"

definition json_string_equals :: "'j cjson_api \<Rightarrow> 'j ptr \<Rightarrow> string ptr \<Rightarrow> string ptr \<Rightarrow> bool" where
  "json_string_equals J root key expected =
     (case (root, key, expected) of
        (Some root, Some key, Some expected) \<Rightarrow>
          (case cJSON_GetObjectItemCaseSensitive J root key of
             None \<Rightarrow> False
           | Some item \<Rightarrow> cJSON_IsString J item \<and> valuestring J item = Some expected)
      | _ \<Rightarrow> False)"

text \<open>The result and \<open>*matching\<close>.\<close>

definition classify_complete_event_line ::
    "'j cjson_api \<Rightarrow> string ptr \<Rightarrow> rtc_correction_event_t ptr \<Rightarrow> esp_err_t \<times> bool" where
  "classify_complete_event_line J line event =
     (case (line, event) of
        (Some line, Some event) \<Rightarrow>
          (case cJSON_ParseWithOpts J line of
             None \<Rightarrow> (ESP_FAIL, False)
           | Some root \<Rightarrow>
               if \<not> cJSON_IsObject J root then (ESP_FAIL, False)
               else if json_string_equals J (Some root) (Some ''correctionId'') (correction_id event) \<and>
                       json_string_equals J (Some root) (Some ''event'') (Some ''rtc_correction'')
               then (if \<not> json_string_equals J (Some root) (Some ''before'') (event_before event) \<or>
                        \<not> json_string_equals J (Some root) (Some ''after'') (event_after event) \<or>
                        \<not> json_string_equals J (Some root) (Some ''source'') (event_source event)
                     then (ESP_FAIL, False) else (ESP_OK, True))
               else (ESP_OK, False))
      | _ \<Rightarrow> (ESP_ERR_INVALID_ARG, False))"

section \<open>Scanning the log\<close>

definition RTC_EVENT_LINE_MAX :: nat where "RTC_EVENT_LINE_MAX = 512"

text \<open>Removing the torn tail of the log.\<close>

definition rtc_drop_tail :: "FILE \<Rightarrow> nat \<Rightarrow> io_world \<Rightarrow> bool \<times> FILE \<times> io_world" where
  "rtc_drop_tail fp last_complete w =
     (let fp = fp\<lparr>ferr := False\<rparr> in
      case ftruncate fp last_complete w of (ok, w) \<Rightarrow>
      if \<not> ok then (False, fp, snd (fclose fp w))
      else case fseek fp (int last_complete) w of (ok, fp, w) \<Rightarrow>
      if \<not> ok then (False, fp, snd (fclose fp w))
      else case fsync fp w of (ok, w) \<Rightarrow>
      if \<not> ok then (False, fp, snd (fclose fp w)) else (True, fp, w))"

text \<open>A line: bytes without newline, then one.\<close>

definition is_line :: "byte list \<Rightarrow> bool" where
  "is_line l \<longleftrightarrow> (\<exists>x. l = x @ [newline] \<and> newline \<notin> set x)"

lemma fgets_line_cases:
  obtains (line) r where "is_line (fgets_line xs)" "xs = fgets_line xs @ r" | (tail) "newline \<notin> set xs" "fgets_line xs = xs"
proof (cases "newline \<in> set xs")
  case True
  then obtain a r where x: "xs = a @ newline # r" "newline \<notin> set a" by (meson split_list_first)
  have "\<forall>b \<in> set a. b \<noteq> newline" using x(2) by blast
  then have "fgets_line xs = a @ [newline]" unfolding x(1) fgets_line_def by (simp add: takeWhile_append2 dropWhile_append2)
  then show ?thesis using x line by (simp add: is_line_def)
next
  case False
  then have "\<forall>b \<in> set xs. b \<noteq> newline" by blast
  then have "takeWhile (\<lambda>b. b \<noteq> newline) xs = xs" "dropWhile (\<lambda>b. b \<noteq> newline) xs = []"
    unfolding takeWhile_eq_all_conv dropWhile_eq_Nil_conv by blast+
  then have "fgets_line xs = xs" by (simp only: fgets_line_def take_Nil append_Nil2)
  then show ?thesis using False tail by simp
qed

lemma fgets_line_nil [simp]: "fgets_line xs = [] \<longleftrightarrow> xs = []"
  by (cases xs) (auto simp: fgets_line_def)

lemma fgets_some:
  assumes "fgets h n w = (Some line, eof, h', w')"
  obtains c where "files w' = files w" "unsynced w' = unsynced w" "files w (fpath h) = Some c" "fpos h < length c"
    "line = fgets_line (take (n - 1) (drop (fpos h) c))" "line \<noteq> []" "h' = h\<lparr>fpos := fpos h + length line\<rparr>"
    "eof = (length line < n - 1 \<and> newline \<notin> set line)"
  using assms io_next_same(1,2)[of w]
  by (cases "files w (fpath h)") (auto simp: fgets_def Let_def split: prod.splits option.splits if_splits)

lemma ftell_same: "ftell h w = (r, w') \<Longrightarrow> files w' = files w \<and> (\<forall>n. r = Some n \<longrightarrow> n = fpos h)"
  using io_try_same(1)[of w] by (auto simp: ftell_def split: prod.splits if_splits)

text \<open>
  The loop: \<open>Some found\<close> when it ends, \<open>None\<close> when the function returns \<open>ESP_FAIL\<close> from inside, with the file closed.
\<close>

function rtc_scan_events ::
    "'j cjson_api \<Rightarrow> rtc_correction_event_t \<Rightarrow> FILE \<Rightarrow> nat \<Rightarrow> bool \<Rightarrow> io_world \<Rightarrow> bool option \<times> FILE \<times> io_world" where
  "rtc_scan_events J event fp last_complete found w =
     (case fgets fp RTC_EVENT_LINE_MAX w of
        (None, eof, fp, w) \<Rightarrow> (Some found, fp, w)
      | (Some line, eof, fp, w) \<Rightarrow>
          (let len = c_strlen line in
           if len = 0 then (None, fp, snd (fclose fp w))
           else if line ! (len - 1) \<noteq> newline
           then (if \<not> eof then (None, fp, snd (fclose fp w))
                 else case rtc_drop_tail fp last_complete w of (ok, fp, w) \<Rightarrow> (if ok then Some found else None, fp, w))
           else case classify_complete_event_line J (Some (string_of_bytes (take len line))) (Some event) of (err, matching) \<Rightarrow>
             if err \<noteq> ESP_OK then (None, fp, snd (fclose fp w))
             else let found = (found \<or> matching) in
             case ftell fp w of
               (None, w) \<Rightarrow> (None, fp, snd (fclose fp w))
             | (Some after, w) \<Rightarrow> rtc_scan_events J event fp after found w))"
  by pat_completeness auto
termination
proof (relation "measure (\<lambda>(J, event, fp, last, found, w). case files w (fpath fp) of None \<Rightarrow> 0 | Some c \<Rightarrow> length c - fpos fp)", simp,
    simp only: in_measure split_conv)
  fix fp fp1 :: FILE and w w1 w2 :: io_world and line :: "byte list" and eof after y ya
  assume *: "(Some line, y) = fgets fp RTC_EVENT_LINE_MAX w" "(eof, ya) = y" "(fp1, w1) = ya" "(Some after, w2) = ftell fp1 w1"
  then have "fgets fp RTC_EVENT_LINE_MAX w = (Some line, eof, fp1, w1)" by simp
  then obtain c where "files w1 = files w" "files w (fpath fp) = Some c" "fpos fp < length c" "line \<noteq> []" "fp1 = fp\<lparr>fpos := fpos fp + length line\<rparr>"
    by (rule fgets_some)
  then show "(case files w2 (fpath fp1) of None \<Rightarrow> 0 | Some c \<Rightarrow> length c - fpos fp1) < (case files w (fpath fp) of None \<Rightarrow> 0 | Some c \<Rightarrow> length c - fpos fp)"
    using ftell_same[of fp1 w1 "Some after" w2] *(4) by (cases line) auto
qed

declare rtc_scan_events.simps [simp del]

section \<open>Recovering the event\<close>

definition rtc_event_text :: "string \<Rightarrow> string \<Rightarrow> string \<Rightarrow> string" where
  "rtc_event_text cid before after =
     ''{\"event\":\"rtc_correction\",\"correctionId\":\"'' @ cid @ ''\",\"before\":\"'' @ before @
     ''\",\"after\":\"'' @ after @ ''\",\"source\":\"pc\"}'' @ [CHR 0x0A]"

text \<open>The event is written at the end of the log and forced to the card.\<close>

definition rtc_append_event :: "FILE \<Rightarrow> string \<Rightarrow> io_world \<Rightarrow> bool \<times> FILE \<times> io_world" where
  "rtc_append_event fp line w =
     (case fseek_end fp w of (ok, fp, w) \<Rightarrow>
      if \<not> ok then (False, fp, w)
      else case snprintf_fits RTC_EVENT_LINE_MAX line of
        None \<Rightarrow> (False, fp, w)
      | Some out \<Rightarrow>
          (case fwrite fp (bytes_of_string out) w of (n, fp, w) \<Rightarrow>
           if n \<noteq> length out then (False, fp, w)
           else case fflush fp w of (ok, w) \<Rightarrow>
           if \<not> ok then (False, fp, w) else case fsync fp w of (ok, w) \<Rightarrow> (ok, fp, w)))"

definition open_event_log :: "string \<Rightarrow> io_world \<Rightarrow> FILE option \<times> io_world" where
  \<comment> \<open>\<open>WB\<close> stands for \<open>w+b\<close> too.\<close>
  "open_event_log path w =
     (case fopen RPB path w of (fp, w) \<Rightarrow>
      if fp = None \<and> errno_of w = ENOENT then fopen WB path w else (fp, w))"

text \<open>The part of the function that works on the file: whether the event is known to be in it.\<close>

definition rtc_event_in_log ::
    "'j cjson_api \<Rightarrow> string \<Rightarrow> rtc_correction_event_t \<Rightarrow> string \<Rightarrow> io_world \<Rightarrow> bool \<times> io_world" where
  "rtc_event_in_log J path event line w =
     (case open_event_log path w of
        (None, w) \<Rightarrow> (False, w)
      | (Some fp, w) \<Rightarrow>
          (case rtc_scan_events J event fp 0 False w of
             (None, fp, w) \<Rightarrow> (False, w)
           | (Some found, fp, w) \<Rightarrow>
               if ferr fp then (False, snd (fclose fp w))
               else case (if \<not> found then rtc_append_event fp line w else (True, fp, w)) of (ok, fp, w) \<Rightarrow>
               if \<not> ok then (False, snd (fclose fp w)) else fclose fp w))"

definition rtc_correction_recover_event ::
    "'j cjson_api \<Rightarrow> string ptr \<Rightarrow> rtc_correction_event_t ptr \<Rightarrow> ('c \<Rightarrow> esp_err_t \<times> 'c) option \<Rightarrow> 'c \<Rightarrow> io_world \<Rightarrow>
     esp_err_t \<times> 'c \<times> io_world" where
  "rtc_correction_recover_event J events_path event clear_pending clear_ctx w =
     (case (events_path, event, clear_pending) of
        (Some path, Some ev, Some clear) \<Rightarrow>
          (case (correction_id ev, event_before ev, event_after ev, event_source ev) of
             (Some i, Some b, Some a, Some src) \<Rightarrow>
               if path = [] \<or> src \<noteq> ''pc'' then (ESP_ERR_INVALID_ARG, clear_ctx, w)
               else case rtc_event_in_log J path ev (rtc_event_text i b a) w of (ok, w) \<Rightarrow>
               if \<not> ok then (ESP_FAIL, clear_ctx, w)
               else case clear clear_ctx of (err, c) \<Rightarrow> (err, c, w)
           | _ \<Rightarrow> (ESP_ERR_INVALID_ARG, clear_ctx, w))
      | _ \<Rightarrow> (ESP_ERR_INVALID_ARG, clear_ctx, w))"

section \<open>The log as lines\<close>

text \<open>The complete lines of a file and the part of it that they make up; behind it is the torn tail.\<close>

fun lines_from :: "byte list \<Rightarrow> byte list \<Rightarrow> byte list list" where
  "lines_from cur [] = []"
| "lines_from cur (b # bs) = (if b = newline then (cur @ [b]) # lines_from [] bs else lines_from (cur @ [b]) bs)"

definition complete_lines :: "byte list \<Rightarrow> byte list list" where
  "complete_lines c = lines_from [] c"

definition complete_part :: "byte list \<Rightarrow> byte list" where
  "complete_part c = concat (complete_lines c)"

lemma lines_from_plain: "newline \<notin> set x \<Longrightarrow> lines_from cur (x @ bs) = lines_from (cur @ x) bs"
  by (induction x arbitrary: cur) auto

lemma complete_lines_nil [simp]: "complete_lines [] = []"
  by (simp add: complete_lines_def)

lemma complete_lines_line: "is_line l \<Longrightarrow> complete_lines (l @ c) = l # complete_lines c"
  by (auto simp: is_line_def complete_lines_def lines_from_plain)

lemma complete_lines_tail: "newline \<notin> set x \<Longrightarrow> complete_lines x = []"
  using lines_from_plain[of x "[]" "[]"] by (simp add: complete_lines_def)

lemma lines_from_append:
  "\<exists>t. cur @ bs = concat (lines_from cur bs) @ t \<and> (newline \<notin> set cur \<longrightarrow> newline \<notin> set t) \<and>
     (newline \<notin> set cur \<longrightarrow> (\<forall>l \<in> set (lines_from cur bs). is_line l))"
proof (induction cur bs rule: lines_from.induct)
  case (2 cur b bs)
  then show ?case by (cases "b = newline") (force simp: is_line_def)+
qed auto

text \<open>A file is its complete lines and a tail without newline.\<close>

lemma split_log:
  obtains t where "c = complete_part c @ t" "newline \<notin> set t" "\<forall>l \<in> set (complete_lines c). is_line l"
  using lines_from_append[of "[]" c] by (auto simp: complete_part_def complete_lines_def)

lemma complete_lines_concat: "\<forall>l \<in> set ls. is_line l \<Longrightarrow> complete_lines (concat ls @ c) = ls @ complete_lines c"
  by (induction ls) (simp_all add: complete_lines_line)

lemma complete_lines_part: "complete_lines (complete_part c @ d) = complete_lines c @ complete_lines d"
proof -
  obtain t where "\<forall>l \<in> set (complete_lines c). is_line l" by (rule split_log)
  then show ?thesis unfolding complete_part_def by (rule complete_lines_concat)
qed

lemma complete_part_prefix: "prefix (complete_part c) c"
  by (rule split_log[of c]) (metis prefixI)

section \<open>What the scan does\<close>

definition line_matches :: "'j cjson_api \<Rightarrow> rtc_correction_event_t \<Rightarrow> byte list \<Rightarrow> bool" where
  "line_matches J event l = snd (classify_complete_event_line J (Some (string_of_bytes l)) (Some event))"

definition line_accepted :: "'j cjson_api \<Rightarrow> rtc_correction_event_t \<Rightarrow> byte list \<Rightarrow> bool" where
  "line_accepted J event l \<longleftrightarrow> fst (classify_complete_event_line J (Some (string_of_bytes l)) (Some event)) = ESP_OK"

lemma ftruncate_files:
  assumes "ftruncate h n w = (ok, w')" "files w (fpath h) = Some c" "n \<le> length c"
  shows "touches {fpath h} w w'" "files w' (fpath h) = Some (if ok then take n c else c)"
proof -
  obtain ok1 w1 where i: "io_try w = (ok1, w1)" by fastforce
  note same = io_try_same[OF i]
  have r: "ok = ok1" "w' = (if ok1 then set_file (fpath h) (Some (take n c)) True w1 else w1)"
    using assms i same(1) by (cases ok1; simp add: ftruncate_def)+
  show "files w' (fpath h) = Some (if ok then take n c else c)" using r same(1) assms(2) by simp
  show "touches {fpath h} w w'" unfolding r using same by (auto simp: touches_def)
qed

lemma fseek_ferr: "fseek h pos w = (ok, h', w') \<Longrightarrow> ferr h' = ferr h"
  by (auto simp: fseek_def split: prod.splits bool.splits if_splits)

lemma fclose_frame: "files (snd (fclose h w)) = files w" "touches A w (snd (fclose h w))"
  using io_try_same(1)[of w "fst (io_try w)" "snd (io_try w)"] io_try_touches[of w "fst (io_try w)" "snd (io_try w)" A]
  by (simp_all add: fclose_def)

lemma fclose_unsynced: "unsynced (snd (fclose h w)) = unsynced w"
  using io_try_same(2)[of w "fst (io_try w)" "snd (io_try w)"] by (simp add: fclose_def)

lemma drop_tail_result:
  assumes "rtc_drop_tail fp n w = (ok, fp', w')" "files w (fpath fp) = Some c" "n \<le> length c"
  shows "fpath fp' = fpath fp" "touches {fpath fp} w w'" "files w' (fpath fp) = Some c \<or> files w' (fpath fp) = Some (take n c)"
    "ok \<Longrightarrow> files w' (fpath fp) = Some (take n c) \<and> \<not> unsynced w' (fpath fp) \<and> \<not> ferr fp'"
proof -
  let ?h = "fp\<lparr>ferr := False\<rparr>"
  obtain ok1 w1 where t: "ftruncate ?h n w = (ok1, w1)" by fastforce
  obtain ok2 h2 w2 where s: "fseek ?h (int n) w1 = (ok2, h2, w2)" by (metis prod_cases3)
  obtain ok3 w3 where y: "fsync h2 w2 = (ok3, w3)" by fastforce
  have p: "fpath ?h = fpath fp" by simp
  note t' = ftruncate_files[OF t, unfolded p, OF assms(2,3)]
  note h2 = fseek_handle[OF s]
  have fl: "files w2 = files w1" "files w3 = files w2"
    using fseek_touches[OF s, of "{}"] fsync_files[OF y] by (auto simp: touches_def)
  have tc: "touches {fpath fp} w w1" "touches {fpath fp} w w2" "touches {fpath fp} w w3"
  proof -
    show 1: "touches {fpath fp} w w1" by (rule t'(1))
    show 2: "touches {fpath fp} w w2" by (rule touches_trans[OF 1 fseek_touches[OF s]])
    show "touches {fpath fp} w w3" using touches_trans[OF 2] fsync_touches[OF y] h2 by simp
  qed
  note cl = fclose_frame
  have q: "if \<not> ok1 then \<not> ok \<and> fp' = ?h \<and> w' = snd (fclose ?h w1) else if \<not> ok2 then \<not> ok \<and> fp' = h2 \<and> w' = snd (fclose h2 w2)
    else fp' = h2 \<and> ok = ok3 \<and> (if ok3 then w' = w3 else w' = snd (fclose h2 w3))"
    using assms(1) t s y by (auto simp: rtc_drop_tail_def Let_def split: if_splits)
  show "fpath fp' = fpath fp" using q h2 by (auto split: if_splits)
  show "touches {fpath fp} w w'" using q tc touches_trans[OF _ cl(2)] by (auto split: if_splits)
  show "files w' (fpath fp) = Some c \<or> files w' (fpath fp) = Some (take n c)" using q t'(2) fl cl(1) by (auto split: if_splits)
  show "ok \<Longrightarrow> files w' (fpath fp) = Some (take n c) \<and> \<not> unsynced w' (fpath fp) \<and> \<not> ferr fp'"
    using q t'(2) fl h2 fsync_synced[of h2 w2 w3] y fseek_ferr[OF s] by (auto split: if_splits)
qed

text \<open>The line that the loop reads.\<close>

lemma scan_line:
  assumes "line = fgets_line (take m (drop k c))" "c_strlen line \<noteq> 0" "line ! (c_strlen line - 1) = newline"
  shows "is_line line" "take (c_strlen line) line = line" "drop k c = line @ drop (k + length line) c"
proof -
  have le: "c_strlen line - 1 < length line" using assms(2) length_takeWhile_le[of "\<lambda>b. b \<noteq> 0" line] unfolding c_strlen_def by linarith
  obtain r where l: "is_line line" "take m (drop k c) = line @ r"
  proof (cases rule: fgets_line_cases[of "take m (drop k c)"])
    case (line r)
    show ?thesis by (rule that[of r]; unfold assms(1); rule line)
  next
    case tail
    then show ?thesis using le assms(1,3) nth_mem[of "c_strlen line - 1" line] by simp
  qed
  then obtain x where x: "line = x @ [newline]" "newline \<notin> set x" unfolding is_line_def by blast
  have "c_strlen line - 1 = length x"
  proof (rule ccontr)
    assume "c_strlen line - 1 \<noteq> length x"
    then have "c_strlen line - 1 < length x" using le x(1) by simp
    then show False using assms(3) x nth_mem[of "c_strlen line - 1" x] by (simp add: nth_append)
  qed
  then have "c_strlen line = length line" using assms(2) x(1) by simp
  then show "take (c_strlen line) line = line" by simp
  show "is_line line" by (rule l)
  define s where "s = r @ drop m (drop k c)"
  have e: "drop k c = line @ s" using append_take_drop_id[of m "drop k c"] unfolding l(2) s_def by simp
  have "drop (length line) (drop k c) = s" unfolding e by simp
  then have "s = drop (k + length line) c" by (simp add: add.commute)
  then show "drop k c = line @ drop (k + length line) c" using e by simp
qed

lemma scan_tail:
  assumes "line = fgets_line (take m (drop k c))" "length line < m" "newline \<notin> set line"
  shows "complete_lines (drop k c) = []"
proof (cases rule: fgets_line_cases[of "take m (drop k c)"])
  case (line r)
  then show ?thesis using assms(1,3) by (auto simp: is_line_def)
next
  case tail
  then have "take m (drop k c) = line" using assms(1) by simp
  then have "drop k c = line" using assms(2) by (metis length_take min_def nat_less_le take_all)
  then show ?thesis using assms(3) by (simp add: complete_lines_tail)
qed

lemma fgets_none:
  assumes "fgets h n w = (None, eof, h', w')"
  shows "files w' = files w" "unsynced w' = unsynced w" "touches A w w'" "fpath h' = fpath h"
    "\<not> ferr h' \<Longrightarrow> files w (fpath h) = Some c \<Longrightarrow> 1 < n \<Longrightarrow> drop (fpos h) c = []"
  using assms io_next_same(1,2)[of w] io_next_touches[of w _ _ A]
  by (auto simp: fgets_def Let_def split: prod.splits option.splits if_splits)

lemma fgets_touches: "fgets h n w = (l, eof, h', w') \<Longrightarrow> touches A w w'"
  using io_next_touches[of w _ _ A] by (auto simp: fgets_def Let_def split: prod.splits option.splits if_splits)

lemma ftell_frame: "ftell h w = (r, w') \<Longrightarrow> touches A w w' \<and> unsynced w' = unsynced w"
  using io_try_touches[of w _ _ A] io_try_same(2)[of w] by (auto simp: ftell_def split: prod.splits if_splits)

text \<open>
  From a position on, the scan keeps the log or cuts its torn tail off; when it ends without error the tail is gone and
  \<open>found\<close> says whether a line matches.
\<close>

definition scanned ::
    "'j cjson_api \<Rightarrow> rtc_correction_event_t \<Rightarrow> byte list \<Rightarrow> nat \<Rightarrow> bool \<Rightarrow> FILE \<Rightarrow> io_world \<Rightarrow> bool option \<times> FILE \<times> io_world \<Rightarrow> bool" where
  "scanned J event c k found fp w res \<longleftrightarrow> (case res of (r, fp', w') \<Rightarrow>
     fpath fp' = fpath fp \<and> touches {fpath fp} w w' \<and>
     (files w' (fpath fp) = Some c \<or> files w' (fpath fp) = Some (take k c @ complete_part (drop k c))) \<and>
     (\<forall>f. r = Some f \<longrightarrow> \<not> ferr fp' \<longrightarrow> files w' (fpath fp) = Some (take k c @ complete_part (drop k c)) \<and>
        (unsynced w' (fpath fp) \<longrightarrow> unsynced w (fpath fp)) \<and>
        f = (found \<or> (\<exists>l \<in> set (complete_lines (drop k c)). line_matches J event l)) \<and>
        (\<forall>l \<in> set (complete_lines (drop k c)). line_accepted J event l)))"

lemma scanned_closed:
  assumes "fpath h = fpath fp" "files w1 (fpath fp) = Some c" "touches {fpath fp} w w1"
  shows "scanned J event c k found fp w (None, h, snd (fclose h w1))"
  using assms touches_trans[OF assms(3) fclose_frame(2)] fclose_frame(1)[of h w1] by (simp add: scanned_def)

text \<open>Reading one complete line moves the position behind it.\<close>

lemma scanned_step:
  assumes "scanned J event c (k + length line) (found \<or> line_matches J event line) h w1 res" "fpath h = fpath fp"
    "is_line line" "drop k c = line @ drop (k + length line) c" "touches {fpath fp} w w1" "unsynced w1 = unsynced w" "line_accepted J event line"
  shows "scanned J event c k found fp w res"
proof -
  have l: "complete_lines (drop k c) = line # complete_lines (drop (k + length line) c)"
    by (subst assms(4)) (rule complete_lines_line[OF assms(3)])
  have t: "take (k + length line) c = take k c @ line" by (simp add: take_add assms(4))
  have p: "take (k + length line) c @ complete_part (drop (k + length line) c) = take k c @ complete_part (drop k c)"
    unfolding t complete_part_def l by simp
  show ?thesis using assms(1,2,6,7) touches_trans[OF assms(5)] unfolding scanned_def p l by (auto split: prod.splits)
qed

lemma scan_events:
  assumes "files w (fpath fp) = Some c" "fpos fp \<le> length c" "\<not> ferr fp"
  shows "scanned J event c (fpos fp) found fp w (rtc_scan_events J event fp (fpos fp) found w)"
  using assms
proof (induction "length c - fpos fp" arbitrary: fp found w rule: less_induct)
  case less
  let ?M = RTC_EVENT_LINE_MAX
  obtain lo eof h w1 where g: "fgets fp ?M w = (lo, eof, h, w1)" by (metis prod_cases4)
  note tc = fgets_touches[OF g, of "{fpath fp}"]
  show ?case
  proof (cases lo)
    case None
    note n = fgets_none[OF g[unfolded None]]
    have "drop (fpos fp) c = []" if "\<not> ferr h" using n(5)[of c] that less.prems by (simp add: RTC_EVENT_LINE_MAX_def)
    then show ?thesis unfolding rtc_scan_events.simps[of J event fp] using g None n(1,2,4) tc less.prems by (auto simp: scanned_def complete_part_def)
  next
    case (Some line)
    obtain c0 where s: "files w1 = files w" "unsynced w1 = unsynced w" "files w (fpath fp) = Some c0" "fpos fp < length c0"
      "line = fgets_line (take (?M - 1) (drop (fpos fp) c0))" "line \<noteq> []" "h = fp\<lparr>fpos := fpos fp + length line\<rparr>"
      "eof = (length line < ?M - 1 \<and> newline \<notin> set line)" by (rule fgets_some[OF g[unfolded Some]])
    have c: "c0 = c" using s(3) less.prems(1) by simp
    note cl = scanned_closed[of h fp w1 c w, OF _ _ tc]
    have cl: "scanned J event c (fpos fp) found fp w (None, h, snd (fclose h w1))" using cl s(1,3,7) c by simp
    consider (bad) "c_strlen line = 0 \<or> line ! (c_strlen line - 1) \<noteq> newline \<and> \<not> eof"
      | (tail) "c_strlen line \<noteq> 0" "line ! (c_strlen line - 1) \<noteq> newline" eof
      | (line) "c_strlen line \<noteq> 0" "line ! (c_strlen line - 1) = newline" by blast
    then show ?thesis
    proof cases
      case bad
      then show ?thesis unfolding rtc_scan_events.simps[of J event fp] using cl g Some by (auto simp: Let_def)
    next
      case tail
      obtain ok h2 w2 where d: "rtc_drop_tail h (fpos fp) w1 = (ok, h2, w2)" by (metis prod_cases3)
      have "fpath h = fpath fp" "files w1 (fpath h) = Some c" "fpos fp \<le> length c" using s less.prems by simp_all
      note r = drop_tail_result[OF d this(2,3), unfolded this(1)]
      have p: "complete_lines (drop (fpos fp) c) = []" using scan_tail[OF s(5)] tail(3) s(8) c by simp
      have "scanned J event c (fpos fp) found fp w (if ok then Some found else None, h2, w2)"
        unfolding scanned_def complete_part_def p using r touches_trans[OF tc r(2)] by auto
      then show ?thesis unfolding rtc_scan_events.simps[of J event fp] using g Some d tail by (simp add: Let_def)
    next
      case line
      note ln = scan_line[OF s(5)[unfolded c] line]
      obtain er m where cf: "classify_complete_event_line J (Some (string_of_bytes line)) (Some event) = (er, m)" by fastforce
      obtain ta w2 where t: "ftell h w1 = (ta, w2)" by fastforce
      note t1 = ftell_same[OF t] ftell_frame[OF t, of "{fpath fp}"]
      have m: "m = line_matches J event line" using cf by (simp add: line_matches_def)
      have cl2: "scanned J event c (fpos fp) found fp w (None, h, snd (fclose h w2))"
        by (rule scanned_closed) (use s c t1 touches_trans[OF tc] in simp_all)
      define res where "res = rtc_scan_events J event h (fpos h) (found \<or> m) w2"
      have hp: "fpos h = fpos fp + length line" "fpath h = fpath fp" using s(7) by simp_all
      have "scanned J event c (fpos h) (found \<or> m) h w2 res" unfolding res_def
      proof (rule less.hyps)
        have "length c - fpos fp = length line + (length c - (fpos fp + length line))" using arg_cong[OF ln(3), of length] by simp
        moreover have "0 < length line" using s(6) by simp
        moreover have "fpos h = fpos fp + length line" "fpos fp < length c" using s(4,7) c by simp_all
        ultimately show "length c - fpos h < length c - fpos fp" "fpos h \<le> length c" by linarith+
        show "files w2 (fpath h) = Some c" "\<not> ferr h" using s(1,3,7) c t1 less.prems(3) by simp_all
      qed
      from this[unfolded hp(1) m] have "scanned J event c (fpos fp) found fp w res" if "er = ESP_OK"
        by (rule scanned_step[OF _ hp(2) ln(1,3)]) (use s(2) t1 touches_trans[OF tc] that cf in \<open>simp_all add: line_accepted_def\<close>)
      then show ?thesis unfolding rtc_scan_events.simps[of J event fp] using g Some cf t t1 line ln(2) cl cl2
        by (cases ta) (simp_all add: Let_def res_def)
    qed
  qed
qed

section \<open>What the recovery leaves\<close>

definition log_bytes :: "string \<Rightarrow> io_world \<Rightarrow> byte list" where
  "log_bytes path w = (case files w path of None \<Rightarrow> [] | Some c \<Rightarrow> c)"

definition log_lines :: "string \<Rightarrow> io_world \<Rightarrow> byte list list" where
  "log_lines path w = complete_lines (log_bytes path w)"

definition log_has :: "'j cjson_api \<Rightarrow> rtc_correction_event_t \<Rightarrow> byte list \<Rightarrow> bool" where
  "log_has J event c \<longleftrightarrow> (\<exists>l \<in> set (complete_lines c). line_matches J event l)"

lemma fopen_rpb_cases:
  assumes "fopen RPB path w = (r, w1)" "honest w"
  shows "files w1 = files w" "unsynced w1 = unsynced w" "honest w1"
    "r = None \<Longrightarrow> errno_of w1 = ENOENT \<Longrightarrow> files w path = None"
    "r = Some fp \<Longrightarrow> fp = \<lparr>fpath = path, fpos = 0, ferr = False\<rparr> \<and> files w path \<noteq> None"
proof -
  obtain ok w0 where i: "io_try w = (ok, w0)" by fastforce
  note same = io_try_same[OF i] io_try_steady[OF i] io_try_errno[of w w0]
  show "files w1 = files w" "unsynced w1 = unsynced w" "honest w1"
    "r = None \<Longrightarrow> errno_of w1 = ENOENT \<Longrightarrow> files w path = None"
    "r = Some fp \<Longrightarrow> fp = \<lparr>fpath = path, fpos = 0, ferr = False\<rparr> \<and> files w path \<noteq> None"
    using assms i same by (cases ok; cases "files w0 path"; auto simp: fopen_def steady_def)+
qed

lemma open_log:
  assumes "open_event_log path w = (r, w1)" "honest w"
  shows "touches {path} w w1" "log_bytes path w1 = log_bytes path w"
    "r = Some fp \<Longrightarrow> fp = \<lparr>fpath = path, fpos = 0, ferr = False\<rparr> \<and> files w1 path = Some (log_bytes path w) \<and>
       (unsynced w1 path \<longrightarrow> unsynced w path \<or> files w path = None)"
proof -
  obtain r0 w0 where o: "fopen RPB path w = (r0, w0)" by fastforce
  note f = fopen_rpb_cases[OF o assms(2)] fopen_rpb_touches[OF o, of "{path}"]
  have "touches {path} w w1 \<and> log_bytes path w1 = log_bytes path w \<and>
    (r = Some fp \<longrightarrow> fp = \<lparr>fpath = path, fpos = 0, ferr = False\<rparr> \<and> files w1 path = Some (log_bytes path w) \<and>
       (unsynced w1 path \<longrightarrow> unsynced w path \<or> files w path = None))"
  proof (cases "r0 = None \<and> errno_of w0 = ENOENT")
    case True
    obtain ok w2 where i: "io_try w0 = (ok, w2)" by fastforce
    have n: "files w path = None" using f(4) True by simp
    have b: "fopen WB path w0 = (r, w1)" using assms(1) o True by (simp add: open_event_log_def)
    then show ?thesis using i n io_try_same(1)[OF i] f(1,6) touches_trans[OF f(6) fopen_touches[OF b]]
      by (cases ok) (auto simp: fopen_def log_bytes_def)
  next
    case False
    then have "r = r0" "w1 = w0" using assms(1) o by (auto simp: open_event_log_def)
    then show ?thesis using f by (auto simp: log_bytes_def split: option.splits)
  qed
  then show "touches {path} w w1" "log_bytes path w1 = log_bytes path w"
    "r = Some fp \<Longrightarrow> fp = \<lparr>fpath = path, fpos = 0, ferr = False\<rparr> \<and> files w1 path = Some (log_bytes path w) \<and>
       (unsynced w1 path \<longrightarrow> unsynced w path \<or> files w path = None)" by simp_all
qed

lemma fwrite_prefix:
  assumes "fwrite h bs w = (n, h', w')" "files w (fpath h) = Some c" "fpos h = length c"
  shows "n \<le> length bs" "files w' (fpath h) = Some (c @ take n bs)"
proof -
  obtain r w1 where r: "io_next w = (r, w1)" by fastforce
  have f: "files w1 = files w" by (rule io_next_same[OF r])
  show "n \<le> length bs" "files w' (fpath h) = Some (c @ take n bs)"
    using assms r f by (cases "halted w"; cases r; auto simp: fwrite_def files_put_bytes Let_def)+
qed

lemma append_event:
  assumes "rtc_append_event fp line w = (ok, fp', w')" "files w (fpath fp) = Some c"
  shows "fpath fp' = fpath fp" "touches {fpath fp} w w'" "\<exists>k. files w' (fpath fp) = Some (c @ take k (bytes_of_string line))"
    "ok \<Longrightarrow> files w' (fpath fp) = Some (c @ bytes_of_string line) \<and> \<not> unsynced w' (fpath fp)"
proof -
  let ?bs = "bytes_of_string line"
  obtain ok1 h1 w1 where e: "fseek_end fp w = (ok1, h1, w1)" by (metis prod_cases3)
  obtain n h2 w2 where wr: "fwrite h1 ?bs w1 = (n, h2, w2)" by (metis prod_cases3)
  obtain ok3 w3 where fl: "fflush h2 w2 = (ok3, w3)" by fastforce
  obtain ok4 w4 where y: "fsync h2 w3 = (ok4, w4)" by fastforce
  have h1: "fpath h1 = fpath fp" "files w1 = files w" "ok1 \<Longrightarrow> fpos h1 = length c" "touches {fpath fp} w w1"
  proof -
    obtain r w0 where i: "io_try w = (r, w0)" by fastforce
    show "fpath h1 = fpath fp" "files w1 = files w" "ok1 \<Longrightarrow> fpos h1 = length c" "touches {fpath fp} w w1"
      using e i assms(2) io_try_same(1)[OF i] io_try_touches[OF i] by (auto simp: fseek_end_def split: if_splits)
  qed
  have c1: "files w1 (fpath h1) = Some c" using h1 assms(2) by simp
  note h2 = fwrite_files(2)[OF wr]
  have t2: "touches {fpath fp} w w2" using touches_trans[OF h1(4)] fwrite_touches[OF wr] h1(1) by simp
  have t3: "touches {fpath fp} w w3" by (rule touches_trans[OF t2 fflush_touches[OF fl]])
  have t4: "touches {fpath fp} w w4" using touches_trans[OF t3] fsync_touches[OF y] h2 h1(1) by simp
  have f34: "files w3 = files w2" "files w4 = files w3" using fflush_touches[OF fl, of "{}"] fsync_files[OF y] by (auto simp: touches_def)
  have cases: "\<not> ok \<and> fp' = h1 \<and> w' = w1 \<or> ok1 \<and> \<not> ok \<and> fp' = h2 \<and> (w' = w2 \<or> w' = w3) \<or>
      ok1 \<and> n = length ?bs \<and> ok = ok4 \<and> fp' = h2 \<and> w' = w4"
    using assms(1) e wr fl y by (auto simp: rtc_append_event_def snprintf_fits_def split: if_splits)
  note wr = fwrite_prefix[OF wr c1, unfolded h1(1)]
  have k: "\<exists>k. files w2 (fpath fp) = Some (c @ take k ?bs)" if ok1 using wr(2) h1(3)[OF that] by blast
  show "fpath fp' = fpath fp" using cases h1(1) h2 by auto
  show "touches {fpath fp} w w'" using cases h1(4) t2 t3 t4 by blast
  have "files w1 (fpath fp) = Some (c @ take 0 ?bs)" using c1 h1(1) by simp
  then show "\<exists>k. files w' (fpath fp) = Some (c @ take k ?bs)" using cases k f34 by metis
  show "files w' (fpath fp) = Some (c @ ?bs) \<and> \<not> unsynced w' (fpath fp)" if ok
  proof -
    have all: "ok1" "n = length ?bs" "ok4" "w' = w4" using cases that by auto
    have "files w2 (fpath fp) = Some (c @ ?bs)" using wr(2) h1(3)[OF all(1)] all(2) by simp
    moreover have "\<not> unsynced w4 (fpath h2)" by (rule fsync_synced) (use y all(3) in simp)
    ultimately show ?thesis using all(4) f34 h1(1) h2 by simp
  qed
qed

text \<open>The scan of the whole log.\<close>

lemma scan_log:
  assumes "rtc_scan_events J event fp 0 False w = (r, h, w')" "files w path = Some c" "fp = \<lparr>fpath = path, fpos = 0, ferr = False\<rparr>"
  shows "fpath h = path" "touches {path} w w'" "files w' path = Some c \<or> files w' path = Some (complete_part c)"
    "r = Some f \<Longrightarrow> \<not> ferr h \<Longrightarrow> files w' path = Some (complete_part c) \<and> (unsynced w' path \<longrightarrow> unsynced w path) \<and> f = log_has J event c \<and>
      (\<forall>l \<in> set (complete_lines c). line_accepted J event l)"
proof -
  have "scanned J event c 0 False fp w (r, h, w')" using scan_events[of w fp c J event False] assms by simp
  then show "fpath h = path" "touches {path} w w'" "files w' path = Some c \<or> files w' path = Some (complete_part c)"
    "r = Some f \<Longrightarrow> \<not> ferr h \<Longrightarrow> files w' path = Some (complete_part c) \<and> (unsynced w' path \<longrightarrow> unsynced w path) \<and> f = log_has J event c \<and>
      (\<forall>l \<in> set (complete_lines c). line_accepted J event l)"
    by (auto simp: scanned_def assms(3) log_has_def)
qed

text \<open>What the log may hold after an attempt, and what it holds after a successful one.\<close>

definition log_kept :: "'j cjson_api \<Rightarrow> rtc_correction_event_t \<Rightarrow> string \<Rightarrow> byte list \<Rightarrow> byte list \<Rightarrow> bool" where
  "log_kept J event line c d \<longleftrightarrow> d = c \<or> d = complete_part c \<or>
     \<not> log_has J event c \<and> (\<exists>k. d = complete_part c @ take k (bytes_of_string line))"

definition log_done :: "'j cjson_api \<Rightarrow> rtc_correction_event_t \<Rightarrow> string \<Rightarrow> byte list \<Rightarrow> byte list" where
  "log_done J event line c = (if log_has J event c then complete_part c else complete_part c @ bytes_of_string line)"

lemma append_unless_found:
  assumes "(if \<not> log_has J event c then rtc_append_event h line w else (True, h, w)) = (ok, h', w')" "files w (fpath h) = Some (complete_part c)"
  shows "touches {fpath h} w w'" "\<exists>d. files w' (fpath h) = Some d \<and> log_kept J event line c d"
    "ok \<Longrightarrow> files w' (fpath h) = Some (log_done J event line c) \<and> (unsynced w' (fpath h) \<longrightarrow> unsynced w (fpath h) \<and> log_has J event c)"
proof -
  have "touches {fpath h} w w' \<and> (\<exists>d. files w' (fpath h) = Some d \<and> log_kept J event line c d) \<and>
    (ok \<longrightarrow> files w' (fpath h) = Some (log_done J event line c) \<and> (unsynced w' (fpath h) \<longrightarrow> unsynced w (fpath h) \<and> log_has J event c))"
  proof (cases "log_has J event c")
    case True
    then have "w' = w" using assms(1) by simp
    then show ?thesis using assms(2) True by (simp add: log_kept_def log_done_def)
  next
    case False
    then have "rtc_append_event h line w = (ok, h', w')" using assms(1) by simp
    note a = append_event[OF this assms(2)]
    obtain k where "files w' (fpath h) = Some (complete_part c @ take k (bytes_of_string line))" using a(3) by blast
    then have "\<exists>d. files w' (fpath h) = Some d \<and> log_kept J event line c d" unfolding log_kept_def using False by blast
    then show ?thesis using a(2,4) False unfolding log_done_def by simp
  qed
  then show "touches {fpath h} w w'" "\<exists>d. files w' (fpath h) = Some d \<and> log_kept J event line c d"
    "ok \<Longrightarrow> files w' (fpath h) = Some (log_done J event line c) \<and> (unsynced w' (fpath h) \<longrightarrow> unsynced w (fpath h) \<and> log_has J event c)" by blast+
qed

lemma event_in_log_opened:
  assumes "files w path = Some c" "fp = \<lparr>fpath = path, fpos = 0, ferr = False\<rparr>"
    "rtc_event_in_log J path event line w0 = (ok, w')" "open_event_log path w0 = (Some fp, w)"
  shows "touches {path} w w'" "\<exists>d. files w' path = Some d \<and> log_kept J event line c d"
    "ok \<Longrightarrow> files w' path = Some (log_done J event line c) \<and> (unsynced w' path \<longrightarrow> unsynced w path \<and> log_has J event c) \<and>
       (\<forall>l \<in> set (complete_lines c). line_accepted J event l)"
proof -
  obtain r h w2 where sc: "rtc_scan_events J event fp 0 False w = (r, h, w2)" by (metis prod_cases3)
  note s = scan_log[OF sc assms(1,2)]
  have t2c: "touches {path} w (snd (fclose h w2))" by (rule touches_trans[OF s(2) fclose_frame(2)])
  have "touches {path} w w' \<and> (\<exists>d. files w' path = Some d \<and> log_kept J event line c d) \<and>
    (ok \<longrightarrow> files w' path = Some (log_done J event line c) \<and> (unsynced w' path \<longrightarrow> unsynced w path \<and> log_has J event c) \<and>
       (\<forall>l \<in> set (complete_lines c). line_accepted J event l))"
  proof (cases "r = None \<or> ferr h")
    case True
    then have "\<not> ok" "w' = w2 \<or> w' = snd (fclose h w2)" using assms(3,4) sc by (auto simp: rtc_event_in_log_def split: option.splits)
    then show ?thesis using s(2,3) t2c fclose_frame(1)[of h w2] by (auto simp: log_kept_def)
  next
    case False
    then obtain f where r: "r = Some f" and ne: "\<not> ferr h" by auto
    note sf = s(4)[OF r ne]
    obtain ok3 h3 w3 where a: "(if \<not> log_has J event c then rtc_append_event h line w2 else (True, h, w2)) = (ok3, h3, w3)" by (metis prod_cases3)
    have res: "w' = snd (fclose h3 w3)" "ok \<Longrightarrow> ok3" using assms(3,4) sc r ne sf a by (auto simp: rtc_event_in_log_def split: if_splits)
    have "files w2 (fpath h) = Some (complete_part c)" using sf s(1) by simp
    note a3 = append_unless_found[OF a this, unfolded s(1)]
    have w': "files w' = files w3" "unsynced w' = unsynced w3" by (simp_all add: res(1) fclose_frame(1) fclose_unsynced)
    have "touches {path} w w'" unfolding res(1) by (rule touches_trans[OF touches_trans[OF s(2) a3(1)] fclose_frame(2)])
    then show ?thesis using a3(2,3) res(2) sf unfolding w' by blast
  qed
  then show "touches {path} w w'" "\<exists>d. files w' path = Some d \<and> log_kept J event line c d"
    "ok \<Longrightarrow> files w' path = Some (log_done J event line c) \<and> (unsynced w' path \<longrightarrow> unsynced w path \<and> log_has J event c) \<and>
       (\<forall>l \<in> set (complete_lines c). line_accepted J event l)" by blast+
qed

lemma event_in_log:
  assumes "rtc_event_in_log J path event line w = (ok, w')" "honest w"
  defines "c \<equiv> log_bytes path w"
  shows "touches {path} w w'" "log_kept J event line c (log_bytes path w')"
    "ok \<Longrightarrow> (unsynced w' path \<longrightarrow> unsynced w path) \<and> log_bytes path w' = log_done J event line c \<and>
       (\<forall>l \<in> set (complete_lines c). line_accepted J event l)"
proof -
  obtain fo w1 where o: "open_event_log path w = (fo, w1)" by fastforce
  note op = open_log[OF o assms(2)]
  have "touches {path} w w' \<and> log_kept J event line c (log_bytes path w') \<and>
    (ok \<longrightarrow> (unsynced w' path \<longrightarrow> unsynced w path) \<and> log_bytes path w' = log_done J event line c \<and>
       (\<forall>l \<in> set (complete_lines c). line_accepted J event l))"
  proof (cases fo)
    case None
    then show ?thesis using assms(1) o op(1,2) by (simp add: rtc_event_in_log_def c_def log_kept_def)
  next
    case (Some fp)
    have fp: "fp = \<lparr>fpath = path, fpos = 0, ferr = False\<rparr>" "files w1 path = Some c" "unsynced w1 path \<Longrightarrow> unsynced w path \<or> files w path = None"
      using op(3)[OF Some] by (auto simp: c_def)
    note e = event_in_log_opened[OF fp(2,1) assms(1) o[unfolded Some]]
    have lb: "files v path = Some d \<Longrightarrow> log_bytes path v = d" for v d by (simp add: log_bytes_def)
    have nf: "files w path = None \<Longrightarrow> \<not> log_has J event c" unfolding log_has_def c_def log_bytes_def by simp
    show ?thesis using touches_trans[OF op(1) e(1)] e(2,3) lb fp(3) nf by blast
  qed
  then show "touches {path} w w'" "log_kept J event line c (log_bytes path w')"
    "ok \<Longrightarrow> (unsynced w' path \<longrightarrow> unsynced w path) \<and> log_bytes path w' = log_done J event line c \<and>
       (\<forall>l \<in> set (complete_lines c). line_accepted J event l)" by blast+
qed

section \<open>Once, and before the record is cleared\<close>

text \<open>What the documentation of cJSON says of the text that the recorder prints.\<close>

definition cjson_reads_event :: "'j cjson_api \<Rightarrow> bool" where
  "cjson_reads_event J \<longleftrightarrow>
     (\<forall>i b a. list_all json_clean i \<and> list_all json_clean b \<and> list_all json_clean a \<longrightarrow>
       (\<exists>root. cJSON_ParseWithOpts J (rtc_event_text i b a) = Some root \<and> cJSON_IsObject J root \<and>
          json_string_equals J (Some root) (Some ''event'') (Some ''rtc_correction'') \<and>
          json_string_equals J (Some root) (Some ''correctionId'') (Some i) \<and> json_string_equals J (Some root) (Some ''before'') (Some b) \<and>
          json_string_equals J (Some root) (Some ''after'') (Some a) \<and> json_string_equals J (Some root) (Some ''source'') (Some ''pc'')))"

text \<open>An event as \<open>rtc_correction.c\<close> makes it.\<close>

definition clean_event :: "rtc_correction_event_t \<Rightarrow> string \<Rightarrow> string \<Rightarrow> string \<Rightarrow> bool" where
  "clean_event ev i b a \<longleftrightarrow> ev = \<lparr>correction_id = Some i, event_before = Some b, event_after = Some a, event_source = Some ''pc''\<rparr> \<and>
     list_all json_clean i \<and> list_all json_clean b \<and> list_all json_clean a"

abbreviation event_bytes :: "string \<Rightarrow> string \<Rightarrow> string \<Rightarrow> byte list" where
  "event_bytes i b a \<equiv> bytes_of_string (rtc_event_text i b a)"

lemma own_line_matches:
  assumes "cjson_reads_event J" "clean_event ev i b a" shows "line_matches J ev (event_bytes i b a)"
proof -
  obtain root where "cJSON_ParseWithOpts J (rtc_event_text i b a) = Some root" "cJSON_IsObject J root"
    "json_string_equals J (Some root) (Some ''event'') (Some ''rtc_correction'')"
    "json_string_equals J (Some root) (Some ''correctionId'') (Some i)" "json_string_equals J (Some root) (Some ''before'') (Some b)"
    "json_string_equals J (Some root) (Some ''after'') (Some a)" "json_string_equals J (Some root) (Some ''source'') (Some ''pc'')"
    using assms unfolding cjson_reads_event_def clean_event_def by blast
  then show ?thesis using assms(2) by (simp add: line_matches_def classify_complete_event_line_def clean_event_def)
qed

lemma clean_byte: "json_clean c \<Longrightarrow> (of_char c :: byte) \<noteq> newline"
proof
  assume "json_clean c" "(of_char c :: byte) = newline"
  then have "(of_char c :: nat) = 10" "32 \<le> (of_char c :: nat)" using unat_of_char[of c] by (simp_all add: newline_def json_clean_def)
  then show False by simp
qed

lemma event_text_line:
  assumes "clean_event ev i b a" shows "is_line (event_bytes i b a)"
proof -
  define x where "x = ''{\"event\":\"rtc_correction\",\"correctionId\":\"'' @ i @ ''\",\"before\":\"'' @ b @
     ''\",\"after\":\"'' @ a @ ''\",\"source\":\"pc\"}''"
  have e: "event_bytes i b a = bytes_of_string x @ [newline]" by (simp add: rtc_event_text_def x_def bytes_of_string_def newline_def)
  have "newline \<notin> of_char ` set i" "newline \<notin> of_char ` set b" "newline \<notin> of_char ` set a"
    using assms clean_byte by (auto simp: clean_event_def list_all_iff dest!: sym[of newline])
  then have "newline \<notin> set (bytes_of_string x)" by (simp add: x_def bytes_of_string_def newline_def)
  then show ?thesis unfolding is_line_def e by blast
qed

lemma kept_lines:
  assumes "log_kept J ev line c d" "is_line (bytes_of_string line)"
  shows "complete_lines d = complete_lines c \<or> \<not> log_has J ev c \<and> complete_lines d = complete_lines c @ [bytes_of_string line]"
proof -
  have p: "complete_lines (complete_part c) = complete_lines c" using complete_lines_part[of c "[]"] by simp
  obtain x where x: "bytes_of_string line = x @ [newline]" "newline \<notin> set x" using assms(2) unfolding is_line_def by blast
  have "complete_lines (take k (bytes_of_string line)) = [] \<or> complete_lines (take k (bytes_of_string line)) = [bytes_of_string line]" for k
  proof (cases "k \<le> length x")
    case True
    then have "take k (bytes_of_string line) = take k x" using x(1) by simp
    then have "newline \<notin> set (take k (bytes_of_string line))" using x(2) in_set_takeD[of newline k x] by auto
    then show ?thesis by (simp add: complete_lines_tail)
  next
    case False
    then have "take k (bytes_of_string line) = bytes_of_string line @ []" using x(1) by simp
    then show ?thesis using complete_lines_line[OF assms(2), of "[]"] by simp
  qed
  then show ?thesis using assms(1) p complete_lines_part[of c] unfolding log_kept_def by (metis append_Nil2)
qed

text \<open>One attempt.\<close>

lemma recover_event_result:
  assumes "rtc_correction_recover_event J (Some path) (Some ev) (Some clear) s w = (err, s', w')" "honest w" "clean_event ev i b a"
  shows "log_lines path w' = log_lines path w \<or> \<not> log_has J ev (log_bytes path w) \<and> log_lines path w' = log_lines path w @ [event_bytes i b a]"
    "err \<noteq> ESP_OK \<and> s' = s \<or> clear s = (err, s') \<and> (unsynced w' path \<longrightarrow> unsynced w path) \<and>
       (log_has J ev (log_bytes path w) \<or> event_bytes i b a \<in> set (log_lines path w')) \<and> (\<forall>l \<in> set (log_lines path w). line_accepted J ev l)"
    "touches {path} w w'"
proof -
  have ev: "ev = \<lparr>correction_id = Some i, event_before = Some b, event_after = Some a, event_source = Some ''pc''\<rparr>"
    using assms(3) by (simp add: clean_event_def)
  obtain ok w1 where l: "rtc_event_in_log J path ev (rtc_event_text i b a) w = (ok, w1)" by fastforce
  note e = event_in_log[OF l assms(2)]
  have r: "w' = w \<and> err \<noteq> ESP_OK \<and> s' = s \<or> w' = w1 \<and> \<not> ok \<and> err \<noteq> ESP_OK \<and> s' = s \<or> w' = w1 \<and> ok \<and> clear s = (err, s')"
    using assms(1) l by (auto simp: rtc_correction_recover_event_def ev split: if_splits prod.splits)
  note k = kept_lines[OF e(2) event_text_line[OF assms(3)]]
  show "log_lines path w' = log_lines path w \<or> \<not> log_has J ev (log_bytes path w) \<and> log_lines path w' = log_lines path w @ [event_bytes i b a]"
    using r k unfolding log_lines_def by blast
  show "touches {path} w w'" using r e(1) by blast
  have "event_bytes i b a \<in> set (log_lines path w1)" if ok "\<not> log_has J ev (log_bytes path w)"
  proof -
    have "log_bytes path w1 = complete_part (log_bytes path w) @ event_bytes i b a" using e(3) that by (simp add: log_done_def)
    then show ?thesis unfolding log_lines_def
      using complete_lines_part[of "log_bytes path w" "event_bytes i b a"] complete_lines_line[OF event_text_line[OF assms(3)], of "[]"] by simp
  qed
  then show "err \<noteq> ESP_OK \<and> s' = s \<or> clear s = (err, s') \<and> (unsynced w' path \<longrightarrow> unsynced w path) \<and>
       (log_has J ev (log_bytes path w) \<or> event_bytes i b a \<in> set (log_lines path w')) \<and> (\<forall>l \<in> set (log_lines path w). line_accepted J ev l)"
    using r e(3) unfolding log_lines_def by blast
qed

lemma cleared_after_logged:
  assumes "rtc_correction_recover_event J (Some path) (Some ev) (Some clear) s w = (err, s', w')" "honest w" "clean_event ev i b a"
    "cjson_reads_event J"
  shows "err \<noteq> ESP_OK \<and> s' = s \<or>
    clear s = (err, s') \<and> (\<exists>l \<in> set (log_lines path w'). line_matches J ev l) \<and> (unsynced w' path \<longrightarrow> unsynced w path)"
proof -
  note r = recover_event_result[OF assms(1-3)]
  have "\<exists>l \<in> set (log_lines path w'). line_matches J ev l"
    if "log_has J ev (log_bytes path w) \<or> event_bytes i b a \<in> set (log_lines path w')"
    using that own_line_matches[OF assms(4,3)] r(1) unfolding log_has_def log_lines_def by auto
  then show ?thesis using r(2) by blast
qed

text \<open>Whatever the event is, the record is untouched or cleared, and complete lines stay.\<close>

lemma recover_event_clears:
  "rtc_correction_recover_event J path ev (Some clear) s w = (err, s', w') \<Longrightarrow> s' = s \<or> clear s = (err, s')"
  by (auto simp: rtc_correction_recover_event_def split: option.splits if_splits prod.splits)

lemma recover_event_keeps_lines:
  assumes "rtc_correction_recover_event J (Some path) (Some ev) (Some clear) s w = (err, s', w')" "honest w"
  shows "prefix (log_lines path w) (log_lines path w')"
proof -
  have "w' = w \<or> (\<exists>line ok. rtc_event_in_log J path ev line w = (ok, w'))"
    using assms(1) by (auto simp: rtc_correction_recover_event_def split: option.splits if_splits prod.splits)
  then show ?thesis
  proof
    assume "\<exists>line ok. rtc_event_in_log J path ev line w = (ok, w')"
    then obtain line ok where l: "rtc_event_in_log J path ev line w = (ok, w')" by blast
    have "log_kept J ev line (log_bytes path w) (log_bytes path w')" by (rule event_in_log(2)[OF l assms(2)])
    moreover have "complete_lines (complete_part c) = complete_lines c" for c using complete_lines_part[of c "[]"] by simp
    ultimately show ?thesis unfolding log_lines_def log_kept_def by (auto simp: complete_lines_part)
  qed simp
qed

text \<open>
  C0: the pending record is cleared only when a complete line with the event is in the log and, if the log was on the
  card before the call, all of the log still is. Otherwise the call fails and leaves the record alone. This holds
  whatever the calls of the file system return and wherever the power goes.
\<close>

theorem rtc_event_before_clear:
  assumes "rtc_correction_recover_event J (Some path) (Some ev) (Some clear) s w = (err, s', w')" "honest w" "clean_event ev i b a"
    "cjson_reads_event J"
  shows "err \<noteq> ESP_OK \<and> s' = s \<or>
    clear s = (err, s') \<and> (\<exists>l \<in> set (log_lines path w'). line_matches J ev l) \<and> (unsynced w' path \<longrightarrow> unsynced w path)"
  by (rule cleared_after_logged[OF assms])

text \<open>
  C0: one complete line that cJSON refuses, or that has the identifier of the correction with other times, makes every
  attempt fail: the record stays pending and no line of the log is lost.
\<close>

theorem rtc_malformed_line_blocks:
  assumes "rtc_correction_recover_event J (Some path) (Some ev) (Some clear) s w = (err, s', w')" "honest w" "clean_event ev i b a"
    "\<exists>l \<in> set (log_lines path w). \<not> line_accepted J ev l"
  shows "err \<noteq> ESP_OK \<and> s' = s \<and> prefix (log_lines path w) (log_lines path w')"
  using recover_event_result[OF assms(1-3)] assms(4) by auto

text \<open>Attempts one after the other, each from the files the one before left, with any errors or a power loss in it.\<close>

inductive attempts ::
    "'j cjson_api \<Rightarrow> string \<Rightarrow> rtc_correction_event_t \<Rightarrow> ('c \<Rightarrow> esp_err_t \<times> 'c) \<Rightarrow> io_world \<Rightarrow> io_world \<Rightarrow> bool"
  for J path ev clear w where
  none: "attempts J path ev clear w w"
| again: "attempts J path ev clear w w1 \<Longrightarrow> files w2 = files w1 \<Longrightarrow> honest w2 \<Longrightarrow>
     rtc_correction_recover_event J (Some path) (Some ev) (Some clear) s w2 = (err, s', w3) \<Longrightarrow> attempts J path ev clear w w3"

text \<open>
  C0: after any number of attempts, interrupted or not, the log has the complete lines it had, in order, and at most
  one new line, which is the event and is written only when no line had it before.
\<close>

theorem rtc_event_once:
  assumes "attempts J path ev clear w w'" "clean_event ev i b a" "cjson_reads_event J"
  shows "log_lines path w' = log_lines path w \<or>
    (\<forall>l \<in> set (log_lines path w). \<not> line_matches J ev l) \<and> log_lines path w' = log_lines path w @ [event_bytes i b a]"
  using assms(1)
proof induction
  case (again w1 w2 s err s' w3)
  note r = recover_event_result(1)[OF again(4,3) assms(2)]
  have "log_lines path w2 = log_lines path w1" "log_bytes path w2 = log_bytes path w1" using again(2) by (simp_all add: log_lines_def log_bytes_def)
  then show ?case using r again.IH own_line_matches[OF assms(3,2)] unfolding log_has_def log_lines_def by auto
qed simp

section \<open>A run\<close>

text \<open>A reader that splits a text at its quotes, enough for the texts above.\<close>

fun at_quotes :: "string \<Rightarrow> string \<Rightarrow> string list" where
  "at_quotes cur [] = [cur]"
| "at_quotes cur (c # cs) = (if c = CHR 0x22 then cur # at_quotes [] cs else at_quotes (cur @ [c]) cs)"

fun string_item :: "string list \<Rightarrow> string \<Rightarrow> string list option" where
  "string_item (open # key # colon # v # rest) k = (if key = k then Some [v] else string_item rest k)"
| "string_item _ k = None"

definition quote_cjson :: "string list cjson_api" where
  "quote_cjson = \<lparr>cJSON_ParseWithOpts = (\<lambda>s. Some (at_quotes [] s)), cJSON_IsObject = (\<lambda>t. length t = 21),
     cJSON_GetObjectItemCaseSensitive = string_item, cJSON_IsString = (\<lambda>_. True),
     valuestring = (\<lambda>t. if t = [] then None else Some (hd t))\<rparr>"

lemma at_quotes_clean: "list_all json_clean x \<Longrightarrow> at_quotes cur (x @ CHR 0x22 # s) = (cur @ x) # at_quotes [] s"
  by (induction x arbitrary: cur) (auto simp: json_clean_def)

lemma at_quotes_event:
  assumes "list_all json_clean i" "list_all json_clean b" "list_all json_clean a"
  shows "at_quotes [] (rtc_event_text i b a) = [''{'', ''event'', '':'', ''rtc_correction'', '','', ''correctionId'', '':'', i, '','',
    ''before'', '':'', b, '','', ''after'', '':'', a, '','', ''source'', '':'', ''pc'', [CHR ''}'', CHR 0x0A]]"
  using at_quotes_clean[OF assms(1), of "[]"] at_quotes_clean[OF assms(2), of "[]"] at_quotes_clean[OF assms(3), of "[]"]
  by (simp add: rtc_event_text_def)

lemma quote_cjson_reads: "cjson_reads_event quote_cjson"
  unfolding cjson_reads_event_def by (simp add: quote_cjson_def at_quotes_event json_string_equals_def)

definition sample_event :: rtc_correction_event_t where
  "sample_event = \<lparr>correction_id = Some ''c1'', event_before = Some ''t0'', event_after = Some ''t1'', event_source = Some ''pc''\<rparr>"

lemma sample_clean: "clean_event sample_event ''c1'' ''t0'' ''t1''"
  by (simp add: clean_event_def sample_event_def json_clean_def)

text \<open>The first event on an empty card.\<close>

lemma sample_run:
  "\<exists>w'. rtc_correction_recover_event quote_cjson (Some ''e'') (Some sample_event) (Some (\<lambda>n. (ESP_OK, Suc n))) 0 empty_card = (ESP_OK, 1, w') \<and>
     log_bytes ''e'' w' = event_bytes ''c1'' ''t0'' ''t1'' \<and> \<not> unsynced w' ''e''"
proof -
  let ?h = "\<lparr>fpath = ''e'', fpos = 0, ferr = False\<rparr>" and ?w = "set_file ''e'' (Some []) True (empty_card\<lparr>errno_of := ENOENT\<rparr>)"
  have o: "open_event_log ''e'' empty_card = (Some ?h, ?w)"
    by (simp add: open_event_log_def fopen_def empty_card_def io_try_def io_next_def)
  have q: "quiet ?w" by simp
  have s: "rtc_scan_events J sample_event ?h 0 False ?w = (Some False, ?h, ?w)" for J :: "string list cjson_api"
    by (subst rtc_scan_events.simps) (simp add: fgets_def q Let_def)
  define line where "line = rtc_event_text ''c1'' ''t0'' ''t1''"
  have e: "length line < RTC_EVENT_LINE_MAX" by (simp add: line_def rtc_event_text_def RTC_EVENT_LINE_MAX_def)
  define w1 where "w1 = set_file ''e'' (Some (bytes_of_string line)) True ?w"
  define w2 where "w2 = w1\<lparr>unsynced := (unsynced w1)(''e'' := False)\<rparr>"
  have q1: "quiet w1" by (simp add: w1_def)
  have p: "put_bytes ?h (bytes_of_string line) ?w = w1" by (simp add: put_bytes_def w1_def)
  have ap: "rtc_append_event ?h line ?w = (True, ?h\<lparr>fpos := length line\<rparr>, w2)"
    using e q q1 by (simp add: rtc_append_event_def fseek_end_def snprintf_fits_def fflush_def fsync_def p w2_def)
  have q2: "quiet w2" using q1 by (simp add: w2_def)
  have l: "rtc_event_in_log quote_cjson ''e'' sample_event line empty_card = (True, w2)"
    using q2 by (simp add: rtc_event_in_log_def o s ap fclose_def)
  have "rtc_correction_recover_event quote_cjson (Some ''e'') (Some sample_event) (Some (\<lambda>n. (ESP_OK, Suc n))) 0 empty_card = (ESP_OK, 1, w2)"
    using l by (simp add: rtc_correction_recover_event_def line_def sample_event_def)
  then show ?thesis by (intro exI[of _ w2]) (simp add: log_bytes_def w2_def w1_def line_def)
qed

theorem rtc_event_before_clear_witness:
  "\<exists>w'. rtc_correction_recover_event quote_cjson (Some ''e'') (Some sample_event) (Some (\<lambda>n. (ESP_OK, Suc n))) 0 empty_card = (ESP_OK, 1, w') \<and>
     (\<exists>l \<in> set (log_lines ''e'' w'). line_matches quote_cjson sample_event l) \<and> (unsynced w' ''e'' \<longrightarrow> unsynced empty_card ''e'')"
proof -
  obtain w' where w: "rtc_correction_recover_event quote_cjson (Some ''e'') (Some sample_event) (Some (\<lambda>n. (ESP_OK, Suc n))) 0 empty_card = (ESP_OK, 1, w')"
    using sample_run by blast
  show ?thesis
    using rtc_event_before_clear[OF w quiet_honest[OF quiet_empty_card] sample_clean quote_cjson_reads] w by (intro exI[of _ w']) simp
qed

text \<open>A state event that a power loss tore, with the next event appended behind it.\<close>

definition glued_line :: string where
  "glued_line = ''{\"ev'' @ rtc_event_text ''c0'' ''t0'' ''t1''"

definition glued_card :: io_world where
  "glued_card = empty_card\<lparr>files := [''e'' \<mapsto> bytes_of_string glued_line]\<rparr>"

lemma glued_card_line: "log_lines ''e'' glued_card = [bytes_of_string glued_line]"
proof -
  have "clean_event \<lparr>correction_id = Some ''c0'', event_before = Some ''t0'', event_after = Some ''t1'', event_source = Some ''pc''\<rparr> ''c0'' ''t0'' ''t1''"
    by (simp add: clean_event_def json_clean_def)
  from event_text_line[OF this] obtain x where x: "event_bytes ''c0'' ''t0'' ''t1'' = x @ [newline]" "newline \<notin> set x" by (auto simp: is_line_def)
  have g: "bytes_of_string glued_line = (bytes_of_string ''{\"ev'' @ x) @ [newline]" using x(1) by (simp add: glued_line_def bytes_of_string_def)
  have "newline \<notin> set (bytes_of_string ''{\"ev'' @ x)" using x(2) by (simp add: bytes_of_string_def newline_def)
  then have "is_line (bytes_of_string glued_line)" unfolding is_line_def g by blast
  from complete_lines_line[OF this, of "[]"] show ?thesis by (simp add: log_lines_def log_bytes_def glued_card_def)
qed

theorem rtc_malformed_line_blocks_witness:
  "\<exists>err s' w'. rtc_correction_recover_event quote_cjson (Some ''e'') (Some sample_event) (Some (\<lambda>n. (ESP_OK, Suc n))) 0 glued_card = (err, s', w') \<and>
     err \<noteq> ESP_OK \<and> s' = 0"
proof -
  obtain err s' w' where r: "rtc_correction_recover_event quote_cjson (Some ''e'') (Some sample_event) (Some (\<lambda>n. (ESP_OK, Suc n))) 0 glued_card = (err, s', w')"
    by (metis prod_cases3)
  have h: "honest glued_card" by (simp add: glued_card_def honest_def empty_card_def)
  have "length (at_quotes [] glued_line) = 22" by (simp add: glued_line_def rtc_event_text_def)
  then have "\<not> line_accepted quote_cjson sample_event (bytes_of_string glued_line)"
    by (simp add: line_accepted_def classify_complete_event_line_def quote_cjson_def)
  then have "\<exists>l \<in> set (log_lines ''e'' glued_card). \<not> line_accepted quote_cjson sample_event l" by (simp add: glued_card_line)
  from rtc_malformed_line_blocks[OF r h sample_clean this] show ?thesis using r by auto
qed

theorem rtc_event_once_witness:
  "\<exists>w'. attempts quote_cjson ''e'' sample_event (\<lambda>n. (ESP_OK, Suc n)) empty_card w' \<and> log_lines ''e'' w' = [event_bytes ''c1'' ''t0'' ''t1'']"
proof -
  obtain w' where w: "rtc_correction_recover_event quote_cjson (Some ''e'') (Some sample_event) (Some (\<lambda>n. (ESP_OK, Suc n))) 0 empty_card = (ESP_OK, 1, w')"
    "log_bytes ''e'' w' = event_bytes ''c1'' ''t0'' ''t1''" using sample_run by blast
  have a: "attempts quote_cjson ''e'' sample_event (\<lambda>n. (ESP_OK, Suc n)) empty_card w'"
    by (rule attempts.again[OF attempts.none refl quiet_honest[OF quiet_empty_card] w(1)])
  have "log_lines ''e'' w' \<noteq> []" unfolding log_lines_def w(2) using complete_lines_line[OF event_text_line[OF sample_clean], of "[]"] by simp
  moreover have "log_lines ''e'' empty_card = []" by (simp add: log_lines_def log_bytes_def empty_card_def)
  ultimately show ?thesis using rtc_event_once[OF a sample_clean quote_cjson_reads] a by (metis append_Nil)
qed

end
