(* ===== verification/Sd_Mount.thy ===== *)
theory Sd_Mount
  imports Wav_Rotation Esp_Nvs
begin

text \<open>
  Ownership of the microSD card on the device side, \<open>firmware/components/recorder/sd_mount.c\<close> (the
  \<open>ESP_PLATFORM\<close> build): bringing up the bus, the card and the storage object of esp\_tinyusb, the directories of
  the recorder, and the hand-over of the storage object to USB.

  The SPI and SD drivers and esp\_tinyusb are not part of the sources: they are the record \<open>msc_api\<close> of functions on an
  unspecified state. A storage call of esp\_tinyusb may invoke the registered event callback before it returns; such a
  call returns the invocations in order, each with the callback that was registered, so that nothing has to be
  assumed about registration.
\<close>

section \<open>The platform\<close>

datatype tinyusb_msc_mount_point_t = TINYUSB_MSC_STORAGE_MOUNT_USB | TINYUSB_MSC_STORAGE_MOUNT_APP

datatype tinyusb_msc_event_id_t = TINYUSB_MSC_EVENT_MOUNT_START | TINYUSB_MSC_EVENT_MOUNT_COMPLETE
  | TINYUSB_MSC_EVENT_MOUNT_FAILED | TINYUSB_MSC_EVENT_FORMAT_REQUIRED | TINYUSB_MSC_EVENT_FORMAT_FAILED

record tinyusb_msc_event_t =
  event_id :: tinyusb_msc_event_id_t
  event_mount_point :: tinyusb_msc_mount_point_t

text \<open>The two callbacks the sources register: the one of this file and the one of the ownership module.\<close>

datatype msc_callback = TerminalCallback | OwnershipCallback

type_synonym msc_invocation = "msc_callback \<times> tinyusb_msc_event_t ptr"

type_synonym 'u msc_call = "'u \<Rightarrow> msc_invocation list \<times> esp_err_t \<times> 'u"

record 'u msc_api =
  spi_bus_initialize :: "'u \<Rightarrow> esp_err_t \<times> 'u"
  spi_bus_free :: "'u \<Rightarrow> 'u"
  sdspi_host_init :: "'u \<Rightarrow> esp_err_t \<times> 'u"
  sdspi_host_deinit :: "'u \<Rightarrow> 'u"
  sdspi_host_init_device :: "'u \<Rightarrow> esp_err_t \<times> 'u"
  sdspi_host_remove_device :: "'u \<Rightarrow> 'u"
  sdmmc_card_init :: "'u \<Rightarrow> esp_err_t \<times> 'u"
  tinyusb_msc_install_driver :: "msc_callback \<Rightarrow> 'u \<Rightarrow> esp_err_t \<times> 'u"
  tinyusb_msc_uninstall_driver :: "'u \<Rightarrow> esp_err_t \<times> 'u"
  tinyusb_msc_set_storage_callback :: "msc_callback \<Rightarrow> 'u \<Rightarrow> esp_err_t \<times> 'u"
  tinyusb_msc_new_storage_sdmmc :: "tinyusb_msc_mount_point_t \<Rightarrow> 'u msc_call"
  tinyusb_msc_delete_storage :: "'u msc_call"
  tinyusb_msc_set_storage_mount_point :: "tinyusb_msc_mount_point_t \<Rightarrow> 'u msc_call"

section \<open>State\<close>

text \<open>
  The static variables of \<open>sd_mount.c\<close>; \<open>s_storage\<close> says whether the storage handle is set. \<open>usb_env\<close> is the state of
  the drivers and \<open>card\<close> the file system of the card. Every critical section of the source is one step.
\<close>

record 'u sd_mount_t =
  s_bus_init :: bool
  s_sdspi_init :: bool
  s_device_init :: bool
  s_msc_driver_init :: bool
  s_storage :: bool
  s_mounted :: bool
  s_usb_release_requested :: bool
  s_device_fs_released :: bool
  usb_env :: 'u
  card :: io_world

type_synonym ('u, 'z) msc_handler = "tinyusb_msc_event_t ptr \<Rightarrow> ('u, 'z) sd_mount_t_scheme \<Rightarrow> ('u, 'z) sd_mount_t_scheme"

definition sd_mount_terminal_storage_event :: "('u, 'z) msc_handler" where
  "sd_mount_terminal_storage_event event st = st"

text \<open>Calls of the platform: a driver call without callbacks, and a storage call with the callbacks it invoked.\<close>

definition on_env :: "('u \<Rightarrow> esp_err_t \<times> 'u) \<Rightarrow> ('u, 'z) sd_mount_t_scheme \<Rightarrow> esp_err_t \<times> ('u, 'z) sd_mount_t_scheme" where
  "on_env f st = (case f (usb_env st) of (err, u) \<Rightarrow> (err, st\<lparr>usb_env := u\<rparr>))"

definition deliver :: "('u, 'z) msc_handler \<Rightarrow> msc_invocation list \<Rightarrow> ('u, 'z) sd_mount_t_scheme \<Rightarrow> ('u, 'z) sd_mount_t_scheme" where
  "deliver usb_cb evs st =
     fold (\<lambda>(cb, ev) st. case cb of
         TerminalCallback \<Rightarrow> sd_mount_terminal_storage_event ev st
       | OwnershipCallback \<Rightarrow> usb_cb ev st) evs st"

definition on_storage ::
    "('u, 'z) msc_handler \<Rightarrow> 'u msc_call \<Rightarrow> ('u, 'z) sd_mount_t_scheme \<Rightarrow> esp_err_t \<times> ('u, 'z) sd_mount_t_scheme" where
  "on_storage usb_cb f st =
     (case f (usb_env st) of (evs, err, u) \<Rightarrow> (err, deliver usb_cb evs (st\<lparr>usb_env := u\<rparr>)))"

section \<open>Directories\<close>

definition RECORDER_M5DAYLOG_DIR :: string where [config_simps]: "RECORDER_M5DAYLOG_DIR = ''/sdcard/M5DAYLOG''"
definition RECORDER_QUARANTINE_DIR :: string where [config_simps]:
  "RECORDER_QUARANTINE_DIR = ''/sdcard/M5DAYLOG/quarantine''"

definition mkdir_existing :: "string \<Rightarrow> io_world \<Rightarrow> esp_err_t \<times> io_world" where
  "mkdir_existing dir w =
     (case c_mkdir dir w of (ok, w) \<Rightarrow>
      if \<not> ok then (if errno_of w \<noteq> EEXIST then (ESP_FAIL, w) else (ESP_OK, w)) else (ESP_OK, w))"

definition ensure_recording_dirs :: "io_world \<Rightarrow> esp_err_t \<times> io_world" where
  "ensure_recording_dirs w =
     (case mkdir_existing RECORDER_M5DAYLOG_DIR w of (err, w) \<Rightarrow>
      if err \<noteq> ESP_OK then (ESP_FAIL, w)
      else case mkdir_existing RECORDER_RECORDINGS_DIR w of (err, w) \<Rightarrow>
      if err \<noteq> ESP_OK then (ESP_FAIL, w)
      else case mkdir_existing RECORDER_QUARANTINE_DIR w of (err, w) \<Rightarrow>
      if err \<noteq> ESP_OK then (ESP_FAIL, w)
      else (ESP_OK, w))"

definition sd_mount_is_mounted :: "('u, 'z) sd_mount_t_scheme \<Rightarrow> bool" where
  "sd_mount_is_mounted st = s_mounted st"

definition sd_mount_device_fs_released :: "('u, 'z) sd_mount_t_scheme \<Rightarrow> bool" where
  "sd_mount_device_fs_released st = s_device_fs_released st"

text \<open>The path never fills the buffer of \<open>snprintf\<close>, which the bound spells out.\<close>

definition sd_mount_ensure_date_dir ::
    "string ptr \<Rightarrow> ('u, 'z) sd_mount_t_scheme \<Rightarrow> esp_err_t \<times> ('u, 'z) sd_mount_t_scheme" where
  "sd_mount_ensure_date_dir date_yyyy_mm_dd st =
     (if \<not> sd_mount_is_mounted st \<or> sd_mount_device_fs_released st then (ESP_ERR_INVALID_STATE, st)
      else case date_yyyy_mm_dd of
        None \<Rightarrow> (ESP_ERR_INVALID_ARG, st)
      | Some date \<Rightarrow>
          if length date \<noteq> 10 then (ESP_ERR_INVALID_ARG, st)
          else if \<not> list_all (\<lambda>i. if i = 4 \<or> i = 7 then date ! i = CHR ''-'' else is_digit (date ! i)) [0..<10]
          then (ESP_ERR_INVALID_ARG, st)
          else let dir = RECORDER_RECORDINGS_DIR @ ''/'' @ date in
          if length dir \<ge> RECORDER_MAX_PATH_LEN then (ESP_ERR_INVALID_ARG, st)
          else case mkdir_existing dir (card st) of (err, w) \<Rightarrow> (err, st\<lparr>card := w\<rparr>))"

definition sd_mount_ensure_quarantine_dir :: "('u, 'z) sd_mount_t_scheme \<Rightarrow> esp_err_t \<times> ('u, 'z) sd_mount_t_scheme" where
  "sd_mount_ensure_quarantine_dir st =
     (if \<not> sd_mount_is_mounted st \<or> sd_mount_device_fs_released st then (ESP_ERR_INVALID_STATE, st)
      else case mkdir_existing RECORDER_QUARANTINE_DIR (card st) of (err, w) \<Rightarrow> (err, st\<lparr>card := w\<rparr>))"

section \<open>Bringing the card up and down\<close>

definition sd_mount_raw_cleanup :: "('u, 'a) msc_api_scheme \<Rightarrow> ('u, 'z) sd_mount_t_scheme \<Rightarrow> ('u, 'z) sd_mount_t_scheme" where
  "sd_mount_raw_cleanup api st =
     (let st = (if s_device_init st
                then st\<lparr>usb_env := sdspi_host_remove_device api (usb_env st), s_device_init := False\<rparr> else st);
          st = (if s_sdspi_init st
                then st\<lparr>usb_env := sdspi_host_deinit api (usb_env st), s_sdspi_init := False\<rparr> else st)
      in if s_bus_init st then st\<lparr>usb_env := spi_bus_free api (usb_env st), s_bus_init := False\<rparr> else st)"

definition sd_mount_install_msc_driver ::
    "('u, 'a) msc_api_scheme \<Rightarrow> ('u, 'z) sd_mount_t_scheme \<Rightarrow> esp_err_t \<times> ('u, 'z) sd_mount_t_scheme" where
  "sd_mount_install_msc_driver api st =
     (if s_msc_driver_init st then (ESP_OK, st)
      else case on_env (tinyusb_msc_install_driver api TerminalCallback) st of (err, st) \<Rightarrow>
      if err = ESP_OK then (err, st\<lparr>s_msc_driver_init := True\<rparr>) else (err, st))"

definition sd_mount_create_storage ::
    "('u, 'a) msc_api_scheme \<Rightarrow> ('u, 'z) msc_handler \<Rightarrow> tinyusb_msc_mount_point_t \<Rightarrow> ('u, 'z) sd_mount_t_scheme \<Rightarrow>
     esp_err_t \<times> ('u, 'z) sd_mount_t_scheme" where
  "sd_mount_create_storage api usb_cb mount_point st =
     (if \<not> s_msc_driver_init st \<or> s_storage st then (ESP_ERR_INVALID_STATE, st)
      else case on_storage usb_cb (tinyusb_msc_new_storage_sdmmc api mount_point) st of (err, st) \<Rightarrow>
      if err \<noteq> ESP_OK then (err, st\<lparr>s_storage := False\<rparr>)
      else (ESP_OK, st\<lparr>s_storage := True\<rparr>))"

text \<open>The storage object goes first; a failure of the drivers leaves the card marked as mounted.\<close>

definition sd_mount_unmount ::
    "('u, 'a) msc_api_scheme \<Rightarrow> ('u, 'z) msc_handler \<Rightarrow> ('u, 'z) sd_mount_t_scheme \<Rightarrow> ('u, 'z) sd_mount_t_scheme" where
  "sd_mount_unmount api usb_cb st =
     (if s_usb_release_requested st then st\<lparr>s_device_fs_released := True\<rparr>
      else case (if s_storage st
                 then case on_env (tinyusb_msc_set_storage_callback api TerminalCallback) st of (_, st) \<Rightarrow>
                   case on_storage usb_cb (tinyusb_msc_delete_storage api) st of (err, st) \<Rightarrow>
                   if err \<noteq> ESP_OK then (False, st) else (True, st\<lparr>s_storage := False\<rparr>)
                 else (True, st)) of (ok, st) \<Rightarrow>
      if \<not> ok then st
      else case (if s_msc_driver_init st
                 then case on_env (tinyusb_msc_uninstall_driver api) st of (err, st) \<Rightarrow>
                   if err \<noteq> ESP_OK then (False, st) else (True, st\<lparr>s_msc_driver_init := False\<rparr>)
                 else (True, st)) of (ok, st) \<Rightarrow>
      if \<not> ok then st
      else sd_mount_raw_cleanup api (st\<lparr>s_mounted := False, s_device_fs_released := True\<rparr>))"

definition sd_mount_recordings ::
    "('u, 'a) msc_api_scheme \<Rightarrow> ('u, 'z) msc_handler \<Rightarrow> ('u, 'z) sd_mount_t_scheme \<Rightarrow> esp_err_t \<times> ('u, 'z) sd_mount_t_scheme" where
  "sd_mount_recordings api usb_cb st =
     (if sd_mount_is_mounted st
      then case ensure_recording_dirs (card st) of (err, w) \<Rightarrow> (err, st\<lparr>card := w\<rparr>)
      else if s_storage st then (ESP_ERR_INVALID_STATE, st)
      else case on_env (spi_bus_initialize api) st of (err, st) \<Rightarrow>
      if err \<noteq> ESP_OK then (err, st)
      else let st = st\<lparr>s_bus_init := True\<rparr> in
      case on_env (sdspi_host_init api) st of (err, st) \<Rightarrow>
      if err \<noteq> ESP_OK then (err, sd_mount_raw_cleanup api st)
      else let st = st\<lparr>s_sdspi_init := True\<rparr> in
      case on_env (sdspi_host_init_device api) st of (err, st) \<Rightarrow>
      if err \<noteq> ESP_OK then (err, sd_mount_raw_cleanup api st)
      else let st = st\<lparr>s_device_init := True\<rparr> in
      case on_env (sdmmc_card_init api) st of (err, st) \<Rightarrow>
      if err \<noteq> ESP_OK then (err, sd_mount_raw_cleanup api st)
      else case sd_mount_install_msc_driver api st of (err, st) \<Rightarrow>
      if err \<noteq> ESP_OK then (err, sd_mount_raw_cleanup api st)
      else case sd_mount_create_storage api usb_cb TINYUSB_MSC_STORAGE_MOUNT_APP st of (err, st) \<Rightarrow>
      if err \<noteq> ESP_OK
      then case on_env (tinyusb_msc_uninstall_driver api) st of (_, st) \<Rightarrow>
        (err, sd_mount_raw_cleanup api (st\<lparr>s_msc_driver_init := False\<rparr>))
      else let st = st\<lparr>s_mounted := True, s_usb_release_requested := False, s_device_fs_released := False\<rparr> in
      case ensure_recording_dirs (card st) of (err, w) \<Rightarrow>
      let st = st\<lparr>card := w\<rparr> in
      if err \<noteq> ESP_OK then (err, sd_mount_unmount api usb_cb st)
      else (ESP_OK, st))"

section \<open>Handing the card over\<close>

definition sd_mount_release_for_usb :: "('u, 'z) sd_mount_t_scheme \<Rightarrow> esp_err_t \<times> ('u, 'z) sd_mount_t_scheme" where
  "sd_mount_release_for_usb st =
     (if \<not> s_mounted st \<or> \<not> s_storage st \<or> s_usb_release_requested st then (ESP_ERR_INVALID_STATE, st)
      else (ESP_OK, st\<lparr>s_usb_release_requested := True, s_device_fs_released := False\<rparr>))"

definition sd_mount_note_usb_owned :: "('u, 'z) sd_mount_t_scheme \<Rightarrow> ('u, 'z) sd_mount_t_scheme" where
  "sd_mount_note_usb_owned st =
     (if s_usb_release_requested st \<and> s_device_fs_released st then st\<lparr>s_mounted := False\<rparr> else st)"

definition sd_mount_transfer_to_usb ::
    "('u, 'a) msc_api_scheme \<Rightarrow> ('u, 'z) msc_handler \<Rightarrow> ('u, 'z) sd_mount_t_scheme \<Rightarrow> esp_err_t \<times> ('u, 'z) sd_mount_t_scheme" where
  "sd_mount_transfer_to_usb api usb_cb st =
     (let transfer_ready = s_mounted st \<and> s_usb_release_requested st \<and> s_device_fs_released st in
      if \<not> transfer_ready \<or> \<not> s_storage st then (ESP_ERR_INVALID_STATE, st)
      else case on_storage usb_cb (tinyusb_msc_set_storage_mount_point api TINYUSB_MSC_STORAGE_MOUNT_USB) st of (err, st) \<Rightarrow>
      if err \<noteq> ESP_OK then (err, st)
      else let release_ready = \<not> s_mounted st \<and> s_usb_release_requested st \<and> s_device_fs_released st in
      if \<not> release_ready then (ESP_ERR_INVALID_STATE, st)
      else (ESP_OK, st))"

definition sd_mount_release_usb_storage ::
    "('u, 'a) msc_api_scheme \<Rightarrow> ('u, 'z) msc_handler \<Rightarrow> ('u, 'z) sd_mount_t_scheme \<Rightarrow> esp_err_t \<times> ('u, 'z) sd_mount_t_scheme" where
  "sd_mount_release_usb_storage api usb_cb st =
     (let release_ready = \<not> s_mounted st \<and> s_usb_release_requested st \<and> s_device_fs_released st in
      if \<not> release_ready \<or> \<not> s_storage st \<or> \<not> s_msc_driver_init st then (ESP_ERR_INVALID_STATE, st)
      else case on_storage usb_cb (tinyusb_msc_delete_storage api) st of (err, st) \<Rightarrow>
      if err \<noteq> ESP_OK then (err, st)
      else let st = st\<lparr>s_storage := False\<rparr> in
      case on_env (tinyusb_msc_uninstall_driver api) st of (err, st) \<Rightarrow>
      if err \<noteq> ESP_OK then (err, st)
      else (ESP_OK, st\<lparr>s_msc_driver_init := False\<rparr>))"

end
