(* ===== verification/Usb_Msc_Ownership.thy ===== *)
theory Usb_Msc_Ownership
  imports Sd_Mount Shutdown_Armed
begin

text \<open>
  Who owns the card: \<open>firmware/components/recorder/usb_msc_ownership.c\<close> (the \<open>ESP_PLATFORM\<close> build). The module moves
  the card from the recorder to the USB host after two enumerations, keeps it there across detach and reconnect, and
  takes it back from the host only after an accepted \<open>RELEASE_STORAGE\<close> whose response went out, by tearing USB down.

  Every exported function, both callbacks of esp\_tinyusb, the completion callback of TinyUSB and the five wrapped
  backend callbacks are one definition each, on a state that extends the one of \<open>Sd_Mount\<close>. A callback that a driver
  call invokes before it returns is part of that call; all others are steps of their own (\<open>Usb_Msc_Safety\<close>).
\<close>

section \<open>The platform\<close>

datatype tinyusb_event_id_t = TINYUSB_EVENT_ATTACHED | TINYUSB_EVENT_DETACHED | TINYUSB_EVENT_SUSPENDED | TINYUSB_EVENT_RESUMED

text \<open>What the USB task may invoke: the device event callback, and the completion of a SCSI command.\<close>

datatype usb_invocation = DeviceEvent "tinyusb_event_id_t ptr" | ScsiComplete u8 "byte list ptr"

record 'u tusb_api = "'u msc_api" +
  xEventGroupCreate :: "'u \<Rightarrow> bool \<times> 'u"
  vTaskDelay :: "nat \<Rightarrow> 'u \<Rightarrow> 'u"
  tud_connect :: "'u \<Rightarrow> bool \<times> 'u"
  tud_disconnect :: "'u \<Rightarrow> bool \<times> 'u"
  tinyusb_driver_install :: "'u \<Rightarrow> usb_invocation list \<times> esp_err_t \<times> 'u"
  tinyusb_driver_uninstall :: "'u \<Rightarrow> esp_err_t \<times> 'u"
  tud_msc_set_sense :: "u8 \<Rightarrow> u8 \<Rightarrow> u8 \<Rightarrow> u8 \<Rightarrow> 'u \<Rightarrow> 'u"
  real_tud_msc_test_unit_ready_cb :: "u8 \<Rightarrow> 'u \<Rightarrow> bool \<times> 'u"
  real_tud_msc_capacity_cb :: "u8 \<Rightarrow> u32 ptr \<Rightarrow> u16 ptr \<Rightarrow> 'u \<Rightarrow> u32 ptr \<times> u16 ptr \<times> 'u"
  real_tud_msc_read10_cb :: "u8 \<Rightarrow> u32 \<Rightarrow> u32 \<Rightarrow> byte list \<Rightarrow> u32 \<Rightarrow> 'u \<Rightarrow> int \<times> byte list \<times> 'u"
  real_tud_msc_write10_cb :: "u8 \<Rightarrow> u32 \<Rightarrow> u32 \<Rightarrow> byte list \<Rightarrow> u32 \<Rightarrow> 'u \<Rightarrow> int \<times> 'u"
  real_tud_msc_start_stop_cb :: "u8 \<Rightarrow> u8 \<Rightarrow> bool \<Rightarrow> bool \<Rightarrow> 'u \<Rightarrow> bool \<times> 'u"

section \<open>State\<close>

datatype usb_bit = USB_BIT_ATTACH | USB_BIT_HOST_OWNED | USB_BIT_RELEASE_REQUESTED | USB_BIT_RELEASE_QUIESCED
  | USB_BIT_FAILED | USB_BIT_HOST_REATTACHED

datatype usb_msc_ownership_event_t = USB_MSC_EVENT_NONE | USB_MSC_EVENT_ATTACH | USB_MSC_EVENT_HOST_OWNED
  | USB_MSC_EVENT_HOST_REATTACHED | USB_MSC_EVENT_RELEASE_REQUESTED | USB_MSC_EVENT_RELEASE_QUIESCED
  | USB_MSC_EVENT_FAILED

datatype usb_msc_release_storage_result_t = USB_MSC_RELEASE_STORAGE_ACCEPTED | USB_MSC_RELEASE_STORAGE_INVALID_ARGS
  | USB_MSC_RELEASE_STORAGE_WRONG_STATE | USB_MSC_RELEASE_STORAGE_CONFLICT

definition USB_MSC_RELEASE_ATTEMPT_MAX_BYTES :: nat where "USB_MSC_RELEASE_ATTEMPT_MAX_BYTES = 64"
definition USB_SCSI_CMD_TEST_UNIT_READY :: u8 where "USB_SCSI_CMD_TEST_UNIT_READY = 0x00"
definition USB_SCSI_CMD_START_STOP_UNIT :: u8 where "USB_SCSI_CMD_START_STOP_UNIT = 0x1b"
definition USB_SCSI_CMD_PREVENT_ALLOW :: u8 where "USB_SCSI_CMD_PREVENT_ALLOW = 0x1e"
definition USB_SCSI_CMD_SYNCHRONIZE_CACHE_10 :: u8 where "USB_SCSI_CMD_SYNCHRONIZE_CACHE_10 = 0x35"
definition USB_SCSI_CMD_SYNCHRONIZE_CACHE_16 :: u8 where "USB_SCSI_CMD_SYNCHRONIZE_CACHE_16 = 0x91"
definition USB_REENUM_DISCONNECT_MS :: nat where "USB_REENUM_DISCONNECT_MS = 1000"
definition USB_SCSI_SENSE_NOT_READY :: u8 where "USB_SCSI_SENSE_NOT_READY = 0x02"
definition USB_SCSI_ASC_MEDIUM_NOT_PRESENT :: u8 where "USB_SCSI_ASC_MEDIUM_NOT_PRESENT = 0x3a"
definition USB_SCSI_ASCQ_NONE :: u8 where "USB_SCSI_ASCQ_NONE = 0x00"

text \<open>
  The static variables. \<open>s_usb_events\<close> is the event group with its set of raised bits, \<open>None\<close> before it is created;
  \<open>fs_release_proof\<close> is the variable \<open>s_device_fs_released\<close> of this file (\<open>Sd_Mount\<close> has one of the same name);
  \<open>cutoff_ctx\<close> is the state behind the context pointer of the cutoff, and \<open>nvs_of\<close> the durable state.
\<close>

record ('u, 's, 'c) usb_msc_t = "'u sd_mount_t" +
  s_usb_events :: "usb_bit set option"
  s_initialized :: bool
  s_starting :: bool
  s_started :: bool
  s_storage_usb_owned :: bool
  s_host_owned :: bool
  s_release_pending :: bool
  s_release_waiting_response :: bool
  s_release_attempt_id :: string
  s_provisional_attached :: bool
  s_publish_triggered :: bool
  s_prepare_disconnected :: bool
  s_transfer_authorized :: bool
  s_host_session_detached :: bool
  s_physical_session_cutoff :: "('c \<Rightarrow> 'c) option"
  cutoff_ctx :: 'c
  s_wav_finalized :: bool
  s_manifest_committed :: bool
  fs_release_proof :: bool
  s_trace_session :: u32
  s_trace_start_stop_requests :: u32
  s_trace_start_stop_completions :: u32
  s_trace_prevent_allow_completions :: u32
  s_trace_sync_cache_completions :: u32
  s_trace_last_start_stop_power :: u32
  s_trace_last_start_stop_flags :: u32
  s_trace_last_control_opcode :: u32
  s_trace_last_control_byte4 :: u32
  s_trace_update_seq :: u32
  s_trace_flushed_seq :: u32
  nvs_of :: "'s nvs_world"

definition set_bits :: "usb_bit set \<Rightarrow> ('u, 's, 'c) usb_msc_t \<Rightarrow> ('u, 's, 'c) usb_msc_t" where
  "set_bits B st = (case s_usb_events st of None \<Rightarrow> st | Some b \<Rightarrow> st\<lparr>s_usb_events := Some (b \<union> B)\<rparr>)"

definition clear_bits :: "usb_bit set \<Rightarrow> ('u, 's, 'c) usb_msc_t \<Rightarrow> ('u, 's, 'c) usb_msc_t" where
  "clear_bits B st = (case s_usb_events st of None \<Rightarrow> st | Some b \<Rightarrow> st\<lparr>s_usb_events := Some (b - B)\<rparr>)"

definition usb_fail :: "('u, 's, 'c) usb_msc_t \<Rightarrow> ('u, 's, 'c) usb_msc_t" where
  "usb_fail st = (if s_usb_events st \<noteq> None then set_bits {USB_BIT_FAILED} st else st)"

section \<open>The diagnostic trace\<close>

definition usb_scsi_trace_u8 :: "u32 \<Rightarrow> u8" where
  "usb_scsi_trace_u8 v = (if v > 255 then 255 else ucast v)"

definition usb_scsi_trace_mark_dirty :: "('u, 's, 'c) usb_msc_t \<Rightarrow> ('u, 's, 'c) usb_msc_t" where
  "usb_scsi_trace_mark_dirty st = st\<lparr>s_trace_update_seq := s_trace_update_seq st + 1\<rparr>"

definition usb_scsi_trace_begin_session :: "('u, 's, 'c) usb_msc_t \<Rightarrow> ('u, 's, 'c) usb_msc_t" where
  "usb_scsi_trace_begin_session st =
     usb_scsi_trace_mark_dirty (st\<lparr>s_trace_session := s_trace_session st + 1, s_trace_start_stop_requests := 0,
       s_trace_start_stop_completions := 0, s_trace_prevent_allow_completions := 0, s_trace_sync_cache_completions := 0,
       s_trace_last_start_stop_power := 0, s_trace_last_start_stop_flags := 0, s_trace_last_control_opcode := 0,
       s_trace_last_control_byte4 := 0\<rparr>)"

definition usb_scsi_trace_note_start_stop_request ::
    "u8 \<Rightarrow> bool \<Rightarrow> bool \<Rightarrow> ('u, 's, 'c) usb_msc_t \<Rightarrow> ('u, 's, 'c) usb_msc_t" where
  "usb_scsi_trace_note_start_stop_request power_condition start load_eject st =
     (if \<not> s_host_owned st then st
      else let flags = (if load_eject then 2 else 0) OR (if start then 1 else 0) :: u32;
               power = ucast (power_condition AND 0x0f) :: u32 in
      usb_scsi_trace_mark_dirty (st\<lparr>s_trace_start_stop_requests := s_trace_start_stop_requests st + 1,
        s_trace_last_start_stop_power := power, s_trace_last_start_stop_flags := flags,
        s_trace_last_control_opcode := ucast USB_SCSI_CMD_START_STOP_UNIT,
        s_trace_last_control_byte4 := push_bit 4 power OR flags\<rparr>))"

definition usb_scsi_trace_note_command_complete ::
    "byte list ptr \<Rightarrow> ('u, 's, 'c) usb_msc_t \<Rightarrow> ('u, 's, 'c) usb_msc_t" where
  "usb_scsi_trace_note_command_complete scsi_cmd st =
     (case scsi_cmd of
        None \<Rightarrow> st
      | Some cmd \<Rightarrow>
          if \<not> s_host_owned st then st
          else let opcode = cmd ! 0;
            st' = (if opcode = USB_SCSI_CMD_START_STOP_UNIT
                   then Some (st\<lparr>s_trace_start_stop_completions := s_trace_start_stop_completions st + 1\<rparr>)
                   else if opcode = USB_SCSI_CMD_PREVENT_ALLOW
                   then Some (st\<lparr>s_trace_prevent_allow_completions := s_trace_prevent_allow_completions st + 1\<rparr>)
                   else if opcode = USB_SCSI_CMD_SYNCHRONIZE_CACHE_10 \<or> opcode = USB_SCSI_CMD_SYNCHRONIZE_CACHE_16
                   then Some (st\<lparr>s_trace_sync_cache_completions := s_trace_sync_cache_completions st + 1\<rparr>)
                   else None) in
          (case st' of
             None \<Rightarrow> st
           | Some st \<Rightarrow> usb_scsi_trace_mark_dirty (st\<lparr>s_trace_last_control_opcode := ucast opcode,
               s_trace_last_control_byte4 := ucast (cmd ! 4)\<rparr>)))"

definition trace_set_u8 :: "'s esp_api \<Rightarrow> string \<Rightarrow> u32 \<Rightarrow> esp_err_t \<times> 's \<Rightarrow> esp_err_t \<times> 's" where
  "trace_set_u8 api key v r =
     (if fst r = ESP_OK then nvs_set api ''m5daylog'' key (NvsU8 (usb_scsi_trace_u8 v)) (snd r) else r)"

definition trace_values :: "('u, 's, 'c) usb_msc_t \<Rightarrow> (string \<times> u32) list" where
  "trace_values st = [(''scsi_valid'', 1), (''scsi_session'', s_trace_session st),
     (''scsi_ss_req'', s_trace_start_stop_requests st), (''scsi_ss_done'', s_trace_start_stop_completions st),
     (''scsi_ss_power'', s_trace_last_start_stop_power st), (''scsi_ss_flags'', s_trace_last_start_stop_flags st),
     (''scsi_pa_done'', s_trace_prevent_allow_completions st), (''scsi_sync_done'', s_trace_sync_cache_completions st),
     (''scsi_last_op'', s_trace_last_control_opcode st), (''scsi_last_b4'', s_trace_last_control_byte4 st)]"

definition usb_msc_ownership_flush_scsi_trace ::
    "'s esp_api \<Rightarrow> ('u, 's, 'c) usb_msc_t \<Rightarrow> esp_err_t \<times> ('u, 's, 'c) usb_msc_t" where
  "usb_msc_ownership_flush_scsi_trace nvs st =
     (if \<not> s_initialized st then (ESP_ERR_INVALID_STATE, st)
      else let seq = s_trace_update_seq st in
      if seq = s_trace_flushed_seq st then (ESP_OK, st)
      else case recorder_nvs_lock nvs (nvs_of st) of (err, (n, s)) \<Rightarrow>
      if err \<noteq> ESP_OK then (err, st\<lparr>nvs_of := (n, s)\<rparr>)
      else case nvs_open_rw nvs ''m5daylog'' s of (err, s) \<Rightarrow>
      if err \<noteq> ESP_OK then (err, st\<lparr>nvs_of := recorder_nvs_unlock nvs (n, s)\<rparr>)
      else case fold (\<lambda>(k, v). trace_set_u8 nvs k v) (trace_values st) (err, s) of (err, s) \<Rightarrow>
      case (if err = ESP_OK then nvs_commit nvs ''m5daylog'' s else (err, s)) of (err, s) \<Rightarrow>
      let st = st\<lparr>nvs_of := recorder_nvs_unlock nvs (n, nvs_close nvs ''m5daylog'' s)\<rparr> in
      if err \<noteq> ESP_OK then (err, st)
      else (ESP_OK, if s_trace_update_seq st = seq then st\<lparr>s_trace_flushed_seq := seq\<rparr> else st))"

section \<open>Callbacks\<close>

definition usb_storage_event_cb ::
    "tinyusb_msc_event_t ptr \<Rightarrow> ('u, 's, 'c) usb_msc_t \<Rightarrow> ('u, 's, 'c) usb_msc_t" where
  "usb_storage_event_cb event st =
     (case event of
        None \<Rightarrow> st
      | Some ev \<Rightarrow>
          if s_usb_events st = None then st
          else if event_id ev = TINYUSB_MSC_EVENT_MOUNT_START
          then (if event_mount_point ev \<noteq> TINYUSB_MSC_STORAGE_MOUNT_APP \<or> \<not> s_publish_triggered st \<or>
                   \<not> s_transfer_authorized st \<or> s_storage_usb_owned st \<or> s_host_owned st \<or> s_release_pending st \<or>
                   \<not> sd_mount_is_mounted st \<or> \<not> s_wav_finalized st \<or> \<not> s_manifest_committed st \<or> \<not> fs_release_proof st
                then usb_fail st else st)
          else if event_id ev = TINYUSB_MSC_EVENT_MOUNT_COMPLETE
          then (if event_mount_point ev = TINYUSB_MSC_STORAGE_MOUNT_USB \<and> s_transfer_authorized st
                then (sd_mount_note_usb_owned st)\<lparr>s_storage_usb_owned := True\<rparr>
                else usb_fail st)
          else if event_id ev = TINYUSB_MSC_EVENT_MOUNT_FAILED \<or> event_id ev = TINYUSB_MSC_EVENT_FORMAT_REQUIRED \<or>
                  event_id ev = TINYUSB_MSC_EVENT_FORMAT_FAILED
          then usb_fail st
          else st)"

definition disconnect_and_fail :: "'u tusb_api \<Rightarrow> ('u, 's, 'c) usb_msc_t \<Rightarrow> ('u, 's, 'c) usb_msc_t" where
  "disconnect_and_fail api st = usb_fail (st\<lparr>usb_env := snd (tud_disconnect api (usb_env st))\<rparr>)"

definition device_attached :: "'u tusb_api \<Rightarrow> ('u, 's, 'c) usb_msc_t \<Rightarrow> ('u, 's, 'c) usb_msc_t" where
  "device_attached api st =
     (if \<not> s_storage_usb_owned st
      then (if \<not> s_initialized st \<or> (\<not> s_started st \<and> \<not> s_starting st) \<or> s_host_owned st \<or> s_release_pending st \<or>
               s_publish_triggered st \<or> s_provisional_attached st \<or> \<not> sd_mount_is_mounted st
            then usb_fail st
            else st\<lparr>s_provisional_attached := True\<rparr>)
      else if \<not> s_host_owned st
      then (if \<not> s_initialized st \<or> (\<not> s_started st \<and> \<not> s_starting st) \<or> \<not> s_publish_triggered st \<or>
               \<not> s_prepare_disconnected st \<or> s_release_pending st \<or> sd_mount_is_mounted st
            then disconnect_and_fail api st
            else set_bits {USB_BIT_HOST_OWNED}
              ((usb_scsi_trace_begin_session (st\<lparr>s_host_owned := True\<rparr>))
                 \<lparr>s_provisional_attached := False, s_prepare_disconnected := False\<rparr>))
      else if \<not> s_release_pending st \<and> \<not> sd_mount_is_mounted st then st
      else disconnect_and_fail api st)"

definition device_detached :: "('u, 's, 'c) usb_msc_t \<Rightarrow> ('u, 's, 'c) usb_msc_t" where
  "device_detached st =
     (if \<not> s_storage_usb_owned st \<and> \<not> s_host_owned st \<and> s_provisional_attached st \<and> \<not> s_publish_triggered st
      then st\<lparr>s_provisional_attached := False\<rparr>
      else if s_host_owned st
      then let st = st\<lparr>s_host_session_detached := True\<rparr> in
        (case s_physical_session_cutoff st of
           None \<Rightarrow> st
         | Some cutoff \<Rightarrow> st\<lparr>cutoff_ctx := cutoff (cutoff_ctx st)\<rparr>)
      else st)"

definition usb_device_event_cb ::
    "'u tusb_api \<Rightarrow> tinyusb_event_id_t ptr \<Rightarrow> ('u, 's, 'c) usb_msc_t \<Rightarrow> ('u, 's, 'c) usb_msc_t" where
  "usb_device_event_cb api event st =
     (case event of
        None \<Rightarrow> st
      | Some ev \<Rightarrow>
          if s_usb_events st = None then st
          else if ev = TINYUSB_EVENT_ATTACHED then device_attached api st
          else if ev = TINYUSB_EVENT_SUSPENDED then st
          else if ev = TINYUSB_EVENT_DETACHED then device_detached st
          else st)"

definition usb_note_initial_msc_command_complete :: "('u, 's, 'c) usb_msc_t \<Rightarrow> bool \<times> ('u, 's, 'c) usb_msc_t" where
  "usb_note_initial_msc_command_complete st =
     (if \<not> s_initialized st \<or> (\<not> s_started st \<and> \<not> s_starting st) \<or> \<not> s_provisional_attached st \<or>
         s_storage_usb_owned st \<or> s_host_owned st \<or> s_release_pending st \<or> s_publish_triggered st \<or>
         \<not> sd_mount_is_mounted st
      then (False, st)
      else (True, set_bits {USB_BIT_ATTACH} (st\<lparr>s_publish_triggered := True\<rparr>)))"

definition tud_msc_scsi_complete_cb :: "byte list ptr \<Rightarrow> ('u, 's, 'c) usb_msc_t \<Rightarrow> ('u, 's, 'c) usb_msc_t" where
  "tud_msc_scsi_complete_cb scsi_cmd st =
     (case scsi_cmd of
        None \<Rightarrow> st
      | Some cmd \<Rightarrow>
          if \<not> s_storage_usb_owned st \<and> s_provisional_attached st \<and> \<not> s_publish_triggered st
          then (if cmd ! 0 = USB_SCSI_CMD_TEST_UNIT_READY then snd (usb_note_initial_msc_command_complete st) else st)
          else let st = (if s_host_owned st \<and> s_host_session_detached st \<and> \<not> s_release_pending st \<and>
                            \<not> sd_mount_is_mounted st
                         then set_bits {USB_BIT_HOST_REATTACHED} (st\<lparr>s_host_session_detached := False\<rparr>) else st)
          in usb_scsi_trace_note_command_complete scsi_cmd st)"

fun usb_invoke :: "'u tusb_api \<Rightarrow> usb_invocation \<Rightarrow> ('u, 's, 'c) usb_msc_t \<Rightarrow> ('u, 's, 'c) usb_msc_t" where
  "usb_invoke api (DeviceEvent ev) st = usb_device_event_cb api ev st"
| "usb_invoke api (ScsiComplete lun cmd) st = tud_msc_scsi_complete_cb cmd st"

section \<open>The backend gate\<close>

definition usb_msc_reject_post_eject_command :: "'u tusb_api \<Rightarrow> u8 \<Rightarrow> ('u, 's, 'c) usb_msc_t \<Rightarrow> ('u, 's, 'c) usb_msc_t" where
  "usb_msc_reject_post_eject_command api lun st =
     st\<lparr>usb_env := tud_msc_set_sense api lun USB_SCSI_SENSE_NOT_READY USB_SCSI_ASC_MEDIUM_NOT_PRESENT
       USB_SCSI_ASCQ_NONE (usb_env st)\<rparr>"

definition wrap_tud_msc_test_unit_ready_cb ::
    "'u tusb_api \<Rightarrow> u8 \<Rightarrow> ('u, 's, 'c) usb_msc_t \<Rightarrow> bool \<times> ('u, 's, 'c) usb_msc_t" where
  "wrap_tud_msc_test_unit_ready_cb api lun st =
     (if \<not> s_release_pending st
      then case real_tud_msc_test_unit_ready_cb api lun (usb_env st) of (r, u) \<Rightarrow> (r, st\<lparr>usb_env := u\<rparr>)
      else (False, usb_msc_reject_post_eject_command api lun st))"

definition wrap_tud_msc_capacity_cb ::
    "'u tusb_api \<Rightarrow> u8 \<Rightarrow> u32 ptr \<Rightarrow> u16 ptr \<Rightarrow> ('u, 's, 'c) usb_msc_t \<Rightarrow> u32 ptr \<times> u16 ptr \<times> ('u, 's, 'c) usb_msc_t" where
  "wrap_tud_msc_capacity_cb api lun block_count block_size st =
     (if \<not> s_release_pending st
      then case real_tud_msc_capacity_cb api lun block_count block_size (usb_env st) of (c, z, u) \<Rightarrow>
        (c, z, st\<lparr>usb_env := u\<rparr>)
      else (map_option (\<lambda>_. 0) block_count, map_option (\<lambda>_. 0) block_size, usb_msc_reject_post_eject_command api lun st))"

definition wrap_tud_msc_read10_cb ::
    "'u tusb_api \<Rightarrow> u8 \<Rightarrow> u32 \<Rightarrow> u32 \<Rightarrow> byte list \<Rightarrow> u32 \<Rightarrow> ('u, 's, 'c) usb_msc_t \<Rightarrow> int \<times> byte list \<times> ('u, 's, 'c) usb_msc_t" where
  "wrap_tud_msc_read10_cb api lun lba offset buffer bufsize st =
     (if \<not> s_release_pending st
      then case real_tud_msc_read10_cb api lun lba offset buffer bufsize (usb_env st) of (r, buf, u) \<Rightarrow>
        (r, buf, st\<lparr>usb_env := u\<rparr>)
      else (-1, buffer, usb_msc_reject_post_eject_command api lun st))"

definition wrap_tud_msc_write10_cb ::
    "'u tusb_api \<Rightarrow> u8 \<Rightarrow> u32 \<Rightarrow> u32 \<Rightarrow> byte list \<Rightarrow> u32 \<Rightarrow> ('u, 's, 'c) usb_msc_t \<Rightarrow> int \<times> ('u, 's, 'c) usb_msc_t" where
  "wrap_tud_msc_write10_cb api lun lba offset buffer bufsize st =
     (if \<not> s_release_pending st
      then case real_tud_msc_write10_cb api lun lba offset buffer bufsize (usb_env st) of (r, u) \<Rightarrow> (r, st\<lparr>usb_env := u\<rparr>)
      else (-1, usb_msc_reject_post_eject_command api lun st))"

definition wrap_tud_msc_start_stop_cb ::
    "'u tusb_api \<Rightarrow> u8 \<Rightarrow> u8 \<Rightarrow> bool \<Rightarrow> bool \<Rightarrow> ('u, 's, 'c) usb_msc_t \<Rightarrow> bool \<times> ('u, 's, 'c) usb_msc_t" where
  "wrap_tud_msc_start_stop_cb api lun power_condition start load_eject st =
     (let st = usb_scsi_trace_note_start_stop_request power_condition start load_eject st in
      case real_tud_msc_start_stop_cb api lun power_condition start load_eject (usb_env st) of (r, u) \<Rightarrow>
      (r, st\<lparr>usb_env := u\<rparr>))"

section \<open>Set-up\<close>

definition usb_msc_ownership_init ::
    "'u tusb_api \<Rightarrow> ('u, 's, 'c) usb_msc_t \<Rightarrow> esp_err_t \<times> ('u, 's, 'c) usb_msc_t" where
  "usb_msc_ownership_init api st =
     (if s_initialized st then (ESP_OK, st)
      else if \<not> sd_mount_is_mounted st then (ESP_ERR_INVALID_STATE, st)
      else case xEventGroupCreate api (usb_env st) of (created, u) \<Rightarrow>
      let st = st\<lparr>usb_env := u\<rparr> in
      if \<not> created then (ESP_ERR_NO_MEM, st\<lparr>s_usb_events := None\<rparr>)
      else let st = st\<lparr>s_usb_events := Some {}\<rparr> in
      case on_env (tinyusb_msc_set_storage_callback api OwnershipCallback) st of (err, st) \<Rightarrow>
      if err \<noteq> ESP_OK then (err, st\<lparr>s_usb_events := None\<rparr>)
      else (ESP_OK, st\<lparr>s_starting := False, s_started := False, s_storage_usb_owned := False, s_host_owned := False,
        s_release_pending := False, s_release_waiting_response := False, s_release_attempt_id := [],
        s_provisional_attached := False, s_publish_triggered := False, s_prepare_disconnected := False,
        s_transfer_authorized := False, s_host_session_detached := False, s_physical_session_cutoff := None,
        s_initialized := True\<rparr>))"

definition usb_msc_ownership_set_physical_session_cutoff ::
    "('c \<Rightarrow> 'c) ptr \<Rightarrow> ('u, 's, 'c) usb_msc_t \<Rightarrow> esp_err_t \<times> ('u, 's, 'c) usb_msc_t" where
  "usb_msc_ownership_set_physical_session_cutoff cutoff st =
     (if cutoff = None then (ESP_ERR_INVALID_ARG, st)
      else if \<not> s_initialized st \<or> s_started st \<or> s_starting st then (ESP_ERR_INVALID_STATE, st)
      else (ESP_OK, st\<lparr>s_physical_session_cutoff := cutoff\<rparr>))"

text \<open>The driver may call back before the installation returns.\<close>

definition usb_msc_ownership_start ::
    "'u tusb_api \<Rightarrow> ('u, 's, 'c) usb_msc_t \<Rightarrow> esp_err_t \<times> ('u, 's, 'c) usb_msc_t" where
  "usb_msc_ownership_start api st =
     (if \<not> s_initialized st \<or> \<not> sd_mount_is_mounted st \<or> s_storage_usb_owned st \<or> s_host_owned st \<or>
         s_release_pending st \<or> s_starting st
      then (ESP_ERR_INVALID_STATE, st)
      else if s_started st then (ESP_OK, st)
      else let st = st\<lparr>s_starting := True\<rparr> in
      case tinyusb_driver_install api (usb_env st) of (evs, err, u) \<Rightarrow>
      let st = fold (usb_invoke api) evs (st\<lparr>usb_env := u\<rparr>);
          st = (if err = ESP_OK then st\<lparr>s_started := True\<rparr> else st)
      in (err, st\<lparr>s_starting := False\<rparr>))"

text \<open>The state is the one in which \<open>xEventGroupWaitBits\<close> returns, with a bit or after the timeout.\<close>

definition usb_msc_ownership_wait_event ::
    "('u, 's, 'c) usb_msc_t \<Rightarrow> usb_msc_ownership_event_t \<times> ('u, 's, 'c) usb_msc_t" where
  "usb_msc_ownership_wait_event st =
     (case s_usb_events st of
        None \<Rightarrow> (USB_MSC_EVENT_FAILED, st)
      | Some bits \<Rightarrow>
          if USB_BIT_FAILED \<in> bits then (USB_MSC_EVENT_FAILED, clear_bits {USB_BIT_FAILED} st)
          else if USB_BIT_ATTACH \<in> bits then (USB_MSC_EVENT_ATTACH, clear_bits {USB_BIT_ATTACH} st)
          else if USB_BIT_HOST_OWNED \<in> bits then (USB_MSC_EVENT_HOST_OWNED, clear_bits {USB_BIT_HOST_OWNED} st)
          else if USB_BIT_HOST_REATTACHED \<in> bits
          then (USB_MSC_EVENT_HOST_REATTACHED, clear_bits {USB_BIT_HOST_REATTACHED} st)
          else if USB_BIT_RELEASE_REQUESTED \<in> bits
          then (USB_MSC_EVENT_RELEASE_REQUESTED, clear_bits {USB_BIT_RELEASE_REQUESTED} st)
          else if USB_BIT_RELEASE_QUIESCED \<in> bits
          then (USB_MSC_EVENT_RELEASE_QUIESCED, clear_bits {USB_BIT_RELEASE_QUIESCED} st)
          else (USB_MSC_EVENT_NONE, st))"

section \<open>Publication\<close>

definition usb_msc_ownership_begin_prepare ::
    "'u tusb_api \<Rightarrow> ('u, 's, 'c) usb_msc_t \<Rightarrow> esp_err_t \<times> ('u, 's, 'c) usb_msc_t" where
  "usb_msc_ownership_begin_prepare api st =
     (if \<not> s_initialized st \<or> (\<not> s_started st \<and> \<not> s_starting st) \<or> \<not> s_provisional_attached st \<or>
         \<not> s_publish_triggered st \<or> s_storage_usb_owned st \<or> s_host_owned st \<or> s_release_pending st \<or>
         \<not> sd_mount_is_mounted st
      then (ESP_ERR_INVALID_STATE, st)
      else if s_prepare_disconnected st then (ESP_OK, st)
      else case tud_disconnect api (usb_env st) of (ok, u) \<Rightarrow>
      let st = st\<lparr>usb_env := u\<rparr> in
      if \<not> ok then (ESP_FAIL, usb_fail st)
      else (ESP_OK, st\<lparr>s_prepare_disconnected := True\<rparr>))"

definition usb_msc_publish ::
    "'u tusb_api \<Rightarrow> 's esp_api \<Rightarrow> bool \<Rightarrow> bool \<Rightarrow> bool \<Rightarrow> ('u, 's, 'c) usb_msc_t \<Rightarrow> bool \<times> ('u, 's, 'c) usb_msc_t" where
  "usb_msc_publish api nvs wav_finalized manifest_committed device_fs_released st =
     (if \<not> wav_finalized \<or> \<not> manifest_committed \<or> \<not> device_fs_released \<or> s_usb_events st = None \<or>
         s_storage_usb_owned st \<or> s_host_owned st \<or> s_release_pending st \<or> \<not> s_provisional_attached st \<or>
         \<not> s_publish_triggered st \<or> \<not> s_prepare_disconnected st \<or> \<not> sd_mount_is_mounted st
      then (False, usb_fail st)
      else case shutdown_armed_mark_host_unresolved nvs (nvs_of st) of (err, w) \<Rightarrow>
      let st = st\<lparr>nvs_of := w\<rparr> in
      if err \<noteq> ESP_OK then (False, usb_fail st)
      else let st = st\<lparr>s_wav_finalized := wav_finalized, s_manifest_committed := manifest_committed,
                       fs_release_proof := device_fs_released, s_transfer_authorized := True\<rparr> in
      case sd_mount_transfer_to_usb api usb_storage_event_cb st of (err, st) \<Rightarrow>
      let st = st\<lparr>s_transfer_authorized := False\<rparr> in
      if err \<noteq> ESP_OK \<or> \<not> s_storage_usb_owned st \<or> sd_mount_is_mounted st then (False, usb_fail st)
      else case tud_connect api (vTaskDelay api USB_REENUM_DISCONNECT_MS (usb_env st)) of (ok, u) \<Rightarrow>
      let st = st\<lparr>usb_env := u\<rparr> in
      if \<not> ok then (False, usb_fail st) else (True, st))"

definition usb_msc_ownership_note_prepare_complete ::
    "'u tusb_api \<Rightarrow> 's esp_api \<Rightarrow> bool \<Rightarrow> bool \<Rightarrow> bool \<Rightarrow> ('u, 's, 'c) usb_msc_t \<Rightarrow> esp_err_t \<times> ('u, 's, 'c) usb_msc_t" where
  "usb_msc_ownership_note_prepare_complete api nvs wav_finalized manifest_committed device_fs_released st =
     (if \<not> s_initialized st then (ESP_ERR_INVALID_STATE, st)
      else case usb_msc_publish api nvs wav_finalized manifest_committed device_fs_released st of (ok, st) \<Rightarrow>
      (if ok then ESP_OK else ESP_ERR_INVALID_STATE, st))"

section \<open>Release\<close>

definition release_char :: "char \<Rightarrow> bool" where
  "release_char c \<longleftrightarrow>
     (of_char CHR ''A'' :: nat) \<le> of_char c \<and> (of_char c :: nat) \<le> of_char CHR ''Z'' \<or>
     (of_char CHR ''a'' :: nat) \<le> of_char c \<and> (of_char c :: nat) \<le> of_char CHR ''z'' \<or>
     (of_char CHR ''0'' :: nat) \<le> of_char c \<and> (of_char c :: nat) \<le> of_char CHR ''9'' \<or>
     c = CHR ''.'' \<or> c = CHR ''_'' \<or> c = CHR '':'' \<or> c = CHR ''-''"

fun usb_release_attempt_id_valid :: "string ptr \<Rightarrow> bool" where
  "usb_release_attempt_id_valid None = False"
| "usb_release_attempt_id_valid (Some v) =
     (length v \<noteq> 0 \<and> length v \<le> USB_MSC_RELEASE_ATTEMPT_MAX_BYTES \<and> list_all release_char v)"

definition usb_msc_ownership_release_command_admission_open :: "('u, 's, 'c) usb_msc_t \<Rightarrow> bool" where
  "usb_msc_ownership_release_command_admission_open st \<longleftrightarrow>
     s_initialized st \<and> s_started st \<and> s_storage_usb_owned st \<and> s_host_owned st \<and> \<not> sd_mount_is_mounted st \<and>
     \<not> s_release_pending st"

definition usb_msc_ownership_accept_release_storage ::
    "string ptr \<Rightarrow> ('u, 's, 'c) usb_msc_t \<Rightarrow> usb_msc_release_storage_result_t \<times> ('u, 's, 'c) usb_msc_t" where
  "usb_msc_ownership_accept_release_storage release_attempt_id st =
     (if \<not> usb_release_attempt_id_valid release_attempt_id then (USB_MSC_RELEASE_STORAGE_INVALID_ARGS, st)
      else if \<not> s_initialized st \<or> \<not> s_started st \<or> \<not> s_storage_usb_owned st \<or> \<not> s_host_owned st \<or>
              sd_mount_is_mounted st
      then (USB_MSC_RELEASE_STORAGE_WRONG_STATE, st)
      else if s_release_pending st then (USB_MSC_RELEASE_STORAGE_CONFLICT, st)
      else (USB_MSC_RELEASE_STORAGE_ACCEPTED, st\<lparr>s_release_pending := True,
        s_release_attempt_id := the release_attempt_id, s_release_waiting_response := True\<rparr>))"

definition usb_msc_ownership_release_response_complete ::
    "string ptr \<Rightarrow> ('u, 's, 'c) usb_msc_t \<Rightarrow> bool \<times> ('u, 's, 'c) usb_msc_t" where
  "usb_msc_ownership_release_response_complete release_attempt_id st =
     (if \<not> usb_release_attempt_id_valid release_attempt_id \<or> \<not> s_release_pending st \<or>
         \<not> s_release_waiting_response st \<or> \<not> s_initialized st \<or> \<not> s_started st \<or> \<not> s_host_owned st \<or>
         Some (s_release_attempt_id st) \<noteq> release_attempt_id
      then (False, st)
      else (True, set_bits {USB_BIT_RELEASE_REQUESTED} (st\<lparr>s_release_waiting_response := False\<rparr>)))"

definition usb_msc_ownership_complete_release_quiesce ::
    "'u tusb_api \<Rightarrow> 's esp_api \<Rightarrow> ('u, 's, 'c) usb_msc_t \<Rightarrow> esp_err_t \<times> ('u, 's, 'c) usb_msc_t" where
  "usb_msc_ownership_complete_release_quiesce api nvs st =
     (if \<not> s_initialized st \<or> \<not> s_started st \<or> \<not> s_storage_usb_owned st \<or> \<not> s_host_owned st \<or>
         \<not> s_release_pending st \<or> s_release_waiting_response st \<or> sd_mount_is_mounted st
      then (ESP_ERR_INVALID_STATE, st)
      else case on_env (tinyusb_driver_uninstall api) st of (err, st) \<Rightarrow>
      if err \<noteq> ESP_OK then (err, usb_fail st)
      else let st = st\<lparr>s_started := False\<rparr> in
      case sd_mount_release_usb_storage api usb_storage_event_cb st of (err, st) \<Rightarrow>
      if err \<noteq> ESP_OK then (err, usb_fail st)
      else case shutdown_armed_commit nvs (nvs_of st) of (err, w) \<Rightarrow>
      let st = st\<lparr>nvs_of := w\<rparr> in
      if err \<noteq> ESP_OK then (err, usb_fail st)
      else let st = st\<lparr>s_storage_usb_owned := False, s_host_owned := False, s_release_pending := False,
        s_release_waiting_response := False, s_release_attempt_id := [], s_provisional_attached := False,
        s_publish_triggered := False, s_prepare_disconnected := False, s_transfer_authorized := False,
        s_host_session_detached := False\<rparr>;
          st = clear_bits {USB_BIT_ATTACH, USB_BIT_HOST_OWNED, USB_BIT_HOST_REATTACHED, USB_BIT_RELEASE_REQUESTED} st
      in (ESP_OK, set_bits {USB_BIT_RELEASE_QUIESCED} st))"

definition usb_msc_ownership_is_host_owned :: "('u, 's, 'c) usb_msc_t \<Rightarrow> bool" where
  "usb_msc_ownership_is_host_owned st = s_host_owned st"

end
