(* ===== verification/Usb_Msc_Frames.thy ===== *)
theory Usb_Msc_Frames
  imports Usb_Msc_Ownership
begin

text \<open>
  What the operations of \<open>Sd_Mount\<close> and \<open>Usb_Msc_Ownership\<close> can change: the contract of the USB stack
  (\<open>usb_contract\<close>), the two groups of variables the properties are about (\<open>ownership\<close>, \<open>holding\<close>), and for every
  operation, callback and boundary call what it does to them, to the medium and to the media commands. The system built
  from these steps and its properties are in \<open>Usb_Msc_Safety\<close>.
\<close>

section \<open>The contract of the USB stack\<close>

text \<open>
  \<open>medium u\<close>: which side the storage object serves, \<open>None\<close> without one. \<open>host_io u\<close>: the media commands that reached the
  storage. Only creating, deleting and switching the storage change the medium (the driver runs with
  \<open>auto_mount_off\<close>), only the four media callbacks of esp\_tinyusb let a command through.
\<close>

definition calm :: "('u \<Rightarrow> tinyusb_msc_mount_point_t option) \<Rightarrow> ('u \<Rightarrow> 'i) \<Rightarrow> 'u \<Rightarrow> 'u \<Rightarrow> bool" where
  "calm medium host_io u u' \<longleftrightarrow> medium u' = medium u \<and> host_io u' = host_io u"

definition usb_contract ::
    "'u tusb_api \<Rightarrow> ('u \<Rightarrow> tinyusb_msc_mount_point_t option) \<Rightarrow> ('u \<Rightarrow> 'i) \<Rightarrow> bool" where
  "usb_contract api medium host_io \<longleftrightarrow>
     (\<forall>u. calm medium host_io u (snd (spi_bus_initialize api u)) \<and> calm medium host_io u (spi_bus_free api u) \<and>
        calm medium host_io u (snd (sdspi_host_init api u)) \<and> calm medium host_io u (sdspi_host_deinit api u) \<and>
        calm medium host_io u (snd (sdspi_host_init_device api u)) \<and>
        calm medium host_io u (sdspi_host_remove_device api u) \<and> calm medium host_io u (snd (sdmmc_card_init api u)) \<and>
        (\<forall>cb. calm medium host_io u (snd (tinyusb_msc_install_driver api cb u))) \<and>
        calm medium host_io u (snd (tinyusb_msc_uninstall_driver api u)) \<and>
        (\<forall>cb. calm medium host_io u (snd (tinyusb_msc_set_storage_callback api cb u))) \<and>
        calm medium host_io u (snd (xEventGroupCreate api u)) \<and> (\<forall>ms. calm medium host_io u (vTaskDelay api ms u)) \<and>
        calm medium host_io u (snd (tud_connect api u)) \<and> calm medium host_io u (snd (tud_disconnect api u)) \<and>
        calm medium host_io u (snd (snd (tinyusb_driver_install api u))) \<and>
        calm medium host_io u (snd (tinyusb_driver_uninstall api u)) \<and>
        (\<forall>lun k c q. calm medium host_io u (tud_msc_set_sense api lun k c q u)) \<and>
        (\<forall>lun p b e. calm medium host_io u (snd (real_tud_msc_start_stop_cb api lun p b e u)))) \<and>
     (\<forall>u lun. medium (snd (real_tud_msc_test_unit_ready_cb api lun u)) = medium u) \<and>
     (\<forall>u lun c z. medium (snd (snd (real_tud_msc_capacity_cb api lun c z u))) = medium u) \<and>
     (\<forall>u lun a f buf n. medium (snd (snd (real_tud_msc_read10_cb api lun a f buf n u))) = medium u) \<and>
     (\<forall>u lun a f buf n. medium (snd (real_tud_msc_write10_cb api lun a f buf n u)) = medium u) \<and>
     (\<forall>u m evs e u'. tinyusb_msc_new_storage_sdmmc api m u = (evs, e, u') \<longrightarrow>
        host_io u' = host_io u \<and> medium u' = (if e = ESP_OK then Some m else medium u)) \<and>
     (\<forall>u evs e u'. tinyusb_msc_delete_storage api u = (evs, e, u') \<longrightarrow>
        host_io u' = host_io u \<and> medium u' = (if e = ESP_OK then None else medium u)) \<and>
     (\<forall>u m evs e u'. tinyusb_msc_set_storage_mount_point api m u = (evs, e, u') \<longrightarrow>
        host_io u' = host_io u \<and> medium u' \<in> {medium u, Some m} \<and>
        (\<forall>cb ev. (cb, Some ev) \<in> set evs \<and> event_id ev = TINYUSB_MSC_EVENT_MOUNT_COMPLETE \<longrightarrow>
           medium u' = Some (event_mount_point ev)))"

lemma usb_contract_calm:
  assumes "usb_contract api medium host_io"
  shows "spi_bus_initialize api u = (e, u') \<Longrightarrow> calm medium host_io u u'" "calm medium host_io u (spi_bus_free api u)"
    "sdspi_host_init api u = (e, u') \<Longrightarrow> calm medium host_io u u'" "calm medium host_io u (sdspi_host_deinit api u)"
    "sdspi_host_init_device api u = (e, u') \<Longrightarrow> calm medium host_io u u'"
    "calm medium host_io u (sdspi_host_remove_device api u)" "sdmmc_card_init api u = (e, u') \<Longrightarrow> calm medium host_io u u'"
    "tinyusb_msc_install_driver api cb u = (e, u') \<Longrightarrow> calm medium host_io u u'"
    "tinyusb_msc_uninstall_driver api u = (e, u') \<Longrightarrow> calm medium host_io u u'"
    "tinyusb_msc_set_storage_callback api cb u = (e, u') \<Longrightarrow> calm medium host_io u u'"
    "xEventGroupCreate api u = (b, u') \<Longrightarrow> calm medium host_io u u'" "calm medium host_io u (vTaskDelay api ms u)"
    "tud_connect api u = (b, u') \<Longrightarrow> calm medium host_io u u'" "tud_disconnect api u = (b, u') \<Longrightarrow> calm medium host_io u u'"
    "tinyusb_driver_install api u = (evs, e, u') \<Longrightarrow> calm medium host_io u u'"
    "tinyusb_driver_uninstall api u = (e, u') \<Longrightarrow> calm medium host_io u u'"
    "calm medium host_io u (tud_msc_set_sense api lun k c q u)"
    "real_tud_msc_start_stop_cb api lun p b' e' u = (b, u') \<Longrightarrow> calm medium host_io u u'"
  using assms unfolding usb_contract_def by (metis snd_conv)+

lemma usb_contract_media:
  assumes "usb_contract api medium host_io"
  shows "real_tud_msc_test_unit_ready_cb api lun u = (b, u') \<Longrightarrow> medium u' = medium u"
    "real_tud_msc_capacity_cb api lun c z u = (c', z', u') \<Longrightarrow> medium u' = medium u"
    "real_tud_msc_read10_cb api lun a f buf n u = (r, buf', u') \<Longrightarrow> medium u' = medium u"
    "real_tud_msc_write10_cb api lun a f buf n u = (r, u') \<Longrightarrow> medium u' = medium u"
  using assms unfolding usb_contract_def by (metis snd_conv)+

lemma usb_contract_storage:
  assumes "usb_contract api medium host_io"
  shows "tinyusb_msc_new_storage_sdmmc api m u = (evs, e, u') \<Longrightarrow>
      host_io u' = host_io u \<and> medium u' = (if e = ESP_OK then Some m else medium u)"
    "tinyusb_msc_delete_storage api u = (evs, e, u') \<Longrightarrow>
      host_io u' = host_io u \<and> medium u' = (if e = ESP_OK then None else medium u)"
    "tinyusb_msc_set_storage_mount_point api m u = (evs, e, u') \<Longrightarrow>
      host_io u' = host_io u \<and> medium u' \<in> {medium u, Some m} \<and>
      (\<forall>cb ev. (cb, Some ev) \<in> set evs \<and> event_id ev = TINYUSB_MSC_EVENT_MOUNT_COMPLETE \<longrightarrow>
         medium u' = Some (event_mount_point ev))"
  using assms unfolding usb_contract_def by blast+

section \<open>Frames\<close>

text \<open>The variables of the ownership module that the properties are about; event bits and the trace are not.\<close>

definition ownership :: "('u, 's, 'c) usb_msc_t \<Rightarrow> _" where
  "ownership st = (s_initialized st, s_storage_usb_owned st, s_host_owned st, s_release_pending st,
     s_release_waiting_response st, s_release_attempt_id st, s_transfer_authorized st, s_wav_finalized st,
     s_manifest_committed st, fs_release_proof st, nvs_of st)"

definition holding :: "('u, 's, 'c) usb_msc_t \<Rightarrow> _" where
  "holding st = (s_storage st, s_mounted st, s_usb_release_requested st, s_device_fs_released st)"

text \<open>A step that keeps both, the medium and the media commands.\<close>

definition still ::
    "('u \<Rightarrow> tinyusb_msc_mount_point_t option) \<Rightarrow> ('u \<Rightarrow> 'i) \<Rightarrow> ('u, 's, 'c) usb_msc_t \<Rightarrow> ('u, 's, 'c) usb_msc_t \<Rightarrow> bool" where
  "still medium host_io st st' \<longleftrightarrow> ownership st' = ownership st \<and> holding st' = holding st \<and>
     calm medium host_io (usb_env st) (usb_env st')"

lemma calm_refl [simp]: "calm medium host_io u u"
  by (simp add: calm_def)

lemma still_refl [simp]: "still medium host_io st st"
  by (simp add: still_def calm_def)

lemma still_trans: "still medium host_io st st1 \<Longrightarrow> still medium host_io st1 st2 \<Longrightarrow> still medium host_io st st2"
  by (simp add: still_def calm_def)

lemma set_bits_simps [simp]:
  "ownership (set_bits B st) = ownership st" "holding (set_bits B st) = holding st" "usb_env (set_bits B st) = usb_env st"
  "ownership (clear_bits B st) = ownership st" "holding (clear_bits B st) = holding st" "usb_env (clear_bits B st) = usb_env st"
  "ownership (usb_fail st) = ownership st" "holding (usb_fail st) = holding st" "usb_env (usb_fail st) = usb_env st"
  by (simp_all add: usb_fail_def set_bits_def clear_bits_def ownership_def holding_def split: option.splits)

lemma env_simps [simp]:
  "ownership (st\<lparr>usb_env := u\<rparr>) = ownership st" "holding (st\<lparr>usb_env := u\<rparr>) = holding st"
  "ownership (st\<lparr>card := w\<rparr>) = ownership st" "holding (st\<lparr>card := w\<rparr>) = holding st"
  "ownership (st\<lparr>s_storage := b\<rparr>) = ownership st" "ownership (st\<lparr>s_mounted := b\<rparr>) = ownership st"
  "ownership (st\<lparr>s_device_fs_released := b\<rparr>) = ownership st" "ownership (st\<lparr>s_usb_release_requested := b\<rparr>) = ownership st"
  "ownership (st\<lparr>s_msc_driver_init := b\<rparr>) = ownership st" "holding (st\<lparr>s_msc_driver_init := b\<rparr>) = holding st"
  "ownership (st\<lparr>s_bus_init := b\<rparr>) = ownership st" "holding (st\<lparr>s_bus_init := b\<rparr>) = holding st"
  "ownership (st\<lparr>s_sdspi_init := b\<rparr>) = ownership st" "holding (st\<lparr>s_sdspi_init := b\<rparr>) = holding st"
  "ownership (st\<lparr>s_device_init := b\<rparr>) = ownership st" "holding (st\<lparr>s_device_init := b\<rparr>) = holding st"
  by (simp_all add: ownership_def holding_def)

text \<open>Outside a publication the storage callback does nothing but report.\<close>

lemma storage_event_quiet:
  assumes "\<not> s_transfer_authorized st"
  shows "ownership (usb_storage_event_cb ev st) = ownership st" "holding (usb_storage_event_cb ev st) = holding st"
    "usb_env (usb_storage_event_cb ev st) = usb_env st"
  using assms by (auto simp: usb_storage_event_cb_def split: option.splits)

lemma authorized_ownership: "s_transfer_authorized st = (case ownership st of (_, _, _, _, _, _, a, _) \<Rightarrow> a)"
  by (simp add: ownership_def)

lemma deliver_quiet:
  assumes "\<not> s_transfer_authorized st"
  shows "ownership (deliver usb_storage_event_cb evs st) = ownership st"
    "holding (deliver usb_storage_event_cb evs st) = holding st"
    "usb_env (deliver usb_storage_event_cb evs st) = usb_env st"
proof -
  have "ownership (deliver usb_storage_event_cb evs st) = ownership st \<and>
      holding (deliver usb_storage_event_cb evs st) = holding st \<and>
      usb_env (deliver usb_storage_event_cb evs st) = usb_env st"
    using assms
  proof (induction evs arbitrary: st)
    case Nil
    then show ?case by (simp add: deliver_def)
  next
    case (Cons x evs)
    obtain cb ev where x: "x = (cb, ev)" by fastforce
    let ?st = "case cb of TerminalCallback \<Rightarrow> st | OwnershipCallback \<Rightarrow> usb_storage_event_cb ev st"
    have d: "deliver usb_storage_event_cb (x # evs) st = deliver usb_storage_event_cb evs ?st"
      by (cases cb) (simp_all add: deliver_def x sd_mount_terminal_storage_event_def)
    have o: "ownership ?st = ownership st" "holding ?st = holding st" "usb_env ?st = usb_env st"
      using storage_event_quiet[OF Cons.prems] by (simp_all split: msc_callback.splits)
    then have "\<not> s_transfer_authorized ?st" using Cons.prems by (simp add: authorized_ownership)
    from Cons.IH[OF this] show ?case unfolding d using o by simp
  qed
  then show "ownership (deliver usb_storage_event_cb evs st) = ownership st"
    "holding (deliver usb_storage_event_cb evs st) = holding st"
    "usb_env (deliver usb_storage_event_cb evs st) = usb_env st" by blast+
qed


section \<open>What the card functions do\<close>

definition device_open :: "('u, 's, 'c) usb_msc_t \<Rightarrow> bool" where
  \<comment> \<open>the recorder may use the file system\<close>
  "device_open st \<longleftrightarrow> s_mounted st \<and> \<not> s_device_fs_released st"

definition holding_ok :: "('u \<Rightarrow> tinyusb_msc_mount_point_t option) \<Rightarrow> ('u, 's, 'c) usb_msc_t \<Rightarrow> bool" where
  "holding_ok medium st \<longleftrightarrow>
     (\<not> s_storage st \<longrightarrow> medium (usb_env st) = None) \<and>
     (medium (usb_env st) = Some TINYUSB_MSC_STORAGE_MOUNT_USB \<longrightarrow> s_usb_release_requested st \<and> s_device_fs_released st) \<and>
     (s_mounted st \<and> s_device_fs_released st \<longrightarrow> s_usb_release_requested st)"

lemma holding_simps:
  "holding st' = holding st \<Longrightarrow> s_storage st' = s_storage st"
  "holding st' = holding st \<Longrightarrow> s_mounted st' = s_mounted st"
  "holding st' = holding st \<Longrightarrow> s_usb_release_requested st' = s_usb_release_requested st"
  "holding st' = holding st \<Longrightarrow> s_device_fs_released st' = s_device_fs_released st"
  by (simp_all add: holding_def)

lemma on_env_calm:
  assumes "on_env f st = (e, st')" "\<And>u e u'. f u = (e, u') \<Longrightarrow> calm medium host_io u u'"
  shows "ownership st' = ownership st" "holding st' = holding st" "calm medium host_io (usb_env st) (usb_env st')"
  using assms by (auto simp: on_env_def ownership_def holding_def split: prod.splits)

lemma on_storage_quiet:
  assumes "on_storage usb_storage_event_cb f st = (e, st')" "\<not> s_transfer_authorized st"
  shows "ownership st' = ownership st" "holding st' = holding st"
    "\<exists>evs. f (usb_env st) = (evs, e, usb_env st')"
proof -
  obtain evs e' u where r: "f (usb_env st) = (evs, e', u)" by (metis prod_cases3)
  have s: "st' = deliver usb_storage_event_cb evs (st\<lparr>usb_env := u\<rparr>)" "e' = e"
    using assms(1) r by (simp_all add: on_storage_def)
  have "\<not> s_transfer_authorized (st\<lparr>usb_env := u\<rparr>)" using assms(2) by simp
  from deliver_quiet[OF this, of evs] s r
  show "ownership st' = ownership st" "holding st' = holding st" "\<exists>evs. f (usb_env st) = (evs, e, usb_env st')"
    by (auto simp: ownership_def holding_def)
qed

lemma raw_cleanup_calm:
  assumes "usb_contract api medium host_io"
  shows "ownership (sd_mount_raw_cleanup api st) = ownership st" "holding (sd_mount_raw_cleanup api st) = holding st"
    "calm medium host_io (usb_env st) (usb_env (sd_mount_raw_cleanup api st))"
proof -
  note c = usb_contract_calm(2,4,6)[OF assms]
  show "ownership (sd_mount_raw_cleanup api st) = ownership st" "holding (sd_mount_raw_cleanup api st) = holding st"
    by (simp_all add: sd_mount_raw_cleanup_def Let_def ownership_def holding_def)
  show "calm medium host_io (usb_env st) (usb_env (sd_mount_raw_cleanup api st))"
    using c by (simp add: sd_mount_raw_cleanup_def Let_def calm_def)
qed

text \<open>Unmounting after a release request only closes the file system; otherwise it never hands anything to USB.\<close>

lemma unmount_requested:
  "s_usb_release_requested st \<Longrightarrow> sd_mount_unmount api cb st = st\<lparr>s_device_fs_released := True\<rparr>"
  by (simp add: sd_mount_unmount_def)

lemma unmount_effect:
  assumes c: "usb_contract api medium host_io" and a: "\<not> s_transfer_authorized st" "\<not> s_usb_release_requested st"
    and ok: "holding_ok medium st"
  defines "st' \<equiv> sd_mount_unmount api usb_storage_event_cb st"
  shows "ownership st' = ownership st" "host_io (usb_env st') = host_io (usb_env st)" "holding_ok medium st'"
    "device_open st' \<longrightarrow> device_open st" "medium (usb_env st') \<noteq> Some TINYUSB_MSC_STORAGE_MOUNT_USB"
    "s_mounted st' \<longrightarrow> s_mounted st"
proof -
  obtain e1 st1 where 1: "on_env (tinyusb_msc_set_storage_callback api TerminalCallback) st = (e1, st1)" by fastforce
  obtain e2 st2 where 2: "on_storage usb_storage_event_cb (tinyusb_msc_delete_storage api) st1 = (e2, st2)" by fastforce
  define stA where "stA = (if s_storage st then if e2 \<noteq> ESP_OK then st2 else st2\<lparr>s_storage := False\<rparr> else st)"
  obtain e3 st3 where 3: "on_env (tinyusb_msc_uninstall_driver api) stA = (e3, st3)" by fastforce
  define stB where "stB = (if s_msc_driver_init stA then if e3 \<noteq> ESP_OK then st3 else st3\<lparr>s_msc_driver_init := False\<rparr> else stA)"
  note c1 = on_env_calm[OF 1 usb_contract_calm(10)[OF c]]
  have a1: "\<not> s_transfer_authorized st1" using c1(1) a(1) by (simp add: authorized_ownership)
  note c2 = on_storage_quiet[OF 2 a1]
  note d2 = usb_contract_storage(2)[OF c]
  note c3 = on_env_calm[OF 3 usb_contract_calm(9)[OF c]]
  have A: "ownership stA = ownership st" "host_io (usb_env stA) = host_io (usb_env st)"
    "s_mounted stA = s_mounted st" "s_usb_release_requested stA = s_usb_release_requested st"
    "s_device_fs_released stA = s_device_fs_released st"
    "\<not> s_storage stA \<longrightarrow> medium (usb_env stA) = None" "medium (usb_env stA) = medium (usb_env st) \<or> medium (usb_env stA) = None"
    using c1(1,3) c2(1) holding_simps[OF c1(2)] holding_simps[OF c2(2)] c2(3) d2 ok
    by (auto simp: stA_def calm_def holding_ok_def)
  have B: "ownership stB = ownership stA" "holding stB = holding stA" "calm medium host_io (usb_env stA) (usb_env stB)"
    using c3 unfolding stB_def by (simp_all add: calm_def)
  let ?cl = "sd_mount_raw_cleanup api (stB\<lparr>s_mounted := False, s_device_fs_released := True\<rparr>)"
  note cl = raw_cleanup_calm[OF c, of "stB\<lparr>s_mounted := False, s_device_fs_released := True\<rparr>"]
  have r: "st' = stA \<or> st' = stB \<or> st' = ?cl"
  proof (cases "s_storage st \<and> e2 \<noteq> ESP_OK")
    case True
    then show ?thesis using a(2) by (simp add: st'_def sd_mount_unmount_def 1 2 stA_def)
  next
    case False
    then have sA: "stA = (if s_storage st then st2\<lparr>s_storage := False\<rparr> else st)" by (simp add: stA_def)
    show ?thesis
    proof (cases "s_msc_driver_init stA")
      case True
      then have "st' = (if e3 \<noteq> ESP_OK then stB else ?cl)"
        using a(2) 3 False by (cases "s_storage st") (simp_all add: st'_def sd_mount_unmount_def 1 2 sA stB_def)
      then show ?thesis by simp
    next
      case nd: False
      then have "st' = ?cl"
        using a(2) False by (cases "s_storage st") (simp_all add: st'_def sd_mount_unmount_def 1 2 sA stB_def)
      then show ?thesis by simp
    qed
  qed
  have n: "medium (usb_env st) \<noteq> Some TINYUSB_MSC_STORAGE_MOUNT_USB" using ok a(2) by (simp add: holding_ok_def)
  have hA: "holding_ok medium stA" "device_open stA = device_open st" "medium (usb_env stA) \<noteq> Some TINYUSB_MSC_STORAGE_MOUNT_USB"
    using A n ok by (auto simp: holding_ok_def device_open_def)
  have hB: "holding_ok medium stB" "device_open stB = device_open st" "medium (usb_env stB) \<noteq> Some TINYUSB_MSC_STORAGE_MOUNT_USB"
    using hA B(3) holding_simps[OF B(2)] by (auto simp: holding_ok_def device_open_def calm_def)
  have hC: "holding_ok medium ?cl" "\<not> device_open ?cl" "medium (usb_env ?cl) \<noteq> Some TINYUSB_MSC_STORAGE_MOUNT_USB"
    using hB cl(3) holding_simps[OF cl(2)] by (auto simp: holding_ok_def device_open_def calm_def)
  have all: "ownership st' = ownership st \<and> host_io (usb_env st') = host_io (usb_env st) \<and> holding_ok medium st' \<and>
      (device_open st' \<longrightarrow> device_open st) \<and> medium (usb_env st') \<noteq> Some TINYUSB_MSC_STORAGE_MOUNT_USB \<and>
      (s_mounted st' \<longrightarrow> s_mounted st)"
    using r hA hB hC A(1-3) B(1,3) holding_simps(2)[OF B(2)] cl(1,3) holding_simps(2)[OF cl(2)]
    by (elim disjE) (simp_all add: calm_def)
  then show "ownership st' = ownership st" "host_io (usb_env st') = host_io (usb_env st)" "holding_ok medium st'"
    "device_open st' \<longrightarrow> device_open st" "medium (usb_env st') \<noteq> Some TINYUSB_MSC_STORAGE_MOUNT_USB"
    "s_mounted st' \<longrightarrow> s_mounted st" by blast+
qed


lemma on_env_still:
  assumes "on_env f st = (e, st')" "\<And>u e u'. f u = (e, u') \<Longrightarrow> calm medium host_io u u'"
  shows "still medium host_io st st'"
  using on_env_calm[OF assms] by (simp add: still_def)

lemma still_updates [simp]:
  "still medium host_io st (st'\<lparr>s_bus_init := b\<rparr>) = still medium host_io st st'"
  "still medium host_io st (st'\<lparr>s_sdspi_init := b\<rparr>) = still medium host_io st st'"
  "still medium host_io st (st'\<lparr>s_device_init := b\<rparr>) = still medium host_io st st'"
  "still medium host_io st (st'\<lparr>s_msc_driver_init := b\<rparr>) = still medium host_io st st'"
  "still medium host_io st (st'\<lparr>card := w\<rparr>) = still medium host_io st st'"
  by (simp_all add: still_def)

lemma raw_cleanup_still:
  assumes "usb_contract api medium host_io" "still medium host_io st st'"
  shows "still medium host_io st (sd_mount_raw_cleanup api st')"
  using still_trans[OF assms(2)] raw_cleanup_calm[OF assms(1), of st'] by (simp add: still_def)

lemma install_msc_driver_still:
  assumes "usb_contract api medium host_io" "sd_mount_install_msc_driver api st = (e, st')"
  shows "still medium host_io st st'"
proof -
  obtain e1 st1 where 1: "on_env (tinyusb_msc_install_driver api TerminalCallback) st = (e1, st1)" by fastforce
  show ?thesis using on_env_still[OF 1 usb_contract_calm(8)[OF assms(1)]] assms(2)
    by (auto simp: sd_mount_install_msc_driver_def 1 split: if_splits)
qed

lemma still_facts:
  assumes "still medium host_io st st'"
  shows "ownership st' = ownership st" "host_io (usb_env st') = host_io (usb_env st)"
    "medium (usb_env st') = medium (usb_env st)" "s_storage st' = s_storage st" "s_mounted st' = s_mounted st"
    "s_usb_release_requested st' = s_usb_release_requested st" "s_device_fs_released st' = s_device_fs_released st"
    "holding_ok medium st' = holding_ok medium st" "device_open st' = device_open st"
    "s_transfer_authorized st' = s_transfer_authorized st"
  using assms holding_simps[of st' st]
  by (simp_all add: still_def calm_def holding_ok_def device_open_def authorized_ownership)

text \<open>Mounting never hands the card to USB.\<close>

definition mounts_safely ::
    "('u \<Rightarrow> tinyusb_msc_mount_point_t option) \<Rightarrow> ('u \<Rightarrow> 'i) \<Rightarrow> ('u, 's, 'c) usb_msc_t \<Rightarrow> ('u, 's, 'c) usb_msc_t \<Rightarrow> bool" where
  "mounts_safely medium host_io st st' \<longleftrightarrow>
     ownership st' = ownership st \<and> host_io (usb_env st') = host_io (usb_env st) \<and> holding_ok medium st' \<and>
     (medium (usb_env st') = Some TINYUSB_MSC_STORAGE_MOUNT_USB \<longrightarrow>
        medium (usb_env st) = Some TINYUSB_MSC_STORAGE_MOUNT_USB)"

lemma still_mounts_safely: "still medium host_io st st' \<Longrightarrow> holding_ok medium st \<Longrightarrow> mounts_safely medium host_io st st'"
  using still_facts[of medium host_io st st'] by (simp add: mounts_safely_def)

lemma create_storage_effect:
  assumes c: "usb_contract api medium host_io" and a: "\<not> s_transfer_authorized st" and n: "\<not> s_storage st"
    and run: "sd_mount_create_storage api usb_storage_event_cb m st = (e, st')"
  shows "ownership st' = ownership st" "host_io (usb_env st') = host_io (usb_env st)"
    "s_mounted st' = s_mounted st" "s_usb_release_requested st' = s_usb_release_requested st"
    "s_device_fs_released st' = s_device_fs_released st"
    "e \<noteq> ESP_OK \<Longrightarrow> still medium host_io st st'"
    "e = ESP_OK \<Longrightarrow> s_storage st' \<and> medium (usb_env st') = Some m"
proof -
  obtain e1 st1 where 1: "on_storage usb_storage_event_cb (tinyusb_msc_new_storage_sdmmc api m) st = (e1, st1)" by fastforce
  note q = on_storage_quiet[OF 1 a]
  note d = usb_contract_storage(1)[OF c]
  have all: "ownership st' = ownership st \<and> host_io (usb_env st') = host_io (usb_env st) \<and>
    s_mounted st' = s_mounted st \<and> s_usb_release_requested st' = s_usb_release_requested st \<and>
    s_device_fs_released st' = s_device_fs_released st \<and> (e \<noteq> ESP_OK \<longrightarrow> still medium host_io st st') \<and>
    (e = ESP_OK \<longrightarrow> s_storage st' \<and> medium (usb_env st') = Some m)"
    using run q(1,3) d holding_simps[OF q(2)] n
    by (auto simp: sd_mount_create_storage_def 1 still_def calm_def holding_def split: if_splits)
  then show "ownership st' = ownership st" "host_io (usb_env st') = host_io (usb_env st)"
    "s_mounted st' = s_mounted st" "s_usb_release_requested st' = s_usb_release_requested st"
    "s_device_fs_released st' = s_device_fs_released st"
    "e \<noteq> ESP_OK \<Longrightarrow> still medium host_io st st'"
    "e = ESP_OK \<Longrightarrow> s_storage st' \<and> medium (usb_env st') = Some m" by blast+
qed


lemma recordings_effect:
  assumes c: "usb_contract api medium host_io" and a: "\<not> s_transfer_authorized st" and ok: "holding_ok medium st"
    and run: "sd_mount_recordings api usb_storage_event_cb st = (e, st')"
  shows "mounts_safely medium host_io st st'" "s_mounted st \<Longrightarrow> still medium host_io st st'"
proof -
  show m: "s_mounted st \<Longrightarrow> still medium host_io st st'"
    using run by (auto simp: sd_mount_recordings_def sd_mount_is_mounted_def split: prod.splits)
  show "mounts_safely medium host_io st st'"
  proof (cases "s_mounted st \<or> s_storage st")
    case True
    then have "still medium host_io st st'"
      using m run by (cases "s_mounted st") (simp_all add: sd_mount_recordings_def sd_mount_is_mounted_def)
    then show ?thesis using still_mounts_safely ok by blast
  next
    case False
    obtain e1 s1 where 1: "on_env (spi_bus_initialize api) st = (e1, s1)" by fastforce
    obtain e2 s2 where 2: "on_env (sdspi_host_init api) (s1\<lparr>s_bus_init := True\<rparr>) = (e2, s2)" by fastforce
    obtain e3 s3 where 3: "on_env (sdspi_host_init_device api) (s2\<lparr>s_sdspi_init := True\<rparr>) = (e3, s3)" by fastforce
    obtain e4 s4 where 4: "on_env (sdmmc_card_init api) (s3\<lparr>s_device_init := True\<rparr>) = (e4, s4)" by fastforce
    obtain e5 s5 where 5: "sd_mount_install_msc_driver api s4 = (e5, s5)" by fastforce
    obtain e6 s6 where 6: "sd_mount_create_storage api usb_storage_event_cb TINYUSB_MSC_STORAGE_MOUNT_APP s5 = (e6, s6)"
      by fastforce
    obtain e7 s7 where 7: "on_env (tinyusb_msc_uninstall_driver api) s6 = (e7, s7)" by fastforce
    define sM where "sM = s6\<lparr>s_mounted := True, s_usb_release_requested := False, s_device_fs_released := False\<rparr>"
    obtain e8 w8 where 8: "ensure_recording_dirs (card sM) = (e8, w8)" by fastforce
    have dirs: "ensure_recording_dirs (card s6) = (e8, w8)" using 8 by (simp add: sM_def)
    let ?cl = "\<lambda>x. sd_mount_raw_cleanup api x"
    have k1: "still medium host_io st s1" by (rule on_env_still[OF 1 usb_contract_calm(1)[OF c]])
    have k2: "still medium host_io st s2" using still_trans[OF _ on_env_still[OF 2 usb_contract_calm(3)[OF c]]] k1 by simp
    have k3: "still medium host_io st s3" using still_trans[OF _ on_env_still[OF 3 usb_contract_calm(5)[OF c]]] k2 by simp
    have k4: "still medium host_io st s4" using still_trans[OF _ on_env_still[OF 4 usb_contract_calm(7)[OF c]]] k3 by simp
    have k5: "still medium host_io st s5" using still_trans[OF k4 install_msc_driver_still[OF c 5]] .
    have a5: "\<not> s_transfer_authorized s5" "\<not> s_storage s5" using still_facts[OF k5] a False by simp_all
    note k6 = create_storage_effect[OF c a5 6]
    have k6e: "still medium host_io st s6" if "e6 \<noteq> ESP_OK" using still_trans[OF k5 k6(6)[OF that]] .
    have k7: "still medium host_io st s7" if "e6 \<noteq> ESP_OK"
      using still_trans[OF k6e[OF that] on_env_still[OF 7 usb_contract_calm(9)[OF c]]] .
    have M: "ownership sM = ownership st" "host_io (usb_env sM) = host_io (usb_env st)"
      "e6 = ESP_OK \<longrightarrow> holding_ok medium sM" "e6 = ESP_OK \<longrightarrow> medium (usb_env sM) = Some TINYUSB_MSC_STORAGE_MOUNT_APP"
      "\<not> s_usb_release_requested sM" "\<not> s_transfer_authorized sM"
      using k6(1,2,7) still_facts(1,2)[OF k5] a by (auto simp: sM_def holding_ok_def authorized_ownership)
    consider (early) x where "still medium host_io st x" "st' = x \<or> st' = ?cl x"
      | (mounted) "e6 = ESP_OK" "st' = sM\<lparr>card := w8\<rparr>"
      | (undone) "e6 = ESP_OK" "st' = sd_mount_unmount api usb_storage_event_cb (sM\<lparr>card := w8\<rparr>)"
    proof (cases "e1 = ESP_OK \<and> e2 = ESP_OK \<and> e3 = ESP_OK \<and> e4 = ESP_OK \<and> e5 = ESP_OK")
      case True
      show thesis
      proof (cases "e6 = ESP_OK")
        case ok6: True
        then show thesis using run False True mounted undone
          by (cases "e8 = ESP_OK")
            (simp_all add: sd_mount_recordings_def sd_mount_is_mounted_def Let_def 1 2 3 4 5 6 dirs sM_def)
      next
        case no6: False
        then have "st' = ?cl (s7\<lparr>s_msc_driver_init := False\<rparr>)" using run False True
          by (simp add: sd_mount_recordings_def sd_mount_is_mounted_def Let_def 1 2 3 4 5 6 7)
        then show thesis using k7[OF no6] by (intro early[of "s7\<lparr>s_msc_driver_init := False\<rparr>"]) simp_all
      qed
    next
      case no: False
      note run' = run[unfolded sd_mount_recordings_def sd_mount_is_mounted_def Let_def]
      consider "e1 \<noteq> ESP_OK" | "e1 = ESP_OK" "e2 \<noteq> ESP_OK" | "e1 = ESP_OK" "e2 = ESP_OK" "e3 \<noteq> ESP_OK"
        | "e1 = ESP_OK" "e2 = ESP_OK" "e3 = ESP_OK" "e4 \<noteq> ESP_OK"
        | "e1 = ESP_OK" "e2 = ESP_OK" "e3 = ESP_OK" "e4 = ESP_OK" "e5 \<noteq> ESP_OK" using no by blast
      then show thesis
      proof cases
        case a: 1
        then show thesis using run' False by (intro early[OF k1]) (simp add: 1)
      next
        case a: 2
        then show thesis using run' False by (intro early[OF k2]) (simp add: 1 2)
      next
        case a: 3
        then show thesis using run' False by (intro early[OF k3]) (simp add: 1 2 3)
      next
        case a: 4
        then show thesis using run' False by (intro early[OF k4]) (simp add: 1 2 3 4)
      next
        case a: 5
        then show thesis using run' False by (intro early[OF k5]) (simp add: 1 2 3 4 5)
      qed
    qed
    then show ?thesis
    proof cases
      case early
      then have "still medium host_io st st'" using raw_cleanup_still[OF c, of st x] by auto
      then show ?thesis using still_mounts_safely ok by blast
    next
      case mounted
      then show ?thesis using M by (simp add: mounts_safely_def holding_ok_def)
    next
      case undone
      have h: "\<not> s_transfer_authorized (sM\<lparr>card := w8\<rparr>)" "\<not> s_usb_release_requested (sM\<lparr>card := w8\<rparr>)"
        "holding_ok medium (sM\<lparr>card := w8\<rparr>)"
        using M undone(1) by (simp_all add: holding_ok_def)
      from unmount_effect[OF c h] M show ?thesis by (simp add: mounts_safely_def undone(2))
    qed
  qed
qed

section \<open>Handing over and taking back\<close>

definition completes :: "msc_invocation list \<Rightarrow> bool" where
  \<comment> \<open>the ownership callback saw the storage go to USB\<close>
  "completes evs \<longleftrightarrow> list_ex (\<lambda>(cb, ev). cb = OwnershipCallback \<and> (case ev of None \<Rightarrow> False | Some e \<Rightarrow>
     event_id e = TINYUSB_MSC_EVENT_MOUNT_COMPLETE \<and> event_mount_point e = TINYUSB_MSC_STORAGE_MOUNT_USB)) evs"

text \<open>What a publication leaves when the callback was entitled to take the card.\<close>

definition taken :: "bool \<Rightarrow> ('u, 's, 'c) usb_msc_t \<Rightarrow> ('u, 's, 'c) usb_msc_t \<Rightarrow> bool" where
  "taken b st st' \<longleftrightarrow>
     ownership (st'\<lparr>s_storage_usb_owned := False\<rparr>) = ownership (st\<lparr>s_storage_usb_owned := False\<rparr>) \<and>
     s_storage_usb_owned st' = (s_storage_usb_owned st \<or> b) \<and> s_mounted st' = (s_mounted st \<and> \<not> b) \<and>
     s_storage st' = s_storage st \<and> s_usb_release_requested st' = s_usb_release_requested st \<and>
     s_device_fs_released st' = s_device_fs_released st \<and> usb_env st' = usb_env st"

lemma storage_event_taken:
  assumes "s_transfer_authorized st" "s_usb_release_requested st" "s_device_fs_released st" "s_usb_events st \<noteq> None"
  shows "taken (completes [(OwnershipCallback, ev)]) st (usb_storage_event_cb ev st)"
    "s_usb_events (usb_storage_event_cb ev st) \<noteq> None"
  using assms
  by (auto simp: taken_def completes_def usb_storage_event_cb_def sd_mount_note_usb_owned_def usb_fail_def set_bits_def
      ownership_def split: option.splits)


lemma taken_trans: "taken b st st1 \<Longrightarrow> taken b' st1 st2 \<Longrightarrow> taken (b \<or> b') st st2"
  by (auto simp: taken_def)

lemma taken_ownership:
  assumes "taken b st st'"
  shows "s_transfer_authorized st' = s_transfer_authorized st" "nvs_of st' = nvs_of st"
    "s_initialized st' = s_initialized st" "s_host_owned st' = s_host_owned st"
    "s_release_pending st' = s_release_pending st" "s_release_waiting_response st' = s_release_waiting_response st"
    "s_release_attempt_id st' = s_release_attempt_id st" "s_wav_finalized st' = s_wav_finalized st"
    "s_manifest_committed st' = s_manifest_committed st" "fs_release_proof st' = fs_release_proof st"
  using assms by (simp_all add: taken_def ownership_def)

lemma deliver_taken:
  assumes "s_transfer_authorized st" "s_usb_release_requested st" "s_device_fs_released st" "s_usb_events st \<noteq> None"
  shows "taken (completes evs) st (deliver usb_storage_event_cb evs st)"
  using assms
proof (induction evs arbitrary: st)
  case Nil
  then show ?case by (simp add: deliver_def taken_def completes_def)
next
  case (Cons x evs)
  obtain cb ev where x: "x = (cb, ev)" by fastforce
  let ?st = "case cb of TerminalCallback \<Rightarrow> st | OwnershipCallback \<Rightarrow> usb_storage_event_cb ev st"
  have d: "deliver usb_storage_event_cb (x # evs) st = deliver usb_storage_event_cb evs ?st"
    by (cases cb) (simp_all add: deliver_def x sd_mount_terminal_storage_event_def)
  have t: "taken (completes [x]) st ?st" "s_usb_events ?st \<noteq> None"
    using storage_event_taken[OF Cons.prems, of ev] Cons.prems by (cases cb; simp add: x completes_def taken_def)+
  then have h: "s_transfer_authorized ?st" "s_usb_release_requested ?st" "s_device_fs_released ?st"
    using Cons.prems taken_ownership(1)[OF t(1)] by (simp_all add: taken_def)
  have "completes (x # evs) = (completes [x] \<or> completes evs)" by (simp add: completes_def)
  with taken_trans[OF t(1) Cons.IH[OF h t(2)]] show ?case unfolding d by simp
qed

lemma transfer_effect:
  assumes c: "usb_contract api medium host_io" and a: "s_transfer_authorized st" "s_usb_events st \<noteq> None"
    and run: "sd_mount_transfer_to_usb api usb_storage_event_cb st = (e, st')"
  obtains (refused) "st' = st" "e \<noteq> ESP_OK"
  | (switched) b u where "s_mounted st" "s_usb_release_requested st" "s_device_fs_released st" "s_storage st"
      "taken b (st\<lparr>usb_env := u\<rparr>) st'" "host_io u = host_io (usb_env st)"
      "medium u \<in> {medium (usb_env st), Some TINYUSB_MSC_STORAGE_MOUNT_USB}"
      "b \<longrightarrow> medium u = Some TINYUSB_MSC_STORAGE_MOUNT_USB"
proof (cases "s_mounted st \<and> s_usb_release_requested st \<and> s_device_fs_released st \<and> s_storage st")
  case False
  then show thesis using run by (intro refused) (auto simp: sd_mount_transfer_to_usb_def Let_def split: if_splits)
next
  case True
  obtain evs e' u where r: "tinyusb_msc_set_storage_mount_point api TINYUSB_MSC_STORAGE_MOUNT_USB (usb_env st) = (evs, e', u)"
    by (metis prod_cases3)
  let ?st = "deliver usb_storage_event_cb evs (st\<lparr>usb_env := u\<rparr>)"
  have s: "st' = ?st" using run True
    by (auto simp: sd_mount_transfer_to_usb_def Let_def on_storage_def r split: if_splits)
  have t: "taken (completes evs) (st\<lparr>usb_env := u\<rparr>) st'" using deliver_taken[of "st\<lparr>usb_env := u\<rparr>" evs] a True s by simp
  note d = usb_contract_storage(3)[OF c r]
  have "completes evs \<longrightarrow> medium u = Some TINYUSB_MSC_STORAGE_MOUNT_USB"
  proof
    assume "completes evs"
    then obtain cb e where "(cb, Some e) \<in> set evs" "event_id e = TINYUSB_MSC_EVENT_MOUNT_COMPLETE"
      "event_mount_point e = TINYUSB_MSC_STORAGE_MOUNT_USB"
      unfolding completes_def list_ex_iff by (auto split: option.splits)
    then show "medium u = Some TINYUSB_MSC_STORAGE_MOUNT_USB" using d by metis
  qed
  with switched[of "completes evs" u] t d True show thesis by simp
qed

lemma release_usb_storage_effect:
  assumes c: "usb_contract api medium host_io" and a: "\<not> s_transfer_authorized st"
    and run: "sd_mount_release_usb_storage api usb_storage_event_cb st = (e, st')"
  shows "ownership st' = ownership st" "host_io (usb_env st') = host_io (usb_env st)"
    "s_mounted st' = s_mounted st" "s_usb_release_requested st' = s_usb_release_requested st"
    "s_device_fs_released st' = s_device_fs_released st" "holding_ok medium st \<Longrightarrow> holding_ok medium st'"
    "s_storage st' = s_storage st \<and> medium (usb_env st') = medium (usb_env st) \<or>
     \<not> s_storage st' \<and> medium (usb_env st') = None"
    "e = ESP_OK \<Longrightarrow> medium (usb_env st') = None"
proof -
  obtain e1 s1 where 1: "on_storage usb_storage_event_cb (tinyusb_msc_delete_storage api) st = (e1, s1)" by fastforce
  obtain e2 s2 where 2: "on_env (tinyusb_msc_uninstall_driver api) (s1\<lparr>s_storage := False\<rparr>) = (e2, s2)" by fastforce
  note q = on_storage_quiet[OF 1 a]
  note d = usb_contract_storage(2)[OF c]
  note u = still_facts[OF on_env_still[OF 2 usb_contract_calm(9)[OF c]]]
  consider (no) "st' = st" "e \<noteq> ESP_OK" | (kept) "st' = s1" "e1 \<noteq> ESP_OK" "e \<noteq> ESP_OK"
    | (gone) b where "e1 = ESP_OK" "st' = s2 \<or> st' = s2\<lparr>s_msc_driver_init := b\<rparr>"
  proof (cases "\<not> s_mounted st \<and> s_usb_release_requested st \<and> s_device_fs_released st \<and> s_storage st \<and> s_msc_driver_init st")
    case False
    then show thesis using run by (intro no) (auto simp: sd_mount_release_usb_storage_def Let_def)
  next
    case True
    note g = True
    show thesis
    proof (cases "e1 = ESP_OK")
      case True
      then show thesis using run g
        by (intro gone[of False]) (simp_all add: sd_mount_release_usb_storage_def Let_def 1 2 split: if_splits)
    next
      case False
      then show thesis using run g by (intro kept) (simp_all add: sd_mount_release_usb_storage_def Let_def 1)
    qed
  qed
  then have "ownership st' = ownership st \<and> host_io (usb_env st') = host_io (usb_env st) \<and>
    s_mounted st' = s_mounted st \<and> s_usb_release_requested st' = s_usb_release_requested st \<and>
    s_device_fs_released st' = s_device_fs_released st \<and>
    (s_storage st' = s_storage st \<and> medium (usb_env st') = medium (usb_env st) \<or>
     \<not> s_storage st' \<and> medium (usb_env st') = None) \<and> (e = ESP_OK \<longrightarrow> medium (usb_env st') = None)"
  proof cases
    case kept
    then show ?thesis using q(1,3) holding_simps[OF q(2)] d by auto
  next
    case gone
    have "ownership s2 = ownership st" "host_io (usb_env s2) = host_io (usb_env st)" "s_mounted s2 = s_mounted st"
      "s_usb_release_requested s2 = s_usb_release_requested st" "s_device_fs_released s2 = s_device_fs_released st"
      "\<not> s_storage s2" "medium (usb_env s2) = None"
      using q(1,3) holding_simps[OF q(2)] d u(1-7) gone(1) by auto
    then show ?thesis using gone(2) by auto
  qed simp
  then show "ownership st' = ownership st" "host_io (usb_env st') = host_io (usb_env st)"
    "s_mounted st' = s_mounted st" "s_usb_release_requested st' = s_usb_release_requested st"
    "s_device_fs_released st' = s_device_fs_released st" "holding_ok medium st \<Longrightarrow> holding_ok medium st'"
    "s_storage st' = s_storage st \<and> medium (usb_env st') = medium (usb_env st) \<or>
     \<not> s_storage st' \<and> medium (usb_env st') = None"
    "e = ESP_OK \<Longrightarrow> medium (usb_env st') = None"
    by (auto simp: holding_ok_def)
qed


section \<open>What the callbacks and the trace do\<close>

text \<open>The only ownership change of a callback outside a publication is the second configuration by the host.\<close>

definition promoted ::
    "('u \<Rightarrow> tinyusb_msc_mount_point_t option) \<Rightarrow> ('u \<Rightarrow> 'i) \<Rightarrow> ('u, 's, 'c) usb_msc_t \<Rightarrow> ('u, 's, 'c) usb_msc_t \<Rightarrow> bool" where
  "promoted medium host_io st st' \<longleftrightarrow> still medium host_io st st' \<or>
     s_storage_usb_owned st \<and> still medium host_io (st\<lparr>s_host_owned := True\<rparr>) st'"

lemma trace_simps [simp]:
  "ownership (usb_scsi_trace_mark_dirty st) = ownership st" "holding (usb_scsi_trace_mark_dirty st) = holding st"
  "usb_env (usb_scsi_trace_mark_dirty st) = usb_env st"
  "ownership (usb_scsi_trace_begin_session st) = ownership st" "holding (usb_scsi_trace_begin_session st) = holding st"
  "usb_env (usb_scsi_trace_begin_session st) = usb_env st"
  "ownership (usb_scsi_trace_note_start_stop_request p b e st) = ownership st"
  "holding (usb_scsi_trace_note_start_stop_request p b e st) = holding st"
  "usb_env (usb_scsi_trace_note_start_stop_request p b e st) = usb_env st"
  by (simp_all add: usb_scsi_trace_mark_dirty_def usb_scsi_trace_begin_session_def
      usb_scsi_trace_note_start_stop_request_def Let_def ownership_def holding_def)

lemma note_command_simps [simp]:
  "ownership (usb_scsi_trace_note_command_complete cmd st) = ownership st"
  "holding (usb_scsi_trace_note_command_complete cmd st) = holding st"
  "usb_env (usb_scsi_trace_note_command_complete cmd st) = usb_env st"
  by (auto simp: usb_scsi_trace_note_command_complete_def usb_scsi_trace_mark_dirty_def Let_def ownership_def holding_def
      split: option.splits)

lemma flag_simps [simp]:
  "ownership (st\<lparr>s_provisional_attached := b\<rparr>) = ownership st" "holding (st\<lparr>s_provisional_attached := b\<rparr>) = holding st"
  "ownership (st\<lparr>s_prepare_disconnected := b\<rparr>) = ownership st" "holding (st\<lparr>s_prepare_disconnected := b\<rparr>) = holding st"
  "ownership (st\<lparr>s_publish_triggered := b\<rparr>) = ownership st" "holding (st\<lparr>s_publish_triggered := b\<rparr>) = holding st"
  "ownership (st\<lparr>s_host_session_detached := b\<rparr>) = ownership st" "holding (st\<lparr>s_host_session_detached := b\<rparr>) = holding st"
  "ownership (st\<lparr>cutoff_ctx := x\<rparr>) = ownership st" "holding (st\<lparr>cutoff_ctx := x\<rparr>) = holding st"
  "ownership (st\<lparr>s_starting := b\<rparr>) = ownership st" "holding (st\<lparr>s_starting := b\<rparr>) = holding st"
  "ownership (st\<lparr>s_started := b\<rparr>) = ownership st" "holding (st\<lparr>s_started := b\<rparr>) = holding st"
  "ownership (st\<lparr>s_physical_session_cutoff := f\<rparr>) = ownership st"
  "holding (st\<lparr>s_physical_session_cutoff := f\<rparr>) = holding st"
  "holding (st\<lparr>s_host_owned := b\<rparr>) = holding st"
  by (simp_all add: ownership_def holding_def)

lemma disconnect_still:
  assumes "usb_contract api medium host_io" shows "still medium host_io st (disconnect_and_fail api st)"
proof -
  obtain b u where d: "tud_disconnect api (usb_env st) = (b, u)" by fastforce
  show ?thesis using usb_contract_calm(14)[OF assms d] by (simp add: disconnect_and_fail_def still_def d)
qed

lemma attached_promoted:
  assumes "usb_contract api medium host_io" shows "promoted medium host_io st (device_attached api st)"
  using disconnect_still[OF assms, of st]
  by (simp add: device_attached_def promoted_def still_def calm_def)

lemma detached_still: "still medium host_io st (device_detached st)"
  by (simp add: device_detached_def Let_def still_def calm_def split: option.splits)

lemma scsi_complete_still: "still medium host_io st (tud_msc_scsi_complete_cb cmd st)"
  by (simp add: tud_msc_scsi_complete_cb_def usb_note_initial_msc_command_complete_def Let_def still_def calm_def
      split: option.splits)

lemma invoke_promoted:
  assumes "usb_contract api medium host_io" shows "promoted medium host_io st (usb_invoke api x st)"
proof (cases x)
  case (DeviceEvent ev)
  then show ?thesis using attached_promoted[OF assms, of st] detached_still[of medium host_io st]
    by (simp add: usb_device_event_cb_def promoted_def split: option.splits)
next
  case (ScsiComplete lun cmd)
  then show ?thesis using scsi_complete_still[of medium host_io st cmd] by (simp add: promoted_def)
qed

lemma invocations_still:
  assumes "usb_contract api medium host_io" "\<not> s_storage_usb_owned st"
  shows "still medium host_io st (fold (usb_invoke api) xs st)"
  using assms(2)
proof (induction xs arbitrary: st)
  case (Cons x xs)
  have 1: "still medium host_io st (usb_invoke api x st)"
    using invoke_promoted[OF assms(1), of st x] Cons.prems by (simp add: promoted_def)
  then have "\<not> s_storage_usb_owned (usb_invoke api x st)" using Cons.prems by (simp add: still_def ownership_def)
  from still_trans[OF 1 Cons.IH[OF this]] show ?case by simp
qed simp

lemma start_still:
  assumes "usb_contract api medium host_io" "usb_msc_ownership_start api st = (e, st')"
  shows "still medium host_io st st'"
proof -
  obtain evs e1 u where i: "tinyusb_driver_install api (usb_env st) = (evs, e1, u)" by (metis prod_cases3)
  let ?s0 = "st\<lparr>s_starting := True, usb_env := u\<rparr>"
  have k: "still medium host_io st ?s0" using usb_contract_calm(15)[OF assms(1) i]
    by (simp add: still_def ownership_def holding_def)
  have "still medium host_io st (fold (usb_invoke api) evs ?s0)" if "\<not> s_storage_usb_owned st"
    using still_trans[OF k invocations_still[OF assms(1)]] that by simp
  then show ?thesis using assms(2) i
    by (auto simp: usb_msc_ownership_start_def Let_def still_def split: if_splits)
qed

lemma trace_sets_frame:
  assumes nvs: "nvs_contract nvs stored staged"
    and run: "fold (\<lambda>(k, v). trace_set_u8 nvs k v) kvs (e, s) = (e', s')" and keys: "\<forall>x \<in> set kvs. fst x \<noteq> k_key"
    and st: "e = ESP_OK \<longrightarrow> (\<forall>u \<in> set (staged s). fst u = k_namespace \<and> fst (snd u) \<noteq> k_key)"
  shows "stored s' k_namespace k_key = stored s k_namespace k_key"
    "e' = ESP_OK \<longrightarrow> (\<forall>u \<in> set (staged s'). fst u = k_namespace \<and> fst (snd u) \<noteq> k_key)"
proof -
  have "stored s' k_namespace k_key = stored s k_namespace k_key \<and>
    (e' = ESP_OK \<longrightarrow> (\<forall>u \<in> set (staged s'). fst u = k_namespace \<and> fst (snd u) \<noteq> k_key))"
    using run keys st
  proof (induction kvs arbitrary: e s)
    case (Cons x kvs)
    obtain k v where x: "x = (k, v)" by fastforce
    obtain e1 s1 where t: "trace_set_u8 nvs k v (e, s) = (e1, s1)" by fastforce
    have 1: "stored s1 k_namespace k_key = stored s k_namespace k_key \<and>
      (e1 = ESP_OK \<longrightarrow> (\<forall>u \<in> set (staged s1). fst u = k_namespace \<and> fst (snd u) \<noteq> k_key))"
    proof (cases "e = ESP_OK")
      case True
      then have n: "nvs_set nvs k_namespace k (NvsU8 (usb_scsi_trace_u8 v)) s = (e1, s1)"
        using t by (simp add: trace_set_u8_def k_namespace_def)
      show ?thesis using nvs_contract_set[OF nvs n] Cons.prems(2,3) True
        by (auto simp: x flash_or_def flash_put_def)
    qed (use t in \<open>simp add: trace_set_u8_def\<close>)
    have "fold (\<lambda>(k, v). trace_set_u8 nvs k v) kvs (e1, s1) = (e', s')" using Cons.prems(1) by (simp add: x t)
    from Cons.IH[OF this] 1 Cons.prems(2) show ?case by simp
  qed simp
  then show "stored s' k_namespace k_key = stored s k_namespace k_key"
    "e' = ESP_OK \<longrightarrow> (\<forall>u \<in> set (staged s'). fst u = k_namespace \<and> fst (snd u) \<noteq> k_key)" by blast+
qed

definition only_nvs :: "('u, 's, 'c) usb_msc_t \<Rightarrow> ('u, 's, 'c) usb_msc_t \<Rightarrow> bool" where
  "only_nvs st st' \<longleftrightarrow> ownership (st'\<lparr>nvs_of := nvs_of st\<rparr>) = ownership st \<and> holding st' = holding st \<and>
     usb_env st' = usb_env st"

lemma only_nvs_updates [simp]:
  "only_nvs st st" "only_nvs st (st\<lparr>nvs_of := w\<rparr>)" "only_nvs st (st\<lparr>nvs_of := w, s_trace_flushed_seq := q\<rparr>)"
  by (simp_all add: only_nvs_def ownership_def holding_def)

lemma flush_effect:
  assumes nvs: "nvs_contract nvs stored staged" and run: "usb_msc_ownership_flush_scsi_trace nvs st = (e, st')"
  shows "only_nvs st st'" "armed_entry stored (nvs_of st') = armed_entry stored (nvs_of st)"
proof -
  obtain e0 n s0 where l: "recorder_nvs_lock nvs (nvs_of st) = (e0, (n, s0))" by (metis prod_cases3)
  obtain e1 s1 where o1: "nvs_open_rw nvs ''m5daylog'' s0 = (e1, s1)" by fastforce
  obtain e2 s2 where f: "fold (\<lambda>(k, v). trace_set_u8 nvs k v) (trace_values st) (e1, s1) = (e2, s2)" by fastforce
  obtain e3 s3 where c: "(if e2 = ESP_OK then nvs_commit nvs ''m5daylog'' s2 else (e2, s2)) = (e3, s3)" by fastforce
  have m: "''m5daylog'' = k_namespace" by (simp add: k_namespace_def)
  have keys: "\<forall>x \<in> set (trace_values st). fst x \<noteq> k_key" by (simp add: trace_values_def k_key_def)
  have d: "stored s0 = on_flash stored (nvs_of st)" "stored s1 = stored s0"
    using recorder_nvs_lock_stored[OF nvs l] nvs_contract_sem(7)[OF nvs o1] by simp_all
  have sg: "e1 = ESP_OK \<longrightarrow> (\<forall>u \<in> set (staged s1). fst u = k_namespace \<and> fst (snd u) \<noteq> k_key)"
    using nvs_contract_sem(10)[OF nvs, of "''m5daylog''" s0 s1] o1 by auto
  note fr = trace_sets_frame[OF nvs f keys sg]
  have cm: "stored s3 k_namespace k_key = stored s2 k_namespace k_key"
  proof (cases "e2 = ESP_OK")
    case True
    then have cc: "nvs_commit nvs k_namespace s2 = (e3, s3)" using c m by simp
    have "flash_within (staged s2) (stored s2) (stored s3)" using nvs_contract_commits(1)[OF nvs cc] fr(2) True by blast
    from flash_within_frame[OF this] show ?thesis using fr(2) True by auto
  qed (use c in simp)
  note unl = recorder_nvs_unlock_stored[OF nvs] nvs_contract_sem(8)[OF nvs]
  let ?w = "recorder_nvs_unlock nvs (n, nvs_close nvs ''m5daylog'' s3)"
  have W: "armed_entry stored (n, s0) = armed_entry stored (nvs_of st)"
    "armed_entry stored (recorder_nvs_unlock nvs (n, s1)) = armed_entry stored (nvs_of st)"
    "armed_entry stored ?w = armed_entry stored (nvs_of st)"
    using d cm fr(1) unl by (simp_all add: armed_entry_def)
  have "only_nvs st st' \<and> armed_entry stored (nvs_of st') = armed_entry stored (nvs_of st)"
  proof (cases "s_initialized st \<and> s_trace_update_seq st \<noteq> s_trace_flushed_seq st")
    case False
    then have "st' = st" using run
      by (cases "s_initialized st") (simp_all add: usb_msc_ownership_flush_scsi_trace_def Let_def)
    then show ?thesis by simp
  next
    case go: True
    note r = run[unfolded usb_msc_ownership_flush_scsi_trace_def Let_def]
    show ?thesis
    proof (cases "e0 = ESP_OK \<and> e1 = ESP_OK")
      case True
      then have f': "fold (\<lambda>(k, v). trace_set_u8 nvs k v) (trace_values st) (ESP_OK, s1) = (e2, s2)" using f by simp
      have "\<exists>q. st' = st\<lparr>nvs_of := ?w\<rparr> \<or> st' = st\<lparr>nvs_of := ?w, s_trace_flushed_seq := q\<rparr>"
      proof (cases "e2 = ESP_OK")
        case ok2: True
        then have cc: "nvs_commit nvs ''m5daylog'' s2 = (e3, s3)" using c by simp
        show ?thesis using r go True ok2 by (cases "e3 = ESP_OK") (auto simp: l o1 f' cc)
      next
        case bad: False
        then have "s3 = s2" using c by simp
        then show ?thesis using r go True bad by (simp add: l o1 f')
      qed
      then show ?thesis using W(3) by auto
    next
      case False
      then have "st' = st\<lparr>nvs_of := (n, s0)\<rparr> \<or> st' = st\<lparr>nvs_of := recorder_nvs_unlock nvs (n, s1)\<rparr>"
        using r go by (cases "e0 = ESP_OK") (simp_all add: l o1)
      then show ?thesis using W(1,2) by auto
    qed
  qed
  then show "only_nvs st st'" "armed_entry stored (nvs_of st') = armed_entry stored (nvs_of st)" by blast+
qed

end
