(* ===== verification/Usb_Msc_Safety.thy ===== *)
theory Usb_Msc_Safety
  imports Usb_Msc_Frames
begin

text \<open>
  Safety of the hand-over of the card. Every operation and callback of \<open>Sd_Mount\<close> and \<open>Usb_Msc_Ownership\<close>, boots and the
  wake recovery of \<open>Shutdown_Armed\<close> are the steps of one system, in any order the callers allow: \<open>main.c\<close> and
  \<open>task49_runtime.c\<close> mount the card only in a boot that was classified as normal or manual resume and before the ownership
  module is initialized, and report the file system as released only after it is.

  The properties: the card is never open on both sides; the durable marker of an unresolved hand-over is retired only with
  the consent of the host; no media command passes the closed gate.
\<close>

section \<open>The system\<close>

datatype 'i usb_label = Booted | Accepted string 'i | Responded string | Quiesced esp_err_t 'i | Internal

type_synonym ('u, 's, 'c) usb_sys = "task87_wake_recovery_t \<times> shutdown_armed_boot_action_t \<times> ('u, 's, 'c) usb_msc_t"

definition marker :: "('s \<Rightarrow> flash) \<Rightarrow> ('u, 's, 'c) usb_msc_t \<Rightarrow> nvs_value option" where
  "marker stored st = armed_entry stored (nvs_of st)"

definition unresolved :: "('s \<Rightarrow> flash) \<Rightarrow> ('u, 's, 'c) usb_msc_t \<Rightarrow> bool" where
  "unresolved stored st \<longleftrightarrow> marker stored st = Some (NvsU8 2)"

text \<open>Static storage after a reset; the USB stack has no storage object yet.\<close>

definition power_on :: "('u \<Rightarrow> tinyusb_msc_mount_point_t option) \<Rightarrow> ('u, 's, 'c) usb_msc_t \<Rightarrow> bool" where
  "power_on medium st \<longleftrightarrow>
     \<not> s_bus_init st \<and> \<not> s_sdspi_init st \<and> \<not> s_device_init st \<and> \<not> s_msc_driver_init st \<and> \<not> s_storage st \<and>
     \<not> s_mounted st \<and> \<not> s_usb_release_requested st \<and> \<not> s_device_fs_released st \<and> s_usb_events st = None \<and>
     \<not> s_initialized st \<and> \<not> s_starting st \<and> \<not> s_started st \<and> \<not> s_storage_usb_owned st \<and> \<not> s_host_owned st \<and>
     \<not> s_release_pending st \<and> \<not> s_release_waiting_response st \<and> s_release_attempt_id st = [] \<and>
     \<not> s_provisional_attached st \<and> \<not> s_publish_triggered st \<and> \<not> s_prepare_disconnected st \<and>
     \<not> s_transfer_authorized st \<and> \<not> s_host_session_detached st \<and> s_physical_session_cutoff st = None \<and>
     \<not> s_wav_finalized st \<and> \<not> s_manifest_committed st \<and> \<not> fs_release_proof st \<and>
     s_trace_update_seq st = 0 \<and> s_trace_flushed_seq st = 0 \<and> medium (usb_env st) = None"

inductive usb_step ::
    "'u tusb_api \<Rightarrow> 's esp_api \<Rightarrow> (string \<Rightarrow> 's nvs_world \<Rightarrow> esp_err_t \<times> 's nvs_world) option \<Rightarrow> ('s \<Rightarrow> flash) \<Rightarrow>
     ('u \<Rightarrow> tinyusb_msc_mount_point_t option) \<Rightarrow> ('u \<Rightarrow> 'i) \<Rightarrow>
     ('u, 's, 'c) usb_sys \<Rightarrow> 'i usb_label \<Rightarrow> ('u, 's, 'c) usb_sys \<Rightarrow> bool"
  for api nvs rtc_flush stored medium host_io where
  booted: "on_flash stored w1 = on_flash stored (nvs_of st) \<Longrightarrow>
     shutdown_armed_boot_action nvs manual w1 = (err, act, w2) \<Longrightarrow>
     task87_wake_recovery_init (Some r) (act = SHUTDOWN_ARMED_BOOT_MANUAL_RESUME) = Some r' \<Longrightarrow>
     power_on medium st' \<Longrightarrow> nvs_of st' = w2 \<Longrightarrow>
     usb_step api nvs rtc_flush stored medium host_io (r, a, st) Booted (r', act, st')"
| recovered: "task87_wake_recovery_complete_device_recovery nvs rtc_flush (Some r) (Some ev) (nvs_of st) = (err, Some r', w') \<Longrightarrow>
     usb_step api nvs rtc_flush stored medium host_io (r, a, st) Internal (r', a, st\<lparr>nvs_of := w'\<rparr>)"
| started: "task87_wake_recovery_note_recording_started nvs (Some r) fresh (nvs_of st) = (err, Some r', w') \<Longrightarrow>
     usb_step api nvs rtc_flush stored medium host_io (r, a, st) Internal (r', a, st\<lparr>nvs_of := w'\<rparr>)"
| other_nvs: "armed_entry stored w' = marker stored st \<Longrightarrow>
     usb_step api nvs rtc_flush stored medium host_io (r, a, st) Internal (r, a, st\<lparr>nvs_of := w'\<rparr>)"
| files: "device_open st \<Longrightarrow> usb_step api nvs rtc_flush stored medium host_io (r, a, st) Internal (r, a, st\<lparr>card := c\<rparr>)"
| mount: "a \<noteq> SHUTDOWN_ARMED_BOOT_STAY_SHUTDOWN \<Longrightarrow> \<not> s_initialized st \<Longrightarrow>
     sd_mount_recordings api usb_storage_event_cb st = (err, st') \<Longrightarrow>
     usb_step api nvs rtc_flush stored medium host_io (r, a, st) Internal (r, a, st')"
| date_dir: "sd_mount_ensure_date_dir d st = (err, st') \<Longrightarrow>
     usb_step api nvs rtc_flush stored medium host_io (r, a, st) Internal (r, a, st')"
| quarantine_dir: "sd_mount_ensure_quarantine_dir st = (err, st') \<Longrightarrow>
     usb_step api nvs rtc_flush stored medium host_io (r, a, st) Internal (r, a, st')"
| unmount: "usb_step api nvs rtc_flush stored medium host_io (r, a, st) Internal
     (r, a, sd_mount_unmount api usb_storage_event_cb st)"
| release_for_usb: "sd_mount_release_for_usb st = (err, st') \<Longrightarrow>
     usb_step api nvs rtc_flush stored medium host_io (r, a, st) Internal (r, a, st')"
| init: "usb_msc_ownership_init api st = (err, st') \<Longrightarrow>
     usb_step api nvs rtc_flush stored medium host_io (r, a, st) Internal (r, a, st')"
| cutoff: "usb_msc_ownership_set_physical_session_cutoff f st = (err, st') \<Longrightarrow>
     usb_step api nvs rtc_flush stored medium host_io (r, a, st) Internal (r, a, st')"
| start: "usb_msc_ownership_start api st = (err, st') \<Longrightarrow>
     usb_step api nvs rtc_flush stored medium host_io (r, a, st) Internal (r, a, st')"
| wait: "usb_msc_ownership_wait_event st = (ev, st') \<Longrightarrow>
     usb_step api nvs rtc_flush stored medium host_io (r, a, st) Internal (r, a, st')"
| prepare: "usb_msc_ownership_begin_prepare api st = (err, st') \<Longrightarrow>
     usb_step api nvs rtc_flush stored medium host_io (r, a, st) Internal (r, a, st')"
| publish: "(fs \<Longrightarrow> sd_mount_device_fs_released st) \<Longrightarrow>
     usb_msc_ownership_note_prepare_complete api nvs wav man fs st = (err, st') \<Longrightarrow>
     usb_step api nvs rtc_flush stored medium host_io (r, a, st) Internal (r, a, st')"
| invoke: "usb_step api nvs rtc_flush stored medium host_io (r, a, st) Internal (r, a, usb_invoke api x st)"
| test_unit_ready: "wrap_tud_msc_test_unit_ready_cb api lun st = (ok, st') \<Longrightarrow>
     usb_step api nvs rtc_flush stored medium host_io (r, a, st) Internal (r, a, st')"
| capacity: "wrap_tud_msc_capacity_cb api lun n z st = (n', z', st') \<Longrightarrow>
     usb_step api nvs rtc_flush stored medium host_io (r, a, st) Internal (r, a, st')"
| read10: "wrap_tud_msc_read10_cb api lun lba off buf n st = (k, buf', st') \<Longrightarrow>
     usb_step api nvs rtc_flush stored medium host_io (r, a, st) Internal (r, a, st')"
| write10: "wrap_tud_msc_write10_cb api lun lba off buf n st = (k, st') \<Longrightarrow>
     usb_step api nvs rtc_flush stored medium host_io (r, a, st) Internal (r, a, st')"
| start_stop: "wrap_tud_msc_start_stop_cb api lun p st_bit ej st = (ok, st') \<Longrightarrow>
     usb_step api nvs rtc_flush stored medium host_io (r, a, st) Internal (r, a, st')"
| accept: "usb_msc_ownership_accept_release_storage (Some i) st = (USB_MSC_RELEASE_STORAGE_ACCEPTED, st') \<Longrightarrow>
     usb_step api nvs rtc_flush stored medium host_io (r, a, st) (Accepted i (host_io (usb_env st))) (r, a, st')"
| refuse: "usb_msc_ownership_accept_release_storage i st = (res, st') \<Longrightarrow> res \<noteq> USB_MSC_RELEASE_STORAGE_ACCEPTED \<Longrightarrow>
     usb_step api nvs rtc_flush stored medium host_io (r, a, st) Internal (r, a, st')"
| respond: "usb_msc_ownership_release_response_complete (Some i) st = (True, st') \<Longrightarrow>
     usb_step api nvs rtc_flush stored medium host_io (r, a, st) (Responded i) (r, a, st')"
| no_respond: "usb_msc_ownership_release_response_complete i st = (False, st') \<Longrightarrow>
     usb_step api nvs rtc_flush stored medium host_io (r, a, st) Internal (r, a, st')"
| quiesce: "usb_msc_ownership_complete_release_quiesce api nvs st = (err, st') \<Longrightarrow>
     usb_step api nvs rtc_flush stored medium host_io (r, a, st) (Quiesced err (host_io (usb_env st'))) (r, a, st')"
| flush: "usb_msc_ownership_flush_scsi_trace nvs st = (err, st') \<Longrightarrow>
     usb_step api nvs rtc_flush stored medium host_io (r, a, st) Internal (r, a, st')"

inductive usb_run ::
    "'u tusb_api \<Rightarrow> 's esp_api \<Rightarrow> (string \<Rightarrow> 's nvs_world \<Rightarrow> esp_err_t \<times> 's nvs_world) option \<Rightarrow> ('s \<Rightarrow> flash) \<Rightarrow>
     ('u \<Rightarrow> tinyusb_msc_mount_point_t option) \<Rightarrow> ('u \<Rightarrow> 'i) \<Rightarrow>
     ('u, 's, 'c) usb_sys \<Rightarrow> 'i usb_label list \<Rightarrow> ('u, 's, 'c) usb_sys \<Rightarrow> bool"
  for api nvs rtc_flush stored medium host_io where
  none: "usb_run api nvs rtc_flush stored medium host_io x [] x"
| more: "usb_run api nvs rtc_flush stored medium host_io x es y \<Longrightarrow>
     usb_step api nvs rtc_flush stored medium host_io y e z \<Longrightarrow>
     usb_run api nvs rtc_flush stored medium host_io x (es @ [e]) z"

section \<open>The invariant\<close>

definition usb_inv ::
    "('s \<Rightarrow> flash) \<Rightarrow> ('u \<Rightarrow> tinyusb_msc_mount_point_t option) \<Rightarrow> ('u, 's, 'c) usb_msc_t \<Rightarrow> bool" where
  "usb_inv stored medium st \<longleftrightarrow>
     holding_ok medium st \<and> \<not> s_transfer_authorized st \<and>
     (medium (usb_env st) = Some TINYUSB_MSC_STORAGE_MOUNT_USB \<longrightarrow> unresolved stored st) \<and>
     (device_open st \<longrightarrow> \<not> unresolved stored st) \<and>
     (s_storage_usb_owned st \<longrightarrow> s_initialized st \<and> \<not> s_mounted st \<and> s_usb_release_requested st \<and>
        s_device_fs_released st \<and> s_wav_finalized st \<and> s_manifest_committed st \<and> fs_release_proof st \<and>
        (s_storage st \<longrightarrow> medium (usb_env st) = Some TINYUSB_MSC_STORAGE_MOUNT_USB)) \<and>
     (s_host_owned st \<longrightarrow> s_storage_usb_owned st) \<and>
     (s_release_pending st \<longrightarrow> s_host_owned st \<and> usb_release_attempt_id_valid (Some (s_release_attempt_id st))) \<and>
     (s_release_waiting_response st \<longrightarrow> s_release_pending st)"

definition boot_inv :: "('s \<Rightarrow> flash) \<Rightarrow> shutdown_armed_boot_action_t \<Rightarrow> ('u, 's, 'c) usb_msc_t \<Rightarrow> bool" where
  "boot_inv stored a st \<longleftrightarrow>
     (a = SHUTDOWN_ARMED_BOOT_STAY_SHUTDOWN \<longrightarrow> \<not> s_initialized st \<and> \<not> s_mounted st) \<and>
     (a \<noteq> SHUTDOWN_ARMED_BOOT_STAY_SHUTDOWN \<and> \<not> s_initialized st \<longrightarrow> \<not> unresolved stored st)"

lemma ownership_fields:
  assumes "ownership st' = ownership st"
  shows "s_initialized st' = s_initialized st" "s_storage_usb_owned st' = s_storage_usb_owned st"
    "s_host_owned st' = s_host_owned st" "s_release_pending st' = s_release_pending st"
    "s_release_waiting_response st' = s_release_waiting_response st" "s_release_attempt_id st' = s_release_attempt_id st"
    "s_transfer_authorized st' = s_transfer_authorized st" "s_wav_finalized st' = s_wav_finalized st"
    "s_manifest_committed st' = s_manifest_committed st" "fs_release_proof st' = fs_release_proof st"
    "nvs_of st' = nvs_of st" "marker stored st' = marker stored st" "unresolved stored st' = unresolved stored st"
  using assms by (simp_all add: ownership_def marker_def unresolved_def)

lemma usb_inv_cong:
  assumes "ownership st' = ownership st" "holding st' = holding st" "medium (usb_env st') = medium (usb_env st)"
  shows "usb_inv stored medium st' = usb_inv stored medium st" "boot_inv stored a st' = boot_inv stored a st"
  unfolding usb_inv_def boot_inv_def holding_ok_def device_open_def
  using ownership_fields[OF assms(1)] holding_simps[OF assms(2)] assms(3) by simp_all

text \<open>How a step leaves the pending release, the gate and the marker.\<close>

definition release_kept :: "('s \<Rightarrow> flash) \<Rightarrow> ('u \<Rightarrow> 'i) \<Rightarrow> ('u, 's, 'c) usb_msc_t \<Rightarrow> ('u, 's, 'c) usb_msc_t \<Rightarrow> bool" where
  "release_kept stored host_io st st' \<longleftrightarrow>
     (s_release_pending st' \<longrightarrow> s_release_pending st \<and> s_release_waiting_response st' = s_release_waiting_response st \<and>
        s_release_attempt_id st' = s_release_attempt_id st \<and> host_io (usb_env st') = host_io (usb_env st)) \<and>
     (unresolved stored st \<longrightarrow> unresolved stored st')"

definition preserved ::
    "('s \<Rightarrow> flash) \<Rightarrow> ('u \<Rightarrow> tinyusb_msc_mount_point_t option) \<Rightarrow> ('u \<Rightarrow> 'i) \<Rightarrow> shutdown_armed_boot_action_t \<Rightarrow>
     ('u, 's, 'c) usb_msc_t \<Rightarrow> ('u, 's, 'c) usb_msc_t \<Rightarrow> bool" where
  "preserved stored medium host_io a st st' \<longleftrightarrow>
     usb_inv stored medium st' \<and> boot_inv stored a st' \<and> release_kept stored host_io st st'"

lemma still_preserved:
  assumes "still medium host_io st st'" "usb_inv stored medium st" "boot_inv stored a st"
  shows "preserved stored medium host_io a st st'"
proof -
  have s: "ownership st' = ownership st" "holding st' = holding st" "medium (usb_env st') = medium (usb_env st)"
    "host_io (usb_env st') = host_io (usb_env st)" using assms(1) by (simp_all add: still_def calm_def)
  show ?thesis using usb_inv_cong[OF s(1-3)] ownership_fields[OF s(1)] s(4) assms(2,3)
    by (simp add: preserved_def release_kept_def)
qed

lemma promoted_preserved:
  assumes "promoted medium host_io st st'" "usb_inv stored medium st" "boot_inv stored a st"
  shows "preserved stored medium host_io a st st'"
proof (cases "still medium host_io st st'")
  case False
  let ?st = "st\<lparr>s_host_owned := True\<rparr>"
  have p: "s_storage_usb_owned st" "still medium host_io ?st st'" using assms(1) False by (simp_all add: promoted_def)
  have i: "usb_inv stored medium ?st" "boot_inv stored a ?st"
    using assms(2,3) p(1)
    by (simp_all add: usb_inv_def boot_inv_def holding_ok_def device_open_def unresolved_def marker_def)
  from still_preserved[OF p(2) i] show ?thesis
    by (simp add: preserved_def release_kept_def unresolved_def marker_def)
qed (use still_preserved assms in blast)

lemma nvs_preserved:
  assumes "only_nvs st st'" "marker stored st' = marker stored st \<or> \<not> unresolved stored st \<and> \<not> unresolved stored st'"
    "usb_inv stored medium st" "boot_inv stored a st"
  shows "preserved stored medium host_io a st st'"
proof -
  have o: "ownership (st'\<lparr>nvs_of := nvs_of st\<rparr>) = ownership st" and h: "holding st' = holding st"
    and e: "usb_env st' = usb_env st" using assms(1) by (simp_all add: only_nvs_def)
  have u: "unresolved stored st' = unresolved stored st" using assms(2) by (auto simp: unresolved_def)
  note f = ownership_fields(1-10)[OF o, simplified]
  show ?thesis
    using f holding_simps[OF h] e u assms(3,4)
    by (simp add: preserved_def usb_inv_def boot_inv_def release_kept_def holding_ok_def device_open_def)
qed


section \<open>Every step keeps it\<close>

lemma mount_preserved:
  assumes c: "usb_contract api medium host_io" and i: "usb_inv stored medium st" "boot_inv stored a st"
    and g: "a \<noteq> SHUTDOWN_ARMED_BOOT_STAY_SHUTDOWN" "\<not> s_initialized st"
    and run: "sd_mount_recordings api usb_storage_event_cb st = (e, st')"
  shows "preserved stored medium host_io a st st'"
proof -
  have ok: "\<not> s_transfer_authorized st" "holding_ok medium st" "\<not> unresolved stored st"
    "medium (usb_env st) \<noteq> Some TINYUSB_MSC_STORAGE_MOUNT_USB" "\<not> s_storage_usb_owned st"
    using i g by (auto simp: usb_inv_def boot_inv_def)
  have m: "ownership st' = ownership st" "host_io (usb_env st') = host_io (usb_env st)" "holding_ok medium st'"
    "medium (usb_env st') \<noteq> Some TINYUSB_MSC_STORAGE_MOUNT_USB"
    using recordings_effect(1)[OF c ok(1,2) run] ok(4) by (auto simp: mounts_safely_def)
  show ?thesis using m ownership_fields[OF m(1)] ok i g
    by (auto simp: preserved_def usb_inv_def boot_inv_def release_kept_def)
qed

lemma unmount_preserved:
  assumes c: "usb_contract api medium host_io" and i: "usb_inv stored medium st" "boot_inv stored a st"
  shows "preserved stored medium host_io a st (sd_mount_unmount api usb_storage_event_cb st)"
proof (cases "s_usb_release_requested st")
  case True
  let ?s = "st\<lparr>s_device_fs_released := True\<rparr>"
  have o: "ownership ?s = ownership st" by simp
  show ?thesis using i True ownership_fields[OF o] unfolding unmount_requested[OF True]
    by (auto simp: preserved_def usb_inv_def boot_inv_def release_kept_def holding_ok_def device_open_def)
next
  case False
  let ?s = "sd_mount_unmount api usb_storage_event_cb st"
  have ok: "\<not> s_transfer_authorized st" "holding_ok medium st" "\<not> s_storage_usb_owned st"
    using i False by (auto simp: usb_inv_def)
  note u = unmount_effect[OF c ok(1) False ok(2)]
  have b: "a = SHUTDOWN_ARMED_BOOT_STAY_SHUTDOWN \<longrightarrow> \<not> s_mounted ?s"
    using u(6) i by (auto simp: boot_inv_def)
  show ?thesis using u ownership_fields[OF u(1)] ok i b
    by (auto simp: preserved_def usb_inv_def boot_inv_def release_kept_def)
qed


lemma release_for_usb_preserved:
  assumes i: "usb_inv stored medium st" "boot_inv stored a st" and run: "sd_mount_release_for_usb st = (e, st')"
  shows "preserved stored medium host_io a st st'"
proof (cases "e = ESP_OK")
  case True
  let ?s = "st\<lparr>s_usb_release_requested := True, s_device_fs_released := False\<rparr>"
  have s: "st' = ?s" "s_mounted st" "\<not> s_usb_release_requested st"
    using run True by (auto simp: sd_mount_release_for_usb_def split: if_splits)
  have o: "ownership ?s = ownership st" by (simp add: ownership_def)
  have "\<not> s_device_fs_released st" "medium (usb_env st) \<noteq> Some TINYUSB_MSC_STORAGE_MOUNT_USB" "\<not> s_storage_usb_owned st"
    using i(1) s(2,3) by (auto simp: usb_inv_def holding_ok_def)
  then show ?thesis using i s ownership_fields[OF o]
    by (auto simp: preserved_def usb_inv_def boot_inv_def release_kept_def holding_ok_def device_open_def)
next
  case False
  then have "st' = st" using run by (auto simp: sd_mount_release_for_usb_def split: if_splits)
  then show ?thesis using still_preserved[OF still_refl i] by simp
qed

lemma init_preserved:
  assumes c: "usb_contract api medium host_io" and i: "usb_inv stored medium st" "boot_inv stored a st"
    and run: "usb_msc_ownership_init api st = (e, st')"
  shows "preserved stored medium host_io a st st'"
proof -
  obtain created u where x: "xEventGroupCreate api (usb_env st) = (created, u)" by fastforce
  let ?s1 = "st\<lparr>usb_env := u, s_usb_events := Some {}\<rparr>"
  obtain e2 s2 where 2: "on_env (tinyusb_msc_set_storage_callback api OwnershipCallback) ?s1 = (e2, s2)" by fastforce
  have k1: "still medium host_io st (st\<lparr>usb_env := u, s_usb_events := ev\<rparr>)" for ev
    using usb_contract_calm(11)[OF c x] by (simp add: still_def ownership_def holding_def)
  have k2: "still medium host_io st s2" using still_trans[OF k1 on_env_still[OF 2 usb_contract_calm(10)[OF c]]] .
  have k3: "still medium host_io st (s2\<lparr>s_usb_events := None\<rparr>)" using k2 by (simp add: still_def ownership_def holding_def)
  consider (kept) "still medium host_io st st'"
    | (set) "\<not> s_initialized st" "s_mounted st" "ownership st' = (True, False, False, False, False, [], False,
        s_wav_finalized s2, s_manifest_committed s2, fs_release_proof s2, nvs_of s2)" "holding st' = holding s2"
        "usb_env st' = usb_env s2"
  proof (cases "s_initialized st \<or> \<not> s_mounted st")
    case True
    then show thesis using run kept
      by (cases "s_initialized st") (simp_all add: usb_msc_ownership_init_def sd_mount_is_mounted_def)
  next
    case False
    show thesis
    proof (cases "created \<and> e2 = ESP_OK")
      case True
      then have "st' = s2\<lparr>s_starting := False, s_started := False, s_storage_usb_owned := False, s_host_owned := False,
        s_release_pending := False, s_release_waiting_response := False, s_release_attempt_id := [],
        s_provisional_attached := False, s_publish_triggered := False, s_prepare_disconnected := False,
        s_transfer_authorized := False, s_host_session_detached := False, s_physical_session_cutoff := None,
        s_initialized := True\<rparr>"
        using run False by (auto simp: usb_msc_ownership_init_def sd_mount_is_mounted_def Let_def x 2)
      then show thesis using False by (intro set) (simp_all add: ownership_def holding_def)
    next
      case no: False
      then show thesis using run False kept k1[of None] k3
        by (cases created) (simp_all add: usb_msc_ownership_init_def sd_mount_is_mounted_def Let_def x 2)
    qed
  qed
  then show ?thesis
  proof cases
    case kept
    then show ?thesis using still_preserved i by blast
  next
    case set
    have f: "s_initialized st'" "\<not> s_storage_usb_owned st'" "\<not> s_host_owned st'" "\<not> s_release_pending st'"
      "\<not> s_release_waiting_response st'" "\<not> s_transfer_authorized st'" "nvs_of st' = nvs_of s2"
      using set(3) by (simp_all add: ownership_def)
    have m: "unresolved stored st' = unresolved stored st"
      using f(7) ownership_fields(11)[OF still_facts(1)[OF k2]] by (simp add: unresolved_def marker_def)
    have g: "holding_ok medium st' = holding_ok medium st" "device_open st' = device_open st"
      "medium (usb_env st') = medium (usb_env st)" "s_mounted st'"
      using set(2,5) holding_simps[OF set(4)] still_facts[OF k2] by (simp_all add: holding_ok_def device_open_def)
    show ?thesis using f m g i set(2)
      by (auto simp: preserved_def usb_inv_def boot_inv_def release_kept_def)
  qed
qed

lemma begin_prepare_still:
  assumes "usb_contract api medium host_io" "usb_msc_ownership_begin_prepare api st = (e, st')"
  shows "still medium host_io st st'"
proof -
  obtain ok u where d: "tud_disconnect api (usb_env st) = (ok, u)" by fastforce
  show ?thesis using usb_contract_calm(14)[OF assms(1) d] assms(2)
    by (auto simp: usb_msc_ownership_begin_prepare_def Let_def d still_def split: if_splits)
qed

lemma write_marker:
  assumes "nvs_contract nvs stored staged" "shutdown_armed_write nvs v w = (e, w')"
  shows "armed_entry stored w' = armed_entry stored w \<or> armed_entry stored w' = Some (NvsU8 v)"
    "e = ESP_OK \<Longrightarrow> armed_entry stored w' = Some (NvsU8 v)"
  using armed_entry_write[OF assms] shutdown_armed_write_stored(2)[OF assms] by simp_all

text \<open>A publication: the marker is written first, and the card goes only if the callback reported the switch.\<close>

lemma publish_preserved:
  assumes c: "usb_contract api medium host_io" and nvs: "nvs_contract nvs stored staged"
    and i: "usb_inv stored medium st" "boot_inv stored a st" and fs: "fs \<Longrightarrow> s_device_fs_released st"
    and run: "usb_msc_publish api nvs wav man fs st = (ok, st')" and ini: "s_initialized st"
  shows "preserved stored medium host_io a st st'"
proof -
  let ?gate = "wav \<and> man \<and> fs \<and> s_usb_events st \<noteq> None \<and> \<not> s_storage_usb_owned st \<and> \<not> s_host_owned st \<and>
    \<not> s_release_pending st \<and> s_provisional_attached st \<and> s_publish_triggered st \<and> s_prepare_disconnected st \<and> s_mounted st"
  show ?thesis
  proof (cases ?gate)
    case False
    then have "st' = usb_fail st" using run by (auto simp: usb_msc_publish_def sd_mount_is_mounted_def)
    moreover have "still medium host_io st (usb_fail st)" by (simp add: still_def)
    ultimately show ?thesis using still_preserved i by blast
  next
    case gate: True
    obtain e1 w where 1: "shutdown_armed_mark_host_unresolved nvs (nvs_of st) = (e1, w)" by (metis prod.exhaust)
    note wm = write_marker[OF nvs 1[unfolded shutdown_armed_mark_host_unresolved_def], simplified]
    define s2 where "s2 = st\<lparr>nvs_of := w, s_wav_finalized := wav, s_manifest_committed := man,
      fs_release_proof := fs, s_transfer_authorized := True\<rparr>"
    obtain e3 s3 where 3: "sd_mount_transfer_to_usb api usb_storage_event_cb s2 = (e3, s3)" by fastforce
    let ?s4 = "s3\<lparr>s_transfer_authorized := False\<rparr>"
    obtain ok5 u5 where 5: "tud_connect api (vTaskDelay api USB_REENUM_DISCONNECT_MS (usb_env ?s4)) = (ok5, u5)" by fastforce
    have cal: "calm medium host_io (usb_env s3) u5"
      using usb_contract_calm(13)[OF c 5] usb_contract_calm(12)[OF c, of "usb_env ?s4" USB_REENUM_DISCONNECT_MS]
      by (simp add: calm_def)
    have rel: "s_device_fs_released st" using fs gate by blast
    show ?thesis
    proof (cases "e1 = ESP_OK")
      case False
      then have s: "st' = usb_fail (st\<lparr>nvs_of := w\<rparr>)" using run gate
        by (simp add: usb_msc_publish_def sd_mount_is_mounted_def Let_def 1)
      let ?s = "st\<lparr>nvs_of := w\<rparr>"
      have o: "ownership st' = ownership ?s" "holding st' = holding ?s" "usb_env st' = usb_env ?s" using s by simp_all
      have "preserved stored medium host_io a st ?s" using i gate rel wm(1) ini
        by (auto simp: preserved_def usb_inv_def boot_inv_def release_kept_def holding_ok_def device_open_def unresolved_def marker_def)
      then show ?thesis using usb_inv_cong[OF o(1,2)] ownership_fields[OF o(1)] o(3)
        by (simp add: preserved_def release_kept_def)
    next
      case True
      have r: "st' = usb_fail ?s4 \<or> st' = usb_fail (?s4\<lparr>usb_env := u5\<rparr>) \<or> st' = ?s4\<lparr>usb_env := u5\<rparr>"
        using run gate True 5 3[unfolded s2_def]
        by (auto simp: usb_msc_publish_def sd_mount_is_mounted_def Let_def 1 split: if_splits)
      have o: "ownership st' = ownership ?s4" "holding st' = holding ?s4" "calm medium host_io (usb_env ?s4) (usb_env st')"
        using r cal by (auto simp: calm_def)
      have s2: "s_transfer_authorized s2" "s_usb_events s2 \<noteq> None" "usb_env s2 = usb_env st"
        "s_storage s2 = s_storage st" "s_mounted s2 = s_mounted st" "s_usb_release_requested s2 = s_usb_release_requested st"
        "s_device_fs_released s2 = s_device_fs_released st" "s_storage_usb_owned s2 = s_storage_usb_owned st"
        "s_host_owned s2 = s_host_owned st" "s_release_pending s2 = s_release_pending st"
        "s_release_waiting_response s2 = s_release_waiting_response st" "s_initialized s2" "nvs_of s2 = w"
        "s_wav_finalized s2" "s_manifest_committed s2" "fs_release_proof s2"
        using gate ini by (simp_all add: s2_def)
      have mk: "unresolved stored s3 \<and> s_initialized s3 \<and> \<not> s_host_owned s3 \<and> \<not> s_release_pending s3 \<and>
          \<not> s_release_waiting_response s3 \<and> holding_ok medium s3 \<and> \<not> device_open s3 \<and>
          (s_storage_usb_owned s3 \<longrightarrow> \<not> s_mounted s3 \<and> s_usb_release_requested s3 \<and> s_device_fs_released s3 \<and>
           s_wav_finalized s3 \<and> s_manifest_committed s3 \<and> fs_release_proof s3 \<and>
           medium (usb_env s3) = Some TINYUSB_MSC_STORAGE_MOUNT_USB)"
        using c s2(1,2) 3
      proof (cases rule: transfer_effect)
        case refused
        then show ?thesis using s2 i gate rel wm(2)[OF True]
          by (auto simp: usb_inv_def holding_ok_def device_open_def unresolved_def marker_def)
      next
        case (switched b u)
        note t = taken_ownership[OF switched(5), simplified] switched(5)[unfolded taken_def, simplified]
        show ?thesis using t switched s2 i gate rel wm(2)[OF True]
          by (auto simp: usb_inv_def holding_ok_def device_open_def unresolved_def marker_def)
      qed
      have p: "usb_inv stored medium ?s4" "boot_inv stored a ?s4" "\<not> s_release_pending ?s4" "unresolved stored ?s4"
        using mk i(2) ini
        by (auto simp: usb_inv_def boot_inv_def holding_ok_def device_open_def unresolved_def marker_def)
      then show ?thesis using usb_inv_cong[OF o(1,2)] ownership_fields[OF o(1)] o(3)
        by (simp add: preserved_def release_kept_def calm_def)
    qed
  qed
qed


lemma host_io_still:
  assumes "ownership st' = ownership st" "holding st' = holding st" "medium (usb_env st') = medium (usb_env st)"
    "s_release_pending st \<Longrightarrow> host_io (usb_env st') = host_io (usb_env st)"
    "usb_inv stored medium st" "boot_inv stored a st"
  shows "preserved stored medium host_io a st st'"
  using usb_inv_cong[OF assms(1-3)] ownership_fields[OF assms(1)] assms(4-6)
  by (auto simp: preserved_def release_kept_def)

text \<open>The backend: while a release is pending, no media callback of esp\_tinyusb runs.\<close>

lemma backend_preserved:
  assumes c: "usb_contract api medium host_io" and i: "usb_inv stored medium st" "boot_inv stored a st"
  shows "wrap_tud_msc_test_unit_ready_cb api lun st = (ok, st') \<Longrightarrow> preserved stored medium host_io a st st'"
    "wrap_tud_msc_capacity_cb api lun n z st = (n', z', st') \<Longrightarrow> preserved stored medium host_io a st st'"
    "wrap_tud_msc_read10_cb api lun lba off buf m st = (k, buf', st') \<Longrightarrow> preserved stored medium host_io a st st'"
    "wrap_tud_msc_write10_cb api lun lba off buf m st = (k, st') \<Longrightarrow> preserved stored medium host_io a st st'"
    "wrap_tud_msc_start_stop_cb api lun p b ej st = (ok, st') \<Longrightarrow> preserved stored medium host_io a st st'"
proof -
  note md = usb_contract_media[OF c]
  note rej = usb_contract_calm(17)[OF c]
  have g: "preserved stored medium host_io a st st'"
    if "\<exists>u. st' = st\<lparr>usb_env := u\<rparr> \<and> medium u = medium (usb_env st) \<and> (s_release_pending st \<longrightarrow> host_io u = host_io (usb_env st))"
    using that by (elim exE) (rule host_io_still; use i in simp)
  show "wrap_tud_msc_test_unit_ready_cb api lun st = (ok, st') \<Longrightarrow> preserved stored medium host_io a st st'"
    by (rule g) (use md(1) rej in \<open>auto simp: wrap_tud_msc_test_unit_ready_cb_def usb_msc_reject_post_eject_command_def calm_def
      split: if_splits prod.splits\<close>)
  show "wrap_tud_msc_capacity_cb api lun n z st = (n', z', st') \<Longrightarrow> preserved stored medium host_io a st st'"
    by (rule g) (use md(2) rej in \<open>auto simp: wrap_tud_msc_capacity_cb_def usb_msc_reject_post_eject_command_def calm_def
      split: if_splits prod.splits\<close>)
  show "wrap_tud_msc_read10_cb api lun lba off buf m st = (k, buf', st') \<Longrightarrow> preserved stored medium host_io a st st'"
    by (rule g) (use md(3) rej in \<open>auto simp: wrap_tud_msc_read10_cb_def usb_msc_reject_post_eject_command_def calm_def
      split: if_splits prod.splits\<close>)
  show "wrap_tud_msc_write10_cb api lun lba off buf m st = (k, st') \<Longrightarrow> preserved stored medium host_io a st st'"
    by (rule g) (use md(4) rej in \<open>auto simp: wrap_tud_msc_write10_cb_def usb_msc_reject_post_eject_command_def calm_def
      split: if_splits prod.splits\<close>)
  show "wrap_tud_msc_start_stop_cb api lun p b ej st = (ok, st') \<Longrightarrow> preserved stored medium host_io a st st'"
  proof -
    assume r: "wrap_tud_msc_start_stop_cb api lun p b ej st = (ok, st')"
    have "still medium host_io st st'" using r usb_contract_calm(18)[OF c]
      by (auto simp: wrap_tud_msc_start_stop_cb_def Let_def still_def split: prod.splits)
    then show "preserved stored medium host_io a st st'" using still_preserved i by blast
  qed
qed

lemma accept_effect:
  assumes i: "usb_inv stored medium st" "boot_inv stored a st"
    and run: "usb_msc_ownership_accept_release_storage j st = (res, st')"
  shows "res \<noteq> USB_MSC_RELEASE_STORAGE_ACCEPTED \<Longrightarrow> st' = st"
    "res = USB_MSC_RELEASE_STORAGE_ACCEPTED \<Longrightarrow> usb_inv stored medium st' \<and> boot_inv stored a st' \<and>
       s_release_waiting_response st' \<and> Some (s_release_attempt_id st') = j \<and> usb_env st' = usb_env st \<and>
       unresolved stored st' = unresolved stored st \<and> s_initialized st"
  using assms
  by (cases j; auto simp: usb_msc_ownership_accept_release_storage_def usb_inv_def boot_inv_def holding_ok_def
      device_open_def unresolved_def marker_def simp del: usb_release_attempt_id_valid.simps(2) split: if_splits)+

lemma respond_effect:
  assumes i: "usb_inv stored medium st" "boot_inv stored a st"
    and run: "usb_msc_ownership_release_response_complete j st = (ok, st')"
  shows "\<not> ok \<Longrightarrow> st' = st"
    "ok \<Longrightarrow> usb_inv stored medium st' \<and> boot_inv stored a st' \<and> s_release_pending st \<and>
       Some (s_release_attempt_id st) = j \<and> s_release_attempt_id st' = s_release_attempt_id st \<and>
       usb_env st' = usb_env st \<and> unresolved stored st' = unresolved stored st"
proof -
  let ?s = "st\<lparr>s_release_waiting_response := False\<rparr>"
  show "\<not> ok \<Longrightarrow> st' = st" using run by (auto simp: usb_msc_ownership_release_response_complete_def split: if_splits)
  assume "ok"
  then have s: "st' = set_bits {USB_BIT_RELEASE_REQUESTED} ?s" "s_release_pending st" "Some (s_release_attempt_id st) = j"
    using run by (auto simp: usb_msc_ownership_release_response_complete_def split: if_splits)
  have o: "ownership st' = ownership ?s" "holding st' = holding ?s" "medium (usb_env st') = medium (usb_env ?s)"
    using s(1) by simp_all
  have "usb_inv stored medium ?s" "boot_inv stored a ?s" using i
    by (simp_all add: usb_inv_def boot_inv_def holding_ok_def device_open_def unresolved_def marker_def)
  then show "usb_inv stored medium st' \<and> boot_inv stored a st' \<and> s_release_pending st \<and>
       Some (s_release_attempt_id st) = j \<and> s_release_attempt_id st' = s_release_attempt_id st \<and>
       usb_env st' = usb_env st \<and> unresolved stored st' = unresolved stored st"
    using s usb_inv_cong[OF o] ownership_fields[OF o(1)] by (simp add: unresolved_def marker_def)
qed

lemma quiesce_effect:
  assumes c: "usb_contract api medium host_io" and nvs: "nvs_contract nvs stored staged"
    and i: "usb_inv stored medium st" "boot_inv stored a st"
    and run: "usb_msc_ownership_complete_release_quiesce api nvs st = (e, st')"
  shows "usb_inv stored medium st'" "boot_inv stored a st'" "host_io (usb_env st') = host_io (usb_env st)"
    "s_release_pending st' \<longrightarrow> s_release_pending st \<and> s_release_waiting_response st' = s_release_waiting_response st \<and>
       s_release_attempt_id st' = s_release_attempt_id st"
    "unresolved stored st \<and> \<not> unresolved stored st' \<longrightarrow> s_release_pending st \<and> \<not> s_release_waiting_response st"
proof -
  let ?goal = "usb_inv stored medium st' \<and> boot_inv stored a st' \<and> host_io (usb_env st') = host_io (usb_env st) \<and>
    (s_release_pending st' \<longrightarrow> s_release_pending st \<and> s_release_waiting_response st' = s_release_waiting_response st \<and>
       s_release_attempt_id st' = s_release_attempt_id st) \<and>
    (unresolved stored st \<and> \<not> unresolved stored st' \<longrightarrow> s_release_pending st \<and> \<not> s_release_waiting_response st)"
  have stay: ?goal if "still medium host_io st st'"
    using still_preserved[OF that i] still_facts(2)[OF that] by (auto simp: preserved_def release_kept_def)
  let ?gate = "s_initialized st \<and> s_started st \<and> s_storage_usb_owned st \<and> s_host_owned st \<and> s_release_pending st \<and>
    \<not> s_release_waiting_response st \<and> \<not> s_mounted st"
  have ?goal
  proof (cases ?gate)
    case False
    then have "st' = st" using run
      by (auto simp: usb_msc_ownership_complete_release_quiesce_def sd_mount_is_mounted_def split: if_splits)
    then show ?thesis using stay by simp
  next
    case gate: True
    obtain e1 s1 where 1: "on_env (tinyusb_driver_uninstall api) st = (e1, s1)" by fastforce
    let ?s1 = "s1\<lparr>s_started := False\<rparr>"
    obtain e2 s2 where 2: "sd_mount_release_usb_storage api usb_storage_event_cb ?s1 = (e2, s2)" by fastforce
    obtain e3 w where 3: "shutdown_armed_commit nvs (nvs_of s2) = (e3, w)" by (metis prod.exhaust)
    note r = run[unfolded usb_msc_ownership_complete_release_quiesce_def sd_mount_is_mounted_def Let_def]
    have k1: "still medium host_io st s1" by (rule on_env_still[OF 1 usb_contract_calm(16)[OF c]])
    show ?thesis
    proof (cases "e1 = ESP_OK")
      case False
      then have "st' = usb_fail s1" using r gate by (simp add: 1)
      then show ?thesis using k1 by (intro stay) (simp add: still_def)
    next
      case ok1: True
      have k1': "still medium host_io st ?s1" using k1 by (simp add: still_def)
      have a: "\<not> s_transfer_authorized ?s1" using i still_facts(10)[OF k1] by (simp add: usb_inv_def)
      note q = release_usb_storage_effect[OF c a 2]
      have h: "usb_inv stored medium ?s1" "boot_inv stored a ?s1" using still_preserved[OF k1' i] by (simp_all add: preserved_def)
      have o2: "ownership s2 = ownership st" using q(1) still_facts(1)[OF k1'] by simp
      note f2 = ownership_fields[OF o2]
      have io2: "host_io (usb_env s2) = host_io (usb_env st)" using q(2) still_facts(2)[OF k1'] by simp
      have m2: "\<not> s_mounted s2" using q(3) still_facts(5)[OF k1'] gate by simp
      have hok: "holding_ok medium s2" using q(6) h(1) by (simp add: usb_inv_def)
      have fl: "s_usb_release_requested s2 = s_usb_release_requested st" "s_device_fs_released s2 = s_device_fs_released st"
        using q(4,5) still_facts(6,7)[OF k1'] by simp_all
      have own: "s_storage s2 \<longrightarrow> medium (usb_env s2) = Some TINYUSB_MSC_STORAGE_MOUNT_USB"
        "medium (usb_env s2) = Some TINYUSB_MSC_STORAGE_MOUNT_USB \<longrightarrow> unresolved stored st"
        using q(7) still_facts(3,4)[OF k1'] i(1) gate by (auto simp: usb_inv_def)
      have base: "s_usb_release_requested st" "s_device_fs_released st" "s_wav_finalized st" "s_manifest_committed st"
        "fs_release_proof st" "usb_release_attempt_id_valid (Some (s_release_attempt_id st))" "\<not> s_transfer_authorized st"
        using i(1) gate unfolding usb_inv_def by blast+
      have i2: "usb_inv stored medium s2" "boot_inv stored a s2"
        using hok own fl base m2 gate f2 i(2)
        by (simp_all add: usb_inv_def boot_inv_def device_open_def del: usb_release_attempt_id_valid.simps)
      show ?thesis
      proof (cases "e2 = ESP_OK")
        case False
        then have s: "st' = usb_fail s2" using r gate ok1 by (simp add: 1 2)
        have o: "ownership st' = ownership s2" "holding st' = holding s2" "medium (usb_env st') = medium (usb_env s2)"
          using s by simp_all
        show ?thesis using usb_inv_cong[OF o] i2 ownership_fields[OF o(1)] f2 io2 s by simp
      next
        case ok2: True
        have none: "medium (usb_env s2) = None" by (rule q(8)[OF ok2])
        let ?w = "s2\<lparr>nvs_of := w\<rparr>"
        have iw: "usb_inv stored medium ?w" "boot_inv stored a ?w" using i2 none m2 gate f2
          by (simp_all add: usb_inv_def boot_inv_def holding_ok_def device_open_def del: usb_release_attempt_id_valid.simps)
        show ?thesis
        proof (cases "e3 = ESP_OK")
          case False
          then have s: "st' = usb_fail ?w" using r gate ok1 ok2 by (simp add: 1 2 3)
          have o: "ownership st' = ownership ?w" "holding st' = holding ?w" "medium (usb_env st') = medium (usb_env ?w)"
            using s by simp_all
          show ?thesis using usb_inv_cong[OF o] iw ownership_fields[OF o(1)] f2 io2 s gate by simp
        next
          case True
          let ?z = "?w\<lparr>s_storage_usb_owned := False, s_host_owned := False, s_release_pending := False,
            s_release_waiting_response := False, s_release_attempt_id := [], s_provisional_attached := False,
            s_publish_triggered := False, s_prepare_disconnected := False, s_transfer_authorized := False,
            s_host_session_detached := False\<rparr>"
          have s: "st' = set_bits {USB_BIT_RELEASE_QUIESCED}
            (clear_bits {USB_BIT_ATTACH, USB_BIT_HOST_OWNED, USB_BIT_HOST_REATTACHED, USB_BIT_RELEASE_REQUESTED} ?z)"
            using r gate ok1 ok2 True by (simp add: 1 2 3)
          have o: "ownership st' = ownership ?z" "holding st' = holding ?z" "medium (usb_env st') = medium (usb_env ?z)"
            "usb_env st' = usb_env s2" using s by simp_all
          have iz: "usb_inv stored medium ?z" "boot_inv stored a ?z" using iw none m2
            by (simp_all add: usb_inv_def boot_inv_def holding_ok_def device_open_def unresolved_def marker_def)
          show ?thesis using usb_inv_cong[OF o(1-3)] iz ownership_fields[OF o(1)] io2 o(4) gate by simp
        qed
      qed
    qed
  qed
  then show "usb_inv stored medium st'" "boot_inv stored a st'" "host_io (usb_env st') = host_io (usb_env st)"
    "s_release_pending st' \<longrightarrow> s_release_pending st \<and> s_release_waiting_response st' = s_release_waiting_response st \<and>
       s_release_attempt_id st' = s_release_attempt_id st"
    "unresolved stored st \<and> \<not> unresolved stored st' \<longrightarrow> s_release_pending st \<and> \<not> s_release_waiting_response st"
    by blast+
qed


section \<open>The steps of the system\<close>

definition label_ok ::
    "('s \<Rightarrow> flash) \<Rightarrow> ('u \<Rightarrow> 'i) \<Rightarrow> shutdown_armed_boot_action_t \<Rightarrow> ('u, 's, 'c) usb_msc_t \<Rightarrow> 'i usb_label \<Rightarrow>
     shutdown_armed_boot_action_t \<Rightarrow> ('u, 's, 'c) usb_msc_t \<Rightarrow> bool" where
  "label_ok stored host_io a st e a' st' \<longleftrightarrow>
     (case e of
        Booted \<Rightarrow> \<not> s_release_pending st' \<and>
          (unresolved stored st \<longrightarrow> unresolved stored st' \<and> a' = SHUTDOWN_ARMED_BOOT_STAY_SHUTDOWN)
      | Accepted i io \<Rightarrow> a' = a \<and> s_initialized st \<and> s_release_waiting_response st' \<and> s_release_attempt_id st' = i \<and>
          io = host_io (usb_env st') \<and> unresolved stored st' = unresolved stored st
      | Responded i \<Rightarrow> a' = a \<and> s_release_pending st \<and> s_release_attempt_id st = i \<and> s_release_attempt_id st' = i \<and>
          host_io (usb_env st') = host_io (usb_env st) \<and> unresolved stored st' = unresolved stored st
      | Quiesced err io \<Rightarrow> a' = a \<and> io = host_io (usb_env st') \<and> io = host_io (usb_env st) \<and>
          (s_release_pending st' \<longrightarrow> s_release_pending st \<and> s_release_waiting_response st' = s_release_waiting_response st \<and>
             s_release_attempt_id st' = s_release_attempt_id st) \<and>
          (unresolved stored st \<and> \<not> unresolved stored st' \<longrightarrow> s_release_pending st \<and> \<not> s_release_waiting_response st)
      | Internal \<Rightarrow> a' = a \<and> release_kept stored host_io st st')"

lemma internal_ok:
  assumes "preserved stored medium host_io a st st'"
  shows "usb_inv stored medium st' \<and> boot_inv stored a st' \<and> label_ok stored host_io a st Internal a st'"
  using assms by (simp add: preserved_def label_ok_def)

lemma dirs_still:
  "sd_mount_ensure_date_dir d st = (e, st') \<Longrightarrow> still medium host_io st st'"
  "sd_mount_ensure_quarantine_dir st = (e, st') \<Longrightarrow> still medium host_io st st'"
  by (auto simp: sd_mount_ensure_date_dir_def sd_mount_ensure_quarantine_dir_def Let_def
      split: if_splits option.splits prod.splits)

lemma wait_still: "usb_msc_ownership_wait_event st = (ev, st') \<Longrightarrow> still medium host_io st st'"
  by (auto simp: usb_msc_ownership_wait_event_def still_def split: option.splits if_splits)

lemma cutoff_still: "usb_msc_ownership_set_physical_session_cutoff f st = (e, st') \<Longrightarrow> still medium host_io st st'"
  by (auto simp: usb_msc_ownership_set_physical_session_cutoff_def still_def split: if_splits)

lemma booted_ok:
  assumes nvs: "nvs_contract nvs stored staged" and w: "on_flash stored w1 = on_flash stored (nvs_of st)"
    and b: "shutdown_armed_boot_action nvs manual w1 = (err, act, w2)" and p: "power_on medium st'" "nvs_of st' = w2"
  shows "usb_inv stored medium st' \<and> boot_inv stored act st' \<and> label_ok stored host_io a st Booted act st'"
proof -
  note ba = boot_action_cases[OF nvs b]
  have m: "marker stored st' = marker stored st" using ba(1) w p(2) by (simp add: marker_def armed_entry_def)
  have n: "act = SHUTDOWN_ARMED_BOOT_STAY_SHUTDOWN" if "unresolved stored st"
    using that ba(2,3) w by (cases act) (auto simp: unresolved_def marker_def armed_entry_def)
  have u: "unresolved stored st' = unresolved stored st" using m by (simp add: unresolved_def)
  show ?thesis using p(1) u n
    by (auto simp: power_on_def usb_inv_def boot_inv_def label_ok_def holding_ok_def device_open_def)
qed

lemma step_ok:
  assumes c: "usb_contract api medium host_io" and nvs: "nvs_contract nvs stored staged"
    and hook: "hook_leaves_marker rtc_flush stored"
    and step: "usb_step api nvs rtc_flush stored medium host_io (r, a, st) e (r', a', st')"
    and i: "usb_inv stored medium st" "boot_inv stored a st"
  shows "usb_inv stored medium st' \<and> boot_inv stored a' st' \<and> label_ok stored host_io a st e a' st'"
  using step
proof cases
  case (booted w1 manual err w2)
  then show ?thesis using booted_ok[OF nvs booted(2,3,5,6)] by simp
next
  case (recovered ev err w')
  have "preserved stored medium host_io a st (st\<lparr>nvs_of := w'\<rparr>)"
    using device_recovery_cases(1)[OF nvs hook recovered(4)] i
    by (intro nvs_preserved) (auto simp: marker_def unresolved_def)
  then show ?thesis using internal_ok recovered by blast
next
  case (started fresh err w')
  have "preserved stored medium host_io a st (st\<lparr>nvs_of := w'\<rparr>)"
    using recording_started_cases(1)[OF nvs started(4)] i
    by (intro nvs_preserved) (auto simp: marker_def unresolved_def)
  then show ?thesis using internal_ok started by blast
next
  case (other_nvs w')
  have "preserved stored medium host_io a st (st\<lparr>nvs_of := w'\<rparr>)"
    using other_nvs(5) i by (intro nvs_preserved) (auto simp: marker_def)
  then show ?thesis using internal_ok other_nvs by blast
next
  case (files cd)
  have "still medium host_io st (st\<lparr>card := cd\<rparr>)" by simp
  then show ?thesis using internal_ok[OF still_preserved[OF _ i]] files by blast
next
  case (mount err)
  then show ?thesis using internal_ok[OF mount_preserved[OF c i mount(4,5,6)]] by blast
next
  case (date_dir d err)
  then show ?thesis using internal_ok[OF still_preserved[OF dirs_still(1)[OF date_dir(4)] i]] by blast
next
  case (quarantine_dir err)
  then show ?thesis using internal_ok[OF still_preserved[OF dirs_still(2)[OF quarantine_dir(4)] i]] by blast
next
  case unmount
  then show ?thesis using internal_ok[OF unmount_preserved[OF c i]] by blast
next
  case (release_for_usb err)
  then show ?thesis using internal_ok[OF release_for_usb_preserved[OF i release_for_usb(4)]] by blast
next
  case (init err)
  then show ?thesis using internal_ok[OF init_preserved[OF c i init(4)]] by blast
next
  case (cutoff f err)
  then show ?thesis using internal_ok[OF still_preserved[OF cutoff_still[OF cutoff(4)] i]] by blast
next
  case (start err)
  then show ?thesis using internal_ok[OF still_preserved[OF start_still[OF c start(4)] i]] by blast
next
  case (wait ev)
  then show ?thesis using internal_ok[OF still_preserved[OF wait_still[OF wait(4)] i]] by blast
next
  case (prepare err)
  then show ?thesis using internal_ok[OF still_preserved[OF begin_prepare_still[OF c prepare(4)] i]] by blast
next
  case (publish fs wav man err)
  obtain ok st1 where p: "usb_msc_publish api nvs wav man fs st = (ok, st1)" by fastforce
  have "preserved stored medium host_io a st st'"
  proof (cases "s_initialized st")
    case True
    then have "st' = st1" using publish(5) p by (simp add: usb_msc_ownership_note_prepare_complete_def)
    then show ?thesis using publish_preserved[OF c nvs i publish(4)[unfolded sd_mount_device_fs_released_def] p True] by blast
  next
    case False
    then have "st' = st" using publish(5) by (simp add: usb_msc_ownership_note_prepare_complete_def)
    then show ?thesis using still_preserved[OF still_refl i] by simp
  qed
  then show ?thesis using internal_ok publish by blast
next
  case (invoke x)
  then show ?thesis using internal_ok[OF promoted_preserved[OF invoke_promoted[OF c] i]] by blast
next
  case (test_unit_ready lun ok)
  then show ?thesis using internal_ok[OF backend_preserved(1)[OF c i test_unit_ready(4)]] by blast
next
  case (capacity lun n z n' z')
  then show ?thesis using internal_ok[OF backend_preserved(2)[OF c i capacity(4)]] by blast
next
  case (read10 lun lba off buf n k buf')
  then show ?thesis using internal_ok[OF backend_preserved(3)[OF c i read10(4)]] by blast
next
  case (write10 lun lba off buf n k)
  then show ?thesis using internal_ok[OF backend_preserved(4)[OF c i write10(4)]] by blast
next
  case (start_stop lun p b ej ok)
  then show ?thesis using internal_ok[OF backend_preserved(5)[OF c i start_stop(4)]] by blast
next
  case (accept j)
  then show ?thesis using accept_effect(2)[OF i accept(4)] by (auto simp: label_ok_def)
next
  case (refuse j res)
  then show ?thesis using accept_effect(1)[OF i refuse(4,5)] internal_ok[OF still_preserved[OF still_refl i]] by simp
next
  case (respond j)
  then show ?thesis using respond_effect(2)[OF i respond(4)] by (auto simp: label_ok_def)
next
  case (no_respond j)
  then show ?thesis using respond_effect(1)[OF i no_respond(4)] internal_ok[OF still_preserved[OF still_refl i]] by simp
next
  case (quiesce err)
  then show ?thesis using quiesce_effect[OF c nvs i quiesce(4)] by (simp add: label_ok_def)
next
  case (flush err)
  note f = flush_effect[OF nvs flush(4)]
  have "preserved stored medium host_io a st st'"
    by (rule nvs_preserved[OF f(1) _ i]) (simp add: marker_def f(2))
  then show ?thesis using internal_ok flush by blast
qed


lemma run_ok:
  assumes c: "usb_contract api medium host_io" and nvs: "nvs_contract nvs stored staged"
    and hook: "hook_leaves_marker rtc_flush stored"
    and run: "usb_run api nvs rtc_flush stored medium host_io (r, a, st) es (r', a', st')"
    and i: "usb_inv stored medium st" "boot_inv stored a st"
  shows "usb_inv stored medium st'" "boot_inv stored a' st'"
proof -
  have "usb_inv stored medium st' \<and> boot_inv stored a' st'"
    using run i
  proof (induction "(r, a, st)" es "(r', a', st')" arbitrary: r' a' st' rule: usb_run.induct)
    case (more es y e)
    obtain r1 a1 s1 where y: "y = (r1, a1, s1)" by (metis prod_cases3)
    show ?case using step_ok[OF c nvs hook more(3)[unfolded y]] more(2)[OF y] more.prems by blast
  qed simp
  then show "usb_inv stored medium st'" "boot_inv stored a' st'" by blast+
qed

lemma power_on_ok:
  assumes "power_on medium st"
  shows "usb_inv stored medium st" "boot_inv stored SHUTDOWN_ARMED_BOOT_STAY_SHUTDOWN st"
  using assms by (auto simp: power_on_def usb_inv_def boot_inv_def holding_ok_def device_open_def)

text \<open>A pending release stems from an accepted request of this powered session; \<open>consent\<close>: the release went its whole way.\<close>

definition pending_from :: "('u \<Rightarrow> 'i) \<Rightarrow> 'i usb_label list \<Rightarrow> ('u, 's, 'c) usb_msc_t \<Rightarrow> bool" where
  "pending_from host_io es st \<longleftrightarrow>
     (\<exists>es1 es2. es = es1 @ [Accepted (s_release_attempt_id st) (host_io (usb_env st))] @ es2 \<and> Booted \<notin> set es \<and>
        (\<not> s_release_waiting_response st \<longrightarrow> Responded (s_release_attempt_id st) \<in> set es2))"

definition consent :: "'i usb_label list \<Rightarrow> bool" where
  "consent es \<longleftrightarrow>
     (\<exists>es1 i io es2 es3 err es4. es = es1 @ [Accepted i io] @ es2 @ [Responded i] @ es3 @ [Quiesced err io] @ es4 \<and>
        Booted \<notin> set (es1 @ es2 @ es3))"

lemma consent_snoc: "consent es \<Longrightarrow> consent (es @ [e])"
  unfolding consent_def by (metis append.assoc)

lemma pending_from_snoc:
  assumes "pending_from host_io es st" "s_release_attempt_id st' = s_release_attempt_id st"
    "host_io (usb_env st') = host_io (usb_env st)" "e \<noteq> Booted"
    "\<not> s_release_waiting_response st' \<longrightarrow> \<not> s_release_waiting_response st \<or> e = Responded (s_release_attempt_id st)"
  shows "pending_from host_io (es @ [e]) st'"
proof -
  obtain es1 es2 where es: "es = es1 @ [Accepted (s_release_attempt_id st) (host_io (usb_env st))] @ es2"
    "Booted \<notin> set es" "\<not> s_release_waiting_response st \<longrightarrow> Responded (s_release_attempt_id st) \<in> set es2"
    using assms(1) unfolding pending_from_def by blast
  have "es @ [e] = es1 @ [Accepted (s_release_attempt_id st') (host_io (usb_env st'))] @ (es2 @ [e])"
    using es(1) assms(2,3) by simp
  moreover have "Booted \<notin> set (es @ [e])" using es(2) assms(4) by auto
  moreover have "\<not> s_release_waiting_response st' \<longrightarrow> Responded (s_release_attempt_id st') \<in> set (es2 @ [e])"
    using es(3) assms(2,5) by auto
  ultimately show ?thesis unfolding pending_from_def by blast
qed

lemma quiesced_consent:
  assumes "pending_from host_io es st" "\<not> s_release_waiting_response st" "io = host_io (usb_env st)"
  shows "consent (es @ [Quiesced err io])"
proof -
  obtain es1 es2 where es: "es = es1 @ [Accepted (s_release_attempt_id st) io] @ es2"
    "Booted \<notin> set es" "Responded (s_release_attempt_id st) \<in> set es2"
    using assms unfolding pending_from_def by blast
  obtain f1 f2 where f: "es2 = f1 @ Responded (s_release_attempt_id st) # f2" using es(3) by (meson split_list)
  have "es @ [Quiesced err io] = es1 @ [Accepted (s_release_attempt_id st) io] @ f1 @
    [Responded (s_release_attempt_id st)] @ f2 @ [Quiesced err io] @ []" using es(1) f by simp
  moreover have "Booted \<notin> set (es1 @ f1 @ f2)" using es(1,2) f by auto
  ultimately show ?thesis unfolding consent_def by blast
qed

definition held ::
    "('s \<Rightarrow> flash) \<Rightarrow> ('u \<Rightarrow> 'i) \<Rightarrow> shutdown_armed_boot_action_t \<Rightarrow> 'i usb_label list \<Rightarrow> ('u, 's, 'c) usb_msc_t \<Rightarrow> bool" where
  "held stored host_io a es st \<longleftrightarrow>
     unresolved stored st \<and> (Booted \<in> set es \<longrightarrow> a = SHUTDOWN_ARMED_BOOT_STAY_SHUTDOWN) \<and>
     (s_release_pending st \<longrightarrow> pending_from host_io es st)"

lemma held_step:
  assumes h: "held stored host_io a es st" and b: "boot_inv stored a st"
    and l: "label_ok stored host_io a st e a' st'"
  shows "held stored host_io a' (es @ [e]) st' \<or> consent (es @ [e])"
proof (cases e)
  case Booted
  then show ?thesis using h l by (auto simp: held_def label_ok_def)
next
  case Internal
  then show ?thesis using h l pending_from_snoc[of host_io es st st' e]
    by (auto simp: held_def label_ok_def release_kept_def)
next
  case (Accepted i io)
  have n: "Booted \<notin> set es" using h b l Accepted by (auto simp: held_def boot_inv_def label_ok_def)
  have "pending_from host_io (es @ [e]) st'"
    unfolding pending_from_def using n l Accepted
    by (intro exI[of _ es] exI[of _ "[]"]) (auto simp: label_ok_def)
  then show ?thesis using h l n Accepted by (auto simp: held_def label_ok_def)
next
  case (Responded i)
  then have "pending_from host_io (es @ [e]) st'"
    using h l by (intro pending_from_snoc[of host_io es st]) (auto simp: held_def label_ok_def)
  then show ?thesis using h l Responded by (auto simp: held_def label_ok_def)
next
  case (Quiesced err io)
  show ?thesis
  proof (cases "unresolved stored st'")
    case True
    then show ?thesis using h l Quiesced pending_from_snoc[of host_io es st st' e]
      by (auto simp: held_def label_ok_def)
  next
    case False
    then have "pending_from host_io es st" "\<not> s_release_waiting_response st" "io = host_io (usb_env st)"
      using h l Quiesced by (auto simp: held_def label_ok_def)
    from quiesced_consent[OF this] Quiesced show ?thesis by simp
  qed
qed

section \<open>A platform without faults\<close>

text \<open>
  An instance of the USB stack that keeps the contract: the medium and the number of media commands. On it the protocol
  runs to its end: boot, mount, initialization, the two enumerations, publication, release.
\<close>

type_synonym ideal_env = "tinyusb_msc_mount_point_t option \<times> nat"

definition ideal_usb :: "ideal_env tusb_api" where
  "ideal_usb = \<lparr>spi_bus_initialize = (\<lambda>u. (ESP_OK, u)), spi_bus_free = (\<lambda>u. u), sdspi_host_init = (\<lambda>u. (ESP_OK, u)),
     sdspi_host_deinit = (\<lambda>u. u), sdspi_host_init_device = (\<lambda>u. (ESP_OK, u)), sdspi_host_remove_device = (\<lambda>u. u),
     sdmmc_card_init = (\<lambda>u. (ESP_OK, u)), tinyusb_msc_install_driver = (\<lambda>cb u. (ESP_OK, u)),
     tinyusb_msc_uninstall_driver = (\<lambda>u. (ESP_OK, u)), tinyusb_msc_set_storage_callback = (\<lambda>cb u. (ESP_OK, u)),
     tinyusb_msc_new_storage_sdmmc = (\<lambda>m u. ([], ESP_OK, (Some m, snd u))),
     tinyusb_msc_delete_storage = (\<lambda>u. ([], ESP_OK, (None, snd u))),
     tinyusb_msc_set_storage_mount_point = (\<lambda>m u.
       ([(OwnershipCallback, Some \<lparr>event_id = TINYUSB_MSC_EVENT_MOUNT_START, event_mount_point = TINYUSB_MSC_STORAGE_MOUNT_APP\<rparr>),
         (OwnershipCallback, Some \<lparr>event_id = TINYUSB_MSC_EVENT_MOUNT_COMPLETE, event_mount_point = m\<rparr>)],
        ESP_OK, (Some m, snd u))),
     xEventGroupCreate = (\<lambda>u. (True, u)), vTaskDelay = (\<lambda>ms u. u), tud_connect = (\<lambda>u. (True, u)),
     tud_disconnect = (\<lambda>u. (True, u)), tinyusb_driver_install = (\<lambda>u. ([], ESP_OK, u)),
     tinyusb_driver_uninstall = (\<lambda>u. (ESP_OK, u)), tud_msc_set_sense = (\<lambda>lun k c q u. u),
     real_tud_msc_test_unit_ready_cb = (\<lambda>lun u. (True, (fst u, Suc (snd u)))),
     real_tud_msc_capacity_cb = (\<lambda>lun n z u. (n, z, (fst u, Suc (snd u)))),
     real_tud_msc_read10_cb = (\<lambda>lun a f buf n u. (512, buf, (fst u, Suc (snd u)))),
     real_tud_msc_write10_cb = (\<lambda>lun a f buf n u. (512, (fst u, Suc (snd u)))),
     real_tud_msc_start_stop_cb = (\<lambda>lun p b e u. (True, u))\<rparr>"

lemma ideal_usb_contract: "usb_contract ideal_usb fst snd"
  by (auto simp: usb_contract_def ideal_usb_def calm_def)

type_synonym ideal_state = "(ideal_env, mem_nvs, unit) usb_msc_t"

definition ideal_off :: ideal_state where
  "ideal_off = \<lparr>s_bus_init = False, s_sdspi_init = False, s_device_init = False, s_msc_driver_init = False, s_storage = False,
     s_mounted = False, s_usb_release_requested = False, s_device_fs_released = False, usb_env = (None, 0), card = empty_card,
     s_usb_events = None, s_initialized = False, s_starting = False, s_started = False, s_storage_usb_owned = False,
     s_host_owned = False, s_release_pending = False, s_release_waiting_response = False, s_release_attempt_id = [],
     s_provisional_attached = False, s_publish_triggered = False, s_prepare_disconnected = False, s_transfer_authorized = False,
     s_host_session_detached = False, s_physical_session_cutoff = None, cutoff_ctx = (), s_wav_finalized = False,
     s_manifest_committed = False, fs_release_proof = False, s_trace_session = 0, s_trace_start_stop_requests = 0,
     s_trace_start_stop_completions = 0, s_trace_prevent_allow_completions = 0, s_trace_sync_cache_completions = 0,
     s_trace_last_start_stop_power = 0, s_trace_last_start_stop_flags = 0, s_trace_last_control_opcode = 0,
     s_trace_last_control_byte4 = 0, s_trace_update_seq = 0, s_trace_flushed_seq = 0, nvs_of = marker_world 0\<rparr>"

definition ideal_prepared :: ideal_state where
  "ideal_prepared =
     (let st = snd (sd_mount_recordings ideal_usb usb_storage_event_cb ideal_off);
          st = snd (usb_msc_ownership_init ideal_usb st);
          st = snd (usb_msc_ownership_start ideal_usb st);
          st = usb_invoke ideal_usb (DeviceEvent (Some TINYUSB_EVENT_ATTACHED)) st;
          st = usb_invoke ideal_usb (ScsiComplete 0 (Some (replicate 16 0))) st;
          st = snd (usb_msc_ownership_begin_prepare ideal_usb st);
          st = snd (sd_mount_release_for_usb st)
      in sd_mount_unmount ideal_usb usb_storage_event_cb st)"

definition ideal_owned :: ideal_state where
  "ideal_owned =
     (let st = snd (usb_msc_ownership_note_prepare_complete ideal_usb mem_api True True True ideal_prepared)
      in usb_invoke ideal_usb (DeviceEvent (Some TINYUSB_EVENT_ATTACHED)) st)"

definition ideal_responded :: ideal_state where
  "ideal_responded =
     (let st = snd (usb_msc_ownership_accept_release_storage (Some ''a'') ideal_owned)
      in snd (usb_msc_ownership_release_response_complete (Some ''a'') st))"

definition ideal_released :: ideal_state where
  "ideal_released = snd (usb_msc_ownership_complete_release_quiesce ideal_usb mem_api ideal_responded)"

lemma ideal_prepared_facts: "s_device_fs_released ideal_prepared \<and> s_mounted ideal_prepared"
  by code_simp

lemma ideal_owned_facts:
  "usb_env ideal_owned = (Some TINYUSB_MSC_STORAGE_MOUNT_USB, 0) \<and> s_host_owned ideal_owned \<and> unresolved fst ideal_owned \<and>
   \<not> s_release_pending ideal_owned"
  by code_simp

lemma ideal_released_facts:
  "fst (usb_msc_ownership_accept_release_storage (Some ''a'') ideal_owned) = USB_MSC_RELEASE_STORAGE_ACCEPTED \<and>
   fst (usb_msc_ownership_release_response_complete (Some ''a'')
     (snd (usb_msc_ownership_accept_release_storage (Some ''a'') ideal_owned))) \<and>
   fst (usb_msc_ownership_complete_release_quiesce ideal_usb mem_api ideal_responded) = ESP_OK \<and>
   marker fst ideal_released = Some (NvsU8 1) \<and> \<not> s_host_owned ideal_released \<and> usb_env ideal_released = (None, 0)"
  by code_simp


lemma run_step:
  "\<exists>es. usb_run api nvs rtc_flush stored medium host_io x es y \<Longrightarrow>
   usb_step api nvs rtc_flush stored medium host_io y e z \<Longrightarrow> \<exists>es. usb_run api nvs rtc_flush stored medium host_io x es z"
  using usb_run.more by blast

lemma ideal_off_power_on: "power_on fst ideal_off"
  by (simp add: power_on_def ideal_off_def)

lemma ideal_prepared_reached:
  "\<exists>es. usb_run ideal_usb mem_api None fst fst snd (no_wake, SHUTDOWN_ARMED_BOOT_STAY_SHUTDOWN, ideal_off) es
     (no_wake, SHUTDOWN_ARMED_BOOT_NORMAL, ideal_prepared)"
proof -
  let ?x = "(no_wake, SHUTDOWN_ARMED_BOOT_STAY_SHUTDOWN, ideal_off)"
  have b: "shutdown_armed_boot_action mem_api False (marker_world 0) = (ESP_OK, SHUTDOWN_ARMED_BOOT_NORMAL, marker_world 0)"
    by (simp add: shutdown_armed_boot_action_def marker_eval Let_def)
  have start: "\<exists>es. usb_run ideal_usb mem_api None fst fst snd ?x es ?x" using usb_run.none by blast
  have 0: "\<exists>es. usb_run ideal_usb mem_api None fst fst snd ?x es (no_wake, SHUTDOWN_ARMED_BOOT_NORMAL, ideal_off)"
    by (rule run_step[OF start usb_step.booted[OF _ b _ ideal_off_power_on]])
      (simp_all add: ideal_off_def no_wake_def)
  show ?thesis
    unfolding ideal_prepared_def Let_def
    by (rule run_step[OF _ usb_step.unmount], rule run_step[OF _ usb_step.release_for_usb[OF prod.collapse[symmetric]]],
        rule run_step[OF _ usb_step.prepare[OF prod.collapse[symmetric]]], rule run_step[OF _ usb_step.invoke],
        rule run_step[OF _ usb_step.invoke], rule run_step[OF _ usb_step.start[OF prod.collapse[symmetric]]],
        rule run_step[OF _ usb_step.init[OF prod.collapse[symmetric]]],
        rule run_step[OF 0 usb_step.mount[OF _ _ prod.collapse[symmetric]]]) (simp_all add: ideal_off_def)
qed

lemma ideal_owned_reached:
  "\<exists>es. usb_run ideal_usb mem_api None fst fst snd (no_wake, SHUTDOWN_ARMED_BOOT_STAY_SHUTDOWN, ideal_off) es
     (no_wake, SHUTDOWN_ARMED_BOOT_NORMAL, ideal_owned)"
  unfolding ideal_owned_def Let_def
  by (rule run_step[OF _ usb_step.invoke], rule run_step[OF ideal_prepared_reached usb_step.publish[OF _ prod.collapse[symmetric]]])
    (simp add: sd_mount_device_fs_released_def ideal_prepared_facts)

lemma ideal_release_run:
  "usb_run ideal_usb mem_api None fst fst snd (no_wake, SHUTDOWN_ARMED_BOOT_NORMAL, ideal_owned)
     ((([] @ [Accepted ''a'' (snd (usb_env ideal_owned))]) @ [Responded ''a'']) @
        [Quiesced ESP_OK (snd (usb_env ideal_released))])
     (no_wake, SHUTDOWN_ARMED_BOOT_NORMAL, ideal_released)"
proof -
  let ?a = "snd (usb_msc_ownership_accept_release_storage (Some ''a'') ideal_owned)"
  have 1: "usb_msc_ownership_accept_release_storage (Some ''a'') ideal_owned = (USB_MSC_RELEASE_STORAGE_ACCEPTED, ?a)"
    using ideal_released_facts by (metis prod.collapse)
  have 2: "usb_msc_ownership_release_response_complete (Some ''a'') ?a = (True, ideal_responded)"
    using ideal_released_facts unfolding ideal_responded_def Let_def by (metis prod.collapse)
  have 3: "usb_msc_ownership_complete_release_quiesce ideal_usb mem_api ideal_responded = (ESP_OK, ideal_released)"
    using ideal_released_facts unfolding ideal_released_def by (metis prod.collapse)
  show ?thesis
    by (rule usb_run.more[OF usb_run.more[OF usb_run.more[OF usb_run.none usb_step.accept[OF 1]] usb_step.respond[OF 2]]
      usb_step.quiesce[OF 3]])
qed

lemma no_hook: "hook_leaves_marker None (fst :: mem_nvs \<Rightarrow> flash)"
  by (simp add: hook_leaves_marker_def)

section \<open>Properties\<close>

text \<open>
  C3: The card is never open on both sides. Start anywhere with the power on and any flash, and let the drivers,
  the host, NVS and the power do what they like: whenever the storage object serves USB, the recorder's file
  system is closed and the flash says that the hand-over is unresolved; as long as the flash says so, over any
  number of boots, the recorder's file system is not open; and a host that owns the card got it with the WAV
  finalized, the manifest committed and the file system released.
\<close>

theorem card_never_shared:
  assumes "usb_contract api medium host_io" "nvs_contract nvs stored staged" "hook_leaves_marker rtc_flush stored"
    and "power_on medium st0"
    and "usb_run api nvs rtc_flush stored medium host_io (r0, SHUTDOWN_ARMED_BOOT_STAY_SHUTDOWN, st0) es (r, a, st)"
  shows "(medium (usb_env st) = Some TINYUSB_MSC_STORAGE_MOUNT_USB \<longrightarrow> \<not> device_open st \<and> unresolved stored st) \<and>
    (unresolved stored st \<longrightarrow> \<not> device_open st) \<and>
    (s_host_owned st \<longrightarrow> \<not> s_mounted st \<and> s_wav_finalized st \<and> s_manifest_committed st \<and> fs_release_proof st)"
proof -
  have "usb_inv stored medium st" by (rule run_ok(1)[OF assms(1-3,5) power_on_ok[OF assms(4)]])
  then show ?thesis by (auto simp: usb_inv_def)
qed

text \<open>
  C40: The variables of the ownership module stay well-formed in every reachable state: the flags of the hand-over
  imply one another from the pending response down to the initialization, a pending release carries a valid
  attempt identifier, the publication permit is closed between operations, and while the module believes that USB
  has the card and the storage object exists, the object does serve USB.
\<close>

theorem ownership_wellformed:
  assumes "usb_contract api medium host_io" "nvs_contract nvs stored staged" "hook_leaves_marker rtc_flush stored"
    and "power_on medium st0"
    and "usb_run api nvs rtc_flush stored medium host_io (r0, SHUTDOWN_ARMED_BOOT_STAY_SHUTDOWN, st0) es (r, a, st)"
  shows "(s_release_waiting_response st \<longrightarrow> s_release_pending st) \<and>
    (s_release_pending st \<longrightarrow> s_host_owned st \<and> usb_release_attempt_id_valid (Some (s_release_attempt_id st))) \<and>
    (s_host_owned st \<longrightarrow> s_storage_usb_owned st) \<and>
    (s_storage_usb_owned st \<longrightarrow> s_initialized st \<and> s_usb_release_requested st \<and> s_device_fs_released st) \<and>
    (s_storage_usb_owned st \<and> s_storage st \<longrightarrow> medium (usb_env st) = Some TINYUSB_MSC_STORAGE_MOUNT_USB) \<and>
    (\<not> s_storage st \<longrightarrow> medium (usb_env st) = None) \<and> \<not> s_transfer_authorized st"
proof -
  have "usb_inv stored medium st" by (rule run_ok(1)[OF assms(1-3,5) power_on_ok[OF assms(4)]])
  then show ?thesis unfolding usb_inv_def holding_ok_def by blast
qed



text \<open>On the platform without faults the host owns the card, and the release ends the hand-over.\<close>

theorem card_never_shared_witness:
  "fst (usb_env ideal_owned) = Some TINYUSB_MSC_STORAGE_MOUNT_USB \<and> s_host_owned ideal_owned \<and>
   \<not> device_open ideal_owned \<and> \<not> s_mounted ideal_owned"
proof -
  obtain es where r: "usb_run ideal_usb mem_api None fst fst snd (no_wake, SHUTDOWN_ARMED_BOOT_STAY_SHUTDOWN, ideal_off) es
     (no_wake, SHUTDOWN_ARMED_BOOT_NORMAL, ideal_owned)" using ideal_owned_reached by blast
  show ?thesis
    using card_never_shared[OF ideal_usb_contract mem_api_contract no_hook ideal_off_power_on r] ideal_owned_facts by simp
qed

theorem ownership_wellformed_witness:
  "s_storage_usb_owned ideal_owned \<and> s_initialized ideal_owned \<and> s_usb_release_requested ideal_owned"
proof -
  obtain es where r: "usb_run ideal_usb mem_api None fst fst snd (no_wake, SHUTDOWN_ARMED_BOOT_STAY_SHUTDOWN, ideal_off) es
     (no_wake, SHUTDOWN_ARMED_BOOT_NORMAL, ideal_owned)" using ideal_owned_reached by blast
  show ?thesis
    using ownership_wellformed[OF ideal_usb_contract mem_api_contract no_hook ideal_off_power_on r] ideal_owned_facts by simp
qed


end
