(* ===== verification/Spec2Isabelle.thy ===== *)
theory Spec2Isabelle
  imports Pcm_Pipeline Wav_Recovery Sha256 Recorder_State Shutdown_Armed Usb_Cdc_Session_Gate Usb_Cdc_Tx Manifest_Calendar Manifest_Scan Rtc_Clock Rtc_Event Usb_Msc_Safety
begin

text \<open>
  Verification of the firmware of m5daylog, a pocket audio recorder on an ESP32-S3 with a microSD card
  (\<open>src/firmware\<close>). The firmware records 16 kHz mono PCM, writes it to WAV files that survive a power loss,
  keeps a manifest of finished recordings with their hashes, hands the card to a host over USB mass storage,
  and answers a command protocol over USB CDC.

  \<^bold>\<open>How the program is put together.\<close> The capture task fills a double buffer (\<open>pcm_pipeline.c\<close>), the
  writer task drains it into a WAV part on the card (\<open>sd_pcm_sink.c\<close> on \<open>wav_part.c\<close>), rotates and finalizes
  parts (\<open>wav_rotation.c\<close>) and enters each finished file, with its SHA-256 (\<open>sha256.c\<close>), into the manifest
  (\<open>device_manifest.c\<close>) of the device that \<open>device_identity.c\<close> names. At boot \<open>wav_recovery.c\<close> repairs or
  quarantines parts that a power loss left, and the manifest is recovered and compared with the card. When a
  host attaches, the recorder finalizes, commits, writes a durable marker (\<open>shutdown_armed.c\<close> through
  \<open>recorder_nvs.c\<close>), gives the card away (\<open>usb_msc_ownership.c\<close>, \<open>sd_mount.c\<close>), and takes it back only
  after an explicit release and a manual wake (\<open>task87_wake_recovery.c\<close>). Commands of the host pass a session
  gate (\<open>usb_cdc_session_gate.c\<close>), and responses leave through \<open>usb_cdc_tx.c\<close>. The host may correct the clock
  (\<open>rtc_correction.c\<close>); the correction is kept in flash until its event is on the card.

  \<^bold>\<open>The theories.\<close>
    \<^item> \<open>Recorder_Prelude\<close>, \<open>Recorder_Config\<close>: types of the machine, shared lemmas and fact collections; the
      constants of \<open>recorder_config.h\<close>.
    \<^item> \<open>C_Stdio\<close>, \<open>C_String\<close>: what the firmware uses of the C library. The card is a map from paths to bytes;
      each call takes its outcome from a script of errors, short transfers and power loss, so a theorem about any
      script is a theorem about any faults. A file whose bytes were not forced to the card may hold anything
      after a power loss. \<open>rename\<close> does not replace an existing file on the device's file system.
    \<^item> \<open>Pcm_Pipeline\<close>: the double buffer, its counters and their wrap-around; every accepted sample comes out once and
      in order, every dropped one is counted.
    \<^item> \<open>Wav_Part\<close>, \<open>Wav_Rotation\<close>, \<open>Wav_Recovery\<close>: the WAV writer and its sink, the publication of finished
      parts, the recovery scan. What was flushed survives a power loss, recovery turns the remains of any crash
      into a playable file or quarantines it, and no operation deletes audio.
    \<^item> \<open>Sha256\<close>: the incremental hash equals the one-shot definition of FIPS 180-4.
    \<^item> \<open>Recorder_State\<close>: the state machine of the recorder and its event log.
    \<^item> \<open>Esp_Nvs\<close>, \<open>Shutdown_Armed\<close>: the flash services as a parameter with a named contract, the durable
      lifecycle and the wake proof, with an interface locale for the stored marker.
    \<^item> \<open>Usb_Cdc_Session_Gate\<close>, \<open>Usb_Cdc_Tx\<close>: the gate, with the interleaving of command and reset threads as a step
      relation on single atomic accesses, and the response writer with a bounded wait.
    \<^item> \<open>Device_Identity\<close>: identifiers and \<open>device.json\<close>.
    \<^item> \<open>Manifest_Format\<close>, \<open>Manifest_Calendar\<close>, \<open>Manifest_Fields\<close>, \<open>Manifest_Store\<close>, \<open>Manifest_Safety\<close>,
      \<open>Manifest_Scan\<close>: the text of the manifest and its strict parser, the calendar, the text operations of an append,
      the exchange of the three files, the safety of acknowledged entries, the boot scan.
    \<^item> \<open>Sd_Mount\<close>, \<open>Usb_Msc_Ownership\<close>, \<open>Usb_Msc_Frames\<close>, \<open>Usb_Msc_Safety\<close>: the card mount and the hand-over of the card,
      what each operation leaves alone, and the step relation over boots, faults, callbacks and operations.

  \<^bold>\<open>Conventions.\<close> A struct is a record, an enum a datatype, a pointer that may be null an option; machine integers
  are words where they wrap. An operation returns its result and the new state; a failed call is a value. Loops
  over data are structural recursion or have a termination proof; there is no fuel except where a loop polls the
  outside, and then the number of rounds is bounded by the clock contract that its theorem names.

  \<^bold>\<open>Parameters.\<close> ESP-IDF, FreeRTOS, TinyUSB and cJSON are not part of the repository. They are records of functions
  on an unspecified state. What the code relies on is named: \<open>nvs_contract\<close> (a commit makes the staged updates
  durable, a failed one makes any of them durable), \<open>usb_contract\<close> (who holds the medium), \<open>honest\<close> (no
  \<open>ENOENT\<close> for a file that exists), the clock and transport contracts of \<open>Usb_Cdc_Tx\<close>. Each has an instance
  on which the witnesses run.

  \<^bold>\<open>Atomicity.\<close> The operations of one module run under its lock or on one task and are atomic steps of the model;
  the session gate, which is lock free, is modelled at single loads and stores. A driver callback runs inside
  the driver call that invokes it.

  \<^bold>\<open>Not modelled.\<close> The FreeRTOS tasks of \<open>main.c\<close> and \<open>task49_runtime.c\<close>; the clock correction of \<open>rtc_correction.c\<close>; the register and driver calls of \<open>recorder_power.c\<close>,
  \<open>recorder_status_led.c\<close> and \<open>i2s_pdm_capture.c\<close>, which have no state beyond driver handles; log output; the
  JSON dispatch of \<open>usb_cdc_protocol.c\<close>, which rests on cJSON; the PC tools, scripts and tests.
\<close>

end
